(* ===== verification/MCG_Prelude.thy ===== *)
theory MCG_Prelude
  imports Main "HOL-Library.AList" "HOL-Library.List_Lexorder" "HOL-Library.Char_ord"
begin

text \<open>
  Shared vocabulary of the MetaCG development: the ways a C++ function can fail, the result type
  that carries a failure, sequencing and loops over that type, the standard containers as the
  models use them (\<open>std::vector\<close> as a list, \<open>std::unordered_map\<close> as an association list whose
  order is the container's iteration order, or as a partial map where it is never iterated,
  \<open>std::map\<close> as an association list sorted by key), and the generic lemmas on them.
\<close>

named_theorems wf_intros \<open>well-formedness preservation rules\<close>
named_theorems res_simps \<open>equations that evaluate results\<close>

section \<open>Failures and results\<close>

text \<open>
  \<open>OutOfRange\<close> is the exception of \<open>at()\<close> on a container, \<open>AssertionFailed\<close> a failed \<open>assert\<close>,
  \<open>UndefinedBehaviour\<close> an operation the C++ standard gives no meaning (a null pointer
  dereferenced, \<open>erase(end())\<close>, signed overflow), \<open>RuntimeError\<close> a thrown \<open>std::runtime_error\<close>,
  and \<open>ExitCall\<close> a call of \<open>exit\<close> with its status.
\<close>

datatype cpp_failure =
    OutOfRange
  | AssertionFailed
  | UndefinedBehaviour
  | RuntimeError string
  | ExitCall int

type_synonym 'a res = "cpp_failure + 'a"

definition bindR :: "'e + 'a \<Rightarrow> ('a \<Rightarrow> 'e + 'b) \<Rightarrow> 'e + 'b" where
  "bindR m f = (case m of Inl e \<Rightarrow> Inl e | Inr x \<Rightarrow> f x)"

definition assertR :: "bool \<Rightarrow> unit res" where
  "assertR b = (if b then Inr () else Inl AssertionFailed)"

definition derefR :: "'a option \<Rightarrow> 'a res" where
  "derefR p = (case p of None \<Rightarrow> Inl UndefinedBehaviour | Some x \<Rightarrow> Inr x)"

definition atR :: "('k \<rightharpoonup> 'v) \<Rightarrow> 'k \<Rightarrow> 'v res" where
  "atR m k = (case m k of None \<Rightarrow> Inl OutOfRange | Some v \<Rightarrow> Inr v)"

definition nthR :: "'a list \<Rightarrow> nat \<Rightarrow> 'a res" where
  "nthR xs i = (if i < length xs then Inr (xs ! i) else Inl OutOfRange)"

definition eraseFirstR :: "'a \<Rightarrow> 'a list \<Rightarrow> 'a list res" where
  "eraseFirstR x xs = (if x \<in> set xs then Inr (remove1 x xs) else Inl UndefinedBehaviour)"

fun foldR :: "('b \<Rightarrow> 's \<Rightarrow> 'e + 's) \<Rightarrow> 'b list \<Rightarrow> 's \<Rightarrow> 'e + 's" where
  "foldR f [] s = Inr s"
| "foldR f (x # xs) s = bindR (f x s) (foldR f xs)"

fun mapR :: "('b \<Rightarrow> 'e + 'c) \<Rightarrow> 'b list \<Rightarrow> 'e + 'c list" where
  "mapR f [] = Inr []"
| "mapR f (x # xs) = bindR (f x) (\<lambda>y. bindR (mapR f xs) (\<lambda>ys. Inr (y # ys)))"

lemma bindR_simps [simp, res_simps]:
  "bindR (Inl e) f = Inl e"
  "bindR (Inr x) f = f x"
  by (simp_all add: bindR_def)

lemma bindR_eq_Inr_iff: "bindR m f = Inr y \<longleftrightarrow> (\<exists>x. m = Inr x \<and> f x = Inr y)"
  by (cases m) auto

lemma bindR_InrE [elim]:
  assumes "bindR m f = Inr y"
  obtains x where "m = Inr x" and "f x = Inr y"
  using assms by (auto simp: bindR_eq_Inr_iff)

lemma bindR_cong [fundef_cong]:
  "m = m' \<Longrightarrow> (\<And>x. m' = Inr x \<Longrightarrow> f x = f' x) \<Longrightarrow> bindR m f = bindR m' f'"
  by (cases m) (auto simp: bindR_def)

lemma bindR_assoc: "bindR (bindR m f) g = bindR m (\<lambda>x. bindR (f x) g)"
  by (cases m) auto

lemma bindR_snd_eq:
  "bindR m (\<lambda>r. Inr (snd r)) = Inr s \<longleftrightarrow> (\<exists>x. m = Inr (x, s))"
  "bindR m (\<lambda>r. Inr (snd r)) = Inl e \<longleftrightarrow> m = Inl e"
  by (cases m; auto)+

lemma assertR_simps [simp, res_simps]:
  "assertR True = Inr ()" "assertR False = Inl AssertionFailed"
  by (simp_all add: assertR_def)

lemma derefR_simps [simp, res_simps]:
  "derefR None = Inl UndefinedBehaviour" "derefR (Some x) = Inr x"
  by (simp_all add: derefR_def)

lemma assertR_eq_Inr_iff [simp]: "assertR b = Inr u \<longleftrightarrow> b"
  by (simp add: assertR_def)

lemma derefR_eq_Inr_iff [simp]: "derefR p = Inr x \<longleftrightarrow> p = Some x"
  by (simp add: derefR_def split: option.splits)

lemma atR_Some [simp]: "m k = Some v \<Longrightarrow> atR m k = Inr v"
  by (simp add: atR_def)

lemma atR_None [simp]: "m k = None \<Longrightarrow> atR m k = Inl OutOfRange"
  by (simp add: atR_def)

lemma atR_eq_Inr_iff [simp]: "atR m k = Inr v \<longleftrightarrow> m k = Some v"
  by (simp add: atR_def split: option.splits)

lemma nthR_less [simp]: "i < length xs \<Longrightarrow> nthR xs i = Inr (xs ! i)"
  by (simp add: nthR_def)

lemma eraseFirstR_mem [simp]: "x \<in> set xs \<Longrightarrow> eraseFirstR x xs = Inr (remove1 x xs)"
  by (simp add: eraseFirstR_def)

text \<open>The two rules for loops: one for total correctness, one for a loop known to have returned.\<close>

lemma foldR_total:
  assumes "\<And>x s. x \<in> set xs \<Longrightarrow> P s \<Longrightarrow> \<exists>s'. f x s = Inr s' \<and> P s'" and "P s"
  shows "\<exists>s'. foldR f xs s = Inr s' \<and> P s'"
  using assms
proof (induction xs arbitrary: s)
  case Nil
  then show ?case by simp
next
  case (Cons x xs)
  then obtain s1 where "f x s = Inr s1" and "P s1" by force
  moreover from Cons.IH [OF _ \<open>P s1\<close>] Cons.prems(1)
  obtain s2 where "foldR f xs s1 = Inr s2" and "P s2" by force
  ultimately show ?case by simp
qed

lemma foldR_invariant:
  assumes "foldR f xs s = Inr s'" and "P s"
    and "\<And>x s s'. x \<in> set xs \<Longrightarrow> P s \<Longrightarrow> f x s = Inr s' \<Longrightarrow> P s'"
  shows "P s'"
  using assms
proof (induction xs arbitrary: s)
  case Nil
  then show ?case by simp
next
  case (Cons x xs)
  then obtain s1 where s1: "f x s = Inr s1" and s': "foldR f xs s1 = Inr s'" by auto
  have "P s1" by (rule Cons.prems(3) [OF _ Cons.prems(2) s1]) simp
  from s' this show ?case
    by (rule Cons.IH) (rule Cons.prems(3), simp_all)
qed

text \<open>The same rules with the number of elements already processed in the invariant.\<close>

lemma foldR_index_total:
  assumes "P 0 s" and "\<And>k s. k < length xs \<Longrightarrow> P k s \<Longrightarrow> \<exists>s'. f (xs ! k) s = Inr s' \<and> P (Suc k) s'"
  shows "\<exists>s'. foldR f xs s = Inr s' \<and> P (length xs) s'"
  using assms
proof (induction xs arbitrary: s P)
  case Nil
  then show ?case by simp
next
  case (Cons x xs)
  obtain s1 where s1: "f x s = Inr s1" "P (Suc 0) s1" using Cons.prems(2) [of 0 s] Cons.prems(1) by auto
  have "\<exists>s'. foldR f xs s1 = Inr s' \<and> P (Suc (length xs)) s'"
    by (rule Cons.IH [of "\<lambda>k. P (Suc k)"]) (use s1 Cons.prems(2) [of "Suc k" for k] in auto)
  with s1 show ?case by simp
qed

lemma foldR_index_invariant:
  assumes "foldR f xs s = Inr s'" and "P 0 s"
    and "\<And>k s s'. k < length xs \<Longrightarrow> P k s \<Longrightarrow> f (xs ! k) s = Inr s' \<Longrightarrow> P (Suc k) s'"
  shows "P (length xs) s'"
  using assms
proof (induction xs arbitrary: s P)
  case Nil
  then show ?case by simp
next
  case (Cons x xs)
  from Cons.prems(1) obtain s1 where s1: "f x s = Inr s1" "foldR f xs s1 = Inr s'" by auto
  have P1: "P (Suc 0) s1" using Cons.prems(3) [of 0 s s1] Cons.prems(2) s1(1) by simp
  have "P (Suc (length xs)) s'"
  proof (rule Cons.IH [of s1 "\<lambda>k. P (Suc k)"])
    fix k s s' assume "k < length xs" "P (Suc k) s" "f (xs ! k) s = Inr s'"
    then show "P (Suc (Suc k)) s'" using Cons.prems(3) [of "Suc k" s s'] by simp
  qed (use s1 P1 in simp_all)
  then show ?case by simp
qed

lemma foldR_append: "foldR f (xs @ ys) s = bindR (foldR f xs s) (foldR f ys)"
  by (induction xs arbitrary: s) (auto simp: bindR_def split: sum.splits)

lemma foldR_cong [fundef_cong]:
  assumes "xs = ys" and "s = t" and "\<And>x s. x \<in> set ys \<Longrightarrow> f x s = g x s"
  shows "foldR f xs s = foldR g ys t"
  using assms(3) unfolding assms(1,2)
  by (induction ys arbitrary: t) (auto simp: bindR_def split: sum.splits)

lemma mapR_eq_Inr: "(\<And>x. x \<in> set xs \<Longrightarrow> f x = Inr (g x)) \<Longrightarrow> mapR f xs = Inr (map g xs)"
  by (induction xs) auto

lemma mapR_cong [fundef_cong]:
  assumes "xs = ys" and "\<And>x. x \<in> set ys \<Longrightarrow> f x = g x"
  shows "mapR f xs = mapR g ys"
  using assms(2) unfolding assms(1) by (induction ys) auto

section \<open>Machine integers\<close>

text \<open>
  A C++ \<open>int\<close> is an \<open>int\<close> of HOL kept within 32 bits: \<open>add_int32\<close> is signed addition, whose
  overflow is undefined behaviour.
\<close>

definition int32 :: "int \<Rightarrow> bool" where
  "int32 x \<longleftrightarrow> - (2 ^ 31) \<le> x \<and> x < 2 ^ 31"

definition add_int32 :: "int \<Rightarrow> int \<Rightarrow> int res" where
  "add_int32 a b = (if int32 (a + b) then Inr (a + b) else Inl UndefinedBehaviour)"

lemma add_int32_eq_Inr_iff [simp]: "add_int32 a b = Inr c \<longleftrightarrow> c = a + b \<and> int32 (a + b)"
  by (auto simp: add_int32_def)

section \<open>Containers\<close>

text \<open>\<open>std::map\<close>: an association list sorted by its keys; \<open>map_set\<close> is \<open>m[k] = v\<close>.\<close>

fun map_set :: "'k::linorder \<Rightarrow> 'v \<Rightarrow> ('k \<times> 'v) list \<Rightarrow> ('k \<times> 'v) list" where
  "map_set k v [] = [(k, v)]"
| "map_set k v ((k', v') # m) =
     (if k < k' then (k, v) # (k', v') # m
      else if k = k' then (k, v) # m
      else (k', v') # map_set k v m)"

lemma map_of_map_set: "map_of (map_set k v m) = (map_of m)(k \<mapsto> v)"
  by (induction k v m rule: map_set.induct) auto

lemma keys_map_set: "fst ` set (map_set k v m) = insert k (fst ` set m)"
  by (induction k v m rule: map_set.induct) auto

lemma sorted_map_set:
  "sorted_wrt (<) (map fst m) \<Longrightarrow> sorted_wrt (<) (map fst (map_set k v m))"
proof (induction k v m rule: map_set.induct)
  case (2 k v k' v' m)
  have keys: "set (map fst (map_set k v m)) = insert k (set (map fst m))"
    by (simp add: keys_map_set)
  from 2 show ?case
    by (auto simp: keys simp del: set_map intro: less_trans)
qed simp

text \<open>Association lists that stand for an \<open>unordered_map\<close>: lookup, update at the end, deletion.\<close>

lemma map_of_update_eq: "map_of (AList.update k v m) = (map_of m)(k \<mapsto> v)"
  by (simp add: update_conv')

lemma map_of_delete_eq: "map_of (AList.delete k m) = (map_of m)(k := None)"
  by (simp add: delete_conv')

lemma set_delete_eq: "set (AList.delete k m) = {p \<in> set m. fst p \<noteq> k}"
  by (auto simp: AList.delete_eq)

lemma keys_delete_eq: "fst ` set (AList.delete k m) = fst ` set m - {k}"
  by (auto simp: set_delete_eq)

lemma keys_update_eq: "fst ` set (AList.update k v m) = insert k (fst ` set m)"
  by (simp add: dom_update)

lemma distinct_keys_update:
  "distinct (map fst m) \<Longrightarrow> distinct (map fst (AList.update k v m))"
  by (rule distinct_update)

lemma distinct_keys_delete:
  "distinct (map fst m) \<Longrightarrow> distinct (map fst (AList.delete k m))"
  by (rule distinct_delete)

lemma update_new_key: "k \<notin> fst ` set m \<Longrightarrow> AList.update k v m = m @ [(k, v)]"
  by (induction m) auto

lemmas alist_simps =
  map_of_update_eq map_of_delete_eq keys_delete_eq keys_update_eq
  distinct_keys_update distinct_keys_delete

lemma map_of_None_iff: "map_of m k = None \<longleftrightarrow> k \<notin> fst ` set m"
  by (rule map_of_eq_None_iff)

lemma map_of_SomeD_key: "map_of m k = Some v \<Longrightarrow> k \<in> fst ` set m"
  by (metis map_of_None_iff option.distinct(1))

text \<open>Removing the first occurrence from a vector without duplicates.\<close>

lemma distinct_remove1_set: "distinct xs \<Longrightarrow> set (remove1 x xs) = set xs - {x}"
  by (rule set_remove1_eq)

lemma remove1_filter_upt:
  "distinct xs \<Longrightarrow> remove1 x (filter P xs) = filter (\<lambda>y. P y \<and> y \<noteq> x) xs"
  by (induction xs) (auto simp: filter_id_conv intro: filter_cong)

lemma filter_upt_Suc:
  "filter P [0..<Suc n] = filter P [0..<n] @ (if P n then [n] else [])"
  by simp

section \<open>Components that run operations\<close>

text \<open>
  A component is a state with operations that may fail and an invariant; \<open>run\<close> executes a sequence
  of operations, stopping at the first failure. A refined component also has an abstract state on
  which every operation that succeeds has a counterpart.
\<close>

locale component =
  fixes step :: "'op \<Rightarrow> 's \<Rightarrow> 's res"
    and inv :: "'s \<Rightarrow> bool"
  assumes step_inv: "inv s \<Longrightarrow> step op s = Inr s' \<Longrightarrow> inv s'"
begin

lemma run_inv: "foldR step ops s = Inr s' \<Longrightarrow> inv s \<Longrightarrow> inv s'"
  by (rule foldR_invariant [where P = inv]) (auto intro: step_inv)

end

locale refined_component = component step inv
  for step :: "'op \<Rightarrow> 's \<Rightarrow> 's res" and inv :: "'s \<Rightarrow> bool" +
  fixes abs :: "'s \<Rightarrow> 'a"
    and astep :: "'op \<Rightarrow> 'a \<Rightarrow> 'a"
    and afails :: "'op \<Rightarrow> 'a \<Rightarrow> bool"
  assumes step_abs: "inv s \<Longrightarrow> step op s = Inr s' \<Longrightarrow> abs s' = astep op (abs s)"
    and step_fails: "inv s \<Longrightarrow> (\<exists>e. step op s = Inl e) \<longleftrightarrow> afails op (abs s)"
begin

lemma run_abs: "foldR step ops s = Inr s' \<Longrightarrow> inv s \<Longrightarrow> abs s' = fold astep ops (abs s)"
proof (induction ops arbitrary: s)
  case (Cons op ops)
  then obtain s1 where "step op s = Inr s1" "foldR step ops s1 = Inr s'" by auto
  with Cons show ?case using step_inv step_abs by simp
qed simp

fun admissible :: "'op list \<Rightarrow> 'a \<Rightarrow> bool" where
  "admissible [] a = True"
| "admissible (op # ops) a = (\<not> afails op a \<and> admissible ops (astep op a))"

lemma run_total: "inv s \<Longrightarrow> (\<exists>s'. foldR step ops s = Inr s') \<longleftrightarrow> admissible ops (abs s)"
proof (induction ops arbitrary: s)
  case (Cons op ops)
  show ?case
  proof (cases "step op s")
    case (Inl e)
    then show ?thesis using step_fails [OF Cons.prems, of op] by auto
  next
    case (Inr s1)
    then have "\<not> afails op (abs s)" using step_fails [OF Cons.prems, of op] by simp
    with Inr Cons.IH [OF step_inv [OF Cons.prems Inr]] step_abs [OF Cons.prems Inr]
    show ?thesis by simp
  qed
qed simp

end

section \<open>Characters\<close>

text \<open>The classification of \<open>cctype\<close> in the C locale.\<close>

definition char_code :: "char \<Rightarrow> nat" where
  "char_code c = of_char c"

definition isspace :: "char \<Rightarrow> bool" where
  "isspace c \<longleftrightarrow> char_code c = 32 \<or> 9 \<le> char_code c \<and> char_code c \<le> 13"

definition isdigit :: "char \<Rightarrow> bool" where
  "isdigit c \<longleftrightarrow> 48 \<le> char_code c \<and> char_code c \<le> 57"

definition isalpha :: "char \<Rightarrow> bool" where
  "isalpha c \<longleftrightarrow> 65 \<le> char_code c \<and> char_code c \<le> 90 \<or> 97 \<le> char_code c \<and> char_code c \<le> 122"

definition isalnum :: "char \<Rightarrow> bool" where
  "isalnum c \<longleftrightarrow> isalpha c \<or> isdigit c"

end
