(* ===== verification/Metadata.thy ===== *)
theory Metadata
  imports MCG_Prelude
begin

text \<open>
  The metadata of the graph library (\<open>graph/include/metacg/metadata/\<close>) and the merge records of
  \<open>MergePolicy.h\<close>. Each metadata class is a record of its data members; \<open>MetaData\<close> is the class
  hierarchy below the abstract base class, one constructor per final class, and the virtual
  functions \<open>getKey\<close>, \<open>merge\<close>, \<open>applyMapping\<close> and \<open>clone\<close> dispatch on it. \<open>MetadataMixin\<close> is the
  map from metadata key to metadata that nodes and graphs inherit. Log messages are not modelled.
\<close>

section \<open>Merge actions and the merge recorder\<close>

type_synonym NodeId = nat
type_synonym GraphMapping = "NodeId \<rightharpoonup> NodeId"

record MergeAction =
  targetNode :: NodeId
  replace :: bool

text \<open>\<open>MergeAction()\<close> delegates to \<open>MergeAction(-1, false)\<close>; \<open>-1\<close> converts to the largest \<open>size_t\<close>.\<close>

definition MergeAction_default :: MergeAction where
  "MergeAction_default = \<lparr>targetNode = 2 ^ 64 - 1, replace = False\<rparr>"

record MergeRecorder =
  actions :: "NodeId \<rightharpoonup> MergeAction"
  mapping :: GraphMapping

definition emptyRecorder :: MergeRecorder where
  "emptyRecorder = \<lparr>actions = Map.empty, mapping = Map.empty\<rparr>"

definition recordMerge :: "NodeId \<Rightarrow> MergeAction \<Rightarrow> MergeRecorder \<Rightarrow> MergeRecorder" where
  "recordMerge sourceId action r =
     r\<lparr>actions := (actions r)(sourceId \<mapsto> action),
       mapping := (mapping r)(sourceId \<mapsto> targetNode action)\<rparr>"

definition recordCopy :: "NodeId \<Rightarrow> NodeId \<Rightarrow> MergeRecorder \<Rightarrow> MergeRecorder" where
  "recordCopy sourceId targetId r = r\<lparr>mapping := (mapping r)(sourceId \<mapsto> targetId)\<rparr>"

definition getAction :: "MergeRecorder \<Rightarrow> NodeId \<Rightarrow> MergeAction option" where
  "getAction r sourceId = actions r sourceId"

section \<open>The metadata classes\<close>

record OverrideMD =
  overrides :: "NodeId list"
  overriddenBy :: "NodeId list"

record EntryFunctionMD =
  entryFunction :: "NodeId option"

record CodeStatisticsMD =
  numVars :: int

record FilePropertiesMD =
  fromSystemInclude :: bool

record FileInfoMetadata =
  fi_origin :: string
  fi_fromSystemInclude :: bool
  fi_lineNumber :: int

record InlineMD =
  markedInline :: bool
  likelyInline :: bool
  markedAlwaysInline :: bool
  isTemplateFunction :: bool

record LoopDepthMD =
  loopDepth :: int

record GlobalLoopDepthMD =
  globalLoopDepth :: int

record LoopCallDepthMD =
  loopFunctionMap :: "(string \<times> int) list"

record MallocVariableMD =
  allocs :: "(string \<times> string) list"

record NumConditionalBranchMD =
  numConditionalBranches :: int

record NumOperationsMD =
  numberOfIntOps :: int
  numberOfFloatOps :: int
  numberOfControlFlowOps :: int
  numberOfMemoryAccesses :: int

record NumStatementsMD =
  numStmts :: int

record UniqueTypeMD =
  numTypes :: int

datatype MetaData =
    OverrideMD OverrideMD
  | EntryFunctionMD EntryFunctionMD
  | CodeStatisticsMD CodeStatisticsMD
  | FilePropertiesMD FilePropertiesMD
  | FileInfoMetadata FileInfoMetadata
  | InlineMD InlineMD
  | LoopDepthMD LoopDepthMD
  | GlobalLoopDepthMD GlobalLoopDepthMD
  | LoopCallDepthMD LoopCallDepthMD
  | MallocVariableMD MallocVariableMD
  | NumConditionalBranchMD NumConditionalBranchMD
  | NumOperationsMD NumOperationsMD
  | NumStatementsMD NumStatementsMD
  | UniqueTypeMD UniqueTypeMD

fun getKey :: "MetaData \<Rightarrow> string" where
  "getKey (OverrideMD _) = ''overrideMD''"
| "getKey (EntryFunctionMD _) = ''entryFunction''"
| "getKey (CodeStatisticsMD _) = ''codeStatistics''"
| "getKey (FilePropertiesMD _) = ''fileProperties''"
| "getKey (FileInfoMetadata _) = ''FilePropertiesMetaData''"
| "getKey (InlineMD _) = ''inlineInfo''"
| "getKey (LoopDepthMD _) = ''loopDepth''"
| "getKey (GlobalLoopDepthMD _) = ''globalLoopDepth''"
| "getKey (LoopCallDepthMD _) = ''loopCallDepth''"
| "getKey (MallocVariableMD _) = ''mallocCollector''"
| "getKey (NumConditionalBranchMD _) = ''numConditionalBranches''"
| "getKey (NumOperationsMD _) = ''numOperations''"
| "getKey (NumStatementsMD _) = ''numStatements''"
| "getKey (UniqueTypeMD _) = ''uniqueTypeMetaData''"

text \<open>The key of the base class itself, \<open>MetaData::key\<close>.\<close>

definition baseClassKey :: string where
  "baseClassKey = ''BaseClass''"

text \<open>The default-constructed \<open>OverrideMD\<close>, as \<open>getOrCreate<OverrideMD>()\<close> makes it.\<close>

definition OverrideMD_default :: OverrideMD where
  "OverrideMD_default = \<lparr>overrides = [], overriddenBy = []\<rparr>"

section \<open>Merging, per class\<close>

definition mergeVectors :: "NodeId list \<Rightarrow> NodeId list \<Rightarrow> GraphMapping \<Rightarrow> NodeId list res" where
  "mergeVectors dst src m =
     foldR (\<lambda>entry d.
       case m entry of
         None \<Rightarrow> Inl AssertionFailed
       | Some mappedId \<Rightarrow> Inr (if mappedId \<in> set d then d else d @ [mappedId])) src dst"

definition merge_OverrideMD :: "OverrideMD \<Rightarrow> OverrideMD \<Rightarrow> GraphMapping \<Rightarrow> OverrideMD res" where
  "merge_OverrideMD this toMerge m =
     bindR (mergeVectors (overriddenBy this) (overriddenBy toMerge) m) (\<lambda>by'.
     bindR (mergeVectors (overrides this) (overrides toMerge) m) (\<lambda>ov'.
     Inr (this\<lparr>overriddenBy := by', overrides := ov'\<rparr>)))"

definition merge_EntryFunctionMD ::
  "EntryFunctionMD \<Rightarrow> EntryFunctionMD \<Rightarrow> MergeAction option \<Rightarrow> GraphMapping \<Rightarrow> EntryFunctionMD res"
where
  "merge_EntryFunctionMD this toMerge action m =
     (if action \<noteq> None then Inr this
      else case entryFunction toMerge of
        None \<Rightarrow> Inr this
      | Some e \<Rightarrow>
          (if entryFunction this = None
           then bindR (atR m e) (\<lambda>e'. Inr (this\<lparr>entryFunction := Some e'\<rparr>))
           else Inr this))"

definition merge_CodeStatisticsMD ::
  "CodeStatisticsMD \<Rightarrow> CodeStatisticsMD \<Rightarrow> CodeStatisticsMD res" where
  "merge_CodeStatisticsMD this toMerge =
     (if numVars this \<noteq> numVars toMerge
      then bindR (add_int32 (numVars this) (numVars toMerge)) (\<lambda>n. Inr (this\<lparr>numVars := n\<rparr>))
      else Inr this)"

definition merge_FilePropertiesMD ::
  "FilePropertiesMD \<Rightarrow> FilePropertiesMD \<Rightarrow> MergeAction option \<Rightarrow> FilePropertiesMD" where
  "merge_FilePropertiesMD this toMerge action =
     (case action of
        Some a \<Rightarrow>
          (if replace a then this\<lparr>fromSystemInclude := fromSystemInclude toMerge\<rparr> else this)
      | None \<Rightarrow> this)"

definition merge_FileInfoMetadata :: "FileInfoMetadata \<Rightarrow> MetaData \<Rightarrow> FileInfoMetadata" where
  "merge_FileInfoMetadata this toMerge = this"

definition merge_InlineMD :: "InlineMD \<Rightarrow> InlineMD \<Rightarrow> InlineMD" where
  "merge_InlineMD this toMerge =
     this\<lparr>markedInline := markedInline this \<or> markedInline toMerge,
          likelyInline := likelyInline this \<or> likelyInline toMerge,
          markedAlwaysInline := markedAlwaysInline this \<or> markedAlwaysInline toMerge\<rparr>"

definition merge_LoopDepthMD :: "LoopDepthMD \<Rightarrow> LoopDepthMD \<Rightarrow> LoopDepthMD" where
  "merge_LoopDepthMD this toMerge = this\<lparr>loopDepth := max (loopDepth toMerge) (loopDepth this)\<rparr>"

definition merge_GlobalLoopDepthMD ::
  "GlobalLoopDepthMD \<Rightarrow> GlobalLoopDepthMD \<Rightarrow> GlobalLoopDepthMD" where
  "merge_GlobalLoopDepthMD this toMerge =
     this\<lparr>globalLoopDepth := max (globalLoopDepth this) (globalLoopDepth toMerge)\<rparr>"

definition merge_LoopCallDepthMD ::
  "LoopCallDepthMD \<Rightarrow> LoopCallDepthMD \<Rightarrow> LoopCallDepthMD" where
  "merge_LoopCallDepthMD this toMerge =
     (let other = loopFunctionMap toMerge;
          raised = map (\<lambda>(f, d). (f, case map_of other f of
                                       None \<Rightarrow> d
                                     | Some d' \<Rightarrow> if d' > d then d' else d)) (loopFunctionMap this)
      in this\<lparr>loopFunctionMap :=
           fold (\<lambda>(f, d) m. if map_of m f = None then map_set f d m else m) other raised\<rparr>)"

definition merge_MallocVariableMD ::
  "MallocVariableMD \<Rightarrow> MallocVariableMD \<Rightarrow> MallocVariableMD" where
  "merge_MallocVariableMD this toMerge = this"

definition merge_NumConditionalBranchMD ::
  "NumConditionalBranchMD \<Rightarrow> NumConditionalBranchMD \<Rightarrow> NumConditionalBranchMD res" where
  "merge_NumConditionalBranchMD this toMerge =
     (if numConditionalBranches this \<noteq> numConditionalBranches toMerge
      then bindR (add_int32 (numConditionalBranches this) (numConditionalBranches toMerge))
             (\<lambda>n. Inr (this\<lparr>numConditionalBranches := n\<rparr>))
      else Inr this)"

definition merge_NumOperationsMD :: "NumOperationsMD \<Rightarrow> NumOperationsMD \<Rightarrow> NumOperationsMD res" where
  "merge_NumOperationsMD this toMerge =
     (if numberOfIntOps toMerge \<noteq> numberOfIntOps this
         \<or> numberOfFloatOps toMerge \<noteq> numberOfFloatOps this
         \<or> numberOfControlFlowOps toMerge \<noteq> numberOfControlFlowOps this
         \<or> numberOfMemoryAccesses toMerge \<noteq> numberOfMemoryAccesses this
      then
        bindR (add_int32 (numberOfIntOps this) (numberOfIntOps toMerge)) (\<lambda>i.
        bindR (add_int32 (numberOfFloatOps this) (numberOfFloatOps toMerge)) (\<lambda>f.
        bindR (add_int32 (numberOfControlFlowOps this) (numberOfControlFlowOps toMerge)) (\<lambda>c.
        bindR (add_int32 (numberOfMemoryAccesses this) (numberOfMemoryAccesses toMerge)) (\<lambda>a.
        Inr (this\<lparr>numberOfIntOps := i, numberOfFloatOps := f,
                  numberOfControlFlowOps := c, numberOfMemoryAccesses := a\<rparr>)))))
      else Inr this)"

definition merge_NumStatementsMD :: "NumStatementsMD \<Rightarrow> NumStatementsMD \<Rightarrow> NumStatementsMD" where
  "merge_NumStatementsMD this toMerge = this\<lparr>numStmts := max (numStmts this) (numStmts toMerge)\<rparr>"

definition merge_UniqueTypeMD :: "UniqueTypeMD \<Rightarrow> UniqueTypeMD \<Rightarrow> UniqueTypeMD res" where
  "merge_UniqueTypeMD this toMerge =
     (if numTypes this \<noteq> numTypes toMerge
      then bindR (add_int32 (numTypes this) (numTypes toMerge)) (\<lambda>n. Inr (this\<lparr>numTypes := n\<rparr>))
      else Inr this)"

text \<open>
  The virtual call \<open>this->merge(toMerge, action, mapping)\<close>. Every class but \<open>FileInfoMetadata\<close>
  asserts that the keys agree before it casts.
\<close>

definition md_merge ::
  "MetaData \<Rightarrow> MetaData \<Rightarrow> MergeAction option \<Rightarrow> GraphMapping \<Rightarrow> MetaData res" where
  "md_merge this toMerge action m =
     (case this of
        OverrideMD a \<Rightarrow> (case toMerge of
          OverrideMD b \<Rightarrow> bindR (merge_OverrideMD a b m) (\<lambda>c. Inr (OverrideMD c))
        | _ \<Rightarrow> Inl AssertionFailed)
      | EntryFunctionMD a \<Rightarrow> (case toMerge of
          EntryFunctionMD b \<Rightarrow> bindR (merge_EntryFunctionMD a b action m) (\<lambda>c. Inr (EntryFunctionMD c))
        | _ \<Rightarrow> Inl AssertionFailed)
      | CodeStatisticsMD a \<Rightarrow> (case toMerge of
          CodeStatisticsMD b \<Rightarrow> bindR (merge_CodeStatisticsMD a b) (\<lambda>c. Inr (CodeStatisticsMD c))
        | _ \<Rightarrow> Inl AssertionFailed)
      | FilePropertiesMD a \<Rightarrow> (case toMerge of
          FilePropertiesMD b \<Rightarrow> Inr (FilePropertiesMD (merge_FilePropertiesMD a b action))
        | _ \<Rightarrow> Inl AssertionFailed)
      | FileInfoMetadata a \<Rightarrow> Inr (FileInfoMetadata (merge_FileInfoMetadata a toMerge))
      | InlineMD a \<Rightarrow> (case toMerge of
          InlineMD b \<Rightarrow> Inr (InlineMD (merge_InlineMD a b))
        | _ \<Rightarrow> Inl AssertionFailed)
      | LoopDepthMD a \<Rightarrow> (case toMerge of
          LoopDepthMD b \<Rightarrow> Inr (LoopDepthMD (merge_LoopDepthMD a b))
        | _ \<Rightarrow> Inl AssertionFailed)
      | GlobalLoopDepthMD a \<Rightarrow> (case toMerge of
          GlobalLoopDepthMD b \<Rightarrow> Inr (GlobalLoopDepthMD (merge_GlobalLoopDepthMD a b))
        | _ \<Rightarrow> Inl AssertionFailed)
      | LoopCallDepthMD a \<Rightarrow> (case toMerge of
          LoopCallDepthMD b \<Rightarrow> Inr (LoopCallDepthMD (merge_LoopCallDepthMD a b))
        | _ \<Rightarrow> Inl AssertionFailed)
      | MallocVariableMD a \<Rightarrow> (case toMerge of
          MallocVariableMD b \<Rightarrow> Inr (MallocVariableMD (merge_MallocVariableMD a b))
        | _ \<Rightarrow> Inl AssertionFailed)
      | NumConditionalBranchMD a \<Rightarrow> (case toMerge of
          NumConditionalBranchMD b \<Rightarrow> bindR (merge_NumConditionalBranchMD a b) (\<lambda>c. Inr (NumConditionalBranchMD c))
        | _ \<Rightarrow> Inl AssertionFailed)
      | NumOperationsMD a \<Rightarrow> (case toMerge of
          NumOperationsMD b \<Rightarrow> bindR (merge_NumOperationsMD a b) (\<lambda>c. Inr (NumOperationsMD c))
        | _ \<Rightarrow> Inl AssertionFailed)
      | NumStatementsMD a \<Rightarrow> (case toMerge of
          NumStatementsMD b \<Rightarrow> Inr (NumStatementsMD (merge_NumStatementsMD a b))
        | _ \<Rightarrow> Inl AssertionFailed)
      | UniqueTypeMD a \<Rightarrow> (case toMerge of
          UniqueTypeMD b \<Rightarrow> bindR (merge_UniqueTypeMD a b) (\<lambda>c. Inr (UniqueTypeMD c))
        | _ \<Rightarrow> Inl AssertionFailed))"

section \<open>Cloning and re-mapping\<close>

definition mapIds :: "GraphMapping \<Rightarrow> NodeId list \<Rightarrow> NodeId list res" where
  "mapIds m ids =
     mapR (\<lambda>i. case m i of None \<Rightarrow> Inl AssertionFailed | Some j \<Rightarrow> Inr j) ids"

definition applyMapping_OverrideMD :: "OverrideMD \<Rightarrow> GraphMapping \<Rightarrow> OverrideMD res" where
  "applyMapping_OverrideMD this m =
     bindR (mapIds m (overrides this)) (\<lambda>ov'.
     bindR (mapIds m (overriddenBy this)) (\<lambda>by'.
     Inr (this\<lparr>overrides := ov', overriddenBy := by'\<rparr>)))"

definition applyMapping_EntryFunctionMD :: "EntryFunctionMD \<Rightarrow> GraphMapping \<Rightarrow> EntryFunctionMD res" where
  "applyMapping_EntryFunctionMD this m =
     (case entryFunction this of
        None \<Rightarrow> Inr this
      | Some e \<Rightarrow> bindR (atR m e) (\<lambda>e'. Inr (this\<lparr>entryFunction := Some e'\<rparr>)))"

fun md_applyMapping :: "MetaData \<Rightarrow> GraphMapping \<Rightarrow> MetaData res" where
  "md_applyMapping (OverrideMD a) m = bindR (applyMapping_OverrideMD a m) (\<lambda>c. Inr (OverrideMD c))"
| "md_applyMapping (EntryFunctionMD a) m =
     bindR (applyMapping_EntryFunctionMD a m) (\<lambda>c. Inr (EntryFunctionMD c))"
| "md_applyMapping md m = Inr md"

text \<open>\<open>clone\<close> copy-constructs the object; every copy constructor copies all data members.\<close>

definition md_clone :: "MetaData \<Rightarrow> MetaData" where
  "md_clone md = md"

section \<open>The metadata mixin\<close>

record MetadataMixin =
  metaFields :: "(string \<times> MetaData) list"

definition has_md :: "'a MetadataMixin_scheme \<Rightarrow> string \<Rightarrow> bool" where
  "has_md o' name = (map_of (metaFields o') name \<noteq> None)"

definition get_md :: "'a MetadataMixin_scheme \<Rightarrow> string \<Rightarrow> MetaData option" where
  "get_md o' name = map_of (metaFields o') name"

definition erase_md :: "string \<Rightarrow> 'a MetadataMixin_scheme \<Rightarrow> bool \<times> 'a MetadataMixin_scheme" where
  "erase_md mdKey o' = (has_md o' mdKey, o'\<lparr>metaFields := AList.delete mdKey (metaFields o')\<rparr>)"

definition addMetaData :: "MetaData \<Rightarrow> 'a MetadataMixin_scheme \<Rightarrow> 'a MetadataMixin_scheme" where
  "addMetaData md o' = o'\<lparr>metaFields := AList.update (getKey md) md (metaFields o')\<rparr>"

definition getOrCreate_md ::
  "MetaData \<Rightarrow> 'a MetadataMixin_scheme \<Rightarrow> MetaData \<times> 'a MetadataMixin_scheme" where
  "getOrCreate_md dflt o' =
     (case map_of (metaFields o') (getKey dflt) of
        Some md \<Rightarrow> (md, o')
      | None \<Rightarrow> (dflt, o'\<lparr>metaFields := AList.update (getKey dflt) dflt (metaFields o')\<rparr>))"

definition setMetaDataContainer ::
  "(string \<times> MetaData) list \<Rightarrow> 'a MetadataMixin_scheme \<Rightarrow> 'a MetadataMixin_scheme" where
  "setMetaDataContainer data o' = o'\<lparr>metaFields := data\<rparr>"

text \<open>\<open>get<EntryFunctionMD>()\<close>: the pointer found under the class key, cast to the class.\<close>

definition get_EntryFunctionMD :: "'a MetadataMixin_scheme \<Rightarrow> EntryFunctionMD option res" where
  "get_EntryFunctionMD o' =
     (case map_of (metaFields o') ''entryFunction'' of
        None \<Rightarrow> Inr None
      | Some (EntryFunctionMD e) \<Rightarrow> Inr (Some e)
      | Some _ \<Rightarrow> Inl UndefinedBehaviour)"

end
