(* ===== verification/Metadata_Props.thy ===== *)
theory Metadata_Props
  imports Metadata
begin

text \<open>
  Laws of the metadata classes: merging and re-mapping keep the key, re-map exactly the node IDs
  that the metadata refers to, and merging an equal copy changes nothing.
\<close>

section \<open>References of metadata\<close>

fun md_refs :: "MetaData \<Rightarrow> NodeId set" where
  "md_refs (OverrideMD a) = set (overrides a) \<union> set (overriddenBy a)"
| "md_refs (EntryFunctionMD a) = set_option (entryFunction a)"
| "md_refs _ = {}"

text \<open>The classes that add up numbers on a merge, and so may overflow.\<close>

fun additive :: "MetaData \<Rightarrow> bool" where
  "additive (CodeStatisticsMD _) = True"
| "additive (NumConditionalBranchMD _) = True"
| "additive (NumOperationsMD _) = True"
| "additive (UniqueTypeMD _) = True"
| "additive _ = False"

lemma mergeVectors_simps [simp]:
  "mergeVectors dst [] m = Inr dst"
  "mergeVectors dst (x # src) m =
     (case m x of None \<Rightarrow> Inl AssertionFailed
      | Some y \<Rightarrow> mergeVectors (if y \<in> set dst then dst else dst @ [y]) src m)"
  by (auto simp: mergeVectors_def split: option.splits)

lemma mergeVectors_total: "set src \<subseteq> dom m \<Longrightarrow> \<exists>r. mergeVectors dst src m = Inr r"
  by (induction src arbitrary: dst) auto

lemma mergeVectors_set:
  "mergeVectors dst src m = Inr r \<Longrightarrow> set r = set dst \<union> (the \<circ> m) ` set src"
  by (induction src arbitrary: dst) (fastforce split: option.splits if_splits)+

lemma mergeVectors_distinct:
  "mergeVectors dst src m = Inr r \<Longrightarrow> distinct dst \<Longrightarrow> distinct r"
  by (induction src arbitrary: dst) (auto split: option.splits if_splits)

lemma mergeVectors_prefix: "mergeVectors dst src m = Inr r \<Longrightarrow> \<exists>xs. r = dst @ xs"
  by (induction src arbitrary: dst) (force split: option.splits if_splits)+

lemma mergeVectors_absorb:
  "(\<And>x. x \<in> set src \<Longrightarrow> m x = Some x) \<Longrightarrow> set src \<subseteq> set dst \<Longrightarrow> mergeVectors dst src m = Inr dst"
  by (induction src) auto

lemma mapIds_total: "set ids \<subseteq> dom m \<Longrightarrow> mapIds m ids = Inr (map (the \<circ> m) ids)"
  unfolding mapIds_def by (rule mapR_eq_Inr) (auto split: option.splits)

section \<open>Merging and re-mapping\<close>

lemma md_merge_key: "md_merge a b action m = Inr c \<Longrightarrow> getKey c = getKey a"
  by (cases a; cases b) (auto simp: md_merge_def)

lemma md_merge_same_class: "md_merge a b action m = Inr c \<Longrightarrow> getKey a \<noteq> ''FilePropertiesMetaData'' \<Longrightarrow> getKey b = getKey a"
  by (cases a; cases b) (auto simp: md_merge_def)

lemma md_applyMapping_key: "md_applyMapping a m = Inr c \<Longrightarrow> getKey c = getKey a"
  by (cases a) auto

lemma md_applyMapping_total: "md_refs a \<subseteq> dom m \<Longrightarrow> \<exists>c. md_applyMapping a m = Inr c"
  by (cases a)
    (auto simp: applyMapping_OverrideMD_def applyMapping_EntryFunctionMD_def mapIds_total domD split: option.splits)

lemma md_applyMapping_refs: "md_applyMapping a m = Inr c \<Longrightarrow> md_refs a \<subseteq> dom m \<Longrightarrow> md_refs c = (the \<circ> m) ` md_refs a"
  by (cases a)
    (auto simp: applyMapping_OverrideMD_def applyMapping_EntryFunctionMD_def mapIds_total domD split: option.splits)

lemma merge_OverrideMD_total:
  assumes "set (overrides b) \<union> set (overriddenBy b) \<subseteq> dom m"
  shows "\<exists>c. merge_OverrideMD a b m = Inr c"
  using assms mergeVectors_total [of "overrides b" m "overrides a"]
    mergeVectors_total [of "overriddenBy b" m "overriddenBy a"]
  by (auto simp: merge_OverrideMD_def)

lemma merge_EntryFunctionMD_total:
  "set_option (entryFunction b) \<subseteq> dom m \<Longrightarrow> \<exists>c. merge_EntryFunctionMD a b action m = Inr c"
  by (auto simp: merge_EntryFunctionMD_def split: option.splits)

lemma md_merge_total:
  assumes "getKey a = getKey b" and "md_refs b \<subseteq> dom m" and "\<not> additive b"
  shows "\<exists>c. md_merge a b action m = Inr c"
proof (cases b)
  case (OverrideMD y)
  then obtain x where "a = OverrideMD x" using assms(1) by (cases a) auto
  then show ?thesis
    using OverrideMD assms(2) merge_OverrideMD_total [of y m x] by (auto simp: md_merge_def)
next
  case (EntryFunctionMD y)
  then obtain x where "a = EntryFunctionMD x" using assms(1) by (cases a) auto
  then show ?thesis
    using EntryFunctionMD assms(2) merge_EntryFunctionMD_total [of y m x action]
    by (auto simp: md_merge_def)
qed (use assms in \<open>cases a; simp add: md_merge_def\<close>)+

lemma merge_OverrideMD_refs:
  "merge_OverrideMD a b m = Inr c \<Longrightarrow>
   md_refs (OverrideMD c) = md_refs (OverrideMD a) \<union> (the \<circ> m) ` md_refs (OverrideMD b)"
  by (auto simp: merge_OverrideMD_def bindR_eq_Inr_iff dest!: mergeVectors_set)

section \<open>Merging an equal copy\<close>

lemma map_raise_same:
  "distinct (map fst xs) \<Longrightarrow>
   map (\<lambda>(f, d). (f, case map_of xs f of None \<Rightarrow> d | Some d' \<Rightarrow> if d' > d then d' else d)) xs = xs"
  by (rule map_idI) (auto split: option.splits)

lemma fold_present:
  "\<forall>(f, d) \<in> set ys. map_of m f \<noteq> None \<Longrightarrow>
   fold (\<lambda>(f, d) m. if map_of m f = None then map_set f d m else m) ys m = m"
  by (induction ys) auto

lemma merge_LoopCallDepthMD_same:
  assumes "distinct (map fst (loopFunctionMap a))"
  shows "merge_LoopCallDepthMD a a = a"
proof -
  have "\<forall>(f, d) \<in> set (loopFunctionMap a). map_of (loopFunctionMap a) f \<noteq> None"
    using assms by auto
  then show ?thesis
    by (simp add: merge_LoopCallDepthMD_def Let_def map_raise_same [OF assms] fold_present)
qed

fun wf_md :: "MetaData \<Rightarrow> bool" where
  "wf_md (LoopCallDepthMD a) = sorted_wrt (<) (map fst (loopFunctionMap a))"
| "wf_md (MallocVariableMD a) = sorted_wrt (<) (map fst (allocs a))"
| "wf_md _ = True"

lemma sorted_keys_distinct: "sorted_wrt (<) (xs :: 'a :: linorder list) \<Longrightarrow> distinct xs"
  by (simp add: strict_sorted_iff)

text \<open>
  C26: merging metadata with an equal copy leaves it unchanged, for every class, when the mapping
  keeps the nodes it refers to: the counters are not added up, the node lists get no duplicates
  and nothing overflows or fails.
\<close>

theorem md_merge_idempotent:
  assumes "wf_md a" and "\<And>i. i \<in> md_refs a \<Longrightarrow> m i = Some i"
  shows "md_merge a a action m = Inr a"
proof (cases a)
  case (OverrideMD x)
  then have "mergeVectors (overriddenBy x) (overriddenBy x) m = Inr (overriddenBy x)"
    "mergeVectors (overrides x) (overrides x) m = Inr (overrides x)"
    using assms(2) by (auto intro!: mergeVectors_absorb)
  then show ?thesis using OverrideMD by (simp add: md_merge_def merge_OverrideMD_def)
next
  case (EntryFunctionMD x)
  then show ?thesis by (auto simp: md_merge_def merge_EntryFunctionMD_def split: option.splits)
next
  case (LoopCallDepthMD x)
  then show ?thesis using assms(1) by (simp add: md_merge_def merge_LoopCallDepthMD_same sorted_keys_distinct)
qed (simp_all add: md_merge_def merge_CodeStatisticsMD_def merge_FilePropertiesMD_def
    merge_FileInfoMetadata_def merge_InlineMD_def merge_LoopDepthMD_def merge_GlobalLoopDepthMD_def
    merge_MallocVariableMD_def merge_NumConditionalBranchMD_def merge_NumOperationsMD_def
    merge_NumStatementsMD_def merge_UniqueTypeMD_def split: option.splits)

theorem md_merge_idempotent_witness:
  "md_merge (OverrideMD \<lparr>overrides = [3, 1], overriddenBy = [2]\<rparr>)
     (OverrideMD \<lparr>overrides = [3, 1], overriddenBy = [2]\<rparr>) None [1 \<mapsto> 1, 2 \<mapsto> 2, 3 \<mapsto> 3] =
   Inr (OverrideMD \<lparr>overrides = [3, 1], overriddenBy = [2]\<rparr>)"
  by (rule md_merge_idempotent) auto

lemma mergeVectors_snoc:
  "mergeVectors dst (src @ [x]) m = bindR (mergeVectors dst src m) (\<lambda>d. mergeVectors d [x] m)"
  unfolding mergeVectors_def foldR_append by (rule refl)

lemma rev_remdups_rev_snoc:
  "rev (remdups (rev (ys @ [y]))) = rev (remdups (rev ys)) @ (if y \<in> set ys then [] else [y])"
  by simp

text \<open>
  Merging override lists: the result lists what the target had, in its order, followed by the
  mapped nodes of the source that were missing, in the order of the source and each once; it fails
  iff the mapping lacks a node of the source.
\<close>

theorem mergeVectors_exact:
  "mergeVectors dst src m =
     (if set src \<subseteq> dom m
      then Inr (dst @ filter (\<lambda>y. y \<notin> set dst) (rev (remdups (rev (map (the \<circ> m) src)))))
      else Inl AssertionFailed)"
proof (induction src rule: rev_induct)
  case (snoc x src)
  show ?case
    unfolding mergeVectors_snoc snoc.IH map_append list.map rev_remdups_rev_snoc
    by (auto split: option.splits)
qed simp

end
