(* ===== verification/Callgraph.thy ===== *)
theory Callgraph
  imports Metadata
begin

text \<open>
  The call graph itself: \<open>CgNode\<close> (\<open>CgNode.h\<close>, \<open>CgNode.cpp\<close>) and \<open>Callgraph\<close> (\<open>Callgraph.h\<close>,
  \<open>Callgraph.cpp\<close>). A node lives in the slot of \<open>nodes\<close> that its ID names; an erased slot is \<open>None\<close>.
  A pointer to a node of a graph is the ID of its slot; a \<open>const CgNode&\<close> argument, which may
  belong to any graph, is a \<open>CgNodeRef\<close>: the graph that owns the object and the slot, which
  together stand for its address (slots are never reused). \<open>edges\<close> is an association list in
  iteration order, \<open>nameIdMap\<close>, \<open>callerList\<close> and \<open>calleeList\<close> are never iterated and are maps.
\<close>

section \<open>Nodes\<close>

record CgNode = MetadataMixin +
  nid :: NodeId
  functionName :: string
  origin :: "string option"
  hasBody :: bool

definition new_CgNode :: "NodeId \<Rightarrow> string \<Rightarrow> string option \<Rightarrow> bool \<Rightarrow> bool \<Rightarrow> CgNode" where
  "new_CgNode i function orig isVirtual body =
     (let n = \<lparr>metaFields = [], nid = i, functionName = function, origin = orig, hasBody = body\<rparr>
      in if isVirtual then snd (getOrCreate_md (OverrideMD OverrideMD_default) n) else n)"

definition setVirtual :: "bool \<Rightarrow> CgNode \<Rightarrow> CgNode" where
  "setVirtual virtualness n =
     (if virtualness then snd (getOrCreate_md (OverrideMD OverrideMD_default) n)
      else snd (erase_md ''overrideMD'' n))"

definition isVirtual_node :: "CgNode \<Rightarrow> bool" where
  "isVirtual_node n = has_md n ''overrideMD''"

definition setHasBody :: "bool \<Rightarrow> CgNode \<Rightarrow> CgNode" where
  "setHasBody bodyStatus n = n\<lparr>hasBody := bodyStatus\<rparr>"

definition setFunctionName :: "string \<Rightarrow> CgNode \<Rightarrow> CgNode" where
  "setFunctionName name n = n\<lparr>functionName := name\<rparr>"

definition setOrigin :: "string option \<Rightarrow> CgNode \<Rightarrow> CgNode" where
  "setOrigin orig n = n\<lparr>origin := orig\<rparr>"

definition isSameFunctionName :: "CgNode \<Rightarrow> CgNode \<Rightarrow> bool" where
  "isSameFunctionName n otherNode = (functionName n = functionName otherNode)"

section \<open>The graph\<close>

type_synonym NamedMetadata = "(string \<times> MetaData) list"
type_synonym EdgeContainer = "((NodeId \<times> NodeId) \<times> NamedMetadata) list"
type_synonym CgNodeRef = "nat \<times> NodeId"

record Callgraph = MetadataMixin +
  self :: nat
  nodes :: "CgNode option list"
  nameIdMap :: "string \<rightharpoonup> NodeId list"
  edges :: EdgeContainer
  callerList :: "NodeId \<rightharpoonup> NodeId list"
  calleeList :: "NodeId \<rightharpoonup> NodeId list"
  mainNode :: "NodeId option"
  hasDuplicates :: bool
  numErased :: nat

definition empty_cg :: "nat \<Rightarrow> Callgraph" where
  "empty_cg a =
     \<lparr>metaFields = [], self = a, nodes = [], nameIdMap = Map.empty, edges = [],
      callerList = Map.empty, calleeList = Map.empty, mainNode = None,
      hasDuplicates = False, numErased = 0\<rparr>"

text \<open>Writing through the reference or pointer to the node in a slot.\<close>

definition modifyNode :: "NodeId \<Rightarrow> (CgNode \<Rightarrow> CgNode) \<Rightarrow> Callgraph \<Rightarrow> Callgraph" where
  "modifyNode i f cg = cg\<lparr>nodes := (nodes cg)[i := map_option f (nodes cg ! i)]\<rparr>"

subsection \<open>Queries on nodes\<close>

definition hasNode_id :: "Callgraph \<Rightarrow> NodeId \<Rightarrow> bool" where
  "hasNode_id cg i = (i < length (nodes cg) \<and> nodes cg ! i \<noteq> None)"

definition hasNode_ref :: "Callgraph \<Rightarrow> CgNodeRef \<Rightarrow> bool" where
  "hasNode_ref cg node =
     (if snd node \<ge> length (nodes cg) then False
      else nodes cg ! snd node \<noteq> None \<and> fst node = self cg)"

definition hasNode_name :: "Callgraph \<Rightarrow> string \<Rightarrow> bool" where
  "hasNode_name cg name =
     (case nameIdMap cg name of
        Some ids \<Rightarrow> list_ex (hasNode_id cg) ids
      | None \<Rightarrow> False)"

definition countNodes :: "Callgraph \<Rightarrow> string \<Rightarrow> nat" where
  "countNodes cg name = (case nameIdMap cg name of None \<Rightarrow> 0 | Some ids \<Rightarrow> length ids)"

definition getNodes_name :: "Callgraph \<Rightarrow> string \<Rightarrow> NodeId list" where
  "getNodes_name cg name = (case nameIdMap cg name of Some ids \<Rightarrow> ids | None \<Rightarrow> [])"

text \<open>The guard compares with \<open>>\<close>, so the ID one past the last slot reaches \<open>nodes.at\<close>.\<close>

definition getNode :: "Callgraph \<Rightarrow> NodeId \<Rightarrow> CgNode option res" where
  "getNode cg i = (if i > length (nodes cg) then Inr None else nthR (nodes cg) i)"

definition getFirstNode :: "Callgraph \<Rightarrow> string \<Rightarrow> CgNode option res" where
  "getFirstNode cg name =
     (case nameIdMap cg name of
        Some ids \<Rightarrow> (case ids of [] \<Rightarrow> Inr None | i # _ \<Rightarrow> getNode cg i)
      | None \<Rightarrow> Inr None)"

definition getSingleNode :: "Callgraph \<Rightarrow> string \<Rightarrow> CgNode res" where
  "getSingleNode cg name =
     (case nameIdMap cg name of
        None \<Rightarrow> Inl UndefinedBehaviour
      | Some ids \<Rightarrow>
          (if length ids \<noteq> 1 then Inl AssertionFailed
           else bindR (getNode cg (hd ids)) (\<lambda>node.
                  case node of None \<Rightarrow> Inl AssertionFailed | Some n \<Rightarrow> Inr n)))"

definition size_cg :: "Callgraph \<Rightarrow> nat" where
  "size_cg cg = length (nodes cg)"

definition getNodeCount :: "Callgraph \<Rightarrow> nat" where
  "getNodeCount cg = length (nodes cg) - numErased cg"

definition isEmpty_cg :: "Callgraph \<Rightarrow> bool" where
  "isEmpty_cg cg = (getNodeCount cg = 0)"

subsection \<open>The entry function\<close>

fun firstNamed :: "Callgraph \<Rightarrow> string list \<Rightarrow> NodeId option res" where
  "firstNamed cg [] = Inr None"
| "firstNamed cg (f # fs) =
     bindR (getFirstNode cg f) (\<lambda>node.
       case node of Some n \<Rightarrow> Inr (Some (nid n)) | None \<Rightarrow> firstNamed cg fs)"

definition mainNames :: "string list" where
  "mainNames = [''main'', ''_Z4main'', ''_ZSt4mainiPPc'', ''_QQmain'']"

definition getMain :: "Callgraph \<Rightarrow> bool \<Rightarrow> (NodeId option \<times> Callgraph) res" where
  "getMain cg forceRecompute =
     (if \<not> forceRecompute \<and> mainNode cg \<noteq> None then Inr (mainNode cg, cg)
      else
        bindR (get_EntryFunctionMD cg) (\<lambda>md.
        bindR (case md of
                 None \<Rightarrow> Inr None
               | Some e \<Rightarrow> (case entryFunction e of None \<Rightarrow> Inr None | Some i \<Rightarrow> getNode cg i))
          (\<lambda>entry.
        case entry of
          Some n \<Rightarrow> Inr (Some (nid n), cg\<lparr>mainNode := Some (nid n)\<rparr>)
        | None \<Rightarrow>
            bindR (firstNamed cg mainNames) (\<lambda>m. Inr (m, cg\<lparr>mainNode := m\<rparr>)))))"

subsection \<open>Inserting and erasing nodes\<close>

definition insert_cg ::
  "string \<Rightarrow> string option \<Rightarrow> bool \<Rightarrow> bool \<Rightarrow> Callgraph \<Rightarrow> (NodeId \<times> Callgraph) res" where
  "insert_cg function orig isVirtual body cg =
     bindR (assertR (function \<noteq> [])) (\<lambda>_.
       let i = length (nodes cg);
           nodesWithName = getNodes_name cg function
       in Inr (i, cg\<lparr>nodes := nodes cg @ [Some (new_CgNode i function orig isVirtual body)],
                     hasDuplicates := hasDuplicates cg \<or> nodesWithName \<noteq> [],
                     nameIdMap := (nameIdMap cg)(function \<mapsto> nodesWithName @ [i])\<rparr>))"

definition getOrInsertNode ::
  "string \<Rightarrow> string option \<Rightarrow> bool \<Rightarrow> bool \<Rightarrow> Callgraph \<Rightarrow> (NodeId \<times> Callgraph) res" where
  "getOrInsertNode function orig isVirtual body cg =
     bindR (getFirstNode cg function) (\<lambda>node.
       case node of
         Some n \<Rightarrow> Inr (nid n, cg)
       | None \<Rightarrow> insert_cg function orig isVirtual body cg)"

text \<open>\<open>calleeList[id]\<close> and \<open>callerList[id]\<close> default-construct a missing vector.\<close>

definition entry_or_empty :: "(NodeId \<rightharpoonup> NodeId list) \<Rightarrow> NodeId \<Rightarrow> NodeId list" where
  "entry_or_empty m i = (case m i of Some xs \<Rightarrow> xs | None \<Rightarrow> [])"

definition eraseCalleeEdge :: "NodeId \<Rightarrow> NodeId \<Rightarrow> Callgraph \<Rightarrow> Callgraph res" where
  "eraseCalleeEdge i calleeId cg =
     bindR (atR (callerList cg) calleeId) (\<lambda>childCallerList.
     bindR (eraseFirstR i childCallerList) (\<lambda>l.
     Inr (cg\<lparr>edges := AList.delete (i, calleeId) (edges cg),
             callerList := (callerList cg)(calleeId \<mapsto> l)\<rparr>)))"

definition eraseCallerEdge :: "NodeId \<Rightarrow> NodeId \<Rightarrow> Callgraph \<Rightarrow> Callgraph res" where
  "eraseCallerEdge i callerId cg =
     bindR (atR (calleeList cg) callerId) (\<lambda>parentCalleeList.
     bindR (eraseFirstR i parentCalleeList) (\<lambda>l.
     Inr (cg\<lparr>edges := AList.delete (callerId, i) (edges cg),
             calleeList := (calleeList cg)(callerId \<mapsto> l)\<rparr>)))"

definition eraseMainEntry :: "NodeId \<Rightarrow> Callgraph \<Rightarrow> Callgraph res" where
  "eraseMainEntry i cg =
     (if mainNode cg = Some i then
        bindR (get_EntryFunctionMD cg) (\<lambda>md.
          let cg' = cg\<lparr>mainNode := None\<rparr>
          in case md of
               Some e \<Rightarrow>
                 Inr (if entryFunction e = Some i then snd (erase_md ''entryFunction'' cg') else cg')
             | None \<Rightarrow> Inr cg')
      else Inr cg)"

text \<open>The first half of \<open>erase\<close> removes the edges of the node, the second half the node.\<close>

definition eraseEdgesOf :: "NodeId \<Rightarrow> Callgraph \<Rightarrow> Callgraph res" where
  "eraseEdgesOf i cg =
     bindR (foldR (eraseCalleeEdge i) (entry_or_empty (calleeList cg) i) cg) (\<lambda>cg1.
     let cg2 = cg1\<lparr>calleeList := (calleeList cg1)(i := None)\<rparr> in
     bindR (foldR (eraseCallerEdge i) (entry_or_empty (callerList cg2) i) cg2) (\<lambda>cg3.
     Inr (cg3\<lparr>callerList := (callerList cg3)(i := None)\<rparr>)))"

definition erase_cg :: "NodeId \<Rightarrow> Callgraph \<Rightarrow> (bool \<times> Callgraph) res" where
  "erase_cg i cg =
     (if \<not> hasNode_id cg i then Inr (False, cg)
      else
        bindR (eraseEdgesOf i cg) (\<lambda>cg1.
        bindR (assertR (nodes cg1 ! i \<noteq> None)) (\<lambda>_.
        bindR (derefR (nodes cg1 ! i)) (\<lambda>ptr.
        bindR (eraseMainEntry i cg1) (\<lambda>cg2.
        bindR (eraseFirstR i (getNodes_name cg2 (functionName ptr))) (\<lambda>ids.
        Inr (True, cg2\<lparr>nameIdMap := (nameIdMap cg2)(functionName ptr \<mapsto> ids),
                       nodes := (nodes cg2)[i := None],
                       numErased := Suc (numErased cg2)\<rparr>)))))))"

text \<open>\<open>clear\<close> leaves the metadata inherited from the mixin in place.\<close>

definition clear_cg :: "Callgraph \<Rightarrow> Callgraph" where
  "clear_cg cg =
     cg\<lparr>nodes := [], nameIdMap := Map.empty, edges := [], callerList := Map.empty,
        calleeList := Map.empty, mainNode := None, numErased := 0, hasDuplicates := False\<rparr>"

subsection \<open>Edges\<close>

definition existsEdge_id :: "Callgraph \<Rightarrow> NodeId \<Rightarrow> NodeId \<Rightarrow> bool" where
  "existsEdge_id cg source target = (map_of (edges cg) (source, target) \<noteq> None)"

definition existsEdge_ref :: "Callgraph \<Rightarrow> CgNodeRef \<Rightarrow> CgNodeRef \<Rightarrow> bool" where
  "existsEdge_ref cg source target =
     (hasNode_ref cg source \<and> hasNode_ref cg target \<and> existsEdge_id cg (snd source) (snd target))"

definition existsAnyEdge :: "Callgraph \<Rightarrow> string \<Rightarrow> string \<Rightarrow> bool" where
  "existsAnyEdge cg source target =
     list_ex (\<lambda>sourceId. list_ex (existsEdge_id cg sourceId) (getNodes_name cg target))
       (getNodes_name cg source)"

definition addEdgeInternal :: "NodeId \<Rightarrow> NodeId \<Rightarrow> Callgraph \<Rightarrow> bool \<times> Callgraph" where
  "addEdgeInternal caller callee cg =
     (if existsEdge_id cg caller callee then (False, cg)
      else (True, cg\<lparr>calleeList := (calleeList cg)
                       (caller \<mapsto> entry_or_empty (calleeList cg) caller @ [callee]),
                     callerList := (callerList cg)
                       (callee \<mapsto> entry_or_empty (callerList cg) callee @ [caller]),
                     edges := AList.update (caller, callee) [] (edges cg)\<rparr>))"

definition addEdge_ref :: "CgNodeRef \<Rightarrow> CgNodeRef \<Rightarrow> Callgraph \<Rightarrow> bool \<times> Callgraph" where
  "addEdge_ref parentNode childNode cg =
     (if \<not> hasNode_ref cg parentNode \<or> \<not> hasNode_ref cg childNode then (False, cg)
      else addEdgeInternal (snd parentNode) (snd childNode) cg)"

definition addEdge_id :: "NodeId \<Rightarrow> NodeId \<Rightarrow> Callgraph \<Rightarrow> (bool \<times> Callgraph) res" where
  "addEdge_id parentID childID cg =
     bindR (getNode cg parentID) (\<lambda>parentNode.
       if parentNode = None then Inr (False, cg)
       else bindR (getNode cg childID) (\<lambda>childNode.
         if childNode = None then Inr (False, cg)
         else Inr (addEdgeInternal parentID childID cg)))"

definition addEdge_name :: "string \<Rightarrow> string \<Rightarrow> Callgraph \<Rightarrow> (bool \<times> Callgraph) res" where
  "addEdge_name callerName calleeName cg =
     (let callerMatches = getNodes_name cg callerName;
          calleeMatches = getNodes_name cg calleeName
      in if length callerMatches \<noteq> 1 \<or> length calleeMatches \<noteq> 1 then Inr (False, cg)
         else addEdge_id (hd callerMatches) (hd calleeMatches) cg)"

definition removeEdge_id :: "NodeId \<Rightarrow> NodeId \<Rightarrow> Callgraph \<Rightarrow> (bool \<times> Callgraph) res" where
  "removeEdge_id parentID childID cg =
     (if existsEdge_id cg parentID childID then
        bindR (eraseFirstR childID (entry_or_empty (calleeList cg) parentID)) (\<lambda>parentCallees.
        bindR (eraseFirstR parentID (entry_or_empty (callerList cg) childID)) (\<lambda>childCallers.
        Inr (True, cg\<lparr>edges := AList.delete (parentID, childID) (edges cg),
                      calleeList := (calleeList cg)(parentID \<mapsto> parentCallees),
                      callerList := (callerList cg)(childID \<mapsto> childCallers)\<rparr>)))
      else Inr (False, cg))"

text \<open>The guard of this overload is a conjunction: it gives up only if both nodes are foreign.\<close>

definition removeEdge_ref :: "CgNodeRef \<Rightarrow> CgNodeRef \<Rightarrow> Callgraph \<Rightarrow> (bool \<times> Callgraph) res" where
  "removeEdge_ref parentNode childNode cg =
     (if \<not> hasNode_ref cg parentNode \<and> \<not> hasNode_ref cg childNode then Inr (False, cg)
      else removeEdge_id (snd parentNode) (snd childNode) cg)"

definition removeEdge_name :: "string \<Rightarrow> string \<Rightarrow> Callgraph \<Rightarrow> (bool \<times> Callgraph) res" where
  "removeEdge_name callerName calleeName cg =
     (let callerMatches = getNodes_name cg callerName;
          calleeMatches = getNodes_name cg calleeName
      in if length callerMatches \<noteq> 1 \<or> length calleeMatches \<noteq> 1 then Inr (False, cg)
         else removeEdge_id (hd callerMatches) (hd calleeMatches) cg)"

subsection \<open>Neighbours\<close>

text \<open>
  The result is a set of pointers; the list holds each pointer once, \<open>None\<close> standing for the null
  pointer of an erased slot. Its order is the unspecified iteration order of the set.
\<close>

definition neighbourPtrs :: "Callgraph \<Rightarrow> NodeId list option \<Rightarrow> NodeId option list res" where
  "neighbourPtrs cg ids =
     (case ids of
        None \<Rightarrow> Inr []
      | Some l \<Rightarrow>
          bindR (mapR (\<lambda>elem. bindR (nthR (nodes cg) elem) (\<lambda>n. Inr (map_option (\<lambda>_. elem) n))) l)
            (\<lambda>ps. Inr (remdups ps)))"

definition getCallees_id :: "Callgraph \<Rightarrow> NodeId \<Rightarrow> NodeId option list res" where
  "getCallees_id cg node = neighbourPtrs cg (calleeList cg node)"

definition getCallers_id :: "Callgraph \<Rightarrow> NodeId \<Rightarrow> NodeId option list res" where
  "getCallers_id cg node = neighbourPtrs cg (callerList cg node)"

definition getCallees_ref :: "Callgraph \<Rightarrow> CgNodeRef \<Rightarrow> NodeId option list res" where
  "getCallees_ref cg node = (if hasNode_ref cg node then getCallees_id cg (snd node) else Inr [])"

definition getCallers_ref :: "Callgraph \<Rightarrow> CgNodeRef \<Rightarrow> NodeId option list res" where
  "getCallers_ref cg node = (if hasNode_ref cg node then getCallers_id cg (snd node) else Inr [])"

subsection \<open>Edge metadata\<close>

text \<open>
  \<open>addEdgeMetaData<T>\<close> stores under \<open>T::key\<close>, the key of the static type of the pointer it is
  given: the key is an argument of the model. A pointer of type \<open>std::unique_ptr<MetaData>\<close> makes
  it the key of the base class.
\<close>

definition addEdgeMetaData_id ::
  "string \<Rightarrow> NodeId \<times> NodeId \<Rightarrow> MetaData \<Rightarrow> Callgraph \<Rightarrow> bool \<times> Callgraph" where
  "addEdgeMetaData_id staticKey ids md cg =
     (case map_of (edges cg) ids of
        Some m \<Rightarrow> (True, cg\<lparr>edges := AList.update ids (AList.update staticKey md m) (edges cg)\<rparr>)
      | None \<Rightarrow> (False, cg))"

definition addEdgeMetaData_ref ::
  "string \<Rightarrow> CgNodeRef \<Rightarrow> CgNodeRef \<Rightarrow> MetaData \<Rightarrow> Callgraph \<Rightarrow> bool \<times> Callgraph" where
  "addEdgeMetaData_ref staticKey func1 func2 md cg =
     (if \<not> hasNode_ref cg func1 \<or> \<not> hasNode_ref cg func2 then (False, cg)
      else addEdgeMetaData_id staticKey (snd func1, snd func2) md cg)"

definition getEdgeMetaData_id :: "Callgraph \<Rightarrow> NodeId \<times> NodeId \<Rightarrow> string \<Rightarrow> MetaData option" where
  "getEdgeMetaData_id cg ids metadataName =
     (case map_of (edges cg) ids of None \<Rightarrow> None | Some m \<Rightarrow> map_of m metadataName)"

definition getEdgeMetaData_ref ::
  "Callgraph \<Rightarrow> CgNodeRef \<Rightarrow> CgNodeRef \<Rightarrow> string \<Rightarrow> MetaData option" where
  "getEdgeMetaData_ref cg func1 func2 metadataName =
     (if hasNode_ref cg func1 \<and> hasNode_ref cg func2
      then getEdgeMetaData_id cg (snd func1, snd func2) metadataName else None)"

definition getAllEdgeMetaData_id :: "Callgraph \<Rightarrow> NodeId \<times> NodeId \<Rightarrow> NamedMetadata res" where
  "getAllEdgeMetaData_id cg ids =
     (case map_of (edges cg) ids of None \<Rightarrow> Inl AssertionFailed | Some m \<Rightarrow> Inr m)"

definition hasEdgeMetaData_id :: "Callgraph \<Rightarrow> NodeId \<times> NodeId \<Rightarrow> string \<Rightarrow> bool" where
  "hasEdgeMetaData_id cg ids metadataName =
     (case map_of (edges cg) ids of
        Some m \<Rightarrow> map_of m metadataName \<noteq> None
      | None \<Rightarrow> False)"

definition hasEdgeMetaData_ref :: "Callgraph \<Rightarrow> CgNodeRef \<Rightarrow> CgNodeRef \<Rightarrow> string \<Rightarrow> bool" where
  "hasEdgeMetaData_ref cg func1 func2 metadataName =
     (hasNode_ref cg func1 \<and> hasNode_ref cg func2
      \<and> hasEdgeMetaData_id cg (snd func1, snd func2) metadataName)"

text \<open>The typed query \<open>hasEdgeMetaData<T>(ids)\<close> goes through \<open>edges.at\<close>.\<close>

definition hasEdgeMetaData_typed :: "Callgraph \<Rightarrow> NodeId \<times> NodeId \<Rightarrow> string \<Rightarrow> bool res" where
  "hasEdgeMetaData_typed cg ids staticKey =
     bindR (atR (map_of (edges cg)) ids) (\<lambda>m. Inr (map_of m staticKey \<noteq> None))"

end
