(* ===== verification/Callgraph_Inv.thy ===== *)
theory Callgraph_Inv
  imports Callgraph
begin

text \<open>
  The representation invariant of \<open>Callgraph\<close> and its preservation by every operation that changes
  a graph, together with the effect of each operation on the abstract graph: the name of each live
  node (\<open>nameAt\<close>) and the set of edges (\<open>edgeSet\<close>).
\<close>

section \<open>The abstract graph and the invariant\<close>

definition nameAt :: "Callgraph \<Rightarrow> NodeId \<rightharpoonup> string" where
  "nameAt cg i = (if i < length (nodes cg) then map_option functionName (nodes cg ! i) else None)"

definition edgeSet :: "Callgraph \<Rightarrow> (NodeId \<times> NodeId) set" where
  "edgeSet cg = fst ` set (edges cg)"

definition callees :: "Callgraph \<Rightarrow> NodeId \<Rightarrow> NodeId list" where
  "callees cg a = entry_or_empty (calleeList cg) a"

definition callers :: "Callgraph \<Rightarrow> NodeId \<Rightarrow> NodeId list" where
  "callers cg b = entry_or_empty (callerList cg) b"

definition wf_meta :: "(string \<times> MetaData) list \<Rightarrow> bool" where
  "wf_meta m \<longleftrightarrow> distinct (map fst m) \<and> (\<forall>(k, md) \<in> set m. k = getKey md)"

definition wf_nodes :: "Callgraph \<Rightarrow> bool" where
  "wf_nodes cg \<longleftrightarrow>
     (\<forall>i n. i < length (nodes cg) \<longrightarrow> nodes cg ! i = Some n
        \<longrightarrow> nid n = i \<and> functionName n \<noteq> [] \<and> wf_meta (metaFields n))"

definition wf_names :: "Callgraph \<Rightarrow> bool" where
  "wf_names cg \<longleftrightarrow>
     (\<forall>f. getNodes_name cg f = filter (\<lambda>i. nameAt cg i = Some f) [0..<length (nodes cg)])"

definition wf_edges :: "Callgraph \<Rightarrow> bool" where
  "wf_edges cg \<longleftrightarrow>
     distinct (map fst (edges cg))
     \<and> (\<forall>a b. (a, b) \<in> edgeSet cg \<longrightarrow> hasNode_id cg a \<and> hasNode_id cg b)
     \<and> (\<forall>a. distinct (callees cg a) \<and> set (callees cg a) = {b. (a, b) \<in> edgeSet cg})
     \<and> (\<forall>b. distinct (callers cg b) \<and> set (callers cg b) = {a. (a, b) \<in> edgeSet cg})"

definition wf_count :: "Callgraph \<Rightarrow> bool" where
  "wf_count cg \<longleftrightarrow> numErased cg = length (filter (\<lambda>n. n = None) (nodes cg))"

definition wf_main :: "Callgraph \<Rightarrow> bool" where
  "wf_main cg \<longleftrightarrow> (\<forall>i. mainNode cg = Some i \<longrightarrow> hasNode_id cg i)"

definition wf_dups :: "Callgraph \<Rightarrow> bool" where
  "wf_dups cg \<longleftrightarrow>
     (\<forall>i j f. nameAt cg i = Some f \<longrightarrow> nameAt cg j = Some f \<longrightarrow> i \<noteq> j \<longrightarrow> hasDuplicates cg)"

definition wf_cg :: "Callgraph \<Rightarrow> bool" where
  "wf_cg cg \<longleftrightarrow> wf_nodes cg \<and> wf_names cg \<and> wf_edges cg \<and> wf_count cg \<and> wf_main cg \<and> wf_dups cg
     \<and> wf_meta (metaFields cg)"

lemmas wf_cg_defs =
  wf_cg_def wf_nodes_def wf_names_def wf_edges_def wf_count_def wf_main_def wf_dups_def

lemma wf_cgI:
  "wf_nodes cg \<Longrightarrow> wf_names cg \<Longrightarrow> wf_edges cg \<Longrightarrow> wf_count cg \<Longrightarrow> wf_main cg \<Longrightarrow> wf_dups cg
   \<Longrightarrow> wf_meta (metaFields cg) \<Longrightarrow> wf_cg cg"
  by (simp add: wf_cg_def)

lemma wf_cgD:
  assumes "wf_cg cg"
  shows "wf_nodes cg" "wf_names cg" "wf_edges cg" "wf_count cg" "wf_main cg" "wf_dups cg"
    "wf_meta (metaFields cg)"
  using assms by (simp_all add: wf_cg_def)

section \<open>Consequences of the invariant\<close>

lemma hasNode_id_iff_nameAt: "hasNode_id cg i \<longleftrightarrow> nameAt cg i \<noteq> None"
  by (auto simp: hasNode_id_def nameAt_def)

lemma hasNode_idD: "hasNode_id cg i \<Longrightarrow> i < length (nodes cg)"
  by (simp add: hasNode_id_def)

lemma existsEdge_id_iff [simp]: "existsEdge_id cg a b \<longleftrightarrow> (a, b) \<in> edgeSet cg"
  by (auto simp: existsEdge_id_def edgeSet_def map_of_None_iff simp flip: not_None_eq)

lemma entry_or_empty_upd [simp]:
  "entry_or_empty (m(a \<mapsto> xs)) b = (if b = a then xs else entry_or_empty m b)"
  "entry_or_empty (m(a := None)) b = (if b = a then [] else entry_or_empty m b)"
  by (auto simp: entry_or_empty_def)

lemma wf_edgesD:
  assumes "wf_edges cg"
  shows "distinct (map fst (edges cg))"
    and "(a, b) \<in> edgeSet cg \<Longrightarrow> hasNode_id cg a"
    and "(a, b) \<in> edgeSet cg \<Longrightarrow> hasNode_id cg b"
    and "distinct (callees cg a)" and "set (callees cg a) = {b. (a, b) \<in> edgeSet cg}"
    and "distinct (callers cg b)" and "set (callers cg b) = {a. (a, b) \<in> edgeSet cg}"
  using assms by (auto simp: wf_edges_def)

lemma mem_callees_iff: "wf_edges cg \<Longrightarrow> b \<in> set (callees cg a) \<longleftrightarrow> (a, b) \<in> edgeSet cg"
  by (simp add: wf_edgesD)

lemma mem_callers_iff: "wf_edges cg \<Longrightarrow> a \<in> set (callers cg b) \<longleftrightarrow> (a, b) \<in> edgeSet cg"
  by (simp add: wf_edgesD)

lemma wf_names_eq:
  "wf_names cg \<Longrightarrow> getNodes_name cg f = filter (\<lambda>i. nameAt cg i = Some f) [0..<length (nodes cg)]"
  by (simp add: wf_names_def)

lemma nameAt_SomeD: "nameAt cg i = Some f \<Longrightarrow> i < length (nodes cg) \<and> hasNode_id cg i"
  by (auto simp: nameAt_def hasNode_id_def split: if_splits)

lemma set_getNodes_name: "wf_names cg \<Longrightarrow> set (getNodes_name cg f) = {i. nameAt cg i = Some f}"
  by (auto simp: wf_names_eq dest: nameAt_SomeD)

lemma distinct_getNodes_name: "wf_names cg \<Longrightarrow> distinct (getNodes_name cg f)"
  by (simp add: wf_names_eq)

lemma getNode_less: "i < length (nodes cg) \<Longrightarrow> getNode cg i = Inr (nodes cg ! i)"
  by (simp add: getNode_def)

lemma getNode_greater: "i > length (nodes cg) \<Longrightarrow> getNode cg i = Inr None"
  by (simp add: getNode_def)

lemma getNode_size: "getNode cg (length (nodes cg)) = Inl OutOfRange"
  by (simp add: getNode_def nthR_def)

lemma getNode_live:
  assumes "wf_nodes cg" and "nameAt cg i = Some f"
  obtains n where "getNode cg i = Inr (Some n)" and "nid n = i" and "functionName n = f"
    and "nodes cg ! i = Some n" and "i < length (nodes cg)"
  using assms by (auto simp: wf_nodes_def nameAt_def getNode_less split: if_splits)

lemma getFirstNode_wf:
  assumes "wf_cg cg"
  shows "getFirstNode cg f =
     Inr (case getNodes_name cg f of [] \<Rightarrow> None | i # _ \<Rightarrow> nodes cg ! i)"
proof -
  have "i < length (nodes cg)" if "getNodes_name cg f = i # is" for i "is"
    using set_getNodes_name [OF wf_cgD(2) [OF assms], of f] that by (auto dest: nameAt_SomeD)
  then show ?thesis
    by (auto simp: getFirstNode_def getNodes_name_def getNode_less split: option.splits list.splits)
qed

lemma getFirstNode_None_iff:
  assumes "wf_cg cg"
  shows "getFirstNode cg f = Inr None \<longleftrightarrow> (\<forall>i. nameAt cg i \<noteq> Some f)"
proof (cases "getNodes_name cg f")
  case Nil
  then show ?thesis
    using set_getNodes_name [OF wf_cgD(2) [OF assms], of f] by (auto simp: getFirstNode_wf assms)
next
  case (Cons i "is")
  then have "nameAt cg i = Some f"
    using set_getNodes_name [OF wf_cgD(2) [OF assms], of f] by auto
  then show ?thesis
    using Cons by (auto simp: getFirstNode_wf assms nameAt_def split: if_splits)
qed

lemma getFirstNode_Some:
  assumes "wf_cg cg" and "getFirstNode cg f = Inr (Some n)"
  shows "nameAt cg (nid n) = Some f" and "functionName n = f" and "nodes cg ! nid n = Some n"
    and "\<And>j. nameAt cg j = Some f \<Longrightarrow> nid n \<le> j"
proof -
  obtain i "is" where l: "getNodes_name cg f = i # is" and n: "nodes cg ! i = Some n"
    using assms by (auto simp: getFirstNode_wf split: list.splits)
  have names: "wf_names cg" using assms(1) by (rule wf_cgD)
  have i: "nameAt cg i = Some f" using set_getNodes_name [OF names, of f] l by auto
  then have id: "nid n = i" and "functionName n = f"
    using wf_cgD(1) [OF assms(1)] n by (auto simp: wf_nodes_def nameAt_def split: if_splits)
  then show "nameAt cg (nid n) = Some f" and "functionName n = f" and "nodes cg ! nid n = Some n"
    using i n by simp_all
  have "sorted (getNodes_name cg f)" by (simp add: wf_names_eq [OF names] sorted_wrt_filter)
  then have "\<forall>j \<in> set (getNodes_name cg f). i \<le> j" by (simp add: l)
  then show "nid n \<le> j" if "nameAt cg j = Some f" for j
    using that by (simp add: set_getNodes_name [OF names] id)
qed

section \<open>Constructors and clearing\<close>

lemma wf_meta_Nil [simp]: "wf_meta []"
  by (simp add: wf_meta_def)

lemma set_update_sub: "set (AList.update k v m) \<subseteq> insert (k, v) (set m)"
  by (induction m) auto

lemma wf_meta_update:
  "wf_meta m \<Longrightarrow> wf_meta (AList.update (getKey md) md m)"
  using set_update_sub [of "getKey md" md m] by (fastforce simp: wf_meta_def alist_simps)

lemma wf_meta_delete: "wf_meta m \<Longrightarrow> wf_meta (AList.delete k m)"
  by (auto simp: wf_meta_def alist_simps set_delete_eq)

lemma wf_metaD: "wf_meta m \<Longrightarrow> map_of m k = Some md \<Longrightarrow> getKey md = k"
  by (auto simp: wf_meta_def dest!: map_of_SomeD)

lemma wf_meta_getOrCreate:
  "wf_meta (metaFields o') \<Longrightarrow> wf_meta (metaFields (snd (getOrCreate_md d o')))"
  by (auto simp: getOrCreate_md_def wf_meta_update split: option.splits)

lemma wf_meta_addMetaData:
  "wf_meta (metaFields o') \<Longrightarrow> wf_meta (metaFields (addMetaData md o'))"
  by (simp add: addMetaData_def wf_meta_update)

lemma getOrCreate_md_node [simp]:
  "nid (snd (getOrCreate_md d n)) = nid n"
  "functionName (snd (getOrCreate_md d n)) = functionName n"
  "origin (snd (getOrCreate_md d n)) = origin n"
  "hasBody (snd (getOrCreate_md d n)) = hasBody n"
  by (auto simp: getOrCreate_md_def split: option.splits)

lemma new_CgNode_simps [simp]:
  "nid (new_CgNode i f orig v b) = i"
  "functionName (new_CgNode i f orig v b) = f"
  "origin (new_CgNode i f orig v b) = orig"
  "hasBody (new_CgNode i f orig v b) = b"
  by (simp_all add: new_CgNode_def Let_def)

lemma wf_meta_new_CgNode [simp]: "wf_meta (metaFields (new_CgNode i f orig v b))"
  by (simp add: new_CgNode_def Let_def wf_meta_getOrCreate)

text \<open>A graph whose parts the invariant reads agree with those of a well-formed one is well formed.\<close>

lemma nameAt_cong: "nodes cg' = nodes cg \<Longrightarrow> nameAt cg' = nameAt cg"
  by (simp add: nameAt_def fun_eq_iff)

lemma hasNode_id_cong: "nodes cg' = nodes cg \<Longrightarrow> hasNode_id cg' = hasNode_id cg"
  by (simp add: hasNode_id_def fun_eq_iff)

lemma getNodes_name_cong: "nameIdMap cg' = nameIdMap cg \<Longrightarrow> getNodes_name cg' = getNodes_name cg"
  by (simp add: getNodes_name_def fun_eq_iff)

lemma wf_nodes_cong: "nodes cg' = nodes cg \<Longrightarrow> wf_nodes cg' = wf_nodes cg"
  by (simp add: wf_nodes_def)

lemma wf_names_cong:
  "nodes cg' = nodes cg \<Longrightarrow> nameIdMap cg' = nameIdMap cg \<Longrightarrow> wf_names cg' = wf_names cg"
  using nameAt_cong [of cg' cg] getNodes_name_cong [of cg' cg] by (simp add: wf_names_def)

lemma wf_count_cong: "nodes cg' = nodes cg \<Longrightarrow> numErased cg' = numErased cg \<Longrightarrow> wf_count cg' = wf_count cg"
  by (simp add: wf_count_def)

lemma wf_main_cong: "nodes cg' = nodes cg \<Longrightarrow> mainNode cg' = mainNode cg \<Longrightarrow> wf_main cg' = wf_main cg"
  using hasNode_id_cong [of cg' cg] by (simp add: wf_main_def)

lemma wf_dups_cong:
  "nodes cg' = nodes cg \<Longrightarrow> hasDuplicates cg' = hasDuplicates cg \<Longrightarrow> wf_dups cg' = wf_dups cg"
  using nameAt_cong [of cg' cg] by (simp add: wf_dups_def)

lemma edgeSet_cong: "edges cg' = edges cg \<Longrightarrow> edgeSet cg' = edgeSet cg"
  by (simp add: edgeSet_def)

lemma wf_edges_cong:
  "nodes cg' = nodes cg \<Longrightarrow> map fst (edges cg') = map fst (edges cg) \<Longrightarrow> calleeList cg' = calleeList cg
   \<Longrightarrow> callerList cg' = callerList cg \<Longrightarrow> wf_edges cg' = wf_edges cg"
  using hasNode_id_cong [of cg' cg]
  by (simp add: wf_edges_def edgeSet_def callees_def callers_def flip: set_map)

lemma wf_empty_cg [simp, wf_intros]: "wf_cg (empty_cg a)"
  by (auto simp: empty_cg_def wf_cg_defs getNodes_name_def nameAt_def edgeSet_def callees_def
      callers_def entry_or_empty_def)

lemma wf_clear_cg [wf_intros]: "wf_cg cg \<Longrightarrow> wf_cg (clear_cg cg)"
  by (auto simp: clear_cg_def wf_cg_defs getNodes_name_def nameAt_def edgeSet_def callees_def
      callers_def entry_or_empty_def)

text \<open>Changing only the metadata or only the cached main node.\<close>

lemma metaFields_upd_simps [simp]:
  "nameAt (cg\<lparr>metaFields := m\<rparr>) = nameAt cg"
  "hasNode_id (cg\<lparr>metaFields := m\<rparr>) = hasNode_id cg"
  "getNodes_name (cg\<lparr>metaFields := m\<rparr>) = getNodes_name cg"
  "edgeSet (cg\<lparr>metaFields := m\<rparr>) = edgeSet cg"
  "callees (cg\<lparr>metaFields := m\<rparr>) = callees cg"
  "callers (cg\<lparr>metaFields := m\<rparr>) = callers cg"
  by (simp_all add: nameAt_def hasNode_id_def getNodes_name_def edgeSet_def callees_def
      callers_def fun_eq_iff)

lemma mainNode_upd_simps [simp]:
  "nameAt (cg\<lparr>mainNode := m'\<rparr>) = nameAt cg"
  "hasNode_id (cg\<lparr>mainNode := m'\<rparr>) = hasNode_id cg"
  "getNodes_name (cg\<lparr>mainNode := m'\<rparr>) = getNodes_name cg"
  "edgeSet (cg\<lparr>mainNode := m'\<rparr>) = edgeSet cg"
  "callees (cg\<lparr>mainNode := m'\<rparr>) = callees cg"
  "callers (cg\<lparr>mainNode := m'\<rparr>) = callers cg"
  by (simp_all add: nameAt_def hasNode_id_def getNodes_name_def edgeSet_def callees_def
      callers_def fun_eq_iff)

lemma wf_cg_metaFields_upd: "wf_cg cg \<Longrightarrow> wf_meta m \<Longrightarrow> wf_cg (cg\<lparr>metaFields := m\<rparr>)"
  unfolding wf_cg_defs by simp

lemma wf_cg_mainNode_upd:
  "wf_cg cg \<Longrightarrow> (\<And>i. m = Some i \<Longrightarrow> hasNode_id cg i) \<Longrightarrow> wf_cg (cg\<lparr>mainNode := m\<rparr>)"
  unfolding wf_cg_defs by simp

lemma wf_graph_addMetaData [wf_intros]: "wf_cg cg \<Longrightarrow> wf_cg (addMetaData md cg)"
  by (simp add: addMetaData_def wf_cg_metaFields_upd wf_meta_update wf_cgD)

lemma wf_graph_erase_md [wf_intros]: "wf_cg cg \<Longrightarrow> wf_cg (snd (erase_md k cg))"
  by (simp add: erase_md_def wf_cg_metaFields_upd wf_meta_delete wf_cgD)

section \<open>Inserting nodes\<close>

lemma insert_cg_empty_name: "insert_cg [] orig v b cg = Inl AssertionFailed"
  by (simp add: insert_cg_def)

lemma insert_cg_nonempty:
  "f \<noteq> [] \<Longrightarrow> \<exists>cg'. insert_cg f orig v b cg = Inr (length (nodes cg), cg')"
  by (simp add: insert_cg_def Let_def)

lemma insert_cg_effect:
  assumes "insert_cg f orig v b cg = Inr (i, cg')"
  shows "i = length (nodes cg)" and "nodes cg' = nodes cg @ [Some (new_CgNode i f orig v b)]"
    and "nameAt cg' = (nameAt cg)(i \<mapsto> f)" and "edges cg' = edges cg" and "edgeSet cg' = edgeSet cg"
    and "callees cg' = callees cg" and "callers cg' = callers cg"
    and "mainNode cg' = mainNode cg" and "metaFields cg' = metaFields cg" and "self cg' = self cg"
    and "numErased cg' = numErased cg"
    and "getNodes_name cg' = (getNodes_name cg)(f := getNodes_name cg f @ [i])"
    and "hasDuplicates cg' \<longleftrightarrow> hasDuplicates cg \<or> getNodes_name cg f \<noteq> []" and "f \<noteq> []"
  using assms
  by (auto simp: insert_cg_def Let_def nameAt_def edgeSet_def callees_def callers_def
      getNodes_name_def fun_eq_iff nth_append less_Suc_eq bindR_eq_Inr_iff assertR_def split: if_splits)

lemma insert_cg_fresh: "insert_cg f orig v b cg = Inr (i, cg') \<Longrightarrow> nameAt cg i = None"
  by (auto simp: nameAt_def dest: insert_cg_effect(1))

lemma wf_insert_cg [wf_intros]:
  assumes wf: "wf_cg cg" and ins: "insert_cg f orig v b cg = Inr (i, cg')"
  shows "wf_cg cg'"
proof (rule wf_cgI)
  note eff = insert_cg_effect [OF ins]
  have hn: "hasNode_id cg' j \<longleftrightarrow> hasNode_id cg j \<or> j = i" for j
    by (auto simp: hasNode_id_iff_nameAt eff(3))
  show "wf_nodes cg'"
    using wf_cgD(1) [OF wf] by (auto simp: wf_nodes_def eff(2) eff(1) eff(14) nth_append less_Suc_eq)
  show "wf_names cg'"
    unfolding wf_names_def
  proof
    fix g
    have old: "getNodes_name cg g = filter (\<lambda>j. nameAt cg j = Some g) [0..<length (nodes cg)]"
      using wf_cgD(2) [OF wf] by (rule wf_names_eq)
    have "filter (\<lambda>j. nameAt cg' j = Some g) [0..<length (nodes cg)]
        = filter (\<lambda>j. nameAt cg j = Some g) [0..<length (nodes cg)]"
      by (rule filter_cong) (auto simp: eff(3,1))
    then show "getNodes_name cg' g = filter (\<lambda>j. nameAt cg' j = Some g) [0..<length (nodes cg')]"
      using old by (simp add: eff(12,2)) (simp add: eff(3,1))
  qed
  show "wf_edges cg'"
    using wf_cgD(3) [OF wf] by (auto simp: wf_edges_def eff(4-7) hn)
  show "wf_count cg'" using wf_cgD(4) [OF wf] by (simp add: wf_count_def eff)
  show "wf_main cg'" using wf_cgD(5) [OF wf] by (simp add: wf_main_def eff(8) hn)
  show "wf_meta (metaFields cg')" using wf_cgD(7) [OF wf] by (simp add: eff)
  show "wf_dups cg'"
    using wf_cgD(6) [OF wf] set_getNodes_name [OF wf_cgD(2) [OF wf], of f]
    by (auto simp: wf_dups_def eff(3,13) split: if_splits)
qed

lemma getOrInsertNode_cases:
  assumes "wf_cg cg" and "getOrInsertNode f orig v b cg = Inr (i, cg')"
  obtains (found) "cg' = cg" and "nameAt cg i = Some f"
  | (inserted) "\<forall>j. nameAt cg j \<noteq> Some f" and "insert_cg f orig v b cg = Inr (i, cg')"
proof (cases "getFirstNode cg f")
  case (Inl e)
  then show thesis using assms by (simp add: getOrInsertNode_def)
next
  case (Inr node)
  show thesis
  proof (cases node)
    case None
    then show thesis
      using Inr assms that(2) getFirstNode_None_iff [OF assms(1), of f]
      by (auto simp: getOrInsertNode_def)
  next
    case (Some n)
    then have "nameAt cg (nid n) = Some f"
      using Inr getFirstNode_Some(1) [OF assms(1)] by simp
    then show thesis using Inr Some assms that(1) by (auto simp: getOrInsertNode_def)
  qed
qed

lemma wf_getOrInsertNode [wf_intros]:
  "wf_cg cg \<Longrightarrow> getOrInsertNode f orig v b cg = Inr (i, cg') \<Longrightarrow> wf_cg cg'"
  by (metis getOrInsertNode_cases wf_insert_cg)

lemma getOrInsertNode_total:
  assumes "wf_cg cg" and "f \<noteq> []"
  obtains i cg' where "getOrInsertNode f orig v b cg = Inr (i, cg')"
  using assms that insert_cg_nonempty [OF assms(2)]
  by (fastforce simp: getOrInsertNode_def getFirstNode_wf split: list.splits option.splits)

section \<open>Adding and removing edges\<close>

lemma addEdgeInternal_effect:
  assumes "addEdgeInternal a b cg = (r, cg')"
  shows "r \<longleftrightarrow> (a, b) \<notin> edgeSet cg" and "edgeSet cg' = insert (a, b) (edgeSet cg)"
    and "nodes cg' = nodes cg" and "nameIdMap cg' = nameIdMap cg" and "mainNode cg' = mainNode cg"
    and "metaFields cg' = metaFields cg" and "self cg' = self cg" and "numErased cg' = numErased cg"
    and "hasDuplicates cg' = hasDuplicates cg"
proof -
  show "edgeSet cg' = insert (a, b) (edgeSet cg)"
    using assms
    by (cases "(a, b) \<in> edgeSet cg") (auto simp: addEdgeInternal_def insert_absorb, simp_all add: edgeSet_def alist_simps)
qed (use assms in \<open>auto simp: addEdgeInternal_def split: if_splits\<close>)

lemma wf_cg_same_nodesI:
  assumes "wf_cg cg" and "nodes cg' = nodes cg" and "nameIdMap cg' = nameIdMap cg"
    and "mainNode cg' = mainNode cg" and "metaFields cg' = metaFields cg"
    and "numErased cg' = numErased cg" and "hasDuplicates cg' = hasDuplicates cg" and "wf_edges cg'"
  shows "wf_cg cg'"
  using assms wf_nodes_cong [OF assms(2)] wf_names_cong [OF assms(2,3)]
    wf_count_cong [OF assms(2,6)] wf_main_cong [OF assms(2,4)] wf_dups_cong [OF assms(2,7)]
  by (simp add: wf_cg_def)

lemma wf_addEdgeInternal [wf_intros]:
  assumes wf: "wf_cg cg" and "hasNode_id cg a" and "hasNode_id cg b"
    and add: "addEdgeInternal a b cg = (r, cg')"
  shows "wf_cg cg'"
proof (cases "(a, b) \<in> edgeSet cg")
  case True
  then show ?thesis using assms by (simp add: addEdgeInternal_def)
next
  case False
  note eff = addEdgeInternal_effect [OF add]
  have we: "wf_edges cg" using wf by (rule wf_cgD)
  have hn: "hasNode_id cg' = hasNode_id cg" using eff(3) by (rule hasNode_id_cong)
  have ce: "callees cg' x = (if x = a then callees cg a @ [b] else callees cg x)"
    and cr: "callers cg' x = (if x = b then callers cg b @ [a] else callers cg x)"
    and ed: "edges cg' = AList.update (a, b) [] (edges cg)" for x
    using add False by (auto simp: addEdgeInternal_def callees_def callers_def)
  have "wf_edges cg'"
    unfolding wf_edges_def hn eff(2) ce cr ed
    using we assms(2,3) False by (auto simp: alist_simps wf_edgesD mem_callees_iff mem_callers_iff)
  then show ?thesis by (rule wf_cg_same_nodesI [OF wf eff(3-6) eff(8,9)])
qed

lemma removeEdge_id_absent: "(a, b) \<notin> edgeSet cg \<Longrightarrow> removeEdge_id a b cg = Inr (False, cg)"
  by (simp add: removeEdge_id_def)

lemma removeEdge_id_present:
  assumes "wf_cg cg" and "(a, b) \<in> edgeSet cg"
  obtains cg' where "removeEdge_id a b cg = Inr (True, cg')"
    and "edges cg' = AList.delete (a, b) (edges cg)"
    and "edgeSet cg' = edgeSet cg - {(a, b)}" and "nodes cg' = nodes cg" and "wf_cg cg'"
proof -
  have we: "wf_edges cg" using assms(1) by (rule wf_cgD)
  have mem: "b \<in> set (callees cg a)" "a \<in> set (callers cg b)"
    using assms(2) by (simp_all add: mem_callees_iff [OF we] mem_callers_iff [OF we])
  define cg' where "cg' = cg\<lparr>edges := AList.delete (a, b) (edges cg),
      calleeList := (calleeList cg)(a \<mapsto> remove1 b (callees cg a)),
      callerList := (callerList cg)(b \<mapsto> remove1 a (callers cg b))\<rparr>"
  have run: "removeEdge_id a b cg = Inr (True, cg')"
    using assms(2) mem by (simp add: removeEdge_id_def cg'_def callees_def callers_def)
  have es: "edgeSet cg' = edgeSet cg - {(a, b)}"
    by (simp add: cg'_def edgeSet_def alist_simps)
  have hn: "hasNode_id cg' = hasNode_id cg" by (rule hasNode_id_cong) (simp add: cg'_def)
  have ce: "callees cg' x = (if x = a then remove1 b (callees cg a) else callees cg x)"
    and cr: "callers cg' x = (if x = b then remove1 a (callers cg b) else callers cg x)"
    and ed: "edges cg' = AList.delete (a, b) (edges cg)" for x
    by (auto simp: cg'_def callees_def callers_def)
  have "wf_edges cg'"
    unfolding wf_edges_def hn es ce cr ed
    using we by (auto simp: alist_simps wf_edgesD)
  then have "wf_cg cg'"
    by (rule wf_cg_same_nodesI [OF assms(1), rotated -1]) (simp_all add: cg'_def)
  with run es ed show thesis using that by (simp add: cg'_def)
qed

section \<open>Erasing a node\<close>

text \<open>The two loops of \<open>erase\<close>, in closed form: they detach the node on one side each.\<close>

lemma mem_callers_Some: "i \<in> set (callers cg x) \<Longrightarrow> callerList cg x = Some (callers cg x)"
  by (cases "callerList cg x") (simp_all add: callers_def entry_or_empty_def)

lemma mem_callees_Some: "i \<in> set (callees cg x) \<Longrightarrow> calleeList cg x = Some (callees cg x)"
  by (cases "calleeList cg x") (simp_all add: callees_def entry_or_empty_def)

lemma erase_callees_loop:
  assumes "distinct xs" and "\<forall>x \<in> set xs. i \<in> set (callers cg x)"
  shows "\<exists>cg'. foldR (eraseCalleeEdge i) xs cg = Inr cg'
     \<and> cg' = cg\<lparr>edges := edges cg', callerList := callerList cg'\<rparr>
     \<and> edges cg' = filter (\<lambda>p. \<forall>x \<in> set xs. fst p \<noteq> (i, x)) (edges cg)
     \<and> callers cg' = (\<lambda>x. if x \<in> set xs then remove1 i (callers cg x) else callers cg x)"
  using assms
proof (induction xs arbitrary: cg)
  case Nil
  then show ?case by simp
next
  case (Cons x xs)
  define cg1 where "cg1 = cg\<lparr>edges := AList.delete (i, x) (edges cg),
    callerList := (callerList cg)(x \<mapsto> remove1 i (callers cg x))\<rparr>"
  have step: "eraseCalleeEdge i x cg = Inr cg1"
    using Cons.prems mem_callers_Some [of i cg x] by (simp add: eraseCalleeEdge_def cg1_def)
  have callers1: "callers cg1 = (callers cg)(x := remove1 i (callers cg x))"
    by (auto simp: cg1_def callers_def)
  have "\<forall>y \<in> set xs. i \<in> set (callers cg1 y)" and d: "distinct xs"
    using Cons.prems by (auto simp: callers1)
  from Cons.IH [OF this(2,1)] obtain cg' where cg': "foldR (eraseCalleeEdge i) xs cg1 = Inr cg'"
    "cg' = cg1\<lparr>edges := edges cg', callerList := callerList cg'\<rparr>"
    "edges cg' = filter (\<lambda>p. \<forall>x \<in> set xs. fst p \<noteq> (i, x)) (edges cg1)"
    "callers cg' = (\<lambda>x. if x \<in> set xs then remove1 i (callers cg1 x) else callers cg1 x)"
    by blast
  have "cg' = cg\<lparr>edges := edges cg', callerList := callerList cg'\<rparr>"
    by (subst cg'(2)) (simp add: cg1_def)
  moreover have "edges cg' = filter (\<lambda>p. \<forall>y \<in> set (x # xs). fst p \<noteq> (i, y)) (edges cg)"
    by (auto simp: cg'(3) cg1_def AList.delete_eq intro!: filter_cong)
  moreover have "callers cg' =
      (\<lambda>y. if y \<in> set (x # xs) then remove1 i (callers cg y) else callers cg y)"
    using Cons.prems(1) by (auto simp: cg'(4) callers1)
  ultimately show ?case using step cg'(1) by auto
qed

lemma erase_callers_loop:
  assumes "distinct xs" and "\<forall>x \<in> set xs. i \<in> set (callees cg x)"
  shows "\<exists>cg'. foldR (eraseCallerEdge i) xs cg = Inr cg'
     \<and> cg' = cg\<lparr>edges := edges cg', calleeList := calleeList cg'\<rparr>
     \<and> edges cg' = filter (\<lambda>p. \<forall>x \<in> set xs. fst p \<noteq> (x, i)) (edges cg)
     \<and> callees cg' = (\<lambda>x. if x \<in> set xs then remove1 i (callees cg x) else callees cg x)"
  using assms
proof (induction xs arbitrary: cg)
  case Nil
  then show ?case by simp
next
  case (Cons x xs)
  define cg1 where "cg1 = cg\<lparr>edges := AList.delete (x, i) (edges cg),
    calleeList := (calleeList cg)(x \<mapsto> remove1 i (callees cg x))\<rparr>"
  have step: "eraseCallerEdge i x cg = Inr cg1"
    using Cons.prems mem_callees_Some [of i cg x] by (simp add: eraseCallerEdge_def cg1_def)
  have callees1: "callees cg1 = (callees cg)(x := remove1 i (callees cg x))"
    by (auto simp: cg1_def callees_def)
  have "\<forall>y \<in> set xs. i \<in> set (callees cg1 y)" and d: "distinct xs"
    using Cons.prems by (auto simp: callees1)
  from Cons.IH [OF this(2,1)] obtain cg' where cg': "foldR (eraseCallerEdge i) xs cg1 = Inr cg'"
    "cg' = cg1\<lparr>edges := edges cg', calleeList := calleeList cg'\<rparr>"
    "edges cg' = filter (\<lambda>p. \<forall>x \<in> set xs. fst p \<noteq> (x, i)) (edges cg1)"
    "callees cg' = (\<lambda>x. if x \<in> set xs then remove1 i (callees cg1 x) else callees cg1 x)"
    by blast
  have "cg' = cg\<lparr>edges := edges cg', calleeList := calleeList cg'\<rparr>"
    by (subst cg'(2)) (simp add: cg1_def)
  moreover have "edges cg' = filter (\<lambda>p. \<forall>y \<in> set (x # xs). fst p \<noteq> (y, i)) (edges cg)"
    by (auto simp: cg'(3) cg1_def AList.delete_eq intro!: filter_cong)
  moreover have "callees cg' =
      (\<lambda>y. if y \<in> set (x # xs) then remove1 i (callees cg y) else callees cg y)"
    using Cons.prems(1) by (auto simp: cg'(4) callees1)
  ultimately show ?case using step cg'(1) by auto
qed

text \<open>The entry-function bookkeeping touches the cached main node and the global metadata only.\<close>

lemma get_EntryFunctionMD_wf:
  assumes "wf_meta (metaFields g)"
  obtains md where "get_EntryFunctionMD g = Inr md"
proof (cases "map_of (metaFields g) ''entryFunction''")
  case None
  then show thesis using that by (simp add: get_EntryFunctionMD_def)
next
  case (Some d)
  with wf_metaD [OF assms Some] show thesis
    using that by (cases d) (simp_all add: get_EntryFunctionMD_def)
qed

lemma eraseMainEntry_total:
  assumes "wf_meta (metaFields cg)"
  obtains m mf where "eraseMainEntry i cg = Inr (cg\<lparr>mainNode := m, metaFields := mf\<rparr>)"
    and "wf_meta mf" and "m \<noteq> Some i" and "m = None \<or> m = mainNode cg"
proof -
  obtain md where md: "get_EntryFunctionMD cg = Inr md" using assms by (rule get_EntryFunctionMD_wf)
  show thesis
  proof (cases "mainNode cg = Some i")
    case False
    then show thesis using that [of "metaFields cg" "mainNode cg"] assms by (simp add: eraseMainEntry_def)
  next
    case True
    show thesis
    proof (cases "\<exists>e. md = Some e \<and> entryFunction e = Some i")
      case True': True
      then show thesis
        using that [of "AList.delete ''entryFunction'' (metaFields cg)" None] assms md True
        by (auto simp: eraseMainEntry_def erase_md_def wf_meta_delete)
    next
      case False
      then show thesis
        using that [of "metaFields cg" None] assms md True
        by (cases md) (auto simp: eraseMainEntry_def)
    qed
  qed
qed

lemma eraseEdgesOf_wf:
  assumes we: "wf_edges cg"
  obtains cg' where "eraseEdgesOf i cg = Inr cg'"
    and "cg' = cg\<lparr>edges := edges cg', callerList := callerList cg', calleeList := calleeList cg'\<rparr>"
    and "edges cg' = filter (\<lambda>p. fst (fst p) \<noteq> i \<and> snd (fst p) \<noteq> i) (edges cg)"
    and "callees cg' = (\<lambda>x. if x = i then [] else remove1 i (callees cg x))"
    and "callers cg' = (\<lambda>x. if x = i then [] else remove1 i (callers cg x))"
proof -
  define xs where "xs = callees cg i"
  have "distinct xs" "\<forall>x \<in> set xs. i \<in> set (callers cg x)"
    by (simp_all add: xs_def wf_edgesD [OF we])
  from erase_callees_loop [OF this] obtain cg1 where l1: "foldR (eraseCalleeEdge i) xs cg = Inr cg1"
    "cg1 = cg\<lparr>edges := edges cg1, callerList := callerList cg1\<rparr>"
    "edges cg1 = filter (\<lambda>p. \<forall>x \<in> set xs. fst p \<noteq> (i, x)) (edges cg)"
    "callers cg1 = (\<lambda>x. if x \<in> set xs then remove1 i (callers cg x) else callers cg x)"
    by blast
  define cg2 where "cg2 = cg1\<lparr>calleeList := (calleeList cg1)(i := None)\<rparr>"
  have callees2: "callees cg2 = (callees cg)(i := [])"
    by (subst cg2_def, subst l1(2)) (auto simp: callees_def)
  have callers2: "callers cg2 = callers cg1" by (simp add: cg2_def callers_def fun_eq_iff)
  define ys where "ys = callers cg2 i"
  have ys_set: "set ys = {a. (a, i) \<in> edgeSet cg} - {i}"
    by (auto simp: ys_def callers2 l1(4) xs_def wf_edgesD [OF we])
  have "distinct ys" "\<forall>x \<in> set ys. i \<in> set (callees cg2 x)"
    by (simp_all add: ys_set callees2 wf_edgesD [OF we])
       (simp add: ys_def callers2 l1(4) wf_edgesD [OF we])
  from erase_callers_loop [OF this] obtain cg3 where l3: "foldR (eraseCallerEdge i) ys cg2 = Inr cg3"
    "cg3 = cg2\<lparr>edges := edges cg3, calleeList := calleeList cg3\<rparr>"
    "edges cg3 = filter (\<lambda>p. \<forall>x \<in> set ys. fst p \<noteq> (x, i)) (edges cg2)"
    "callees cg3 = (\<lambda>x. if x \<in> set ys then remove1 i (callees cg2 x) else callees cg2 x)"
    by blast
  define cg' where "cg' = cg3\<lparr>callerList := (callerList cg3)(i := None)\<rparr>"
  have kept: "((\<forall>x \<in> set xs. fst p \<noteq> (i, x)) \<and> (\<forall>x \<in> set ys. fst p \<noteq> (x, i)))
      = (fst (fst p) \<noteq> i \<and> snd (fst p) \<noteq> i)" if "p \<in> set (edges cg)" for p
  proof -
    have "fst p \<in> edgeSet cg" using that by (auto simp: edgeSet_def)
    then show ?thesis by (cases "fst p") (auto simp: ys_set xs_def wf_edgesD [OF we])
  qed
  show thesis
  proof (rule that)
    show "eraseEdgesOf i cg = Inr cg'"
      using l1(1) l3(1)
      by (simp add: eraseEdgesOf_def xs_def [symmetric] callees_def [symmetric] Let_def
          callers_def [symmetric] cg2_def [symmetric] ys_def [symmetric] cg'_def [symmetric])
    show "cg' = cg\<lparr>edges := edges cg', callerList := callerList cg', calleeList := calleeList cg'\<rparr>"
      unfolding cg'_def by (subst l3(2), simp add: cg2_def, subst l1(2), simp)
    show "edges cg' = filter (\<lambda>p. fst (fst p) \<noteq> i \<and> snd (fst p) \<noteq> i) (edges cg)"
      by (simp add: cg'_def l3(3) cg2_def l1(3) kept cong: filter_cong)
    have "callees cg' = callees cg3" by (simp add: cg'_def callees_def fun_eq_iff)
    then show "callees cg' = (\<lambda>x. if x = i then [] else remove1 i (callees cg x))"
      by (auto simp: l3(4) callees2 ys_set wf_edgesD [OF we] remove1_idem)
    have "callerList cg3 = callerList cg1" by (subst l3(2)) (simp add: cg2_def)
    then have "callers cg' = (callers cg1)(i := [])" by (auto simp: cg'_def callers_def)
    then show "callers cg' = (\<lambda>x. if x = i then [] else remove1 i (callers cg x))"
      by (auto simp: l1(4) xs_def wf_edgesD [OF we] remove1_idem)
  qed
qed

lemma erase_cg_dead: "\<not> hasNode_id cg i \<Longrightarrow> erase_cg i cg = Inr (False, cg)"
  by (simp add: erase_cg_def)

text \<open>Erasing a live node always succeeds; the result, part by part.\<close>

lemma erase_cg_live:
  assumes wf: "wf_cg cg" and live: "nodes cg ! i = Some n" "i < length (nodes cg)"
  obtains cg' where "erase_cg i cg = Inr (True, cg')"
    and "nodes cg' = (nodes cg)[i := None]"
    and "edges cg' = filter (\<lambda>p. fst (fst p) \<noteq> i \<and> snd (fst p) \<noteq> i) (edges cg)"
    and "callees cg' = (\<lambda>x. if x = i then [] else remove1 i (callees cg x))"
    and "callers cg' = (\<lambda>x. if x = i then [] else remove1 i (callers cg x))"
    and "getNodes_name cg' = (getNodes_name cg)(functionName n := remove1 i (getNodes_name cg (functionName n)))"
    and "numErased cg' = Suc (numErased cg)" and "hasDuplicates cg' = hasDuplicates cg"
    and "mainNode cg' \<noteq> Some i" and "mainNode cg' = None \<or> mainNode cg' = mainNode cg"
    and "wf_meta (metaFields cg')" and "self cg' = self cg"
proof -
  obtain cg1 where cg1: "eraseEdgesOf i cg = Inr cg1"
    "cg1 = cg\<lparr>edges := edges cg1, callerList := callerList cg1, calleeList := calleeList cg1\<rparr>"
    "edges cg1 = filter (\<lambda>p. fst (fst p) \<noteq> i \<and> snd (fst p) \<noteq> i) (edges cg)"
    "callees cg1 = (\<lambda>x. if x = i then [] else remove1 i (callees cg x))"
    "callers cg1 = (\<lambda>x. if x = i then [] else remove1 i (callers cg x))"
    using wf_cgD(3) [OF wf] by (rule eraseEdgesOf_wf)
  have frame: "nodes cg1 = nodes cg" "metaFields cg1 = metaFields cg" "mainNode cg1 = mainNode cg"
    "getNodes_name cg1 = getNodes_name cg" "numErased cg1 = numErased cg"
    "hasDuplicates cg1 = hasDuplicates cg" "self cg1 = self cg"
    by (subst cg1(2), simp add: getNodes_name_def fun_eq_iff)+
  obtain m mf where main: "eraseMainEntry i cg1 = Inr (cg1\<lparr>mainNode := m, metaFields := mf\<rparr>)"
    "wf_meta mf" "m \<noteq> Some i" "m = None \<or> m = mainNode cg1"
    using wf_cgD(7) [OF wf] frame(2) by (metis eraseMainEntry_total)
  define cg2 where "cg2 = cg1\<lparr>mainNode := m, metaFields := mf\<rparr>"
  have names2: "getNodes_name cg2 = getNodes_name cg" by (simp add: cg2_def frame)
  have mem: "i \<in> set (getNodes_name cg (functionName n))"
    using set_getNodes_name [OF wf_cgD(2) [OF wf], of "functionName n"] live by (simp add: nameAt_def)
  define cg' where "cg' = cg2\<lparr>
    nameIdMap := (nameIdMap cg2)(functionName n \<mapsto> remove1 i (getNodes_name cg (functionName n))),
    nodes := (nodes cg2)[i := None], numErased := Suc (numErased cg2)\<rparr>"
  show thesis
  proof (rule that)
    show "erase_cg i cg = Inr (True, cg')"
      using live cg1(1) main(1) mem frame(1) names2
      by (simp add: erase_cg_def hasNode_id_def cg2_def [symmetric] cg'_def [symmetric])
    show "getNodes_name cg' = (getNodes_name cg)
        (functionName n := remove1 i (getNodes_name cg (functionName n)))"
      using names2 by (auto simp: cg'_def getNodes_name_def fun_eq_iff)
    show "callees cg' = (\<lambda>x. if x = i then [] else remove1 i (callees cg x))"
      using cg1(4) by (simp add: cg'_def cg2_def callees_def fun_eq_iff)
    show "callers cg' = (\<lambda>x. if x = i then [] else remove1 i (callers cg x))"
      using cg1(5) by (simp add: cg'_def cg2_def callers_def fun_eq_iff)
  qed (use main cg1(3) in \<open>simp_all add: cg'_def cg2_def frame\<close>)
qed

lemma nameAt_erased:
  "nodes cg' = (nodes cg)[i := None] \<Longrightarrow> nameAt cg' = (nameAt cg)(i := None)"
  by (auto simp: nameAt_def fun_eq_iff nth_list_update)

lemma edgeSet_filter_ends:
  "edges cg' = filter (\<lambda>p. fst (fst p) \<noteq> i \<and> snd (fst p) \<noteq> i) (edges cg)
   \<Longrightarrow> edgeSet cg' = {(a, b) \<in> edgeSet cg. a \<noteq> i \<and> b \<noteq> i}"
  by (force simp: edgeSet_def)

lemma count_erased:
  assumes "i < length xs" and "xs ! i = Some n"
  shows "length (filter (\<lambda>n. n = None) (xs[i := None])) = Suc (length (filter (\<lambda>n. n = None) xs))"
  using assms
proof (induction xs arbitrary: i)
  case (Cons x xs)
  then show ?case by (cases i) auto
qed simp

lemma wf_erase_cg_live:
  assumes wf: "wf_cg cg" and live: "nodes cg ! i = Some n" "i < length (nodes cg)"
  shows "\<exists>cg'. erase_cg i cg = Inr (True, cg') \<and> wf_cg cg'
     \<and> nameAt cg' = (nameAt cg)(i := None) \<and> edgeSet cg' = {(a, b) \<in> edgeSet cg. a \<noteq> i \<and> b \<noteq> i}
     \<and> length (nodes cg') = length (nodes cg)"
proof -
  obtain cg' where e: "erase_cg i cg = Inr (True, cg')"
    and ns: "nodes cg' = (nodes cg)[i := None]"
    and ed: "edges cg' = filter (\<lambda>p. fst (fst p) \<noteq> i \<and> snd (fst p) \<noteq> i) (edges cg)"
    and ce: "callees cg' = (\<lambda>x. if x = i then [] else remove1 i (callees cg x))"
    and cr: "callers cg' = (\<lambda>x. if x = i then [] else remove1 i (callers cg x))"
    and gn: "getNodes_name cg' =
      (getNodes_name cg)(functionName n := remove1 i (getNodes_name cg (functionName n)))"
    and num: "numErased cg' = Suc (numErased cg)" and dup: "hasDuplicates cg' = hasDuplicates cg"
    and main: "mainNode cg' \<noteq> Some i" "mainNode cg' = None \<or> mainNode cg' = mainNode cg"
    and meta: "wf_meta (metaFields cg')"
    using wf live by (rule erase_cg_live)
  note names = nameAt_erased [OF ns] and es = edgeSet_filter_ends [OF ed]
  have we: "wf_edges cg" using wf by (rule wf_cgD)
  have hn: "hasNode_id cg' j \<longleftrightarrow> hasNode_id cg j \<and> j \<noteq> i" for j
    by (simp add: hasNode_id_iff_nameAt names)
  have "wf_cg cg'"
  proof (rule wf_cgI)
    show "wf_nodes cg'"
      using wf_cgD(1) [OF wf] live(2) by (auto simp: wf_nodes_def ns nth_list_update split: if_splits)
    show "wf_names cg'"
      using wf_cgD(2) [OF wf] live
      by (auto simp: wf_names_def gn names ns remove1_filter_upt nameAt_def intro!: filter_cong)
    show "wf_edges cg'"
      unfolding wf_edges_def es ce cr ed hn using we
      by (auto simp: wf_edgesD distinct_map_filter)
    show "wf_count cg'"
      using wf_cgD(4) [OF wf] live by (simp add: wf_count_def num ns count_erased)
    show "wf_main cg'" using wf_cgD(5) [OF wf] main by (auto simp: wf_main_def hn)
    show "wf_dups cg'" using wf_cgD(6) [OF wf] by (auto simp: wf_dups_def dup names split: if_splits)
  qed (rule meta)
  with e names es ns show ?thesis by auto
qed

lemma wf_erase_cg [wf_intros]:
  assumes "wf_cg cg" and "erase_cg i cg = Inr (r, cg')"
  shows "wf_cg cg'"
proof (cases "hasNode_id cg i")
  case True
  then obtain n where "nodes cg ! i = Some n" "i < length (nodes cg)" by (auto simp: hasNode_id_def)
  from wf_erase_cg_live [OF assms(1) this] assms(2) show ?thesis by auto
qed (use assms in \<open>simp add: erase_cg_dead\<close>)

section \<open>The public edge operations, the entry function and edge metadata\<close>

lemma hasNode_ref_id: "hasNode_ref cg (g, i) \<longleftrightarrow> hasNode_id cg i \<and> g = self cg"
  by (auto simp: hasNode_ref_def hasNode_id_def)

lemma addEdge_ref_effect:
  "addEdge_ref (g, a) (h, b) cg =
     (if hasNode_id cg a \<and> hasNode_id cg b \<and> g = self cg \<and> h = self cg
      then addEdgeInternal a b cg else (False, cg))"
  by (auto simp: addEdge_ref_def hasNode_ref_id)

lemma wf_addEdge_ref [wf_intros]: "wf_cg cg \<Longrightarrow> addEdge_ref p c cg = (r, cg') \<Longrightarrow> wf_cg cg'"
  by (cases p; cases c) (auto simp: addEdge_ref_effect split: if_splits intro: wf_addEdgeInternal)

lemma getNode_eq_hasNode: "getNode cg i = Inr n \<Longrightarrow> hasNode_id cg i \<longleftrightarrow> n \<noteq> None"
  by (auto simp: getNode_def nthR_def hasNode_id_def split: if_splits)

lemma addEdge_id_cases:
  assumes "addEdge_id a b cg = Inr (r, cg')"
  shows "(hasNode_id cg a \<and> hasNode_id cg b \<and> addEdgeInternal a b cg = (r, cg'))
     \<or> (\<not> (hasNode_id cg a \<and> hasNode_id cg b) \<and> \<not> r \<and> cg' = cg)"
  using assms by (auto simp: addEdge_id_def bindR_eq_Inr_iff getNode_eq_hasNode split: if_splits)

lemma addEdge_id_live:
  "hasNode_id cg a \<Longrightarrow> hasNode_id cg b \<Longrightarrow> addEdge_id a b cg = Inr (addEdgeInternal a b cg)"
  by (auto simp: addEdge_id_def hasNode_id_def getNode_less)

lemma wf_addEdge_id [wf_intros]: "wf_cg cg \<Longrightarrow> addEdge_id a b cg = Inr (r, cg') \<Longrightarrow> wf_cg cg'"
  by (drule addEdge_id_cases) (auto intro: wf_addEdgeInternal)

lemma wf_addEdge_name [wf_intros]: "wf_cg cg \<Longrightarrow> addEdge_name f g cg = Inr (r, cg') \<Longrightarrow> wf_cg cg'"
  by (auto simp: addEdge_name_def Let_def split: if_splits intro: wf_addEdge_id)

lemma wf_removeEdge_id [wf_intros]:
  assumes "wf_cg cg" and "removeEdge_id a b cg = Inr (r, cg')"
  shows "wf_cg cg'"
proof (cases "(a, b) \<in> edgeSet cg")
  case True
  with assms show ?thesis using removeEdge_id_present [OF assms(1) True] by (metis Inr_inject prod.inject)
qed (use assms in \<open>simp add: removeEdge_id_absent\<close>)

lemma wf_removeEdge_ref [wf_intros]: "wf_cg cg \<Longrightarrow> removeEdge_ref p c cg = Inr (r, cg') \<Longrightarrow> wf_cg cg'"
  by (auto simp: removeEdge_ref_def split: if_splits intro: wf_removeEdge_id)

lemma wf_removeEdge_name [wf_intros]:
  "wf_cg cg \<Longrightarrow> removeEdge_name f g cg = Inr (r, cg') \<Longrightarrow> wf_cg cg'"
  by (auto simp: removeEdge_name_def Let_def split: if_splits intro: wf_removeEdge_id)

lemma map_fst_update_present:
  "k \<in> fst ` set m \<Longrightarrow> map fst (AList.update k v m) = map fst m"
  by (induction m) auto

lemma addEdgeMetaData_id_effect:
  assumes "addEdgeMetaData_id k e md cg = (r, cg')"
  shows "r \<longleftrightarrow> e \<in> edgeSet cg" and "cg' = cg\<lparr>edges := edges cg'\<rparr>"
    and "map fst (edges cg') = map fst (edges cg)"
    and "getEdgeMetaData_id cg' e' k' =
      (if r \<and> e' = e \<and> k' = k then Some md else getEdgeMetaData_id cg e' k')"
proof -
  show "getEdgeMetaData_id cg' e' k' =
      (if r \<and> e' = e \<and> k' = k then Some md else getEdgeMetaData_id cg e' k')"
    using assms
    by (cases "map_of (edges cg) e")
      (auto simp: addEdgeMetaData_id_def getEdgeMetaData_id_def alist_simps)
qed (use assms in \<open>auto simp: addEdgeMetaData_id_def edgeSet_def map_fst_update_present
      map_of_SomeD_key map_of_None_iff split: option.splits\<close>)

lemma wf_addEdgeMetaData_id [wf_intros]:
  assumes "wf_cg cg" and "addEdgeMetaData_id k e md cg = (r, cg')"
  shows "wf_cg cg'"
proof -
  note eff = addEdgeMetaData_id_effect [OF assms(2)]
  have sel: "nodes cg' = nodes cg" "nameIdMap cg' = nameIdMap cg" "mainNode cg' = mainNode cg"
    "metaFields cg' = metaFields cg" "numErased cg' = numErased cg"
    "hasDuplicates cg' = hasDuplicates cg" "calleeList cg' = calleeList cg"
    "callerList cg' = callerList cg"
    by (subst eff(2), simp)+
  show ?thesis
    by (rule wf_cg_same_nodesI [OF assms(1) sel(1-6)])
      (use wf_edges_cong [OF sel(1) eff(3) sel(7,8)] assms(1) in \<open>simp add: wf_cgD\<close>)
qed

lemma wf_addEdgeMetaData_ref [wf_intros]:
  "wf_cg cg \<Longrightarrow> addEdgeMetaData_ref k p c md cg = (r, cg') \<Longrightarrow> wf_cg cg'"
  by (auto simp: addEdgeMetaData_ref_def split: if_splits intro: wf_addEdgeMetaData_id)

section \<open>Writes through node references\<close>

lemma modifyNode_simps [simp]:
  "edges (modifyNode i f cg) = edges cg" "edgeSet (modifyNode i f cg) = edgeSet cg"
  "callees (modifyNode i f cg) = callees cg" "callers (modifyNode i f cg) = callers cg"
  "getNodes_name (modifyNode i f cg) = getNodes_name cg" "mainNode (modifyNode i f cg) = mainNode cg"
  "metaFields (modifyNode i f cg) = metaFields cg" "self (modifyNode i f cg) = self cg"
  "numErased (modifyNode i f cg) = numErased cg" "length (nodes (modifyNode i f cg)) = length (nodes cg)"
  "hasDuplicates (modifyNode i f cg) = hasDuplicates cg"
  by (simp_all add: modifyNode_def edgeSet_def callees_def callers_def getNodes_name_def fun_eq_iff)

lemma nodes_modifyNode:
  "j < length (nodes cg) \<Longrightarrow>
   nodes (modifyNode i f cg) ! j = (if j = i then map_option f (nodes cg ! j) else nodes cg ! j)"
  by (simp add: modifyNode_def nth_list_update)

lemma hasNode_modifyNode [simp]: "hasNode_id (modifyNode i f cg) = hasNode_id cg"
  by (auto simp: hasNode_id_def fun_eq_iff nodes_modifyNode split: if_splits)

lemma nameAt_modifyNode:
  assumes "\<And>n. nodes cg ! i = Some n \<Longrightarrow> functionName (f n) = functionName n"
  shows "nameAt (modifyNode i f cg) = nameAt cg"
proof
  fix j
  show "nameAt (modifyNode i f cg) j = nameAt cg j"
    using assms by (cases "nodes cg ! j") (auto simp: nameAt_def nodes_modifyNode)
qed

lemma wf_modifyNode:
  assumes wf: "wf_cg cg"
    and f: "\<And>n. nodes cg ! i = Some n \<Longrightarrow> functionName (f n) = functionName n"
      "\<And>n. nodes cg ! i = Some n \<Longrightarrow> nid (f n) = nid n"
      "\<And>n. nodes cg ! i = Some n \<Longrightarrow> wf_meta (metaFields n) \<Longrightarrow> wf_meta (metaFields (f n))"
  shows "wf_cg (modifyNode i f cg)"
proof (rule wf_cgI)
  note names = nameAt_modifyNode [OF f(1)]
  show "wf_nodes (modifyNode i f cg)"
    unfolding wf_nodes_def
  proof (intro allI impI)
    fix j n assume j: "j < length (nodes (modifyNode i f cg))" "nodes (modifyNode i f cg) ! j = Some n"
    then obtain n' where n': "nodes cg ! j = Some n'" "n = (if j = i then f n' else n')"
      by (auto simp: nodes_modifyNode split: if_splits)
    moreover have "nid n' = j \<and> functionName n' \<noteq> [] \<and> wf_meta (metaFields n')"
      using wf_cgD(1) [OF wf] j n' by (simp add: wf_nodes_def)
    ultimately show "nid n = j \<and> functionName n \<noteq> [] \<and> wf_meta (metaFields n)" using f by auto
  qed
  show "wf_names (modifyNode i f cg)" using wf_cgD(2) [OF wf] by (simp add: wf_names_def names)
  show "wf_edges (modifyNode i f cg)" using wf_cgD(3) [OF wf] by (simp add: wf_edges_def)
  show "wf_main (modifyNode i f cg)" using wf_cgD(5) [OF wf] by (simp add: wf_main_def)
  show "wf_dups (modifyNode i f cg)" using wf_cgD(6) [OF wf] by (simp add: wf_dups_def names)
  have "map (\<lambda>n. n = None) (nodes (modifyNode i f cg)) = map (\<lambda>n. n = None) (nodes cg)"
    by (rule nth_equalityI) (auto simp: nodes_modifyNode)
  then have "filter (\<lambda>n. n) (map (\<lambda>n. n = None) (nodes (modifyNode i f cg)))
      = filter (\<lambda>n. n) (map (\<lambda>n. n = None) (nodes cg))" by simp
  then show "wf_count (modifyNode i f cg)"
    using wf_cgD(4) [OF wf]
    by (simp add: wf_count_def filter_map comp_def) (metis length_map)
  show "wf_meta (metaFields (modifyNode i f cg))" using wf_cgD(7) [OF wf] by simp
qed

lemma wf_node_addMetaData [wf_intros]: "wf_cg cg \<Longrightarrow> wf_cg (modifyNode i (addMetaData md) cg)"
  by (rule wf_modifyNode) (simp_all add: addMetaData_def wf_meta_update)

lemma wf_node_setVirtual [wf_intros]: "wf_cg cg \<Longrightarrow> wf_cg (modifyNode i (setVirtual v) cg)"
  by (rule wf_modifyNode) (simp_all add: setVirtual_def erase_md_def wf_meta_delete wf_meta_getOrCreate)

lemma wf_node_setters [wf_intros]:
  "wf_cg cg \<Longrightarrow> wf_cg (modifyNode i (setHasBody b) cg)"
  "wf_cg cg \<Longrightarrow> wf_cg (modifyNode i (setOrigin orig) cg)"
  by (rule wf_modifyNode; simp add: setHasBody_def setOrigin_def)+

section \<open>The entry function\<close>

lemma firstNamed_wf:
  assumes "wf_cg cg"
  shows "\<exists>m. firstNamed cg fs = Inr m \<and> (\<forall>i. m = Some i \<longrightarrow> (\<exists>f \<in> set fs. nameAt cg i = Some f))
     \<and> (m = None \<longrightarrow> (\<forall>f \<in> set fs. \<forall>i. nameAt cg i \<noteq> Some f))"
proof (induction fs)
  case Nil
  then show ?case by simp
next
  case (Cons f fs)
  show ?case
  proof (cases "getFirstNode cg f = Inr None")
    case True
    then show ?thesis using Cons getFirstNode_None_iff [OF assms, of f] by auto
  next
    case False
    then obtain n where n: "getFirstNode cg f = Inr (Some n)" by (auto simp: getFirstNode_wf [OF assms])
    then show ?thesis using getFirstNode_Some(1) [OF assms n] by auto
  qed
qed

text \<open>The node the entry-function metadata names, where it names one.\<close>

definition entryId :: "Callgraph \<Rightarrow> NodeId option" where
  "entryId cg =
     (case map_of (metaFields cg) ''entryFunction'' of
        Some (EntryFunctionMD e) \<Rightarrow> entryFunction e
      | _ \<Rightarrow> None)"

lemma entryId_get:
  "get_EntryFunctionMD cg = Inr md \<Longrightarrow> entryId cg = (case md of None \<Rightarrow> None | Some e \<Rightarrow> entryFunction e)"
  by (auto simp: entryId_def get_EntryFunctionMD_def split: option.splits MetaData.splits)

lemma getMain_wf:
  assumes wf: "wf_cg cg" and "entryId cg \<noteq> Some (length (nodes cg))"
  shows "\<exists>m. getMain cg force = Inr (m, cg\<lparr>mainNode := m\<rparr>)
    \<and> (\<forall>i. m = Some i \<longrightarrow> hasNode_id cg i)"
proof (cases "\<not> force \<and> mainNode cg \<noteq> None")
  case True
  then have "getMain cg force = Inr (mainNode cg, cg\<lparr>mainNode := mainNode cg\<rparr>)"
    by (simp add: getMain_def)
  then show ?thesis using wf_cgD(5) [OF wf] by (auto simp: wf_main_def)
next
  case False
  obtain md where md: "get_EntryFunctionMD cg = Inr md"
    using wf_cgD(7) [OF wf] by (rule get_EntryFunctionMD_wf)
  have eid: "entryId cg = (case md of None \<Rightarrow> None | Some e \<Rightarrow> entryFunction e)"
    using md by (rule entryId_get)
  define entry where "entry = (case entryId cg of Some i \<Rightarrow> (if i < length (nodes cg) then nodes cg ! i else None) | None \<Rightarrow> None)"
  have entry: "(case md of None \<Rightarrow> Inr None
      | Some e \<Rightarrow> (case entryFunction e of None \<Rightarrow> Inr None | Some i \<Rightarrow> getNode cg i)) = Inr entry"
    using assms(2) eid
    by (auto simp: entry_def getNode_def nthR_def split: option.splits)
  have entry_nid: "hasNode_id cg (nid n)" if "entry = Some n" for n
    using that wf_cgD(1) [OF wf]
    by (auto simp: entry_def wf_nodes_def hasNode_id_def split: option.splits if_splits)
  obtain m where m: "firstNamed cg mainNames = Inr m" "\<forall>i. m = Some i \<longrightarrow> hasNode_id cg i"
    using firstNamed_wf [OF wf, of mainNames] by (auto dest: nameAt_SomeD)
  then show ?thesis
    using False md entry entry_nid by (auto simp: getMain_def split: option.splits)
qed

lemma wf_getMain [wf_intros]:
  assumes "wf_cg cg" and "getMain cg force = Inr (m, cg')"
  shows "wf_cg cg'"
proof (cases "entryId cg = Some (length (nodes cg))")
  case False
  from getMain_wf [OF assms(1) this, of force] obtain m' where
    "getMain cg force = Inr (m', cg\<lparr>mainNode := m'\<rparr>)" "\<forall>i. m' = Some i \<longrightarrow> hasNode_id cg i"
    by blast
  then show ?thesis using assms by (auto intro: wf_cg_mainNode_upd)
next
  case True
  then show ?thesis
    using assms
    by (auto simp: getMain_def entryId_def get_EntryFunctionMD_def getNode_size
        split: option.splits MetaData.splits if_splits)
qed

section \<open>Neighbours\<close>

lemma neighbourPtrs_wf:
  assumes "\<And>x. x \<in> set l \<Longrightarrow> hasNode_id cg x" and "distinct l"
  shows "neighbourPtrs cg (Some l) = Inr (map Some l)"
proof -
  have "mapR (\<lambda>elem. bindR (nthR (nodes cg) elem) (\<lambda>n. Inr (map_option (\<lambda>_. elem) n))) l
      = Inr (map Some l)"
    using assms(1) by (intro mapR_eq_Inr) (auto simp: hasNode_id_def)
  then show ?thesis using assms(2) by (simp add: neighbourPtrs_def distinct_remdups_id distinct_map)
qed

lemma getCallees_id_wf:
  assumes "wf_cg cg"
  shows "getCallees_id cg a = Inr (map Some (callees cg a))"
proof (cases "calleeList cg a")
  case None
  then show ?thesis by (simp add: getCallees_id_def callees_def entry_or_empty_def neighbourPtrs_def)
next
  case (Some l)
  then have "l = callees cg a" by (simp add: callees_def entry_or_empty_def)
  with neighbourPtrs_wf [of l cg] Some show ?thesis
    using wf_edgesD [OF wf_cgD(3) [OF assms]] by (simp add: getCallees_id_def)
qed

lemma getCallers_id_wf:
  assumes "wf_cg cg"
  shows "getCallers_id cg a = Inr (map Some (callers cg a))"
proof (cases "callerList cg a")
  case None
  then show ?thesis by (simp add: getCallers_id_def callers_def entry_or_empty_def neighbourPtrs_def)
next
  case (Some l)
  then have "l = callers cg a" by (simp add: callers_def entry_or_empty_def)
  with neighbourPtrs_wf [of l cg] Some show ?thesis
    using wf_edgesD [OF wf_cgD(3) [OF assms]] by (simp add: getCallers_id_def)
qed

end
