(* ===== verification/Callgraph_Spec.thy ===== *)
theory Callgraph_Spec
  imports Callgraph_Inv
begin

text \<open>
  The contract of \<open>Callgraph\<close> as an abstract graph: a partial function from node IDs to names, a
  set of edges, the next free ID, the entry function the global metadata names and the cached main
  node. Every public
  operation of the class has an abstract counterpart (\<open>cg_abs_step\<close>) and a set of states in which
  it does not return (\<open>cg_op_fails\<close>); \<open>cg_step\<close> runs the operation of the model.
\<close>

record AbsGraph =
  names :: "NodeId \<rightharpoonup> string"
  arcs :: "(NodeId \<times> NodeId) set"
  next_id :: NodeId
  entry_id :: "NodeId option"
  main_id :: "NodeId option"

definition abs_cg :: "Callgraph \<Rightarrow> AbsGraph" where
  "abs_cg cg = \<lparr>names = nameAt cg, arcs = edgeSet cg, next_id = length (nodes cg),
     entry_id = entryId cg, main_id = mainNode cg\<rparr>"

section \<open>Operations\<close>

datatype cg_op =
    OpInsert string "string option" bool bool
  | OpGetOrInsert string "string option" bool bool
  | OpErase NodeId
  | OpAddEdge NodeId NodeId
  | OpAddEdgeNames string string
  | OpRemoveEdge NodeId NodeId
  | OpRemoveEdgeNames string string
  | OpAddEdgeMetaData string "NodeId \<times> NodeId" MetaData
  | OpNodeMetaData NodeId MetaData
  | OpSetVirtual NodeId bool
  | OpSetHasBody NodeId bool
  | OpSetOrigin NodeId "string option"
  | OpGraphMetaData MetaData
  | OpEraseGraphMetaData string
  | OpGetMain bool
  | OpClear

fun cg_step :: "cg_op \<Rightarrow> Callgraph \<Rightarrow> Callgraph res" where
  "cg_step (OpInsert f orig v b) cg = bindR (insert_cg f orig v b cg) (\<lambda>r. Inr (snd r))"
| "cg_step (OpGetOrInsert f orig v b) cg = bindR (getOrInsertNode f orig v b cg) (\<lambda>r. Inr (snd r))"
| "cg_step (OpErase i) cg = bindR (erase_cg i cg) (\<lambda>r. Inr (snd r))"
| "cg_step (OpAddEdge a b) cg = bindR (addEdge_id a b cg) (\<lambda>r. Inr (snd r))"
| "cg_step (OpAddEdgeNames f g) cg = bindR (addEdge_name f g cg) (\<lambda>r. Inr (snd r))"
| "cg_step (OpRemoveEdge a b) cg = bindR (removeEdge_id a b cg) (\<lambda>r. Inr (snd r))"
| "cg_step (OpRemoveEdgeNames f g) cg = bindR (removeEdge_name f g cg) (\<lambda>r. Inr (snd r))"
| "cg_step (OpAddEdgeMetaData k e md) cg = Inr (snd (addEdgeMetaData_id k e md cg))"
| "cg_step (OpNodeMetaData i md) cg = Inr (modifyNode i (addMetaData md) cg)"
| "cg_step (OpSetVirtual i v) cg = Inr (modifyNode i (setVirtual v) cg)"
| "cg_step (OpSetHasBody i b) cg = Inr (modifyNode i (setHasBody b) cg)"
| "cg_step (OpSetOrigin i orig) cg = Inr (modifyNode i (setOrigin orig) cg)"
| "cg_step (OpGraphMetaData md) cg = Inr (addMetaData md cg)"
| "cg_step (OpEraseGraphMetaData k) cg = Inr (snd (erase_md k cg))"
| "cg_step (OpGetMain force) cg = bindR (getMain cg force) (\<lambda>r. Inr (snd r))"
| "cg_step OpClear cg = Inr (clear_cg cg)"

section \<open>The abstract operations\<close>

definition live_arc :: "AbsGraph \<Rightarrow> NodeId \<Rightarrow> NodeId \<Rightarrow> bool" where
  "live_arc g a b \<longleftrightarrow> names g a \<noteq> None \<and> names g b \<noteq> None"

definition abs_insert :: "string \<Rightarrow> AbsGraph \<Rightarrow> AbsGraph" where
  "abs_insert f g = g\<lparr>names := (names g)(next_id g \<mapsto> f), next_id := Suc (next_id g)\<rparr>"

definition abs_addArc :: "NodeId \<Rightarrow> NodeId \<Rightarrow> AbsGraph \<Rightarrow> AbsGraph" where
  "abs_addArc a b g = (if live_arc g a b then g\<lparr>arcs := insert (a, b) (arcs g)\<rparr> else g)"

definition abs_removeArc :: "NodeId \<Rightarrow> NodeId \<Rightarrow> AbsGraph \<Rightarrow> AbsGraph" where
  "abs_removeArc a b g = g\<lparr>arcs := arcs g - {(a, b)}\<rparr>"

text \<open>The only node with a given name, if there is exactly one.\<close>

definition the_named :: "AbsGraph \<Rightarrow> string \<Rightarrow> NodeId option" where
  "the_named g f = (case filter (\<lambda>i. names g i = Some f) [0..<next_id g] of [i] \<Rightarrow> Some i | _ \<Rightarrow> None)"

definition on_named ::
  "(NodeId \<Rightarrow> NodeId \<Rightarrow> AbsGraph \<Rightarrow> AbsGraph) \<Rightarrow> string \<Rightarrow> string \<Rightarrow> AbsGraph \<Rightarrow> AbsGraph" where
  "on_named h f f' g =
     (case the_named g f of
        None \<Rightarrow> g
      | Some a \<Rightarrow> (case the_named g f' of None \<Rightarrow> g | Some b \<Rightarrow> h a b g))"

definition first_named :: "AbsGraph \<Rightarrow> string \<Rightarrow> NodeId option" where
  "first_named g f = find (\<lambda>i. names g i = Some f) [0..<next_id g]"

fun first_of :: "AbsGraph \<Rightarrow> string list \<Rightarrow> NodeId option" where
  "first_of g [] = None"
| "first_of g (f # fs) = (case first_named g f of Some i \<Rightarrow> Some i | None \<Rightarrow> first_of g fs)"

text \<open>The entry function: the one the metadata names if that node is live, else one of the usual names.\<close>

definition abs_main :: "AbsGraph \<Rightarrow> NodeId option" where
  "abs_main g =
     (case entry_id g of
        Some i \<Rightarrow> if names g i \<noteq> None then Some i else first_of g mainNames
      | None \<Rightarrow> first_of g mainNames)"

definition abs_erase :: "NodeId \<Rightarrow> AbsGraph \<Rightarrow> AbsGraph" where
  "abs_erase i g =
     (if names g i = None then g
      else g\<lparr>names := (names g)(i := None), arcs := {(a, b) \<in> arcs g. a \<noteq> i \<and> b \<noteq> i},
             entry_id := (if main_id g = Some i \<and> entry_id g = Some i then None else entry_id g),
             main_id := (if main_id g = Some i then None else main_id g)\<rparr>)"

fun md_entry :: "MetaData \<Rightarrow> NodeId option \<Rightarrow> NodeId option" where
  "md_entry (EntryFunctionMD e) old = entryFunction e"
| "md_entry _ old = old"

fun cg_abs_step :: "cg_op \<Rightarrow> AbsGraph \<Rightarrow> AbsGraph" where
  "cg_abs_step (OpInsert f orig v b) g = abs_insert f g"
| "cg_abs_step (OpGetOrInsert f orig v b) g = (if f \<in> ran (names g) then g else abs_insert f g)"
| "cg_abs_step (OpErase i) g = abs_erase i g"
| "cg_abs_step (OpAddEdge a b) g = abs_addArc a b g"
| "cg_abs_step (OpAddEdgeNames f f') g = on_named abs_addArc f f' g"
| "cg_abs_step (OpRemoveEdge a b) g = abs_removeArc a b g"
| "cg_abs_step (OpRemoveEdgeNames f f') g = on_named abs_removeArc f f' g"
| "cg_abs_step (OpGraphMetaData md) g = g\<lparr>entry_id := md_entry md (entry_id g)\<rparr>"
| "cg_abs_step (OpEraseGraphMetaData k) g =
     (if k = ''entryFunction'' then g\<lparr>entry_id := None\<rparr> else g)"
| "cg_abs_step (OpGetMain force) g =
     (if \<not> force \<and> main_id g \<noteq> None then g else g\<lparr>main_id := abs_main g\<rparr>)"
| "cg_abs_step OpClear g = g\<lparr>names := Map.empty, arcs := {}, next_id := 0, main_id := None\<rparr>"
| "cg_abs_step _ g = g"

text \<open>
  The calls that do not return: inserting the empty name fails its assertion, and an edge whose
  ends are looked up by ID throws if it gets as far as the ID one past the last slot, and so does
  the search for the entry function if the metadata names that ID.
\<close>

fun cg_op_fails :: "cg_op \<Rightarrow> AbsGraph \<Rightarrow> bool" where
  "cg_op_fails (OpInsert f orig v b) g = (f = [])"
| "cg_op_fails (OpGetOrInsert f orig v b) g = (f = [] \<and> f \<notin> ran (names g))"
| "cg_op_fails (OpAddEdge a b) g = (a = next_id g \<or> names g a \<noteq> None \<and> b = next_id g)"
| "cg_op_fails (OpGetMain force) g =
     ((force \<or> main_id g = None) \<and> entry_id g = Some (next_id g))"
| "cg_op_fails _ g = False"

section \<open>Refinement\<close>

lemma abs_cg_sel [simp]:
  "names (abs_cg cg) = nameAt cg" "arcs (abs_cg cg) = edgeSet cg"
  "next_id (abs_cg cg) = length (nodes cg)" "entry_id (abs_cg cg) = entryId cg"
  "main_id (abs_cg cg) = mainNode cg"
  by (simp_all add: abs_cg_def)

lemma abs_cg_eqI:
  "nameAt cg = names g \<Longrightarrow> edgeSet cg = arcs g \<Longrightarrow> length (nodes cg) = next_id g
   \<Longrightarrow> entryId cg = entry_id g \<Longrightarrow> mainNode cg = main_id g \<Longrightarrow> abs_cg cg = g"
  by (simp add: abs_cg_def)

lemma entryId_cong: "metaFields cg' = metaFields cg \<Longrightarrow> entryId cg' = entryId cg"
  by (simp add: entryId_def)

lemma abs_insert_cg:
  assumes "insert_cg f orig v b cg = Inr (i, cg')"
  shows "abs_cg cg' = abs_insert f (abs_cg cg)"
  using insert_cg_effect [OF assms] entryId_cong [of cg' cg]
  by (intro abs_cg_eqI) (simp_all add: abs_insert_def)

lemma ran_nameAt: "f \<in> ran (nameAt cg) \<longleftrightarrow> (\<exists>i. nameAt cg i = Some f)"
  by (auto simp: ran_def)

lemma abs_getOrInsertNode:
  assumes "wf_cg cg" and "getOrInsertNode f orig v b cg = Inr (i, cg')"
  shows "abs_cg cg' = (if f \<in> ran (nameAt cg) then abs_cg cg else abs_insert f (abs_cg cg))"
  using assms by (rule getOrInsertNode_cases) (auto simp: ran_nameAt abs_insert_cg)

lemma entryId_simps [simp]:
  "entryId (cg\<lparr>mainNode := m\<rparr>) = entryId cg"
  "entryId (snd (erase_md k cg)) = (if k = ''entryFunction'' then None else entryId cg)"
  "mainNode (snd (erase_md k cg)) = mainNode cg"
  by (simp_all add: entryId_def erase_md_def map_of_delete_eq)

lemma eraseMainEntry_effect:
  assumes "eraseMainEntry i cg = Inr cg'"
  shows "mainNode cg' = (if mainNode cg = Some i then None else mainNode cg)"
    and "entryId cg' = (if mainNode cg = Some i \<and> entryId cg = Some i then None else entryId cg)"
proof -
  have "mainNode cg' = (if mainNode cg = Some i then None else mainNode cg) \<and>
    entryId cg' = (if mainNode cg = Some i \<and> entryId cg = Some i then None else entryId cg)"
  proof (cases "mainNode cg = Some i")
    case True
    then obtain md where md: "get_EntryFunctionMD cg = Inr md"
      using assms by (auto simp: eraseMainEntry_def)
    then show ?thesis
      using assms True entryId_get [OF md]
      by (cases md) (auto simp: eraseMainEntry_def split: if_splits)
  qed (use assms in \<open>simp add: eraseMainEntry_def\<close>)
  then show "mainNode cg' = (if mainNode cg = Some i then None else mainNode cg)"
    and "entryId cg' = (if mainNode cg = Some i \<and> entryId cg = Some i then None else entryId cg)"
    by simp_all
qed

lemma eraseEdgesOf_frame:
  assumes "wf_cg cg" and "eraseEdgesOf i cg = Inr cg'"
  shows "mainNode cg' = mainNode cg" and "entryId cg' = entryId cg"
proof -
  obtain cg1 where cg1: "eraseEdgesOf i cg = Inr cg1"
    "cg1 = cg\<lparr>edges := edges cg1, callerList := callerList cg1, calleeList := calleeList cg1\<rparr>"
    using wf_cgD(3) [OF assms(1)] by (rule eraseEdgesOf_wf)
  then have "cg' = cg1" using assms(2) by simp
  moreover have "mainNode cg1 = mainNode cg" "metaFields cg1 = metaFields cg"
    by (subst cg1(2), simp)+
  ultimately show "mainNode cg' = mainNode cg" "entryId cg' = entryId cg"
    by (simp_all add: entryId_def)
qed

lemma erase_cg_main:
  assumes "wf_cg cg" and "erase_cg i cg = Inr (True, cg')"
  shows "mainNode cg' = (if mainNode cg = Some i then None else mainNode cg)"
    and "entryId cg' = (if mainNode cg = Some i \<and> entryId cg = Some i then None else entryId cg)"
proof -
  obtain cg1 cg2 where "eraseEdgesOf i cg = Inr cg1" "eraseMainEntry i cg1 = Inr cg2"
    "mainNode cg' = mainNode cg2" "metaFields cg' = metaFields cg2"
    using assms(2) by (auto simp: erase_cg_def bindR_eq_Inr_iff split: if_splits)
  moreover from eraseEdgesOf_frame [OF assms(1) this(1)] eraseMainEntry_effect [OF this(2)]
  show "mainNode cg' = (if mainNode cg = Some i then None else mainNode cg)"
    using calculation by simp
  ultimately show "entryId cg' = (if mainNode cg = Some i \<and> entryId cg = Some i then None else entryId cg)"
    using eraseEdgesOf_frame [OF assms(1)] eraseMainEntry_effect entryId_cong by metis
qed

lemma abs_erase_cg:
  assumes "wf_cg cg" and "erase_cg i cg = Inr (r, cg')"
  shows "abs_cg cg' = abs_erase i (abs_cg cg)" and "r \<longleftrightarrow> nameAt cg i \<noteq> None"
proof -
  have "abs_cg cg' = abs_erase i (abs_cg cg) \<and> (r \<longleftrightarrow> nameAt cg i \<noteq> None)"
  proof (cases "hasNode_id cg i")
    case True
    then obtain n where "nodes cg ! i = Some n" "i < length (nodes cg)" by (auto simp: hasNode_id_def)
    from wf_erase_cg_live [OF assms(1) this] assms(2)
    have "r" "nameAt cg' = (nameAt cg)(i := None)" "length (nodes cg') = length (nodes cg)"
      "edgeSet cg' = {(a, b) \<in> edgeSet cg. a \<noteq> i \<and> b \<noteq> i}" by auto
    then show ?thesis
      using True assms erase_cg_main [OF assms(1), of i cg']
      by (auto simp: abs_erase_def hasNode_id_iff_nameAt intro!: abs_cg_eqI)
  qed (use assms in \<open>auto simp: erase_cg_dead hasNode_id_iff_nameAt abs_erase_def\<close>)
  then show "abs_cg cg' = abs_erase i (abs_cg cg)" "r \<longleftrightarrow> nameAt cg i \<noteq> None" by simp_all
qed

lemma abs_addEdgeInternal:
  assumes "addEdgeInternal a b cg = (r, cg')"
  shows "abs_cg cg' = (abs_cg cg)\<lparr>arcs := insert (a, b) (edgeSet cg)\<rparr>"
  using addEdgeInternal_effect [OF assms] nameAt_cong [of cg' cg] entryId_cong [of cg' cg]
  by (intro abs_cg_eqI) simp_all

lemma abs_addEdge_id:
  assumes "addEdge_id a b cg = Inr (r, cg')"
  shows "abs_cg cg' = abs_addArc a b (abs_cg cg)"
    and "r \<longleftrightarrow> live_arc (abs_cg cg) a b \<and> (a, b) \<notin> edgeSet cg"
  using addEdge_id_cases [OF assms] abs_addEdgeInternal [of a b cg r cg']
    addEdgeInternal_effect(1) [of a b cg r cg']
  by (auto simp: abs_addArc_def live_arc_def hasNode_id_iff_nameAt)

lemma abs_removeEdge_id:
  assumes "removeEdge_id a b cg = Inr (r, cg')"
  shows "abs_cg cg' = abs_removeArc a b (abs_cg cg)" and "r \<longleftrightarrow> (a, b) \<in> edgeSet cg"
proof -
  have "abs_cg cg' = abs_removeArc a b (abs_cg cg)" if "(a, b) \<in> edgeSet cg"
    using assms that
    by (auto simp: removeEdge_id_def abs_removeArc_def entryId_def bindR_eq_Inr_iff
        intro!: abs_cg_eqI nameAt_cong) (simp_all add: edgeSet_def keys_delete_eq)
  then show "abs_cg cg' = abs_removeArc a b (abs_cg cg)"
    using assms by (cases "(a, b) \<in> edgeSet cg") (auto simp: removeEdge_id_absent abs_removeArc_def)
  show "r \<longleftrightarrow> (a, b) \<in> edgeSet cg"
    using assms by (auto simp: removeEdge_id_def bindR_eq_Inr_iff split: if_splits)
qed

lemma the_named_abs:
  "wf_cg cg \<Longrightarrow> the_named (abs_cg cg) f = (case getNodes_name cg f of [i] \<Rightarrow> Some i | _ \<Rightarrow> None)"
  by (simp add: the_named_def wf_names_eq [OF wf_cgD(2)])

lemma singleton_list: "length xs = Suc 0 \<longleftrightarrow> (\<exists>x. xs = [x])"
  by (simp add: length_Suc_conv)

lemma abs_addEdge_name:
  assumes "wf_cg cg" and "addEdge_name f f' cg = Inr (r, cg')"
  shows "abs_cg cg' = on_named abs_addArc f f' (abs_cg cg)"
  using assms(2) the_named_abs [OF assms(1)]
  by (auto simp: addEdge_name_def on_named_def singleton_list abs_addEdge_id
      split: if_splits list.splits)

lemma abs_removeEdge_name:
  assumes "wf_cg cg" and "removeEdge_name f f' cg = Inr (r, cg')"
  shows "abs_cg cg' = on_named abs_removeArc f f' (abs_cg cg)"
  using assms(2) the_named_abs [OF assms(1)]
  by (auto simp: removeEdge_name_def on_named_def singleton_list abs_removeEdge_id
      split: if_splits list.splits)

lemma abs_modifyNode:
  "(\<And>n. functionName (f n) = functionName n) \<Longrightarrow> abs_cg (modifyNode i f cg) = abs_cg cg"
  by (rule abs_cg_eqI) (simp_all add: nameAt_modifyNode entryId_def)

lemma find_filter: "find P xs = (case filter P xs of [] \<Rightarrow> None | x # _ \<Rightarrow> Some x)"
  by (induction xs) auto

lemma first_named_abs:
  assumes "wf_cg cg"
  shows "getFirstNode cg f = Inr (case first_named (abs_cg cg) f of None \<Rightarrow> None | Some i \<Rightarrow> nodes cg ! i)"
  by (auto simp: getFirstNode_wf [OF assms] first_named_def find_filter wf_names_eq [OF wf_cgD(2) [OF assms]]
      split: list.splits)

lemma firstNamed_abs:
  assumes "wf_cg cg"
  shows "firstNamed cg fs = Inr (first_of (abs_cg cg) fs)"
proof (induction fs)
  case (Cons f fs)
  show ?case
  proof (cases "first_named (abs_cg cg) f")
    case (Some i)
    then have "nameAt cg i = Some f" by (auto simp: first_named_def find_Some_iff)
    with wf_cgD(1) [OF assms] obtain n where "nodes cg ! i = Some n" "nid n = i"
      by (auto simp: nameAt_def wf_nodes_def split: if_splits)
    with Some show ?thesis by (simp add: first_named_abs [OF assms])
  qed (use Cons in \<open>simp add: first_named_abs [OF assms]\<close>)
qed simp

lemma getMain_abs:
  assumes wf: "wf_cg cg"
  shows "getMain cg force =
    (if \<not> force \<and> mainNode cg \<noteq> None then Inr (mainNode cg, cg)
     else if entryId cg = Some (length (nodes cg)) then Inl OutOfRange
     else Inr (abs_main (abs_cg cg), cg\<lparr>mainNode := abs_main (abs_cg cg)\<rparr>))"
proof (cases "\<not> force \<and> mainNode cg \<noteq> None")
  case True
  then show ?thesis by (simp add: getMain_def)
next
  case False
  obtain md where md: "get_EntryFunctionMD cg = Inr md"
    using wf_cgD(7) [OF wf] by (rule get_EntryFunctionMD_wf)
  have eid: "(case md of None \<Rightarrow> Inr None
      | Some e \<Rightarrow> (case entryFunction e of None \<Rightarrow> Inr None | Some i \<Rightarrow> getNode cg i)) =
      (case entryId cg of None \<Rightarrow> Inr None | Some i \<Rightarrow> getNode cg i)"
    by (simp add: entryId_get [OF md] split: option.splits)
  have live: "nid n = i" if "nodes cg ! i = Some n" "i < length (nodes cg)" for i n
    using that wf_cgD(1) [OF wf] by (simp add: wf_nodes_def)
  from False show ?thesis
    by (auto simp: getMain_def md eid firstNamed_abs [OF wf] abs_main_def getNode_def nthR_def nameAt_def
        live split: option.splits)
qed

lemma node_op_names:
  "functionName (addMetaData md n) = functionName n"
  "functionName (setVirtual v n) = functionName n"
  "functionName (setHasBody b n) = functionName n"
  "functionName (setOrigin orig n) = functionName n"
  by (simp_all add: addMetaData_def setVirtual_def setHasBody_def setOrigin_def erase_md_def)

lemma entryId_addMetaData: "entryId (addMetaData md cg) = md_entry md (entryId cg)"
  by (cases md) (simp_all add: addMetaData_def entryId_def map_of_update_eq)

lemma abs_addMetaData:
  "abs_cg (addMetaData md cg) = (abs_cg cg)\<lparr>entry_id := md_entry md (entryId cg)\<rparr>"
  by (rule abs_cg_eqI) (simp_all add: entryId_addMetaData, simp_all add: addMetaData_def)

lemma abs_erase_md:
  "abs_cg (snd (erase_md k cg)) = (if k = ''entryFunction'' then (abs_cg cg)\<lparr>entry_id := None\<rparr> else abs_cg cg)"
  by (simp add: abs_cg_def) (simp add: erase_md_def)

lemma abs_set_main: "abs_cg (cg\<lparr>mainNode := m\<rparr>) = (abs_cg cg)\<lparr>main_id := m\<rparr>"
  by (simp add: abs_cg_def)

lemma abs_clear_cg:
  "abs_cg (clear_cg cg) = (abs_cg cg)\<lparr>names := Map.empty, arcs := {}, next_id := 0, main_id := None\<rparr>"
  by (simp add: abs_cg_def clear_cg_def nameAt_def edgeSet_def entryId_def fun_eq_iff)

lemma abs_addEdgeMetaData_id: "abs_cg (snd (addEdgeMetaData_id k e md cg)) = abs_cg cg"
proof -
  obtain r cg' where cg': "addEdgeMetaData_id k e md cg = (r, cg')" by fastforce
  note eff = addEdgeMetaData_id_effect [OF this]
  have "nodes cg' = nodes cg" "mainNode cg' = mainNode cg" "metaFields cg' = metaFields cg"
    by (subst eff(2), simp)+
  moreover have "edgeSet cg' = edgeSet cg" unfolding edgeSet_def using eff(3) by (metis set_map)
  ultimately show ?thesis
    using cg' nameAt_cong [of cg' cg] entryId_cong [of cg' cg] by (simp add: abs_cg_def)
qed

section \<open>The component\<close>

lemma cg_step_inv: "wf_cg cg \<Longrightarrow> cg_step op cg = Inr cg' \<Longrightarrow> wf_cg cg'"
  by (cases op)
    (auto simp: bindR_snd_eq prod_eq_iff wf_graph_addMetaData wf_graph_erase_md wf_node_addMetaData
      wf_node_setVirtual wf_node_setters wf_clear_cg
      dest: wf_insert_cg wf_getOrInsertNode wf_erase_cg wf_addEdge_id wf_addEdge_name
      wf_removeEdge_id wf_removeEdge_name wf_getMain intro: wf_addEdgeMetaData_id [OF _ prod.collapse [symmetric]])

lemma cg_step_abs:
  assumes "wf_cg cg" and "cg_step op cg = Inr cg'"
  shows "abs_cg cg' = cg_abs_step op (abs_cg cg)"
proof (cases op)
  case (OpInsert f orig v b)
  then show ?thesis using assms by (auto simp: bindR_snd_eq intro: abs_insert_cg)
next
  case (OpGetOrInsert f orig v b)
  then show ?thesis using assms by (auto simp: bindR_snd_eq dest: abs_getOrInsertNode)
next
  case (OpErase i)
  then show ?thesis using assms by (auto simp: bindR_snd_eq intro: abs_erase_cg)
next
  case (OpAddEdge a b)
  then show ?thesis using assms by (auto simp: bindR_snd_eq intro: abs_addEdge_id)
next
  case (OpAddEdgeNames f f')
  then show ?thesis using assms by (auto simp: bindR_snd_eq intro: abs_addEdge_name)
next
  case (OpRemoveEdge a b)
  then show ?thesis using assms by (auto simp: bindR_snd_eq intro: abs_removeEdge_id)
next
  case (OpRemoveEdgeNames f f')
  then show ?thesis using assms by (auto simp: bindR_snd_eq intro: abs_removeEdge_name)
next
  case (OpAddEdgeMetaData k e md)
  then show ?thesis using assms abs_addEdgeMetaData_id [of k e md cg] by simp
next
  case (OpGraphMetaData md)
  then show ?thesis using assms by (auto intro: abs_addMetaData)
next
  case (OpEraseGraphMetaData k)
  then show ?thesis using assms abs_erase_md [of k cg] by simp
next
  case (OpGetMain force)
  then show ?thesis
    using assms abs_set_main [of _ cg] by (auto simp: bindR_snd_eq getMain_abs split: if_splits)
next
  case OpClear
  then show ?thesis using assms abs_clear_cg [of cg] by simp
qed (use assms in \<open>auto simp: abs_modifyNode node_op_names\<close>)

lemma addEdge_id_fails:
  "(\<exists>e. addEdge_id a b cg = Inl e) \<longleftrightarrow>
     a = length (nodes cg) \<or> nameAt cg a \<noteq> None \<and> b = length (nodes cg)"
  by (auto simp: addEdge_id_def getNode_def nthR_def nameAt_def)

lemma addEdge_name_total: "wf_cg cg \<Longrightarrow> addEdge_name f g cg \<noteq> Inl e"
proof -
  assume wf: "wf_cg cg"
  have "hasNode_id cg i" if "getNodes_name cg h = [i]" for h i
    using that set_getNodes_name [OF wf_cgD(2) [OF wf], of h] by (auto dest: nameAt_SomeD)
  then show ?thesis
    by (auto simp: addEdge_name_def Let_def singleton_list addEdge_id_live)
qed

lemma removeEdge_id_total: "wf_cg cg \<Longrightarrow> removeEdge_id a b cg \<noteq> Inl e"
  by (cases "(a, b) \<in> edgeSet cg") (force simp: removeEdge_id_absent elim: removeEdge_id_present)+

lemma erase_cg_total: "wf_cg cg \<Longrightarrow> erase_cg i cg \<noteq> Inl e"
  using wf_erase_cg_live [of cg i]
  by (cases "hasNode_id cg i") (force simp: erase_cg_dead hasNode_id_def)+

lemma cg_step_fails:
  assumes wf: "wf_cg cg"
  shows "(\<exists>e. cg_step op cg = Inl e) \<longleftrightarrow> cg_op_fails op (abs_cg cg)"
proof -
  show ?thesis
  proof (cases op)
    case (OpInsert f orig v b)
    then show ?thesis by (simp add: bindR_snd_eq insert_cg_def Let_def) (simp add: assertR_def)
  next
    case (OpGetOrInsert f orig v b)
    then show ?thesis
      using getFirstNode_None_iff [OF wf, of f]
      by (auto simp: bindR_snd_eq getOrInsertNode_def getFirstNode_wf [OF wf] ran_nameAt insert_cg_def Let_def assertR_def
          split: option.splits)
  next
    case (OpAddEdge a b)
    then show ?thesis by (simp add: bindR_snd_eq addEdge_id_fails)
  next
    case (OpGetMain force)
    then show ?thesis by (auto simp: bindR_snd_eq getMain_abs [OF wf])
  qed (use wf in \<open>auto simp: bindR_snd_eq addEdge_name_total removeEdge_id_total erase_cg_total
      removeEdge_name_def Let_def\<close>)
qed

interpretation cg: refined_component cg_step wf_cg abs_cg cg_abs_step cg_op_fails
  by unfold_locales (auto intro: cg_step_inv cg_step_abs simp: cg_step_fails)

section \<open>Properties\<close>


lemmas cg_eval =
  insert_cg_def getOrInsertNode_def erase_cg_def eraseEdgesOf_def eraseCalleeEdge_def
  eraseCallerEdge_def eraseMainEntry_def addEdge_id_def addEdge_name_def addEdgeInternal_def
  removeEdge_id_def removeEdge_name_def getNode_def getFirstNode_def getNodes_name_def empty_cg_def
  hasNode_id_def entry_or_empty_def new_CgNode_def Let_def existsEdge_id_def eraseFirstR_def nthR_def
  get_EntryFunctionMD_def getMain_def mainNames_def

text \<open>A small run of the component, and the graph of \<open>main\<close>, \<open>f\<close> and \<open>g\<close> it builds on the way.\<close>

definition build_ops :: "cg_op list" where
  "build_ops =
     [OpInsert ''main'' None False True, OpInsert ''f'' None False True, OpInsert ''g'' None True False,
      OpAddEdge 0 1, OpAddEdgeNames ''f'' ''g'']"

definition sample_ops :: "cg_op list" where
  "sample_ops = build_ops @ [OpAddEdge 1 1, OpGetMain False, OpErase 1]"

definition sample_cg :: Callgraph where
  "sample_cg =
     \<lparr>metaFields = [], self = 0,
      nodes = [Some \<lparr>metaFields = [], nid = 0, functionName = ''main'', origin = None, hasBody = True\<rparr>,
               Some \<lparr>metaFields = [], nid = 1, functionName = ''f'', origin = None, hasBody = True\<rparr>,
               Some \<lparr>metaFields = [(''overrideMD'', OverrideMD OverrideMD_default)], nid = 2,
                     functionName = ''g'', origin = None, hasBody = False\<rparr>],
      nameIdMap = [''main'' \<mapsto> [0], ''f'' \<mapsto> [1], ''g'' \<mapsto> [2]],
      edges = [((0, 1), []), ((1, 2), [])], callerList = [1 \<mapsto> [0], 2 \<mapsto> [1]],
      calleeList = [0 \<mapsto> [1], 1 \<mapsto> [2]], mainNode = None, hasDuplicates = False, numErased = 0\<rparr>"

lemma build_ops_run: "foldR cg_step build_ops (empty_cg 0) = Inr sample_cg"
  by (simp add: build_ops_def sample_cg_def cg_eval getOrCreate_md_def numeral_2_eq_2
      del: existsEdge_id_iff)

lemma wf_sample_cg [simp]: "wf_cg sample_cg"
  using build_ops_run wf_empty_cg by (rule cg.run_inv)

lemma sample_ops_run: "\<exists>cg. foldR cg_step sample_ops (empty_cg 0) = Inr cg"
  by (simp add: sample_ops_def foldR_append build_ops_run)
    (simp add: cg_eval sample_cg_def del: existsEdge_id_iff)


text \<open>
  C2: the graph refines the abstract graph: after any sequence of operations that returns, the
  names of the live nodes, the set of edges, the next free ID, the entry function and the cached
  main node are those that the abstract operations compute.
\<close>

theorem callgraph_refines:
  assumes "foldR cg_step ops (empty_cg a) = Inr cg"
  shows "abs_cg cg = fold cg_abs_step ops (abs_cg (empty_cg a))"
  using assms wf_empty_cg by (rule cg.run_abs)

theorem callgraph_refines_witness:
  "\<exists>cg. foldR cg_step sample_ops (empty_cg 0) = Inr cg
     \<and> abs_cg cg = fold cg_abs_step sample_ops (abs_cg (empty_cg 0))"
  using sample_ops_run callgraph_refines by blast



text \<open>
  C11: \<open>erase(id)\<close> returns whether the node was live; it removes exactly that node and the edges
  that start or end in it, keeps every other node and its attributes and the IDs of all others,
  and counts the slot as erased.
\<close>

theorem erase_exact:
  assumes "wf_cg cg"
  shows "\<exists>cg'. erase_cg i cg = Inr (nameAt cg i \<noteq> None, cg') \<and> wf_cg cg'
     \<and> nodes cg' = (if nameAt cg i = None then nodes cg else (nodes cg)[i := None])
     \<and> edges cg' = filter (\<lambda>((a, b), _). a \<noteq> i \<and> b \<noteq> i) (edges cg)
     \<and> getNodeCount cg' = (if nameAt cg i = None then getNodeCount cg else getNodeCount cg - 1)"
proof (cases "nodes cg ! i \<noteq> None \<and> i < length (nodes cg)")
  case True
  then obtain n where n: "nodes cg ! i = Some n" "i < length (nodes cg)" by auto
  obtain cg' where cg': "erase_cg i cg = Inr (True, cg')" "nodes cg' = (nodes cg)[i := None]"
    "edges cg' = filter (\<lambda>p. fst (fst p) \<noteq> i \<and> snd (fst p) \<noteq> i) (edges cg)"
    "numErased cg' = Suc (numErased cg)"
    using assms n by (rule erase_cg_live)
  moreover have "filter (\<lambda>((a, b), _). a \<noteq> i \<and> b \<noteq> i) (edges cg)
      = filter (\<lambda>p. fst (fst p) \<noteq> i \<and> snd (fst p) \<noteq> i) (edges cg)"
    by (rule filter_cong) auto
  ultimately show ?thesis
    using n wf_erase_cg [OF assms cg'(1)] by (simp add: nameAt_def getNodeCount_def)
next
  case False
  then have dead: "\<not> hasNode_id cg i" by (auto simp: hasNode_id_def)
  then have "p \<in> set (edges cg) \<Longrightarrow> fst (fst p) \<noteq> i \<and> snd (fst p) \<noteq> i" for p
    using wf_edgesD(2,3) [OF wf_cgD(3) [OF assms]] by (metis edgeSet_def imageI prod.collapse)
  then have "filter (\<lambda>((a, b), _). a \<noteq> i \<and> b \<noteq> i) (edges cg) = edges cg"
    by (fastforce simp: filter_id_conv)
  with dead assms show ?thesis by (simp add: erase_cg_dead hasNode_id_iff_nameAt)
qed

theorem erase_exact_witness:
  "\<exists>cg'. erase_cg 1 sample_cg = Inr (True, cg') \<and> edges cg' = [] \<and> getNodeCount cg' = 2"
  using erase_exact [OF wf_sample_cg, of 1] by (auto simp: sample_cg_def nameAt_def getNodeCount_def)

text \<open>
  C22: the lookups by name agree with the graph: \<open>getNodes(name)\<close> lists the live nodes with that
  name in the order of their IDs, \<open>countNodes\<close> counts them, \<open>hasNode\<close> says whether there is one,
  \<open>getFirstNode\<close> returns the one with the smallest ID or null, and \<open>getSingleNode\<close> returns iff
  there is exactly one.
\<close>

theorem lookup_by_name:
  assumes "wf_cg cg"
  shows "getNodes_name cg f = filter (\<lambda>i. nameAt cg i = Some f) [0..<length (nodes cg)]
     \<and> countNodes cg f = card {i. nameAt cg i = Some f}
     \<and> (hasNode_name cg f \<longleftrightarrow> (\<exists>i. nameAt cg i = Some f))
     \<and> getFirstNode cg f = Inr (if \<exists>i. nameAt cg i = Some f
           then nodes cg ! (LEAST i. nameAt cg i = Some f) else None)
     \<and> ((\<exists>n. getSingleNode cg f = Inr n) \<longleftrightarrow> card {i. nameAt cg i = Some f} = 1)"
proof (intro conjI)
  note names = wf_cgD(2) [OF assms]
  let ?l = "getNodes_name cg f"
  have mem: "i \<in> set ?l \<longleftrightarrow> nameAt cg i = Some f" for i by (simp add: set_getNodes_name [OF names])
  have card: "card {i. nameAt cg i = Some f} = length ?l"
    using distinct_card [OF distinct_getNodes_name [OF names, of f]] by (simp add: set_getNodes_name [OF names])
  show "?l = filter (\<lambda>i. nameAt cg i = Some f) [0..<length (nodes cg)]"
    using names by (rule wf_names_eq)
  show "countNodes cg f = card {i. nameAt cg i = Some f}"
    by (simp add: card countNodes_def getNodes_name_def split: option.splits)
  have "hasNode_name cg f \<longleftrightarrow> list_ex (hasNode_id cg) ?l"
    by (simp add: hasNode_name_def getNodes_name_def split: option.splits)
  then show "hasNode_name cg f \<longleftrightarrow> (\<exists>i. nameAt cg i = Some f)"
    by (auto simp: list_ex_iff mem hasNode_id_iff_nameAt)
  show "getFirstNode cg f = Inr (if \<exists>i. nameAt cg i = Some f
           then nodes cg ! (LEAST i. nameAt cg i = Some f) else None)"
  proof (cases ?l)
    case Nil
    then show ?thesis using mem by (auto simp: getFirstNode_wf [OF assms])
  next
    case (Cons i "is")
    have "sorted ?l" by (simp add: wf_names_eq [OF names] sorted_wrt_filter)
    then have "(LEAST i. nameAt cg i = Some f) = i"
      using Cons mem by (intro Least_equality) (auto simp flip: mem)
    moreover have "nameAt cg i = Some f" using Cons mem by auto
    ultimately show ?thesis using Cons by (auto simp: getFirstNode_wf [OF assms])
  qed
  have live: "nameAt cg i = Some f \<Longrightarrow> \<exists>n. getNode cg i = Inr (Some n)" for i
    by (auto simp: nameAt_def getNode_less split: if_splits)
  show "(\<exists>n. getSingleNode cg f = Inr n) \<longleftrightarrow> card {i. nameAt cg i = Some f} = 1"
  proof (cases "nameIdMap cg f")
    case None
    then show ?thesis by (simp add: card getSingleNode_def getNodes_name_def)
  next
    case (Some ids)
    then have "?l = ids" by (simp add: getNodes_name_def)
    moreover have "\<exists>n. getNode cg (hd ids) = Inr (Some n)" if "length ids = 1"
      using that live mem calculation by (cases ids) auto
    ultimately show ?thesis using Some unfolding card by (auto simp: getSingleNode_def)
  qed
qed

theorem lookup_by_name_witness:
  "hasNode_name sample_cg ''g'' \<and> \<not> hasNode_name sample_cg ''h''"
  using lookup_by_name [OF wf_sample_cg, of "''g''"] lookup_by_name [OF wf_sample_cg, of "''h''"]
  by (auto simp: sample_cg_def nameAt_def nth_Cons' numeral_2_eq_2)

text \<open>
  C23: \<open>getMain\<close>: a cached main node is returned as it is; otherwise the node the entry-function
  metadata names, if it is live, and else the first of the four conventional names that some node
  has (the smallest such ID); the result is cached. It throws iff the metadata names the ID one
  past the last slot.
\<close>

theorem getMain_spec:
  assumes "wf_cg cg"
  shows "getMain cg force =
    (if \<not> force \<and> mainNode cg \<noteq> None then Inr (mainNode cg, cg)
     else if entryId cg = Some (length (nodes cg)) then Inl OutOfRange
     else Inr (abs_main (abs_cg cg), cg\<lparr>mainNode := abs_main (abs_cg cg)\<rparr>))"
  using assms by (rule getMain_abs)

lemma abs_main_sample: "abs_main (abs_cg sample_cg) = Some 0"
  by (simp add: abs_main_def mainNames_def first_named_def sample_cg_def entryId_def nameAt_def
      numeral_3_eq_3)

theorem getMain_spec_witness: "getMain sample_cg True = Inr (Some 0, sample_cg\<lparr>mainNode := Some 0\<rparr>)"
  using getMain_spec [OF wf_sample_cg, of True] abs_main_sample
  by (simp add: entryId_def) (simp add: sample_cg_def)

text \<open>
  C21: \<open>getCallees\<close> and \<open>getCallers\<close> return exactly the targets and the sources of the edges, each
  once and never a null pointer, and the three views of the edges (the edge map and the two
  adjacency lists) agree.
\<close>

theorem neighbours_exact:
  assumes "wf_cg cg"
  shows "\<exists>cs ps. getCallees_id cg a = Inr (map Some cs) \<and> distinct cs \<and> set cs = {b. existsEdge_id cg a b}
     \<and> getCallers_id cg a = Inr (map Some ps) \<and> distinct ps \<and> set ps = {b. existsEdge_id cg b a}
     \<and> (\<forall>b \<in> set cs \<union> set ps. hasNode_id cg b)"
  using getCallees_id_wf [OF assms, of a] getCallers_id_wf [OF assms, of a] wf_edgesD [OF wf_cgD(3) [OF assms]]
  by (intro exI [of _ "callees cg a"] exI [of _ "callers cg a"]) auto

theorem neighbours_exact_witness:
  "\<exists>cs ps. getCallees_id sample_cg 1 = Inr (map Some cs) \<and> set cs = {2}
     \<and> getCallers_id sample_cg 1 = Inr (map Some ps) \<and> set ps = {0}"
  using neighbours_exact [OF wf_sample_cg, of 1] by (auto simp: sample_cg_def edgeSet_def)

text \<open>
  C22: the edge operations by ID: \<open>addEdge\<close> between live nodes returns whether the edge is new and
  adds exactly that edge, keeping the metadata of the others; \<open>removeEdge\<close> returns whether the edge
  was there and removes exactly that edge with its metadata; removing an edge just added restores
  the edge map.
\<close>

theorem edge_operations:
  assumes "wf_cg cg" and "hasNode_id cg a" and "hasNode_id cg b"
  shows "\<exists>cg1. addEdge_id a b cg = Inr (\<not> existsEdge_id cg a b, cg1) \<and> wf_cg cg1 \<and> nodes cg1 = nodes cg
     \<and> edges cg1 = (if existsEdge_id cg a b then edges cg else edges cg @ [((a, b), [])])
     \<and> (\<exists>cg2. removeEdge_id a b cg1 = Inr (True, cg2) \<and> wf_cg cg2 \<and> nodes cg2 = nodes cg
          \<and> edges cg2 = AList.delete (a, b) (edges cg))"
proof -
  obtain r cg1 where add: "addEdgeInternal a b cg = (r, cg1)" by fastforce
  note eff = addEdgeInternal_effect [OF add]
  have wf1: "wf_cg cg1" using assms add by (rule wf_addEdgeInternal)
  have ed: "edges cg1 = (if (a, b) \<in> edgeSet cg then edges cg else edges cg @ [((a, b), [])])"
    using add by (auto simp: addEdgeInternal_def edgeSet_def update_new_key split: if_splits)
  obtain cg2 where cg2: "removeEdge_id a b cg1 = Inr (True, cg2)"
    "edges cg2 = AList.delete (a, b) (edges cg1)" "nodes cg2 = nodes cg1" "wf_cg cg2"
    by (rule removeEdge_id_present [OF wf1, of a b]) (simp_all add: eff)
  have "AList.delete (a, b) (edges cg1) = AList.delete (a, b) (edges cg)"
    by (simp add: ed AList.delete_eq)
  with add eff wf1 ed cg2 show ?thesis by (auto simp: addEdge_id_live assms)
qed

theorem edge_operations_witness:
  "\<exists>cg1. addEdge_id 2 0 sample_cg = Inr (True, cg1) \<and> edges cg1 = [((0, 1), []), ((1, 2), []), ((2, 0), [])]"
proof -
  have "hasNode_id sample_cg 2" "hasNode_id sample_cg 0" by (simp_all add: sample_cg_def hasNode_id_def)
  from edge_operations [OF wf_sample_cg this] show ?thesis by (auto simp: sample_cg_def edgeSet_def)
qed

end
