(* ===== verification/Merge.thy ===== *)
theory Merge
  imports Callgraph_Spec Metadata_Props
begin

text \<open>
  Merging one graph into another: \<open>MergePolicy\<close> and \<open>MergeByName\<close> (\<open>MergePolicy.h\<close>,
  \<open>MergePolicy.cpp\<close>) and \<open>Callgraph::merge\<close>. The policy is a function argument, as the virtual call
  is in the code; the locale \<open>merge_policy\<close> states what \<open>merge\<close> relies on and \<open>MergeByName\<close> is
  shown to satisfy it. The two graphs are different objects.
\<close>

section \<open>The policy\<close>

type_synonym MergePolicy = "Callgraph \<Rightarrow> CgNode \<Rightarrow> MergeAction option res"

definition MergeByName_findMatchingNode :: MergePolicy where
  "MergeByName_findMatchingNode targetCG sourceNode =
     (case getNodes_name targetCG (functionName sourceNode) of
        [] \<Rightarrow> Inr None
      | i # _ \<Rightarrow>
          bindR (getNode targetCG i) (\<lambda>targetNode.
            case targetNode of
              None \<Rightarrow> Inl AssertionFailed
            | Some t \<Rightarrow>
                (if hasBody t \<or> \<not> hasBody sourceNode
                 then Inr (Some \<lparr>targetNode = nid t, replace = False\<rparr>)
                 else Inr (Some \<lparr>targetNode = nid t, replace = True\<rparr>))))"

section \<open>The five steps of merge\<close>

text \<open>Steps 1 and 2, for one node of the source: a null entry of \<open>other.nodes\<close> is dereferenced.\<close>

definition mergeNode ::
  "MergePolicy \<Rightarrow> CgNode option \<Rightarrow> MergeRecorder \<times> Callgraph \<Rightarrow> (MergeRecorder \<times> Callgraph) res" where
  "mergeNode policy nodePtr st =
     (case st of (recorder, cg) \<Rightarrow>
        bindR (derefR nodePtr) (\<lambda>node.
        bindR (policy cg node) (\<lambda>match.
        case match of
          Some action \<Rightarrow>
            bindR (getNode cg (targetNode action)) (\<lambda>target.
            bindR (assertR (target \<noteq> None)) (\<lambda>_.
            let cg' = (if replace action
                       then modifyNode (targetNode action)
                              (setOrigin (origin node) \<circ> setHasBody (hasBody node)
                               \<circ> setFunctionName (functionName node)) cg
                       else cg)
            in Inr (recordMerge (nid node) action recorder, cg')))
        | None \<Rightarrow>
            bindR (insert_cg (functionName node) (origin node) False (hasBody node) cg) (\<lambda>(i, cg').
            Inr (recordCopy (nid node) i recorder, cg')))))"

text \<open>Step 3, the metadata of one edge: an entry found is merged in place, a new one is added.\<close>

definition mergeEdgeMd ::
  "MergeRecorder \<Rightarrow> NodeId \<Rightarrow> NodeId \<times> NodeId \<Rightarrow> string \<times> MetaData \<Rightarrow> Callgraph \<Rightarrow> Callgraph res" where
  "mergeEdgeMd recorder sourceCaller mapped edgeMd cg =
     (case getEdgeMetaData_id cg mapped (fst edgeMd) of
        Some md \<Rightarrow>
          (case getAction recorder sourceCaller of
             None \<Rightarrow> Inl AssertionFailed
           | Some action \<Rightarrow>
               bindR (md_merge md (snd edgeMd) (Some action) (mapping recorder)) (\<lambda>md'.
               Inr (snd (addEdgeMetaData_id (fst edgeMd) mapped md' cg))))
      | None \<Rightarrow>
          bindR (md_applyMapping (md_clone (snd edgeMd)) (mapping recorder)) (\<lambda>clonedMd.
          Inr (snd (addEdgeMetaData_id baseClassKey mapped clonedMd cg))))"

definition mergeEdge ::
  "Callgraph \<Rightarrow> MergeRecorder \<Rightarrow> (NodeId \<times> NodeId) \<times> NamedMetadata \<Rightarrow> Callgraph \<Rightarrow> Callgraph res" where
  "mergeEdge other recorder edge cg =
     (let sourceIds = fst edge in
      bindR (assertR (mapping recorder (fst sourceIds) \<noteq> None \<and> mapping recorder (snd sourceIds) \<noteq> None))
        (\<lambda>_.
      bindR (atR (mapping recorder) (fst sourceIds)) (\<lambda>mappedCallerId.
      bindR (atR (mapping recorder) (snd sourceIds)) (\<lambda>mappedCalleeId.
      bindR (if \<not> existsEdge_id cg mappedCallerId mappedCalleeId
             then bindR (addEdge_id mappedCallerId mappedCalleeId cg) (\<lambda>r. Inr (snd r))
             else Inr cg) (\<lambda>cg1.
      bindR (getAllEdgeMetaData_id other sourceIds) (\<lambda>mds.
      foldR (mergeEdgeMd recorder (fst sourceIds) (mappedCallerId, mappedCalleeId)) mds cg1))))))"

text \<open>Step 4, the metadata of one node; \<open>setNodeMd\<close> is the write of a merge in place.\<close>

definition setNodeMd :: "string \<Rightarrow> MetaData \<Rightarrow> CgNode \<Rightarrow> CgNode" where
  "setNodeMd k md n = n\<lparr>metaFields := AList.update k md (metaFields n)\<rparr>"

definition mergeNodeMd ::
  "MergeRecorder \<Rightarrow> NodeId \<Rightarrow> NodeId \<Rightarrow> string \<times> MetaData \<Rightarrow> Callgraph \<Rightarrow> Callgraph res" where
  "mergeNodeMd recorder sourceId mappedNodeId kmd cg =
     bindR (getNode cg mappedNodeId) (\<lambda>target.
     bindR (derefR target) (\<lambda>targetNode.
     case get_md targetNode (fst kmd) of
       Some old \<Rightarrow>
         (case getAction recorder sourceId of
            None \<Rightarrow> Inl AssertionFailed
          | Some action \<Rightarrow>
              bindR (md_merge old (snd kmd) (Some action) (mapping recorder)) (\<lambda>md'.
              Inr (modifyNode mappedNodeId (setNodeMd (fst kmd) md') cg)))
     | None \<Rightarrow>
         bindR (md_applyMapping (md_clone (snd kmd)) (mapping recorder)) (\<lambda>clonedMd.
         Inr (modifyNode mappedNodeId (addMetaData clonedMd) cg))))"

definition mergeNodeMetaData :: "MergeRecorder \<Rightarrow> CgNode option \<Rightarrow> Callgraph \<Rightarrow> Callgraph res" where
  "mergeNodeMetaData recorder nodePtr cg =
     bindR (derefR nodePtr) (\<lambda>node.
     bindR (assertR (mapping recorder (nid node) \<noteq> None)) (\<lambda>_.
     bindR (atR (mapping recorder) (nid node)) (\<lambda>mappedNodeId.
     bindR (getNode cg mappedNodeId) (\<lambda>target.
     bindR (assertR (target \<noteq> None)) (\<lambda>_.
     foldR (mergeNodeMd recorder (nid node) mappedNodeId) (metaFields node) cg)))))"

text \<open>Step 5, one entry of the global metadata.\<close>

definition mergeGlobalMd :: "GraphMapping \<Rightarrow> string \<times> MetaData \<Rightarrow> Callgraph \<Rightarrow> Callgraph res" where
  "mergeGlobalMd m kmd cg =
     (case get_md cg (fst kmd) of
        Some existingMd \<Rightarrow>
          bindR (md_merge existingMd (snd kmd) None m) (\<lambda>md'.
          Inr (cg\<lparr>metaFields := AList.update (fst kmd) md' (metaFields cg)\<rparr>))
      | None \<Rightarrow>
          bindR (md_applyMapping (md_clone (snd kmd)) m) (\<lambda>clonedMd.
          Inr (addMetaData clonedMd cg)))"

definition merge_cg ::
  "Callgraph \<Rightarrow> MergePolicy \<Rightarrow> Callgraph \<Rightarrow> (MergeRecorder \<times> Callgraph) res" where
  "merge_cg other policy cg =
     bindR (foldR (mergeNode policy) (nodes other) (emptyRecorder, cg)) (\<lambda>(recorder, cg1).
     bindR (foldR (mergeEdge other recorder) (edges other) cg1) (\<lambda>cg2.
     bindR (foldR (mergeNodeMetaData recorder) (nodes other) cg2) (\<lambda>cg3.
     bindR (foldR (mergeGlobalMd (mapping recorder)) (metaFields other) cg3) (\<lambda>cg4.
     Inr (recorder, cg4\<lparr>mainNode := None\<rparr>)))))"

section \<open>Effects of the metadata steps\<close>

text \<open>Steps that change only metadata of edges, nodes or the graph leave the abstract graph alone.\<close>

definition same_shape :: "Callgraph \<Rightarrow> Callgraph \<Rightarrow> bool" where
  "same_shape cg cg' \<longleftrightarrow>
     (wf_cg cg \<longrightarrow> wf_cg cg') \<and> nameAt cg' = nameAt cg \<and> edgeSet cg' = edgeSet cg
     \<and> length (nodes cg') = length (nodes cg)"

lemma same_shape_refl [simp]: "same_shape cg cg"
  by (simp add: same_shape_def)

lemma same_shape_trans: "same_shape a b \<Longrightarrow> same_shape b c \<Longrightarrow> same_shape a c"
  by (simp add: same_shape_def)

lemma same_shape_foldR:
  assumes "foldR f xs s = Inr s'"
    and "\<And>x s s'. x \<in> set xs \<Longrightarrow> f x s = Inr s' \<Longrightarrow> same_shape s s'"
  shows "same_shape s s'"
  using assms(1) same_shape_refl
  by (rule foldR_invariant [where P = "same_shape s"]) (blast intro: same_shape_trans assms(2))

lemma same_shape_addEdgeMetaData: "same_shape cg (snd (addEdgeMetaData_id k e md cg))"
proof -
  obtain r cg' where cg': "addEdgeMetaData_id k e md cg = (r, cg')" by fastforce
  note eff = addEdgeMetaData_id_effect [OF cg']
  have "nodes cg' = nodes cg" by (subst eff(2)) simp
  moreover have "edgeSet cg' = edgeSet cg" unfolding edgeSet_def using eff(3) by (metis set_map)
  ultimately show ?thesis
    using cg' nameAt_cong [of cg' cg] by (auto simp: same_shape_def intro: wf_addEdgeMetaData_id)
qed

lemma same_shape_mergeEdgeMd: "mergeEdgeMd r c m kmd cg = Inr cg' \<Longrightarrow> same_shape cg cg'"
  by (auto simp: mergeEdgeMd_def bindR_eq_Inr_iff same_shape_addEdgeMetaData split: option.splits)

lemma same_shape_modifyNode:
  assumes "\<And>n. functionName (f n) = functionName n" and "\<And>n. nid (f n) = nid n"
    and "\<And>n. nodes cg ! i = Some n \<Longrightarrow> wf_meta (metaFields n) \<Longrightarrow> wf_meta (metaFields (f n))"
  shows "same_shape cg (modifyNode i f cg)"
  using assms by (auto simp: same_shape_def nameAt_modifyNode intro: wf_modifyNode)

lemma md_clone_id [simp]: "md_clone md = md"
  by (simp add: md_clone_def)

lemma mergeNodeMd_cases:
  assumes "mergeNodeMd r s t kmd cg = Inr cg'"
  obtains (merged) n old action md' where "getNode cg t = Inr (Some n)" and "get_md n (fst kmd) = Some old"
      and "getAction r s = Some action" and "md_merge old (snd kmd) (Some action) (mapping r) = Inr md'"
      and "cg' = modifyNode t (setNodeMd (fst kmd) md') cg"
  | (copied) n md' where "getNode cg t = Inr (Some n)" and "get_md n (fst kmd) = None"
      and "md_applyMapping (snd kmd) (mapping r) = Inr md'" and "cg' = modifyNode t (addMetaData md') cg"
proof -
  obtain n where n: "getNode cg t = Inr (Some n)"
    using assms by (auto simp: mergeNodeMd_def bindR_eq_Inr_iff)
  show thesis
  proof (cases "get_md n (fst kmd)")
    case None
    then show thesis using assms n copied by (auto simp: mergeNodeMd_def bindR_eq_Inr_iff)
  next
    case (Some old)
    then obtain action where "getAction r s = Some action"
      using assms n by (auto simp: mergeNodeMd_def split: option.splits)
    then show thesis using Some assms n merged by (auto simp: mergeNodeMd_def bindR_eq_Inr_iff)
  qed
qed

lemma getNode_eq_Some: "getNode cg i = Inr (Some n) \<longleftrightarrow> i < length (nodes cg) \<and> nodes cg ! i = Some n"
  by (auto simp: getNode_def nthR_def)

lemma same_shape_mergeNodeMd:
  assumes "mergeNodeMd r s t kmd cg = Inr cg'" and "fst kmd = getKey (snd kmd)"
  shows "same_shape cg cg'"
  using assms(1)
proof (cases rule: mergeNodeMd_cases)
  case (merged n old action md')
  show ?thesis unfolding merged(5)
  proof (rule same_shape_modifyNode)
    fix n' assume n': "nodes cg ! t = Some n'" and wf: "wf_meta (metaFields n')"
    have "getKey old = fst kmd"
      using merged(1,2) n' wf by (auto simp: getNode_eq_Some get_md_def dest: wf_metaD)
    then have "getKey md' = fst kmd" using md_merge_key [OF merged(4)] by simp
    then show "wf_meta (metaFields (setNodeMd (fst kmd) md' n'))"
      using wf by (simp add: setNodeMd_def) (metis wf_meta_update)
  qed (simp_all add: setNodeMd_def)
next
  case (copied n md')
  then show ?thesis
    by (simp add: same_shape_modifyNode addMetaData_def wf_meta_update)
qed

lemma same_shape_mergeNodeMetaData:
  assumes "mergeNodeMetaData r p cg = Inr cg'" and "\<And>n. p = Some n \<Longrightarrow> wf_meta (metaFields n)"
  shows "same_shape cg cg'"
proof -
  obtain n t where n: "p = Some n" and loop: "foldR (mergeNodeMd r (nid n) t) (metaFields n) cg = Inr cg'"
    using assms(1) by (auto simp: mergeNodeMetaData_def bindR_eq_Inr_iff)
  show ?thesis
    using loop
  proof (rule same_shape_foldR)
    fix kmd s s' assume "kmd \<in> set (metaFields n)" "mergeNodeMd r (nid n) t kmd s = Inr s'"
    then show "same_shape s s'"
      using assms(2) [OF n] by (auto intro!: same_shape_mergeNodeMd simp: wf_meta_def)
  qed
qed

lemma same_shape_metaFields: "(wf_cg cg \<Longrightarrow> wf_meta m) \<Longrightarrow> same_shape cg (cg\<lparr>metaFields := m\<rparr>)"
  by (auto simp: same_shape_def intro: wf_cg_metaFields_upd)

lemma same_shape_mergeGlobalMd:
  assumes "mergeGlobalMd m kmd cg = Inr cg'"
  shows "same_shape cg cg'"
proof (cases "get_md cg (fst kmd)")
  case None
  then obtain c where "cg' = addMetaData c cg" using assms by (auto simp: mergeGlobalMd_def bindR_eq_Inr_iff)
  then show ?thesis by (simp add: addMetaData_def same_shape_metaFields wf_meta_update wf_cgD)
next
  case (Some old)
  then obtain md' where md': "md_merge old (snd kmd) None m = Inr md'"
    "cg' = cg\<lparr>metaFields := AList.update (fst kmd) md' (metaFields cg)\<rparr>"
    using assms by (auto simp: mergeGlobalMd_def bindR_eq_Inr_iff)
  have "getKey md' = fst kmd" if "wf_cg cg"
    using md_merge_key [OF md'(1)] Some wf_metaD [OF wf_cgD(7) [OF that]] by (simp add: get_md_def)
  then show ?thesis
    unfolding md'(2) by (intro same_shape_metaFields) (metis wf_cgD(7) wf_meta_update)
qed

section \<open>Effects of the edge step\<close>

text \<open>The image of an edge under a mapping of nodes.\<close>

definition mapEdge :: "GraphMapping \<Rightarrow> NodeId \<times> NodeId \<Rightarrow> NodeId \<times> NodeId" where
  "mapEdge m e = (the (m (fst e)), the (m (snd e)))"

lemma mergeEdge_effect:
  assumes run: "mergeEdge other r e cg = Inr cg'" and wf: "wf_cg cg"
    and ends: "fst e = (a, b)" "m = mapping r" "m a = Some a'" "m b = Some b'"
      "hasNode_id cg a'" "hasNode_id cg b'"
  shows "wf_cg cg' \<and> nameAt cg' = nameAt cg \<and> length (nodes cg') = length (nodes cg)
     \<and> edgeSet cg' = insert (a', b') (edgeSet cg)"
proof -
  obtain rr cg1 where add: "addEdgeInternal a' b' cg = (rr, cg1)" by fastforce
  note eff = addEdgeInternal_effect [OF add]
  have cg1: "wf_cg cg1" using wf ends(5,6) add by (rule wf_addEdgeInternal)
  have step: "(if \<not> existsEdge_id cg a' b' then bindR (addEdge_id a' b' cg) (\<lambda>r. Inr (snd r)) else Inr cg)
      = Inr cg1"
    using add addEdge_id_live [OF ends(5,6)] by (auto simp: addEdgeInternal_def)
  obtain mds where "foldR (mergeEdgeMd r a (a', b')) mds cg1 = Inr cg'"
    using run ends(1-4) step
    by (auto simp: mergeEdge_def Let_def bindR_eq_Inr_iff simp del: existsEdge_id_iff)
  then have "same_shape cg1 cg'"
    by (rule same_shape_foldR) (rule same_shape_mergeEdgeMd)
  then show ?thesis using cg1 eff nameAt_cong [of cg1 cg] by (simp add: same_shape_def)
qed

text \<open>A step of the loop over the edges returns when the edge carries no metadata.\<close>

lemma mergeEdge_plain:
  assumes "fst e = (a, b)" "mapping r a = Some a'" "mapping r b = Some b'"
    "hasNode_id cg a'" "hasNode_id cg b'" "map_of (edges other) (a, b) = Some []"
  shows "mergeEdge other r e cg = Inr (snd (addEdgeInternal a' b' cg))"
  using assms
  by (auto simp: mergeEdge_def Let_def addEdge_id_live getAllEdgeMetaData_id_def addEdgeInternal_def)

lemma mergeEdges_total:
  assumes wf: "wf_cg cg" and wfo: "wf_cg other" and emd: "\<And>e mds. (e, mds) \<in> set (edges other) \<Longrightarrow> mds = []"
    and ends: "\<And>a b. (a, b) \<in> edgeSet other \<Longrightarrow> \<exists>a' b'. mapping r a = Some a' \<and> mapping r b = Some b'
      \<and> hasNode_id cg a' \<and> hasNode_id cg b'"
  shows "\<exists>cg'. foldR (mergeEdge other r) (edges other) cg = Inr cg'
     \<and> (wf_cg cg' \<and> nameAt cg' = nameAt cg \<and> nodes cg' = nodes cg)"
proof (rule foldR_total)
  let ?P = "\<lambda>s. wf_cg s \<and> nameAt s = nameAt cg \<and> nodes s = nodes cg"
  fix e s assume e: "e \<in> set (edges other)" and P: "?P s"
  obtain a b mds where ab: "e = ((a, b), mds)" by (metis prod.exhaust)
  then have mds: "mds = []" and es: "(a, b) \<in> edgeSet other"
    using e emd unfolding edgeSet_def by (auto simp: rev_image_eqI)
  obtain a' b' where m: "mapping r a = Some a'" "mapping r b = Some b'"
    "hasNode_id cg a'" "hasNode_id cg b'" using ends [OF es] by blast
  then have live: "hasNode_id s a'" "hasNode_id s b'" using P by (simp_all add: hasNode_id_iff_nameAt)
  obtain rr s' where s': "addEdgeInternal a' b' s = (rr, s')" by fastforce
  have "map_of (edges other) (a, b) = Some []"
    using e ab mds wf_edgesD(1) [OF wf_cgD(3) [OF wfo]] by simp
  then have "mergeEdge other r e s = Inr s'"
    using mergeEdge_plain [OF _ m(1,2) live] ab s' by simp
  moreover have "?P s'"
    using P wf_addEdgeInternal [OF _ live s'] addEdgeInternal_effect(3) [OF s'] nameAt_cong [of s' s] by simp
  ultimately show "\<exists>s'. mergeEdge other r e s = Inr s' \<and> ?P s'" by blast
qed (simp add: wf)

definition mergedEdges :: "GraphMapping \<Rightarrow> Callgraph \<Rightarrow> (NodeId \<times> NodeId) set" where
  "mergedEdges m other = mapEdge m ` edgeSet other"

lemma mergeEdges_effect:
  assumes run: "foldR (mergeEdge other r) (edges other) cg = Inr cg'" and wf: "wf_cg cg"
    and maps: "\<And>a b. (a, b) \<in> edgeSet other \<Longrightarrow> \<exists>a' b'. mapping r a = Some a' \<and> mapping r b = Some b'
      \<and> hasNode_id cg a' \<and> hasNode_id cg b'"
  shows "wf_cg cg' \<and> nameAt cg' = nameAt cg \<and> length (nodes cg') = length (nodes cg)
     \<and> edgeSet cg' = edgeSet cg \<union> mergedEdges (mapping r) other"
proof -
  let ?P = "\<lambda>k s. wf_cg s \<and> nameAt s = nameAt cg \<and> length (nodes s) = length (nodes cg)
     \<and> edgeSet s = edgeSet cg \<union> mapEdge (mapping r) ` fst ` set (take k (edges other))"
  have "?P (length (edges other)) cg'"
  proof (rule foldR_index_invariant [OF run])
    fix k s s' assume k: "k < length (edges other)" and P: "?P k s"
      and step: "mergeEdge other r (edges other ! k) s = Inr s'"
    obtain a b where ab: "fst (edges other ! k) = (a, b)" by fastforce
    then have "(a, b) \<in> edgeSet other" using k unfolding edgeSet_def by (metis imageI nth_mem)
    then obtain a' b' where m: "mapping r a = Some a'" "mapping r b = Some b'"
      "hasNode_id cg a'" "hasNode_id cg b'" using maps by blast
    then have "hasNode_id s a'" "hasNode_id s b'" using P by (simp_all add: hasNode_id_iff_nameAt)
    from mergeEdge_effect [OF step _ ab refl m(1,2) this] P
    show "?P (Suc k) s'"
      using ab m by (simp add: take_Suc_conv_app_nth [OF k] mapEdge_def)
  qed (simp add: wf)
  then show ?thesis by (simp add: mergedEdges_def edgeSet_def)
qed

section \<open>The node step under a policy\<close>

text \<open>
  The contract of a policy: on a well-formed target it returns, and a match is a live node of the
  target with the name of the source node.
\<close>

locale merge_policy =
  fixes findMatchingNode :: MergePolicy
  assumes find_total: "wf_cg cg \<Longrightarrow> \<exists>r. findMatchingNode cg n = Inr r"
    and find_match: "wf_cg cg \<Longrightarrow> findMatchingNode cg n = Inr (Some a)
      \<Longrightarrow> nameAt cg (targetNode a) = Some (functionName n)"

text \<open>What holds after the first \<open>k\<close> nodes of the source have been merged into \<open>cg\<close>.\<close>

definition merged_upto :: "Callgraph \<Rightarrow> Callgraph \<Rightarrow> nat \<Rightarrow> MergeRecorder \<times> Callgraph \<Rightarrow> bool" where
  "merged_upto cg other k st \<longleftrightarrow>
     (let r = fst st; cg' = snd st in
      wf_cg cg' \<and> dom (mapping r) = {..<k} \<and> dom (actions r) \<subseteq> {..<k}
      \<and> (\<forall>i j. mapping r i = Some j \<longrightarrow> nameAt cg' j = nameAt other i \<and> nameAt other i \<noteq> None)
      \<and> (\<forall>i f. nameAt cg i = Some f \<longrightarrow> nameAt cg' i = Some f)
      \<and> (\<forall>j. nameAt cg' j \<noteq> None \<longrightarrow> nameAt cg j \<noteq> None \<or> j \<in> ran (mapping r))
      \<and> edges cg' = edges cg \<and> metaFields cg' = metaFields cg
      \<and> length (nodes cg) \<le> length (nodes cg')
      \<and> (\<forall>i j. mapping r i = Some j \<longrightarrow> actions r i = None \<longrightarrow>
           length (nodes cg) \<le> j \<and> (\<forall>i' < i. mapping r i' \<noteq> Some j))
      \<and> (\<forall>j n. length (nodes cg) \<le> j \<longrightarrow> j < length (nodes cg') \<longrightarrow> nodes cg' ! j = Some n \<longrightarrow> metaFields n = []))"

lemma merged_uptoD:
  assumes "merged_upto cg other k (r, cg')"
  shows "wf_cg cg'" and "dom (mapping r) = {..<k}" and "dom (actions r) \<subseteq> {..<k}"
    and "\<forall>i j. mapping r i = Some j \<longrightarrow> nameAt cg' j = nameAt other i \<and> nameAt other i \<noteq> None"
    and "\<forall>i f. nameAt cg i = Some f \<longrightarrow> nameAt cg' i = Some f"
    and "\<forall>j. nameAt cg' j \<noteq> None \<longrightarrow> nameAt cg j \<noteq> None \<or> j \<in> ran (mapping r)"
    and "edges cg' = edges cg" and "metaFields cg' = metaFields cg"
    and "length (nodes cg) \<le> length (nodes cg')"
    and "\<forall>i j. mapping r i = Some j \<longrightarrow> actions r i = None
      \<longrightarrow> length (nodes cg) \<le> j \<and> (\<forall>i' < i. mapping r i' \<noteq> Some j)"
    and "\<forall>j n. length (nodes cg) \<le> j \<longrightarrow> j < length (nodes cg') \<longrightarrow> nodes cg' ! j = Some n \<longrightarrow> metaFields n = []"
  using assms unfolding merged_upto_def Let_def fst_conv snd_conv by - ((elim conjE, assumption)+)

lemma metaFields_new_plain [simp]: "metaFields (new_CgNode i f orig False b) = []"
  by (simp add: new_CgNode_def Let_def)

lemma merged_upto_copy:
  assumes inv: "merged_upto cg other k (r, cg')"
    and name: "nameAt other k = Some (functionName n)"
    and ins: "insert_cg (functionName n) (origin n) False (hasBody n) cg' = Inr (i, cg'')"
  shows "merged_upto cg other (Suc k) (recordCopy k i r, cg'')"
proof -
  note I = merged_uptoD [OF inv]
  note eff = insert_cg_effect [OF ins]
  have fresh: "nameAt cg' i = None" using ins by (rule insert_cg_fresh)
  have old: "j \<noteq> i \<and> i' < k" if "mapping r i' = Some j" for i' j
    using I(4) [rule_format, OF that] domI [of "mapping r", OF that] I(2) fresh by auto
  have k: "mapping r k = None" using I(2) by auto
  show ?thesis
    unfolding merged_upto_def Let_def fst_conv snd_conv
  proof (intro conjI)
    show "wf_cg cg''" using I(1) ins by (rule wf_insert_cg)
    show "dom (mapping (recordCopy k i r)) = {..<Suc k}" using I(2) by (simp add: recordCopy_def lessThan_Suc)
    show "dom (actions (recordCopy k i r)) \<subseteq> {..<Suc k}" using I(3) by (auto simp: recordCopy_def)
    show "\<forall>i' j. mapping (recordCopy k i r) i' = Some j \<longrightarrow> nameAt cg'' j = nameAt other i' \<and> nameAt other i' \<noteq> None"
      using I(4) name old by (auto simp: recordCopy_def eff(3))
    show "\<forall>i f. nameAt cg i = Some f \<longrightarrow> nameAt cg'' i = Some f"
      using I(5) fresh by (auto simp: eff(3))
    show "\<forall>j. nameAt cg'' j \<noteq> None \<longrightarrow> nameAt cg j \<noteq> None \<or> j \<in> ran (mapping (recordCopy k i r))"
      using I(6) k by (simp add: recordCopy_def eff(3))
    show "\<forall>i' j. mapping (recordCopy k i r) i' = Some j \<longrightarrow> actions (recordCopy k i r) i' = None \<longrightarrow>
           length (nodes cg) \<le> j \<and> (\<forall>i'' < i'. mapping (recordCopy k i r) i'' \<noteq> Some j)"
    proof (intro allI impI)
      fix i' j assume m: "mapping (recordCopy k i r) i' = Some j" "actions (recordCopy k i r) i' = None"
      show "length (nodes cg) \<le> j \<and> (\<forall>i'' < i'. mapping (recordCopy k i r) i'' \<noteq> Some j)"
      proof (cases "i' = k")
        case True
        then show ?thesis using m I(9) old by (auto simp: recordCopy_def eff(1))
      next
        case False
        then have "mapping r i' = Some j" "actions r i' = None" using m by (simp_all add: recordCopy_def)
        then show ?thesis using I(10) old by (auto simp: recordCopy_def)
      qed
    qed
    show "\<forall>j n. length (nodes cg) \<le> j \<longrightarrow> j < length (nodes cg'') \<longrightarrow> nodes cg'' ! j = Some n \<longrightarrow> metaFields n = []"
      using I(11) by (auto simp: eff(1,2) nth_append less_Suc_eq)
  qed (use I(7-9) eff in simp_all)
qed

lemma nameAt_modify_same:
  assumes "nameAt cg t = Some (functionName n)"
  shows "nameAt (modifyNode t (setOrigin orig \<circ> setHasBody b \<circ> setFunctionName (functionName n)) cg) = nameAt cg"
  using assms
  by (intro nameAt_modifyNode) (auto simp: setOrigin_def setHasBody_def setFunctionName_def nameAt_def split: if_splits)

lemma wf_modify_same:
  assumes "wf_cg cg" and "nameAt cg t = Some (functionName n)"
  shows "wf_cg (modifyNode t (setOrigin orig \<circ> setHasBody b \<circ> setFunctionName (functionName n)) cg)"
  using assms
  by (intro wf_modifyNode) (auto simp: setOrigin_def setHasBody_def setFunctionName_def nameAt_def split: if_splits)

lemma merged_upto_match:
  assumes inv: "merged_upto cg other k (r, cg')"
    and name: "nameAt other k = Some (functionName n)" "nameAt cg' (targetNode action) = Some (functionName n)"
    and mod: "cg'' = (if replace action
        then modifyNode (targetNode action)
          (setOrigin orig \<circ> setHasBody b \<circ> setFunctionName (functionName n)) cg' else cg')"
  shows "merged_upto cg other (Suc k) (recordMerge k action r, cg'')"
proof -
  note I = merged_uptoD [OF inv]
  have names: "nameAt cg'' = nameAt cg'" using name(2) by (simp add: mod nameAt_modify_same)
  have same: "edges cg'' = edges cg'" "metaFields cg'' = metaFields cg'" "length (nodes cg'') = length (nodes cg')"
    by (simp_all add: mod)
  have k: "mapping r k = None" and less: "\<And>i j. mapping r i = Some j \<Longrightarrow> i < k" using I(2) by auto
  show ?thesis
    unfolding merged_upto_def Let_def fst_conv snd_conv names same
  proof (intro conjI)
    show "wf_cg cg''" using I(1) name(2) by (simp add: mod wf_modify_same)
    show "dom (mapping (recordMerge k action r)) = {..<Suc k}" using I(2) by (simp add: recordMerge_def lessThan_Suc)
    show "dom (actions (recordMerge k action r)) \<subseteq> {..<Suc k}" using I(3) by (auto simp: recordMerge_def)
    show "\<forall>i j. mapping (recordMerge k action r) i = Some j \<longrightarrow> nameAt cg' j = nameAt other i \<and> nameAt other i \<noteq> None"
      using I(4) name by (simp add: recordMerge_def)
    show "\<forall>j. nameAt cg' j \<noteq> None \<longrightarrow> nameAt cg j \<noteq> None \<or> j \<in> ran (mapping (recordMerge k action r))"
      using I(6) k by (auto simp: recordMerge_def)
    show "\<forall>i j. mapping (recordMerge k action r) i = Some j \<longrightarrow> actions (recordMerge k action r) i = None \<longrightarrow>
           length (nodes cg) \<le> j \<and> (\<forall>i' < i. mapping (recordMerge k action r) i' \<noteq> Some j)"
    proof (intro allI impI)
      fix i j assume m: "mapping (recordMerge k action r) i = Some j" "actions (recordMerge k action r) i = None"
      then have "i \<noteq> k" by (auto simp: recordMerge_def)
      then have "mapping r i = Some j" "actions r i = None" using m by (simp_all add: recordMerge_def)
      then show "length (nodes cg) \<le> j \<and> (\<forall>i' < i. mapping (recordMerge k action r) i' \<noteq> Some j)"
        using I(10) [rule_format] less [of i j] by (auto simp: recordMerge_def)
    qed
    show "\<forall>j n. length (nodes cg) \<le> j \<longrightarrow> j < length (nodes cg') \<longrightarrow> nodes cg'' ! j = Some n \<longrightarrow> metaFields n = []"
      using I(11) by (auto simp: mod nodes_modifyNode setOrigin_def setHasBody_def setFunctionName_def split: if_splits)
  qed (use I(5,7-9) in simp_all)
qed

context merge_policy
begin

lemma mergeNode_step:
  assumes inv: "merged_upto cg other k (r, cg')"
    and src: "k < length (nodes other)" "nodes other ! k = Some n" "nid n = k" "functionName n \<noteq> []"
  shows "\<exists>st. mergeNode findMatchingNode (nodes other ! k) (r, cg') = Inr st \<and> merged_upto cg other (Suc k) st"
proof -
  have wf: "wf_cg cg'" using inv by (rule merged_uptoD)
  have name: "nameAt other k = Some (functionName n)" using src by (simp add: nameAt_def)
  obtain m where m: "findMatchingNode cg' n = Inr m" using find_total [OF wf] by blast
  show ?thesis
  proof (cases m)
    case None
    obtain i cg'' where ins: "insert_cg (functionName n) (origin n) False (hasBody n) cg' = Inr (i, cg'')"
      using insert_cg_nonempty [OF src(4)] by blast
    from merged_upto_copy [OF inv name ins] show ?thesis
      using m None ins src by (simp add: mergeNode_def)
  next
    case (Some action)
    then have t: "nameAt cg' (targetNode action) = Some (functionName n)" using find_match [OF wf] m by simp
    obtain t where "getNode cg' (targetNode action) = Inr (Some t)"
      using wf_cgD(1) [OF wf] t by (rule getNode_live)
    with merged_upto_match [OF inv name t refl] show ?thesis
      using m Some src by (simp add: mergeNode_def Let_def)
  qed
qed

lemma mergeNodes_total:
  assumes "wf_cg cg" and "wf_cg other" and "numErased other = 0"
  shows "\<exists>st. foldR (mergeNode findMatchingNode) (nodes other) (emptyRecorder, cg) = Inr st
     \<and> merged_upto cg other (length (nodes other)) st"
proof (rule foldR_index_total)
  show "merged_upto cg other 0 (emptyRecorder, cg)"
    using assms(1) by (simp add: merged_upto_def emptyRecorder_def)
  fix k st assume k: "k < length (nodes other)" and inv: "merged_upto cg other k st"
  have "None \<notin> set (nodes other)"
    using wf_cgD(4) [OF assms(2)] assms(3) by (auto simp: wf_count_def filter_empty_conv)
  then obtain n where n: "nodes other ! k = Some n" using k by (metis not_None_eq nth_mem)
  then have "nid n = k" "functionName n \<noteq> []" using wf_cgD(1) [OF assms(2)] k by (auto simp: wf_nodes_def)
  then show "\<exists>s'. mergeNode findMatchingNode (nodes other ! k) st = Inr s' \<and> merged_upto cg other (Suc k) s'"
    using mergeNode_step [of cg other k "fst st" "snd st" n] inv k n by simp
qed

lemma mergeNodes_effect:
  assumes "wf_cg cg" and "wf_cg other"
    and run: "foldR (mergeNode findMatchingNode) (nodes other) (emptyRecorder, cg) = Inr st"
  shows "merged_upto cg other (length (nodes other)) st"
  using run
proof (rule foldR_index_invariant)
  show "merged_upto cg other 0 (emptyRecorder, cg)"
    using assms(1) by (simp add: merged_upto_def emptyRecorder_def)
  fix k s s' assume k: "k < length (nodes other)" and inv: "merged_upto cg other k s"
    and step: "mergeNode findMatchingNode (nodes other ! k) s = Inr s'"
  obtain n where n: "nodes other ! k = Some n"
    using step by (auto simp: mergeNode_def bindR_eq_Inr_iff split: prod.splits)
  then have "nid n = k" "functionName n \<noteq> []" using wf_cgD(1) [OF assms(2)] k by (auto simp: wf_nodes_def)
  then show "merged_upto cg other (Suc k) s'"
    using mergeNode_step [of cg other k "fst s" "snd s" n] inv k n step by auto
qed

end

section \<open>The node metadata step\<close>

definition node_keys :: "Callgraph \<Rightarrow> NodeId \<Rightarrow> string set" where
  "node_keys cg i = (case nodes cg ! i of None \<Rightarrow> {} | Some n \<Rightarrow> fst ` set (metaFields n))"

lemma node_keys_modify:
  assumes "i < length (nodes cg)" and "t < length (nodes cg)"
    and "\<And>n. nodes cg ! t = Some n \<Longrightarrow> fst ` set (metaFields (f n)) = insert k (fst ` set (metaFields n))"
    and "nodes cg ! t \<noteq> None"
  shows "node_keys (modifyNode t f cg) i = (if i = t then insert k (node_keys cg t) else node_keys cg i)"
  using assms by (auto simp: node_keys_def nodes_modifyNode split: option.splits)

text \<open>One entry: it returns if an existing entry comes with a recorded action.\<close>

lemma mergeNodeMd_total:
  assumes wf: "wf_cg cg" and t: "hasNode_id cg t" and key: "fst kmd = getKey (snd kmd)"
    and refs: "md_refs (snd kmd) \<subseteq> dom (mapping r)" and add: "\<not> additive (snd kmd)"
    and act: "fst kmd \<in> node_keys cg t \<Longrightarrow> getAction r s \<noteq> None"
  shows "\<exists>cg'. mergeNodeMd r s t kmd cg = Inr cg'"
proof -
  obtain n where n: "nodes cg ! t = Some n" "t < length (nodes cg)" using t by (auto simp: hasNode_id_def)
  then have gn: "getNode cg t = Inr (Some n)" by (simp add: getNode_eq_Some)
  show ?thesis
  proof (cases "get_md n (fst kmd)")
    case None
    then show ?thesis using gn md_applyMapping_total [OF refs] by (auto simp: mergeNodeMd_def)
  next
    case (Some old)
    then have "getKey old = getKey (snd kmd)"
      using wf_cgD(1) [OF wf] n key by (auto simp: get_md_def wf_nodes_def dest!: wf_metaD)
    then have c: "\<exists>c. md_merge old (snd kmd) (Some action) (mapping r) = Inr c" for action
      using md_merge_total [OF _ refs add, of old] by blast
    have "fst kmd \<in> node_keys cg t"
      using map_of_SomeD_key [of "metaFields n" "fst kmd" old] Some n by (simp add: node_keys_def get_md_def)
    then obtain action where "getAction r s = Some action" using act by auto
    with gn Some c [of action] show ?thesis by (auto simp: mergeNodeMd_def)
  qed
qed

lemma mergeNodeMd_keys:
  assumes "mergeNodeMd r s t kmd cg = Inr cg'" and "fst kmd = getKey (snd kmd)"
  shows "length (nodes cg') = length (nodes cg)"
    and "i < length (nodes cg) \<Longrightarrow>
      node_keys cg' i = (if i = t then insert (fst kmd) (node_keys cg t) else node_keys cg i)"
proof -
  have "length (nodes cg') = length (nodes cg) \<and> (i < length (nodes cg) \<longrightarrow>
      node_keys cg' i = (if i = t then insert (fst kmd) (node_keys cg t) else node_keys cg i))"
    using assms(1)
  proof (cases rule: mergeNodeMd_cases)
    case (merged n old action md')
    then show ?thesis
      using node_keys_modify [of i cg t "setNodeMd (fst kmd) md'" "fst kmd"]
      by (auto simp: getNode_eq_Some setNodeMd_def keys_update_eq)
  next
    case (copied n md')
    moreover have "getKey md' = fst kmd" using md_applyMapping_key [OF copied(3)] assms(2) by simp
    ultimately show ?thesis
      using node_keys_modify [of i cg t "addMetaData md'" "fst kmd"]
      by (auto simp: getNode_eq_Some addMetaData_def keys_update_eq)
  qed
  then show "length (nodes cg') = length (nodes cg)" "i < length (nodes cg) \<Longrightarrow>
      node_keys cg' i = (if i = t then insert (fst kmd) (node_keys cg t) else node_keys cg i)" by auto
qed

text \<open>
  All entries of one source node: the loop returns if the target was free of metadata or an action
  is recorded, and the keys of the source are added to those of the target.
\<close>

definition mergeable_md :: "NodeId set \<Rightarrow> (string \<times> MetaData) list \<Rightarrow> bool" where
  "mergeable_md ids mds \<longleftrightarrow>
     wf_meta mds \<and> (\<forall>(k, md) \<in> set mds. md_refs md \<subseteq> ids \<and> \<not> additive md)"

lemma mergeNodeMds_total:
  assumes wf: "wf_cg cg" and t: "hasNode_id cg t" and mds: "mergeable_md (dom (mapping r)) mds"
    and act: "getAction r s = None \<Longrightarrow> node_keys cg t = {}"
  shows "\<exists>cg'. foldR (mergeNodeMd r s t) mds cg = Inr cg' \<and> same_shape cg cg'
     \<and> (\<forall>i < length (nodes cg). node_keys cg' i =
          (if i = t then node_keys cg t \<union> fst ` set mds else node_keys cg i))"
proof -
  let ?P = "\<lambda>k s'. same_shape cg s' \<and> (\<forall>i < length (nodes cg). node_keys s' i =
     (if i = t then node_keys cg t \<union> fst ` set (take k mds) else node_keys cg i))"
  have "\<exists>cg'. foldR (mergeNodeMd r s t) mds cg = Inr cg' \<and> ?P (length mds) cg'"
  proof (rule foldR_index_total)
    fix k s' assume k: "k < length mds" and P: "?P k s'"
    let ?kmd = "mds ! k"
    have mem: "?kmd \<in> set mds" using k by simp
    then have key: "fst ?kmd = getKey (snd ?kmd)" and refs: "md_refs (snd ?kmd) \<subseteq> dom (mapping r)"
      and add: "\<not> additive (snd ?kmd)"
      using mds by (auto simp: mergeable_md_def wf_meta_def case_prod_beta)
    have dist: "fst ?kmd \<notin> fst ` set (take k mds)"
    proof -
      have "distinct (map fst mds)" using mds by (simp add: mergeable_md_def wf_meta_def)
      then have "distinct (take (Suc k) (map fst mds))" by simp
      then show ?thesis using k by (simp add: take_Suc_conv_app_nth take_map)
    qed
    have t': "t < length (nodes cg)" using t by (rule hasNode_idD)
    have wf': "wf_cg s'" "hasNode_id s' t" using P wf t by (auto simp: same_shape_def hasNode_id_iff_nameAt)
    have "fst ?kmd \<in> node_keys s' t \<Longrightarrow> getAction r s \<noteq> None"
      using P t' dist act by auto
    then obtain s'' where s'': "mergeNodeMd r s t ?kmd s' = Inr s''"
      using mergeNodeMd_total [OF wf' key refs add] by blast
    moreover have "?P (Suc k) s''"
      using P same_shape_trans same_shape_mergeNodeMd [OF s'' key] mergeNodeMd_keys [OF s'' key] t'
      by (auto simp: take_Suc_conv_app_nth [OF k] same_shape_def)
    ultimately show "\<exists>s''. mergeNodeMd r s t ?kmd s' = Inr s'' \<and> ?P (Suc k) s''" by blast
  qed simp
  then show ?thesis by (simp only: take_all order_refl)
qed

text \<open>All nodes of the source, in the order of the first step.\<close>

lemma mergeNodeMetaData_total:
  assumes wf: "wf_cg cg" and src: "nodes other = map Some ns" and ids: "\<And>k. k < length ns \<Longrightarrow> nid (ns ! k) = k"
    and maps: "\<And>k. k < length ns \<Longrightarrow> \<exists>t. mapping r k = Some t \<and> hasNode_id cg t"
    and mds: "\<And>n. n \<in> set ns \<Longrightarrow> mergeable_md (dom (mapping r)) (metaFields n)"
    and fresh: "\<And>k t. k < length ns \<Longrightarrow> mapping r k = Some t \<Longrightarrow> getAction r k = None
      \<Longrightarrow> node_keys cg t = {} \<and> (\<forall>k' < k. mapping r k' \<noteq> Some t)"
  shows "\<exists>cg'. foldR (mergeNodeMetaData r) (nodes other) cg = Inr cg' \<and> same_shape cg cg'"
proof -
  let ?P = "\<lambda>k s. same_shape cg s \<and> (\<forall>i t. k \<le> i \<longrightarrow> i < length ns \<longrightarrow> mapping r i = Some t
     \<longrightarrow> getAction r i = None \<longrightarrow> node_keys s t = {})"
  have "\<exists>cg'. foldR (mergeNodeMetaData r) (nodes other) cg = Inr cg' \<and> ?P (length (nodes other)) cg'"
  proof (rule foldR_index_total)
    show "?P 0 cg" using fresh by simp
    fix k s assume "k < length (nodes other)" and P: "?P k s"
    then have k: "k < length ns" by (simp add: src)
    obtain t where t: "mapping r k = Some t" "hasNode_id cg t" using maps [OF k] by blast
    have s: "wf_cg s" "hasNode_id s t" "length (nodes s) = length (nodes cg)"
      using P wf t by (auto simp: same_shape_def hasNode_id_iff_nameAt)
    obtain s' where s': "foldR (mergeNodeMd r k t) (metaFields (ns ! k)) s = Inr s'" "same_shape s s'"
      "\<forall>i < length (nodes s). node_keys s' i =
          (if i = t then node_keys s t \<union> fst ` set (metaFields (ns ! k)) else node_keys s i)"
      using mergeNodeMds_total [OF s(1,2) mds [OF nth_mem [OF k]], of k] P k t by blast
    have "mergeNodeMetaData r (nodes other ! k) s = Inr s'"
      using s' t k ids [OF k] s(2) by (auto simp: mergeNodeMetaData_def src hasNode_id_def getNode_less)
    moreover have "?P (Suc k) s'"
    proof (intro conjI allI impI)
      show "same_shape cg s'" using P s'(2) by (blast intro: same_shape_trans)
      fix i t' assume i: "Suc k \<le> i" "i < length ns" "mapping r i = Some t'" "getAction r i = None"
      then have "t' \<noteq> t" using fresh [of i t'] t by auto
      moreover have "t' < length (nodes cg)" using maps [OF i(2)] i(3) by (auto dest: hasNode_idD)
      moreover have "node_keys s t' = {}" using P i by (meson Suc_leD)
      ultimately show "node_keys s' t' = {}" using s'(3) s(3) by simp
    qed
    ultimately show "\<exists>s'. mergeNodeMetaData r (nodes other ! k) s = Inr s' \<and> ?P (Suc k) s'" by blast
  qed
  then show ?thesis by blast
qed

lemma mergeGlobalMds_total:
  assumes wf: "wf_cg cg" and mds: "mergeable_md (dom m) mds"
  shows "\<exists>cg'. foldR (mergeGlobalMd m) mds cg = Inr cg' \<and> wf_cg cg'"
proof (rule foldR_total)
  fix kmd s assume kmd: "kmd \<in> set mds" and s: "wf_cg s"
  have key: "fst kmd = getKey (snd kmd)" and refs: "md_refs (snd kmd) \<subseteq> dom m" and add: "\<not> additive (snd kmd)"
    using mds kmd by (auto simp: mergeable_md_def wf_meta_def case_prod_beta)
  have "\<exists>s'. mergeGlobalMd m kmd s = Inr s'"
  proof (cases "get_md s (fst kmd)")
    case None
    then show ?thesis using md_applyMapping_total [OF refs] by (auto simp: mergeGlobalMd_def)
  next
    case (Some old)
    then have "getKey old = getKey (snd kmd)"
      using wf_metaD [OF wf_cgD(7) [OF s]] key by (simp add: get_md_def)
    then show ?thesis using md_merge_total [OF _ refs add, of old None] Some by (auto simp: mergeGlobalMd_def)
  qed
  then show "\<exists>s'. mergeGlobalMd m kmd s = Inr s' \<and> wf_cg s'"
    using s same_shape_mergeGlobalMd by (fastforce simp: same_shape_def)
qed (rule wf)

section \<open>The whole merge\<close>

text \<open>What a finished merge has done to the target graph.\<close>

definition merge_result :: "Callgraph \<Rightarrow> Callgraph \<Rightarrow> MergeRecorder \<Rightarrow> Callgraph \<Rightarrow> bool" where
  "merge_result cg other r cg' \<longleftrightarrow>
     wf_cg cg' \<and> mainNode cg' = None
     \<and> dom (mapping r) = {i. nameAt other i \<noteq> None}
     \<and> (\<forall>i j. mapping r i = Some j \<longrightarrow> nameAt cg' j = nameAt other i)
     \<and> (\<forall>i f. nameAt cg i = Some f \<longrightarrow> nameAt cg' i = Some f)
     \<and> (\<forall>j. nameAt cg' j \<noteq> None \<longrightarrow> nameAt cg j \<noteq> None \<or> j \<in> ran (mapping r))
     \<and> edgeSet cg' = edgeSet cg \<union> {(a', b'). \<exists>a b. (a, b) \<in> edgeSet other
           \<and> mapping r a = Some a' \<and> mapping r b = Some b'}"

text \<open>
  A source that can be merged: no slot was erased, the edges carry no metadata, and the metadata of
  its nodes and of the graph is \<open>mergeable_md\<close> for its nodes.
\<close>

definition mergeable :: "Callgraph \<Rightarrow> bool" where
  "mergeable other \<longleftrightarrow>
     numErased other = 0 \<and> (\<forall>p \<in> set (edges other). snd p = [])
     \<and> (\<forall>p \<in> set (nodes other). \<forall>n. p = Some n \<longrightarrow> mergeable_md {..<length (nodes other)} (metaFields n))
     \<and> mergeable_md {..<length (nodes other)} (metaFields other)"

lemma mergeableD:
  assumes "mergeable other"
  shows "numErased other = 0" and "(e, mds) \<in> set (edges other) \<Longrightarrow> mds = []"
    and "Some n \<in> set (nodes other) \<Longrightarrow> mergeable_md {..<length (nodes other)} (metaFields n)"
    and "mergeable_md {..<length (nodes other)} (metaFields other)"
  using assms by (force simp: mergeable_def)+

lemma mergedEdges_eq:
  assumes "\<And>a b. (a, b) \<in> edgeSet other \<Longrightarrow> a \<in> dom m \<and> b \<in> dom m"
  shows "mergedEdges m other =
    {(a', b'). \<exists>a b. (a, b) \<in> edgeSet other \<and> m a = Some a' \<and> m b = Some b'}"
proof -
  have "m a = Some (the (m a)) \<and> m b = Some (the (m b))" if "(a, b) \<in> edgeSet other" for a b
    using assms [OF that] by auto
  then show ?thesis by (force simp: mergedEdges_def mapEdge_def image_iff)
qed

context merge_policy
begin

lemma merge_steps:
  assumes wf: "wf_cg cg" and wfo: "wf_cg other" and run: "merge_cg other findMatchingNode cg = Inr (r, cg')"
  obtains cg1 where "foldR (mergeNode findMatchingNode) (nodes other) (emptyRecorder, cg) = Inr (r, cg1)"
    and "merged_upto cg other (length (nodes other)) (r, cg1)"
    and "wf_cg cg'" and "nameAt cg' = nameAt cg1" and "mainNode cg' = None"
    and "edgeSet cg' = edgeSet cg1 \<union> mergedEdges (mapping r) other"
proof -
  obtain cg1 cg2 cg3 cg4 where
    s1: "foldR (mergeNode findMatchingNode) (nodes other) (emptyRecorder, cg) = Inr (r, cg1)" and
    s3: "foldR (mergeEdge other r) (edges other) cg1 = Inr cg2" and
    s4: "foldR (mergeNodeMetaData r) (nodes other) cg2 = Inr cg3" and
    s5: "foldR (mergeGlobalMd (mapping r)) (metaFields other) cg3 = Inr cg4" and
    cg': "cg' = cg4\<lparr>mainNode := None\<rparr>"
    using run by (auto simp: merge_cg_def bindR_eq_Inr_iff)
  note up = mergeNodes_effect [OF wf wfo s1]
  note I = merged_uptoD [OF up]
  have e2: "wf_cg cg2 \<and> nameAt cg2 = nameAt cg1 \<and> length (nodes cg2) = length (nodes cg1)
     \<and> edgeSet cg2 = edgeSet cg1 \<union> mergedEdges (mapping r) other"
  proof (rule mergeEdges_effect [OF s3 I(1)])
    fix a b assume "(a, b) \<in> edgeSet other"
    from wf_edgesD(2,3) [OF wf_cgD(3) [OF wfo] this]
    have "a \<in> dom (mapping r)" "b \<in> dom (mapping r)" using I(2) by (auto dest: hasNode_idD)
    then obtain a' b' where m: "mapping r a = Some a'" "mapping r b = Some b'" by auto
    then have "nameAt cg1 a' \<noteq> None" "nameAt cg1 b' \<noteq> None" using I(4) by auto
    with m show "\<exists>a' b'. mapping r a = Some a' \<and> mapping r b = Some b' \<and> hasNode_id cg1 a' \<and> hasNode_id cg1 b'"
      by (auto simp: hasNode_id_iff_nameAt)
  qed
  have "same_shape cg2 cg3"
    using s4
  proof (rule same_shape_foldR)
    fix p s s' assume "p \<in> set (nodes other)" "mergeNodeMetaData r p s = Inr s'"
    then show "same_shape s s'"
      using wf_cgD(1) [OF wfo] by (auto intro!: same_shape_mergeNodeMetaData simp: wf_nodes_def in_set_conv_nth)
  qed
  moreover have "same_shape cg3 cg4"
    using s5 by (rule same_shape_foldR) (rule same_shape_mergeGlobalMd)
  ultimately have "same_shape cg2 cg4" by (rule same_shape_trans)
  then have "wf_cg cg'" "nameAt cg' = nameAt cg1" "mainNode cg' = None"
    "edgeSet cg' = edgeSet cg1 \<union> mergedEdges (mapping r) other"
    using e2 by (auto simp: cg' same_shape_def intro: wf_cg_mainNode_upd)
  then show thesis by (rule that [OF s1 up])
qed

lemma merge_effect:
  assumes wf: "wf_cg cg" and wfo: "wf_cg other" and run: "merge_cg other findMatchingNode cg = Inr (r, cg')"
  shows "merge_result cg other r cg'"
proof -
  obtain cg1 where up: "merged_upto cg other (length (nodes other)) (r, cg1)" and wf': "wf_cg cg'"
    and names: "nameAt cg' = nameAt cg1" and main: "mainNode cg' = None"
    and es: "edgeSet cg' = edgeSet cg1 \<union> mergedEdges (mapping r) other"
    using wf wfo run by (rule merge_steps)
  note I = merged_uptoD [OF up]
  have dom: "dom (mapping r) = {i. nameAt other i \<noteq> None}"
    using I(2,4) by (auto dest: nameAt_SomeD)
  have ends: "a \<in> dom (mapping r) \<and> b \<in> dom (mapping r)" if "(a, b) \<in> edgeSet other" for a b
    using wf_edgesD(2,3) [OF wf_cgD(3) [OF wfo] that] by (simp add: dom hasNode_id_iff_nameAt)
  have "edgeSet cg1 = edgeSet cg" using I(7) by (rule edgeSet_cong)
  with es mergedEdges_eq [of other "mapping r", OF ends] wf' main dom I(4-6) names
  show ?thesis unfolding merge_result_def by simp
qed

text \<open>
  A merge returns if the source has no erased slot, its edges carry no metadata, and its node and
  graph metadata refers to nodes of the source and is of the classes that do not add up numbers.
\<close>

lemma merge_total:
  assumes wf: "wf_cg cg" and wfo: "wf_cg other" and mg: "mergeable other"
  shows "\<exists>r cg'. merge_cg other findMatchingNode cg = Inr (r, cg')"
proof -
  note full = mergeableD(1) [OF mg] and emd = mergeableD(2) [OF mg] and nmd = mergeableD(3) [OF mg]
    and gmd = mergeableD(4) [OF mg]
  obtain r cg1 where s1: "foldR (mergeNode findMatchingNode) (nodes other) (emptyRecorder, cg) = Inr (r, cg1)"
    and up: "merged_upto cg other (length (nodes other)) (r, cg1)"
    using mergeNodes_total [OF wf wfo full] by auto
  note I = merged_uptoD [OF up]
  have ends: "\<exists>a' b'. mapping r a = Some a' \<and> mapping r b = Some b' \<and> hasNode_id cg1 a' \<and> hasNode_id cg1 b'"
    if "(a, b) \<in> edgeSet other" for a b
  proof -
    have "a \<in> dom (mapping r)" "b \<in> dom (mapping r)"
      using wf_edgesD(2,3) [OF wf_cgD(3) [OF wfo] that] I(2) by (auto dest: hasNode_idD)
    then show ?thesis using I(4) by (fastforce simp: hasNode_id_iff_nameAt)
  qed
  obtain cg2 where s3: "foldR (mergeEdge other r) (edges other) cg1 = Inr cg2"
    and P2: "wf_cg cg2 \<and> nameAt cg2 = nameAt cg1 \<and> nodes cg2 = nodes cg1"
    using mergeEdges_total [OF I(1) wfo, of r] emd ends by blast
  have "None \<notin> set (nodes other)"
    using wf_cgD(4) [OF wfo] full by (auto simp: wf_count_def filter_empty_conv)
  then have "nodes other = map Some (map the (nodes other))"
    by (auto intro!: nth_equalityI) (metis nth_mem option.exhaust_sel)
  then obtain ns where ns: "nodes other = map Some ns" by blast
  have "\<exists>cg3. foldR (mergeNodeMetaData r) (nodes other) cg2 = Inr cg3 \<and> same_shape cg2 cg3"
  proof (rule mergeNodeMetaData_total [OF _ ns])
    show "wf_cg cg2" using P2 by simp
    show "nid (ns ! k) = k" if "k < length ns" for k
      using wf_cgD(1) [OF wfo] that by (simp add: wf_nodes_def ns)
    show "\<exists>t. mapping r k = Some t \<and> hasNode_id cg2 t" if "k < length ns" for k
      using that I(2,4) P2 by (auto simp: ns hasNode_id_iff_nameAt) (metis domD lessThan_iff)
    show "mergeable_md (dom (mapping r)) (metaFields n)" if "n \<in> set ns" for n
      using nmd [of n] that by (simp add: ns I(2))
    show "node_keys cg2 t = {} \<and> (\<forall>k' < k. mapping r k' \<noteq> Some t)"
      if "k < length ns" "mapping r k = Some t" "getAction r k = None" for k t
      using I(10) [rule_format, OF that(2)] that(3) I(11) [rule_format, of t] P2
        I(4) [rule_format, OF that(2)] nameAt_SomeD [of cg1 t]
      by (auto simp: getAction_def node_keys_def split: option.splits)
  qed
  then obtain cg3 where s4: "foldR (mergeNodeMetaData r) (nodes other) cg2 = Inr cg3" and "wf_cg cg3"
    using P2 by (auto simp: same_shape_def)
  then obtain cg4 where "foldR (mergeGlobalMd (mapping r)) (metaFields other) cg3 = Inr cg4"
    using mergeGlobalMds_total [of cg3 "mapping r" "metaFields other"] gmd I(2) by auto
  with s1 s3 s4 show ?thesis by (simp add: merge_cg_def)
qed

end

section \<open>MergeByName\<close>

lemma byName_none:
  "wf_cg cg \<Longrightarrow> MergeByName_findMatchingNode cg n = Inr None \<longleftrightarrow> (\<forall>i. nameAt cg i \<noteq> Some (functionName n))"
proof -
  assume wf: "wf_cg cg"
  have set: "set (getNodes_name cg (functionName n)) = {i. nameAt cg i = Some (functionName n)}"
    using wf_cgD(2) [OF wf] by (rule set_getNodes_name)
  show ?thesis
  proof (cases "getNodes_name cg (functionName n)")
    case Nil
    then show ?thesis using set by (auto simp: MergeByName_findMatchingNode_def)
  next
    case (Cons i "is")
    then show ?thesis
      using set by (auto simp: MergeByName_findMatchingNode_def bindR_eq_Inr_iff split: option.splits if_splits)
  qed
qed

lemma byName_match:
  assumes wf: "wf_cg cg" and i: "getNodes_name cg (functionName n) = i # is"
  shows "\<exists>t. nodes cg ! i = Some t \<and> MergeByName_findMatchingNode cg n =
     Inr (Some \<lparr>targetNode = i, replace = (hasBody n \<and> \<not> hasBody t)\<rparr>) \<and> nameAt cg i = Some (functionName n)"
proof -
  have name: "nameAt cg i = Some (functionName n)"
    using set_getNodes_name [OF wf_cgD(2) [OF wf], of "functionName n"] i by auto
  with wf_cgD(1) [OF wf] obtain t where "getNode cg i = Inr (Some t)" "nid t = i" "nodes cg ! i = Some t"
    by (rule getNode_live)
  with name i show ?thesis by (auto simp: MergeByName_findMatchingNode_def)
qed

interpretation by_name: merge_policy MergeByName_findMatchingNode
proof
  fix cg n assume wf: "wf_cg cg"
  show "\<exists>r. MergeByName_findMatchingNode cg n = Inr r"
    using byName_match [OF wf, of n]
    by (cases "getNodes_name cg (functionName n)") (auto simp: MergeByName_findMatchingNode_def)
  fix a assume a: "MergeByName_findMatchingNode cg n = Inr (Some a)"
  then obtain i "is" where i: "getNodes_name cg (functionName n) = i # is"
    by (auto simp: MergeByName_findMatchingNode_def split: list.splits)
  from byName_match [OF wf i] a show "nameAt cg (targetNode a) = Some (functionName n)" by auto
qed

section \<open>Properties\<close>

text \<open>
  C8: merging by name, when it returns: the target stays well formed; every node of the source is
  mapped to a live node of the target with its name; nodes of the target keep their IDs and names,
  and every other node is the image of a source node; the edges are those of the target and the
  images of those of the source; the cached main node is reset.
\<close>

theorem merge_by_name_correct:
  assumes "wf_cg cg" and "wf_cg other"
    and "merge_cg other MergeByName_findMatchingNode cg = Inr (r, cg')"
  shows "merge_result cg other r cg'"
  using assms by (rule by_name.merge_effect)

definition sample_other :: Callgraph where
  "sample_other =
     \<lparr>metaFields = [(''entryFunction'', EntryFunctionMD \<lparr>entryFunction = Some 1\<rparr>)], self = 1,
      nodes = [Some \<lparr>metaFields = [(''overrideMD'', OverrideMD \<lparr>overrides = [1], overriddenBy = []\<rparr>)],
                     nid = 0, functionName = ''g'', origin = Some ''g.cpp'', hasBody = True\<rparr>,
               Some \<lparr>metaFields = [(''loopDepth'', LoopDepthMD \<lparr>loopDepth = 2\<rparr>)], nid = 1,
                     functionName = ''h'', origin = None, hasBody = True\<rparr>],
      nameIdMap = [''g'' \<mapsto> [0], ''h'' \<mapsto> [1]],
      edges = [((0, 1), [])], callerList = [1 \<mapsto> [0]], calleeList = [0 \<mapsto> [1]], mainNode = None,
      hasDuplicates = False, numErased = 0\<rparr>"

lemma wf_sample_other [simp]: "wf_cg sample_other"
proof -
  have "foldR cg_step
     [OpInsert ''g'' (Some ''g.cpp'') False True, OpInsert ''h'' None False True, OpAddEdge 0 1,
      OpNodeMetaData 0 (OverrideMD \<lparr>overrides = [1], overriddenBy = []\<rparr>),
      OpNodeMetaData 1 (LoopDepthMD \<lparr>loopDepth = 2\<rparr>),
      OpGraphMetaData (EntryFunctionMD \<lparr>entryFunction = Some 1\<rparr>)] (empty_cg 1) = Inr sample_other"
    by (simp add: sample_other_def cg_eval modifyNode_def addMetaData_def del: existsEdge_id_iff)
  then show ?thesis using wf_empty_cg by (rule cg.run_inv)
qed

lemma mergeable_sample_other: "mergeable sample_other"
  by (auto simp: sample_other_def mergeable_def mergeable_md_def wf_meta_def)

theorem merge_by_name_correct_witness:
  "\<exists>r cg'. merge_cg sample_other MergeByName_findMatchingNode sample_cg = Inr (r, cg')
     \<and> merge_result sample_cg sample_other r cg'"
  using by_name.merge_total [OF wf_sample_cg wf_sample_other mergeable_sample_other]
    merge_by_name_correct [OF wf_sample_cg wf_sample_other] by blast



lemma mergeNodes_erased:
  assumes "wf_cg cg" and "wf_cg other" and "numErased other \<noteq> 0"
  shows "\<exists>e. foldR (mergeNode MergeByName_findMatchingNode) (nodes other) (emptyRecorder, cg) = Inl e"
proof (rule ccontr)
  assume "\<nexists>e. foldR (mergeNode MergeByName_findMatchingNode) (nodes other) (emptyRecorder, cg) = Inl e"
  then obtain st where "foldR (mergeNode MergeByName_findMatchingNode) (nodes other) (emptyRecorder, cg) = Inr st"
    by (metis sumE)
  from merged_uptoD(2,4) [of cg other _ "fst st" "snd st"] by_name.mergeNodes_effect [OF assms(1,2) this]
  have "dom (mapping (fst st)) = {..<length (nodes other)}"
    "\<forall>i j. mapping (fst st) i = Some j \<longrightarrow> nameAt other i \<noteq> None" by auto
  then have "nodes other ! i \<noteq> None" if "i < length (nodes other)" for i
    using that unfolding nameAt_def by (metis domD lessThan_iff map_option_is_None)
  then have "filter (\<lambda>n. n = None) (nodes other) = []" by (auto simp: filter_empty_conv in_set_conv_nth)
  then show False using wf_cgD(4) [OF assms(2)] assms(3) by (simp add: wf_count_def)
qed

text \<open>
  C26: \<open>merge\<close> dereferences a null pointer whenever a slot of the source was erased: the loop over
  \<open>other.nodes\<close> does not skip it, and no earlier step can fail on a well-formed target.
\<close>

theorem merge_erased_source_fails:
  assumes "wf_cg cg" and "wf_cg other" and "numErased other \<noteq> 0"
  shows "\<exists>e. merge_cg other MergeByName_findMatchingNode cg = Inl e"
  using mergeNodes_erased [OF assms] by (auto simp: merge_cg_def)

lemma wf_sample_erased: "\<exists>cg. foldR cg_step sample_ops (empty_cg 0) = Inr cg \<and> wf_cg cg \<and> numErased cg \<noteq> 0"
proof -
  have "\<exists>cg. foldR cg_step sample_ops (empty_cg 0) = Inr cg \<and> numErased cg \<noteq> 0"
    by (simp add: sample_ops_def foldR_append build_ops_run)
      (simp add: cg_eval sample_cg_def del: existsEdge_id_iff)
  then show ?thesis using cg.run_inv [OF _ wf_empty_cg] by blast
qed

theorem merge_erased_source_fails_witness:
  "\<exists>other e. foldR cg_step sample_ops (empty_cg 0) = Inr other
     \<and> merge_cg other MergeByName_findMatchingNode sample_cg = Inl e"
  using wf_sample_erased merge_erased_source_fails [OF wf_sample_cg] by blast

definition unique_names :: "Callgraph \<Rightarrow> bool" where
  "unique_names cg \<longleftrightarrow> (\<forall>i j f. nameAt cg i = Some f \<longrightarrow> nameAt cg j = Some f \<longrightarrow> i = j)"

lemma mergeNode_unique:
  assumes run: "mergeNode MergeByName_findMatchingNode p (r, cg) = Inr (r', cg')" and wf: "wf_cg cg"
    and u: "unique_names cg"
  shows "unique_names cg'"
proof -
  obtain n where p: "p = Some n" using run by (auto simp: mergeNode_def bindR_eq_Inr_iff)
  obtain m where m: "MergeByName_findMatchingNode cg n = Inr m"
    using by_name.find_total [OF wf] by blast
  show ?thesis
  proof (cases m)
    case None
    then have none: "\<forall>i. nameAt cg i \<noteq> Some (functionName n)" using m byName_none [OF wf] by simp
    obtain i where "insert_cg (functionName n) (origin n) False (hasBody n) cg = Inr (i, cg')"
      using run p m None by (auto simp: mergeNode_def bindR_eq_Inr_iff)
    from insert_cg_effect(3) [OF this] none u show ?thesis by (auto simp: unique_names_def)
  next
    case (Some a)
    then have "nameAt cg (targetNode a) = Some (functionName n)" using by_name.find_match [OF wf] m by simp
    then have "nameAt cg' = nameAt cg"
      using run p m Some by (auto simp: mergeNode_def bindR_eq_Inr_iff Let_def nameAt_modify_same)
    with u show ?thesis by (simp add: unique_names_def)
  qed
qed

lemma mergeNodes_unique:
  assumes "wf_cg cg" and "wf_cg other" and "unique_names cg"
    and run: "foldR (mergeNode MergeByName_findMatchingNode) (nodes other) (emptyRecorder, cg) = Inr st"
  shows "unique_names (snd st)"
proof -
  let ?P = "\<lambda>k s. merged_upto cg other k s \<and> unique_names (snd s)"
  have "?P (length (nodes other)) st"
    using run
  proof (rule foldR_index_invariant)
    show "?P 0 (emptyRecorder, cg)"
      using assms(1,3) by (simp add: merged_upto_def emptyRecorder_def)
    fix k s s' assume k: "k < length (nodes other)" and inv: "?P k s"
      and step: "mergeNode MergeByName_findMatchingNode (nodes other ! k) s = Inr s'"
    obtain n where n: "nodes other ! k = Some n"
      using step by (auto simp: mergeNode_def bindR_eq_Inr_iff split: prod.splits)
    then have "nid n = k" "functionName n \<noteq> []" using wf_cgD(1) [OF assms(2)] k by (auto simp: wf_nodes_def)
    then have "merged_upto cg other (Suc k) s'"
      using by_name.mergeNode_step [of cg other k "fst s" "snd s" n] inv k n step by auto
    moreover have "unique_names (snd s')"
      using mergeNode_unique [of _ "fst s" "snd s" "fst s'" "snd s'"] step inv
        merged_uptoD(1) [of cg other k "fst s" "snd s"] by auto
    ultimately show "?P (Suc k) s'" by blast
  qed
  then show ?thesis by blast
qed

lemma merge_names_union:
  assumes "wf_cg cg" and "wf_cg other" and "merge_cg other MergeByName_findMatchingNode cg = Inr (r, cg')"
  shows "ran (nameAt cg') = ran (nameAt cg) \<union> ran (nameAt other)"
proof -
  obtain cg1 where up: "merged_upto cg other (length (nodes other)) (r, cg1)" and names: "nameAt cg' = nameAt cg1"
    using assms by (rule by_name.merge_steps)
  note I = merged_uptoD [OF up]
  show ?thesis unfolding names
  proof (intro equalityI subsetI)
    fix f assume "f \<in> ran (nameAt cg1)"
    then obtain j where j: "nameAt cg1 j = Some f" by (auto simp: ran_def)
    then consider g where "nameAt cg j = Some g" | i where "mapping r i = Some j"
      using I(6) by (fastforce simp: ran_def)
    then show "f \<in> ran (nameAt cg) \<union> ran (nameAt other)"
    proof cases
      case 1
      then show ?thesis using I(5) j by (auto simp: ran_def)
    next
      case 2
      then show ?thesis using I(4) j by (auto simp: ran_def)
    qed
  next
    fix f assume "f \<in> ran (nameAt cg) \<union> ran (nameAt other)"
    then consider j where "nameAt cg j = Some f" | i where "nameAt other i = Some f" by (auto simp: ran_def)
    then show "f \<in> ran (nameAt cg1)"
    proof cases
      case 1
      then show ?thesis using I(5) by (auto simp: ran_def)
    next
      case 2
      then have "i \<in> dom (mapping r)" using I(2) by (auto dest: nameAt_SomeD)
      then show ?thesis using I(4) 2 by (fastforce simp: ran_def)
    qed
  qed
qed

lemma merge_unique_names:
  assumes "wf_cg cg" and "wf_cg other" and "unique_names cg"
    and "merge_cg other MergeByName_findMatchingNode cg = Inr (r, cg')"
  shows "unique_names cg'"
proof -
  obtain cg1 where s1: "foldR (mergeNode MergeByName_findMatchingNode) (nodes other) (emptyRecorder, cg) = Inr (r, cg1)"
    and names: "nameAt cg' = nameAt cg1"
    using assms(1,2,4) by (rule by_name.merge_steps)
  then show ?thesis using mergeNodes_unique [OF assms(1-3) s1] by (simp add: unique_names_def)
qed

text \<open>
  Merging by name never adds a node whose name the target already has: a target without
  duplicate names has none afterwards, and the names afterwards are the union of the names of both.
\<close>

theorem merge_by_name_unique:
  assumes "wf_cg cg" and "wf_cg other" and "unique_names cg"
    and "merge_cg other MergeByName_findMatchingNode cg = Inr (r, cg')"
  shows "unique_names cg' \<and> ran (nameAt cg') = ran (nameAt cg) \<union> ran (nameAt other)"
  using merge_unique_names [OF assms] merge_names_union [OF assms(1,2,4)] by blast

lemma nth_Cons3: "[x, y, z] ! i = (if i = 0 then x else if i = 1 then y else if i = 2 then z else [] ! (i - 3))"
  by (auto simp: nth_Cons' numeral_2_eq_2 numeral_3_eq_3)

lemma unique_sample_cg: "unique_names sample_cg"
  by (auto simp: unique_names_def nameAt_def sample_cg_def nth_Cons3 less_Suc_eq numeral_2_eq_2 split: if_splits)

theorem merge_by_name_unique_witness:
  "\<exists>r cg'. merge_cg sample_other MergeByName_findMatchingNode sample_cg = Inr (r, cg') \<and> unique_names cg'"
  using by_name.merge_total [OF wf_sample_cg wf_sample_other mergeable_sample_other]
    merge_by_name_unique [OF wf_sample_cg wf_sample_other unique_sample_cg] by blast

text \<open>
  Metadata that a merge copies onto an edge is stored under the key of the base class: a look
  up under the key of its own class still finds nothing.
\<close>

theorem merged_edge_metadata_key:
  assumes "mergeEdgeMd r c e (k, md) cg = Inr cg'" and "e \<in> edgeSet cg"
    and "getEdgeMetaData_id cg e k = None" and "k \<noteq> baseClassKey"
  shows "getEdgeMetaData_id cg' e k = None
     \<and> (\<exists>md'. md_applyMapping md (mapping r) = Inr md' \<and> getEdgeMetaData_id cg' e baseClassKey = Some md')"
proof -
  obtain md' where md': "md_applyMapping md (mapping r) = Inr md'"
    "cg' = snd (addEdgeMetaData_id baseClassKey e md' cg)"
    using assms(1,3) by (auto simp: mergeEdgeMd_def bindR_eq_Inr_iff)
  obtain b where "addEdgeMetaData_id baseClassKey e md' cg = (b, cg')" using md'(2) by (metis prod.collapse)
  from addEdgeMetaData_id_effect [OF this] assms md'(1) show ?thesis by auto
qed

theorem merged_edge_metadata_key_witness:
  "\<exists>cg'. mergeEdgeMd emptyRecorder 0 (0, 1) (''loopDepth'', LoopDepthMD \<lparr>loopDepth = 2\<rparr>) sample_cg = Inr cg'
     \<and> getEdgeMetaData_id cg' (0, 1) ''loopDepth'' = None"
proof -
  have "\<exists>cg'. mergeEdgeMd emptyRecorder 0 (0, 1) (''loopDepth'', LoopDepthMD \<lparr>loopDepth = 2\<rparr>) sample_cg = Inr cg'"
    and "getEdgeMetaData_id sample_cg (0, 1) ''loopDepth'' = None" "(0, 1) \<in> edgeSet sample_cg"
    by (simp_all add: mergeEdgeMd_def getEdgeMetaData_id_def sample_cg_def edgeSet_def)
  then show ?thesis
    using merged_edge_metadata_key [of emptyRecorder 0 "(0, 1)" "''loopDepth''" "LoopDepthMD \<lparr>loopDepth = 2\<rparr>" sample_cg]
    by (auto simp: baseClassKey_def)
qed

end
