(* ===== verification/Reachability.thy ===== *)
theory Reachability
  imports Callgraph_Spec
begin

text \<open>
  \<open>ReachabilityAnalysis\<close> (\<open>ReachabilityAnalysis.h\<close>, \<open>ReachabilityAnalysis.cpp\<close>): the work-queue search
  over callees with its per-node cache. The two directions of the edge relation are given to the
  analyses through the locale \<open>digraph_view\<close>, interpreted on callees and on callers.
\<close>

section \<open>The two views of the edges\<close>

locale digraph_view =
  fixes wf :: "'g \<Rightarrow> bool"
    and live :: "'g \<Rightarrow> NodeId \<Rightarrow> bool"
    and succs :: "'g \<Rightarrow> NodeId \<Rightarrow> NodeId list"
    and rel :: "'g \<Rightarrow> (NodeId \<times> NodeId) set"
  assumes succs_rel: "wf g \<Longrightarrow> b \<in> set (succs g a) \<longleftrightarrow> (a, b) \<in> rel g"
    and rel_live: "wf g \<Longrightarrow> (a, b) \<in> rel g \<Longrightarrow> live g a \<and> live g b"
    and finite_live: "wf g \<Longrightarrow> finite {a. live g a}"
begin

definition reach :: "'g \<Rightarrow> NodeId \<Rightarrow> NodeId set" where
  "reach g a = {b. (a, b) \<in> (rel g)\<^sup>*}"

lemma reach_refl [simp]: "a \<in> reach g a"
  by (simp add: reach_def)

lemma reach_step: "wf g \<Longrightarrow> b \<in> reach g a \<Longrightarrow> c \<in> set (succs g b) \<Longrightarrow> c \<in> reach g a"
  by (auto simp: reach_def succs_rel intro: rtrancl_into_rtrancl)

lemma reach_cases: "wf g \<Longrightarrow> b \<in> reach g a \<Longrightarrow> b = a \<or> live g b"
  unfolding reach_def mem_Collect_eq by (erule rtranclE) (auto dest: rel_live)

lemma reach_live: "wf g \<Longrightarrow> live g a \<Longrightarrow> b \<in> reach g a \<Longrightarrow> live g b"
  using reach_cases by blast

lemma closed_contains_reach:
  assumes "wf g" and "a \<in> V" and "\<And>b c. b \<in> V \<Longrightarrow> c \<in> set (succs g b) \<Longrightarrow> c \<in> V"
  shows "reach g a \<subseteq> V"
proof
  fix b assume "b \<in> reach g a"
  then have "(a, b) \<in> (rel g)\<^sup>*" by (simp add: reach_def)
  then show "b \<in> V"
  proof induction
    case base
    show ?case by (rule assms(2))
  next
    case (step b c)
    then show ?case using assms(3) by (simp add: succs_rel [OF assms(1)])
  qed
qed

lemma succs_dead: "wf g \<Longrightarrow> \<not> live g a \<Longrightarrow> succs g a = []"
proof -
  assume wf: "wf g" and dead: "\<not> live g a"
  have "b \<notin> set (succs g a)" for b using succs_rel [OF wf] rel_live [OF wf] dead by blast
  then show ?thesis by (metis list.set_intros(1) neq_Nil_conv)
qed

lemma finite_reach: "wf g \<Longrightarrow> finite (reach g a)"
proof -
  assume wf: "wf g"
  have "reach g a \<subseteq> insert a {b. live g b}" using reach_cases [OF wf] by blast
  then show ?thesis using finite_live [OF wf] finite_subset by blast
qed

end

lemma finite_live_ids: "finite {i. hasNode_id cg i}"
  by (rule finite_subset [of _ "{..<length (nodes cg)}"]) (auto dest: hasNode_idD)

interpretation fwd: digraph_view wf_cg hasNode_id callees edgeSet
  by unfold_locales (auto simp: mem_callees_iff finite_live_ids dest: wf_cgD(3) intro: wf_edgesD(2,3) [OF wf_cgD(3)])

interpretation bwd: digraph_view wf_cg hasNode_id callers "\<lambda>cg. (edgeSet cg)\<inverse>"
  by unfold_locales (auto simp: mem_callers_iff finite_live_ids dest: wf_cgD(3) intro: wf_edgesD(2,3) [OF wf_cgD(3)])

section \<open>The search\<close>

text \<open>
  The loop of \<open>runForNode\<close>. A queue entry is a pointer; \<open>None\<close> is the null pointer, whose \<open>getId\<close>
  is undefined. The visited set does not change while the callees of one node are pushed.
\<close>

function bfs_loop :: "Callgraph \<Rightarrow> NodeId option list \<Rightarrow> NodeId set \<Rightarrow> NodeId set res" where
  "bfs_loop cg [] visitedNodes = Inr visitedNodes"
| "bfs_loop cg (None # workQueue) visitedNodes = Inl UndefinedBehaviour"
| "bfs_loop cg (Some node # workQueue) visitedNodes =
     bindR (getCallees_id cg node) (\<lambda>callees.
       bfs_loop cg (workQueue @ filter (\<lambda>childNode. childNode \<notin> Some ` insert node visitedNodes) callees)
         (insert node visitedNodes))"
  by pat_completeness auto

text \<open>
  Termination on every graph: a node visited for the first time lowers the number of slots not yet
  visited; any other entry leaves it alone, pushes only unvisited slots and takes itself away.
\<close>

lemma neighbourPtrs_bound:
  "neighbourPtrs cg l = Inr ps \<Longrightarrow> Some c \<in> set ps \<Longrightarrow> c < length (nodes cg)"
proof -
  have "mapR (\<lambda>elem. bindR (nthR (nodes cg) elem) (\<lambda>n. Inr (map_option (\<lambda>_. elem) n))) xs = Inr ps
    \<Longrightarrow> Some c \<in> set ps \<Longrightarrow> c < length (nodes cg)" for xs ps
    by (induction xs arbitrary: ps)
      (auto simp: bindR_eq_Inr_iff nthR_def eq_commute [of "Some c"] split: if_splits)
  then show "neighbourPtrs cg l = Inr ps \<Longrightarrow> Some c \<in> set ps \<Longrightarrow> c < length (nodes cg)"
    by (auto simp: neighbourPtrs_def bindR_eq_Inr_iff split: option.splits)
qed

definition stale :: "Callgraph \<Rightarrow> NodeId set \<Rightarrow> NodeId option \<Rightarrow> bool" where
  "stale cg visited p \<longleftrightarrow> (case p of None \<Rightarrow> False | Some c \<Rightarrow> c \<in> visited \<or> length (nodes cg) \<le> c)"

lemma card_diff_insert_less:
  "finite A \<Longrightarrow> x \<in> A \<Longrightarrow> x \<notin> B \<Longrightarrow> card (A - insert x B) < card (A - B)"
  by (rule psubset_card_mono) auto

termination bfs_loop
proof (relation "measures [\<lambda>(cg, q, v). card ({..<length (nodes cg)} - v), \<lambda>(cg, q, v). length (filter (stale cg v) q)]")
  fix cg node q v cs
  assume cs: "getCallees_id cg node = Inr cs"
  let ?q' = "q @ filter (\<lambda>c. c \<notin> Some ` insert node v) cs"
  show "((cg, ?q', insert node v), cg, Some node # q, v)
    \<in> measures [\<lambda>(cg, q, v). card ({..<length (nodes cg)} - v), \<lambda>(cg, q, v). length (filter (stale cg v) q)]"
  proof (cases "node < length (nodes cg) \<and> node \<notin> v")
    case True
    then show ?thesis using card_diff_insert_less [of "{..<length (nodes cg)}" node v] by simp
  next
    case False
    then have st: "stale cg (insert node v) = stale cg v" "stale cg v (Some node)"
      by (auto simp: stale_def fun_eq_iff split: option.splits)
    have "{..<length (nodes cg)} - insert node v = {..<length (nodes cg)} - v" using False by auto
    moreover have "filter (stale cg (insert node v)) (filter (\<lambda>c. c \<notin> Some ` insert node v) cs) = []"
      using cs neighbourPtrs_bound [of cg "calleeList cg node" cs]
      by (fastforce simp: filter_empty_conv getCallees_id_def stale_def split: option.splits)
    ultimately show ?thesis using st by (simp add: st(1))
  qed
qed simp

section \<open>The analysis object\<close>

record ReachabilityAnalysis =
  reachableNodes :: "NodeId \<rightharpoonup> NodeId set"
  computedFor :: "NodeId set"

definition new_ReachabilityAnalysis :: ReachabilityAnalysis where
  "new_ReachabilityAnalysis = \<lparr>reachableNodes = Map.empty, computedFor = {}\<rparr>"

definition runForNode ::
  "Callgraph \<Rightarrow> NodeId \<Rightarrow> ReachabilityAnalysis \<Rightarrow> ReachabilityAnalysis res" where
  "runForNode cg n ra =
     bindR (bfs_loop cg [Some n] {}) (\<lambda>visitedNodes.
     Inr (ra\<lparr>computedFor := insert n (computedFor ra),
             reachableNodes := (reachableNodes ra)(n \<mapsto> visitedNodes)\<rparr>))"

text \<open>The graph is behind a pointer and \<open>getMain\<close> caches in it, so it is returned as well.\<close>

definition computeReachableFromMain ::
  "Callgraph \<Rightarrow> ReachabilityAnalysis \<Rightarrow> (Callgraph \<times> ReachabilityAnalysis) res" where
  "computeReachableFromMain cg ra =
     bindR (getMain cg False) (\<lambda>(mainNode, cg').
     case mainNode of
       None \<Rightarrow> Inl AssertionFailed
     | Some m \<Rightarrow> bindR (runForNode cg' m ra) (\<lambda>ra'. Inr (cg', ra')))"

text \<open>
  \<open>computedFor.find(cg->getMain())\<close> with no main node looks up the null pointer, which is never in
  the set; the second look-up finds the entry of the main node.
\<close>

definition isReachableFromMain ::
  "Callgraph \<Rightarrow> NodeId \<Rightarrow> bool \<Rightarrow> ReachabilityAnalysis \<Rightarrow> (bool \<times> Callgraph \<times> ReachabilityAnalysis) res" where
  "isReachableFromMain cg node forceUpdate ra =
     bindR (if forceUpdate then Inr (True, cg)
            else bindR (getMain cg False) (\<lambda>(m, cg1).
              Inr (case m of None \<Rightarrow> True | Some i \<Rightarrow> i \<notin> computedFor ra, cg1))) (\<lambda>(update, cg1).
     bindR (if update then computeReachableFromMain cg1 ra else Inr (cg1, ra)) (\<lambda>(cg2, ra2).
     bindR (getMain cg2 False) (\<lambda>(m, cg3).
     bindR (derefR (case m of None \<Rightarrow> None | Some i \<Rightarrow> reachableNodes ra2 i)) (\<lambda>reachableFromMain.
     Inr (node \<in> reachableFromMain, cg3, ra2)))))"

definition touch_reachable :: "NodeId \<Rightarrow> ReachabilityAnalysis \<Rightarrow> ReachabilityAnalysis" where
  "touch_reachable src ra =
     (case reachableNodes ra src of
        None \<Rightarrow> ra\<lparr>reachableNodes := (reachableNodes ra)(src \<mapsto> {})\<rparr>
      | Some _ \<Rightarrow> ra)"

definition existsPathBetween ::
  "Callgraph \<Rightarrow> NodeId \<Rightarrow> NodeId \<Rightarrow> bool \<Rightarrow> ReachabilityAnalysis \<Rightarrow> (bool \<times> ReachabilityAnalysis) res" where
  "existsPathBetween cg src dest forceUpdate ra =
     (let ra1 = touch_reachable src ra in
      if \<not> forceUpdate \<and> src \<in> computedFor ra1
      then Inr (dest \<in> the (reachableNodes ra1 src), ra1)
      else bindR (runForNode cg src ra1) (\<lambda>ra2. Inr (dest \<in> the (reachableNodes ra2 src), ra2)))"

definition getReachableNodesFrom ::
  "Callgraph \<Rightarrow> NodeId \<Rightarrow> bool \<Rightarrow> ReachabilityAnalysis \<Rightarrow> (NodeId set \<times> ReachabilityAnalysis) res" where
  "getReachableNodesFrom cg node forceUpdate ra =
     bindR (if forceUpdate \<or> node \<notin> computedFor ra then runForNode cg node ra else Inr ra) (\<lambda>ra1.
     case reachableNodes ra1 node of
       None \<Rightarrow> Inl AssertionFailed
     | Some s \<Rightarrow> Inr (s, ra1))"

section \<open>Correctness of the search\<close>

lemma bfs_loop_correct:
  assumes "wf_cg cg" and "set q \<union> V \<subseteq> fwd.reach cg n" and "n \<in> set q \<union> V"
    and "\<And>b c. b \<in> V \<Longrightarrow> c \<in> set (callees cg b) \<Longrightarrow> c \<in> set q \<union> V"
  shows "bfs_loop cg (map Some q) V = Inr (fwd.reach cg n)"
  using assms
proof (induction cg "map Some q" V arbitrary: q rule: bfs_loop.induct)
  case (1 cg V)
  then have "V = fwd.reach cg n"
    using fwd.closed_contains_reach [of cg n V] by auto
  with 1 show ?case by simp
next
  case (2 cg q' V)
  then show ?case by auto
next
  case (3 cg node q' V)
  obtain q0 where q: "q = node # q0" and q': "q' = map Some q0" using 3(2) by auto
  let ?new = "filter (\<lambda>c. c \<notin> insert node V) (callees cg node)"
  have cs: "getCallees_id cg node = Inr (map Some (callees cg node))"
    using 3(3) by (rule getCallees_id_wf)
  have eq: "q' @ filter (\<lambda>c. c \<notin> Some ` insert node V) (map Some (callees cg node)) = map Some (q0 @ ?new)"
    by (auto simp: q' filter_map comp_def intro!: filter_cong)
  have node: "node \<in> fwd.reach cg n" using 3(4) q by simp
  have "bfs_loop cg (map Some (q0 @ ?new)) (insert node V) = Inr (fwd.reach cg n)"
  proof (rule 3(1) [OF cs eq 3(3)])
    show "set (q0 @ ?new) \<union> insert node V \<subseteq> fwd.reach cg n"
      using 3(4) q fwd.reach_step [OF 3(3) node] by auto
    show "n \<in> set (q0 @ ?new) \<union> insert node V" using 3(5) q by auto
    show "c \<in> set (q0 @ ?new) \<union> insert node V"
      if "b \<in> insert node V" "c \<in> set (callees cg b)" for b c
      using that 3(6) [of b c] q by auto
  qed
  then show ?case using q cs eq q' by simp
qed

lemma bfs_from: "wf_cg cg \<Longrightarrow> bfs_loop cg [Some n] {} = Inr (fwd.reach cg n)"
  using bfs_loop_correct [of cg "[n]" "{}" n] by simp

section \<open>The cache\<close>

text \<open>
  The cache invariant, for a graph that has not changed since: every node marked as computed has
  exactly the nodes reachable from it in its entry.
\<close>

definition cache_ok :: "Callgraph \<Rightarrow> ReachabilityAnalysis \<Rightarrow> bool" where
  "cache_ok cg ra \<longleftrightarrow> (\<forall>n \<in> computedFor ra. reachableNodes ra n = Some (fwd.reach cg n))"

lemma cache_ok_new [simp]: "cache_ok cg new_ReachabilityAnalysis"
  by (simp add: cache_ok_def new_ReachabilityAnalysis_def)

lemma runForNode_spec:
  "wf_cg cg \<Longrightarrow> runForNode cg n ra =
     Inr (ra\<lparr>computedFor := insert n (computedFor ra),
             reachableNodes := (reachableNodes ra)(n \<mapsto> fwd.reach cg n)\<rparr>)"
  by (simp only: runForNode_def bfs_from bindR_simps)

lemma runForNode_cache: "wf_cg cg \<Longrightarrow> cache_ok cg ra \<Longrightarrow> runForNode cg n ra = Inr ra' \<Longrightarrow> cache_ok cg ra'"
  by (auto simp: runForNode_spec cache_ok_def)

lemma touch_cache: "cache_ok cg ra \<Longrightarrow> cache_ok cg (touch_reachable src ra)"
  by (auto simp: cache_ok_def touch_reachable_def split: option.splits)

lemma touch_simps [simp]: "computedFor (touch_reachable src ra) = computedFor ra"
  by (simp add: touch_reachable_def split: option.splits)

lemma reach_mainNode [simp]: "fwd.reach (cg\<lparr>mainNode := m\<rparr>) = fwd.reach cg"
  by (simp add: fwd.reach_def fun_eq_iff)

lemma cache_mainNode [simp]: "cache_ok (cg\<lparr>mainNode := m\<rparr>) = cache_ok cg"
  by (simp add: cache_ok_def fun_eq_iff)

section \<open>Properties\<close>

lemma reachability_exact:
  assumes "wf_cg cg" and "cache_ok cg ra"
  shows "(\<exists>ra'. getReachableNodesFrom cg n force ra = Inr ({m. (n, m) \<in> (edgeSet cg)\<^sup>*}, ra') \<and> cache_ok cg ra')
    \<and> (\<exists>ra'. existsPathBetween cg n m force ra = Inr ((n, m) \<in> (edgeSet cg)\<^sup>*, ra') \<and> cache_ok cg ra')"
proof
  show "\<exists>ra'. getReachableNodesFrom cg n force ra = Inr ({m. (n, m) \<in> (edgeSet cg)\<^sup>*}, ra') \<and> cache_ok cg ra'"
    using assms runForNode_cache [OF assms]
    by (auto simp: getReachableNodesFrom_def runForNode_spec fwd.reach_def cache_ok_def)
  show "\<exists>ra'. existsPathBetween cg n m force ra = Inr ((n, m) \<in> (edgeSet cg)\<^sup>*, ra') \<and> cache_ok cg ra'"
    using assms touch_cache [OF assms(2), of n]
    by (auto simp: existsPathBetween_def Let_def runForNode_spec fwd.reach_def cache_ok_def)
qed

text \<open>
  C6: \<open>getReachableNodesFrom\<close> and \<open>existsPathBetween\<close> return on every well-formed graph and answer
  with the reflexive transitive closure of the call edges, whether the answer comes from the cache
  or from a new search; the cache stays correct.
\<close>

theorem reachability_correct:
  assumes "wf_cg cg" and "cache_ok cg ra"
  shows "(\<exists>ra'. getReachableNodesFrom cg n force ra = Inr ({m. (n, m) \<in> (edgeSet cg)\<^sup>*}, ra') \<and> cache_ok cg ra')
    \<and> (\<exists>ra'. existsPathBetween cg n m force ra = Inr ((n, m) \<in> (edgeSet cg)\<^sup>*, ra') \<and> cache_ok cg ra')"
  using assms by (rule reachability_exact)

theorem reachability_correct_witness:
  "\<exists>ra'. existsPathBetween sample_cg 0 2 False new_ReachabilityAnalysis = Inr (True, ra')"
proof -
  have "(0, 2) \<in> (edgeSet sample_cg)\<^sup>*"
    by (rule converse_rtrancl_into_rtrancl [of _ 1]) (auto simp: sample_cg_def edgeSet_def)
  then show ?thesis
    using reachability_correct [OF wf_sample_cg cache_ok_new, of 0 False 2] by auto
qed

lemma getMain_twice:
  assumes "wf_cg cg" and "getMain cg False = Inr (Some m, cg1)"
  shows "getMain cg1 False = Inr (Some m, cg1)" and "cg1 = cg\<lparr>mainNode := Some m\<rparr>" and "wf_cg cg1"
  using assms wf_getMain [OF assms]
  by (auto simp: getMain_abs [OF assms(1)] split: if_splits) (simp_all add: getMain_def)

text \<open>
  C24: \<open>isReachableFromMain\<close> fails its assertion iff the graph has no main node (and throws if the
  entry metadata names the ID one past the last slot); otherwise it answers whether there is a
  path from the main node.
\<close>

theorem reachable_from_main:
  assumes "wf_cg cg" and "cache_ok cg ra" and "mainNode cg = None"
  shows "isReachableFromMain cg n force ra =
    (if entryId cg = Some (length (nodes cg)) then Inl OutOfRange
     else case abs_main (abs_cg cg) of
       None \<Rightarrow> Inl AssertionFailed
     | Some m \<Rightarrow> Inr ((m, n) \<in> (edgeSet cg)\<^sup>*, cg\<lparr>mainNode := Some m\<rparr>,
         if force \<or> m \<notin> computedFor ra
         then ra\<lparr>computedFor := insert m (computedFor ra),
                 reachableNodes := (reachableNodes ra)(m \<mapsto> {b. (m, b) \<in> (edgeSet cg)\<^sup>*})\<rparr>
         else ra))"
proof (cases "entryId cg = Some (length (nodes cg))")
  case True
  then show ?thesis
    using assms by (auto simp: isReachableFromMain_def computeReachableFromMain_def getMain_abs)
next
  case False
  define m where "m = abs_main (abs_cg cg)"
  have gm: "getMain cg False = Inr (m, cg\<lparr>mainNode := m\<rparr>)"
    using False assms by (simp add: getMain_abs m_def)
  show ?thesis
  proof (cases m)
    case None
    then have "cg\<lparr>mainNode := m\<rparr> = cg" using assms(3) by simp
    then show ?thesis
      using None False gm by (simp add: isReachableFromMain_def computeReachableFromMain_def m_def [symmetric])
  next
    case (Some i)
    have gm: "getMain cg False = Inr (Some i, cg\<lparr>mainNode := Some i\<rparr>)" using gm Some by simp
    note gm2 = getMain_twice [OF assms(1) gm]
    have "i \<in> computedFor ra \<Longrightarrow> reachableNodes ra i = Some (fwd.reach cg i)"
      using assms(2) by (simp add: cache_ok_def)
    then show ?thesis
      using Some False gm gm2(1,3)
      by (auto simp: isReachableFromMain_def computeReachableFromMain_def m_def [symmetric] runForNode_spec
          fwd.reach_def)
  qed
qed

theorem reachable_from_main_witness:
  "\<exists>ra. isReachableFromMain sample_cg 2 False new_ReachabilityAnalysis =
     Inr ((0, 2) \<in> (edgeSet sample_cg)\<^sup>*, sample_cg\<lparr>mainNode := Some 0\<rparr>, ra)"
proof -
  have "mainNode sample_cg = None" "entryId sample_cg = None" by (simp_all add: sample_cg_def entryId_def)
  then show ?thesis
    using reachable_from_main [OF wf_sample_cg cache_ok_new] abs_main_sample by simp
qed

end
