(* ===== verification/Dominators.thy ===== *)
theory Dominators
  imports Reachability
begin

text \<open>
  The dominator analysis of \<open>DominatorAnalysis.h\<close>: the work-list iteration that computes, for every
  node reachable from a start node, the nodes on all paths to it, along the edges
  (\<open>TraverseDir::Forward\<close>) or against them (\<open>TraverseDir::Backward\<close>).
  A pointer into the result map is the key of its entry. A neighbour that is a null pointer, which
  a well-formed graph never has, counts as undefined behaviour at once.
\<close>

section \<open>The algorithm\<close>

datatype TraverseDir = Forward | Backward

record DomData =
  dd_node :: "NodeId option"
  Doms :: "NodeId set"
  initialized :: bool

type_synonym DomMap = "NodeId \<rightharpoonup> DomData"

definition DomData_default :: DomData where
  "DomData_default = \<lparr>dd_node = None, Doms = {}, initialized = False\<rparr>"

definition unorderedIntersection :: "NodeId set \<Rightarrow> NodeId set \<Rightarrow> NodeId set" where
  "unorderedIntersection a b = Set.filter (\<lambda>item. item \<in> b) a"

fun intersection :: "NodeId list \<Rightarrow> DomMap \<Rightarrow> NodeId set res" where
  "intersection [] M = Inr {}"
| "intersection (n # ns) M =
     bindR (atR M n) (\<lambda>d.
     foldR (\<lambda>n' last. bindR (atR M n') (\<lambda>d'. Inr (unorderedIntersection last (Doms d')))) ns (Doms d))"

text \<open>\<open>DomMap[p]\<close> inserts a default entry where there is none.\<close>

definition ensure :: "NodeId \<Rightarrow> DomMap \<Rightarrow> DomMap" where
  "ensure p M = (case M p of None \<Rightarrow> M(p \<mapsto> DomData_default) | Some _ \<Rightarrow> M)"

fun initializedOf :: "NodeId list \<Rightarrow> DomMap \<Rightarrow> NodeId list \<times> DomMap" where
  "initializedOf [] M = ([], M)"
| "initializedOf (p # ps) M =
     (let M1 = ensure p M; rest = initializedOf ps M1
      in (if initialized (the (M1 p)) then p # fst rest else fst rest, snd rest))"

definition addToQueue :: "NodeId \<Rightarrow> NodeId list \<Rightarrow> NodeId list" where
  "addToQueue k workQueue = (if k \<in> set workQueue then workQueue else workQueue @ [k])"

fun pushOuts :: "NodeId list \<Rightarrow> DomMap \<Rightarrow> NodeId list \<Rightarrow> DomMap \<times> NodeId list" where
  "pushOuts [] M workQueue = (M, workQueue)"
| "pushOuts (p # ps) M workQueue =
     (let M1 = ensure p M; data = the (M1 p);
          M2 = (if dd_node data = None then M1(p \<mapsto> data\<lparr>dd_node := Some p\<rparr>) else M1)
      in pushOuts ps M2 (addToQueue p workQueue))"

definition dom_step ::
  "(NodeId \<Rightarrow> NodeId list res) \<Rightarrow> (NodeId \<Rightarrow> NodeId list res) \<Rightarrow> NodeId \<Rightarrow> DomMap \<Rightarrow> NodeId list
   \<Rightarrow> (DomMap \<times> NodeId list) res" where
  "dom_step incoming outgoing k M workQueue =
     bindR (derefR (M k)) (\<lambda>nodeData.
     bindR (derefR (dd_node nodeData)) (\<lambda>node.
     bindR (incoming node) (\<lambda>ins.
     let (initializedCallees, M1) = initializedOf ins M in
     bindR (intersection initializedCallees M1) (\<lambda>common.
     let DomNew = insert node common in
     if \<not> initialized nodeData \<or> Doms nodeData \<noteq> DomNew then
       bindR (outgoing node) (\<lambda>outs.
       Inr (pushOuts outs (M1(k \<mapsto> nodeData\<lparr>Doms := DomNew, initialized := True\<rparr>)) workQueue))
     else Inr (M1, workQueue)))))"

text \<open>The \<open>do ... while\<close> loop; \<open>None\<close> is a loop that does not end.\<close>

partial_function (option) dom_loop ::
  "(NodeId \<Rightarrow> NodeId list res) \<Rightarrow> (NodeId \<Rightarrow> NodeId list res) \<Rightarrow> DomMap \<Rightarrow> NodeId list
   \<Rightarrow> DomMap res option" where
  "dom_loop incoming outgoing M workQueue =
     (if workQueue = [] then Some (Inr M)
      else if isl (dom_step incoming outgoing (hd workQueue) M (tl workQueue))
      then Some (Inl (projl (dom_step incoming outgoing (hd workQueue) M (tl workQueue))))
      else dom_loop incoming outgoing
             (fst (projr (dom_step incoming outgoing (hd workQueue) M (tl workQueue))))
             (snd (projr (dom_step incoming outgoing (hd workQueue) M (tl workQueue)))))"

lemma dom_loop_Nil: "dom_loop incoming outgoing M [] = Some (Inr M)"
  by (subst dom_loop.simps) simp

lemma dom_loop_Cons:
  "dom_loop incoming outgoing M (k # workQueue) =
     (case dom_step incoming outgoing k M workQueue of
        Inl e \<Rightarrow> Some (Inl e)
      | Inr st \<Rightarrow> dom_loop incoming outgoing (fst st) (snd st))"
  by (subst dom_loop.simps) (simp split: sum.splits)

definition ptrs :: "NodeId option list res \<Rightarrow> NodeId list res" where
  "ptrs r = bindR r (mapR derefR)"

definition incoming_of :: "TraverseDir \<Rightarrow> Callgraph \<Rightarrow> NodeId \<Rightarrow> NodeId list res" where
  "incoming_of dir graph n =
     (case dir of
        Forward \<Rightarrow> ptrs (getCallers_ref graph (self graph, n))
      | Backward \<Rightarrow> ptrs (getCallees_ref graph (self graph, n)))"

definition outgoing_of :: "TraverseDir \<Rightarrow> Callgraph \<Rightarrow> NodeId \<Rightarrow> NodeId list res" where
  "outgoing_of dir graph n =
     (case dir of
        Backward \<Rightarrow> ptrs (getCallers_ref graph (self graph, n))
      | Forward \<Rightarrow> ptrs (getCallees_ref graph (self graph, n)))"

definition initialDomMap :: "NodeId \<Rightarrow> DomMap" where
  "initialDomMap exitNode = [exitNode \<mapsto> \<lparr>dd_node = Some exitNode, Doms = {}, initialized = False\<rparr>]"

definition computeDominators :: "TraverseDir \<Rightarrow> Callgraph \<Rightarrow> NodeId \<Rightarrow> DomMap res option" where
  "computeDominators dir graph exitNode =
     dom_loop (incoming_of dir graph) (outgoing_of dir graph) (initialDomMap exitNode) [exitNode]"

section \<open>Closed forms of the parts\<close>

lemma unorderedIntersection_eq [simp]: "unorderedIntersection a b = a \<inter> b"
  by (auto simp: unorderedIntersection_def)

definition isInit :: "DomMap \<Rightarrow> NodeId \<Rightarrow> bool" where
  "isInit M p \<longleftrightarrow> (\<exists>d. M p = Some d \<and> initialized d)"

definition domsOf :: "DomMap \<Rightarrow> NodeId \<Rightarrow> NodeId set" where
  "domsOf M p = Doms (the (M p))"

lemma intersection_eq:
  assumes "\<And>p. p \<in> set ps \<Longrightarrow> M p \<noteq> None"
  shows "intersection ps M = Inr (if ps = [] then {} else \<Inter> (domsOf M ` set ps))"
proof (cases ps)
  case (Cons n ns)
  have fold: "foldR (\<lambda>n' last. bindR (atR M n') (\<lambda>d'. Inr (unorderedIntersection last (Doms d')))) xs acc
      = Inr (acc \<inter> \<Inter> (domsOf M ` set xs))" if "\<And>p. p \<in> set xs \<Longrightarrow> M p \<noteq> None" for xs acc
    using that
  proof (induction xs arbitrary: acc)
    case (Cons x xs)
    then obtain d where "M x = Some d" by auto
    with Cons show ?case by (simp add: domsOf_def Int_assoc)
  qed simp
  obtain d where "M n = Some d" using assms Cons by auto
  then show ?thesis using assms Cons fold [of ns] by (simp add: domsOf_def)
qed simp

lemma ensure_props [simp]:
  "isInit (ensure p M) = isInit M" "ensure p M p \<noteq> None"
  "q \<noteq> p \<Longrightarrow> ensure p M q = M q" "M q \<noteq> None \<Longrightarrow> ensure p M q = M q"
  by (auto simp: ensure_def isInit_def DomData_default_def fun_eq_iff split: option.splits)

lemma initializedOf_eq:
  "fst (initializedOf ps M) = filter (isInit M) ps"
  "isInit (snd (initializedOf ps M)) = isInit M"
  "M q \<noteq> None \<Longrightarrow> snd (initializedOf ps M) q = M q"
  "M q = None \<Longrightarrow> snd (initializedOf ps M) q = (if q \<in> set ps then Some DomData_default else None)"
proof (induction ps arbitrary: M)
  case (Cons p ps)
  have p: "initialized (the (ensure p M p)) = isInit M p" for M
    by (auto simp: ensure_def isInit_def DomData_default_def split: option.splits)
  {
    case 1
    show ?case using Cons(1) [of "ensure p M"] p by (auto simp: Let_def)
  next
    case 2
    show ?case using Cons(2) [of "ensure p M"] by (simp add: Let_def)
  next
    case 3
    then show ?case using Cons(3) [of "ensure p M"] by (simp add: Let_def)
  next
    case 4
    show ?case
    proof (cases "q = p")
      case True
      then have "ensure p M q = Some DomData_default" using 4 by (simp add: ensure_def)
      then show ?thesis using True Cons(3) [of "ensure p M"] by (simp add: Let_def)
    next
      case False
      then show ?thesis using Cons(4) [of "ensure p M"] 4 by (simp add: Let_def)
    qed
  }
qed simp_all

text \<open>Every entry is keyed by its node, or has never been reached.\<close>

definition wf_DomMap :: "DomMap \<Rightarrow> bool" where
  "wf_DomMap M \<longleftrightarrow>
     (\<forall>q d. M q = Some d \<longrightarrow> dd_node d = Some q \<or> dd_node d = None \<and> \<not> initialized d)"

definition named :: "DomMap \<Rightarrow> NodeId \<Rightarrow> bool" where
  "named M q \<longleftrightarrow> (\<exists>d. M q = Some d \<and> dd_node d = Some q)"

lemma wf_DomMap_ensure: "wf_DomMap M \<Longrightarrow> wf_DomMap (ensure p M)"
  by (auto simp: wf_DomMap_def ensure_def DomData_default_def split: option.splits)

lemma wf_DomMap_initializedOf: "wf_DomMap M \<Longrightarrow> wf_DomMap (snd (initializedOf ps M))"
  by (induction ps arbitrary: M) (simp_all add: Let_def wf_DomMap_ensure)

lemma initialized_named: "wf_DomMap M \<Longrightarrow> isInit M q \<Longrightarrow> named M q"
  by (auto simp: wf_DomMap_def isInit_def named_def)

lemma pushOuts_props:
  assumes "wf_DomMap M" and "pushOuts ps M Q = (M', Q')"
  shows "wf_DomMap M' \<and> isInit M' = isInit M \<and> (\<forall>q. named M q \<longrightarrow> M' q = M q)
    \<and> (\<forall>q \<in> set ps. named M' q) \<and> set Q' = set Q \<union> set ps \<and> (distinct Q \<longrightarrow> distinct Q')"
  using assms
proof (induction ps arbitrary: M Q)
  case (Cons p ps)
  define M1 where "M1 = ensure p M"
  define M2 where "M2 = (if dd_node (the (M1 p)) = None then M1(p \<mapsto> (the (M1 p))\<lparr>dd_node := Some p\<rparr>) else M1)"
  have wf1: "wf_DomMap M1" using Cons.prems(1) by (simp add: M1_def wf_DomMap_ensure)
  obtain d where d: "M1 p = Some d" by (cases "M p") (auto simp: M1_def ensure_def)
  have wf2: "wf_DomMap M2" using wf1 d by (auto simp: wf_DomMap_def M2_def)
  have "isInit M2 = isInit M1" using d by (auto simp: M2_def isInit_def fun_eq_iff)
  then have init2: "isInit M2 = isInit M" by (simp add: M1_def)
  have keep: "M2 q = M q" if "named M q" for q
    using that d by (cases "M p") (auto simp: M2_def M1_def named_def ensure_def)
  have "dd_node d = Some p \<or> dd_node d = None" using wf1 [unfolded wf_DomMap_def, rule_format, OF d] by (elim disjE) simp_all
  then have p2: "named M2 p" using d by (auto simp: M2_def named_def)
  have run: "pushOuts ps M2 (addToQueue p Q) = (M', Q')"
    using Cons.prems(2) by (simp add: Let_def M1_def [symmetric] M2_def [symmetric])
  have IH: "wf_DomMap M' \<and> isInit M' = isInit M2 \<and> (\<forall>q. named M2 q \<longrightarrow> M' q = M2 q)
    \<and> (\<forall>q \<in> set ps. named M' q) \<and> set Q' = set (addToQueue p Q) \<union> set ps
    \<and> (distinct (addToQueue p Q) \<longrightarrow> distinct Q')"
    using wf2 run by (rule Cons.IH)
  have "named M' p" using IH p2 by (auto simp: named_def)
  moreover have "named M q \<Longrightarrow> named M2 q" for q using keep [of q] by (simp add: named_def)
  ultimately show ?case using IH init2 keep by (auto simp: addToQueue_def)
qed simp

section \<open>Dominators\<close>

text \<open>The walks of a relation, as the list of their nodes, and the nodes that lie on all of them.\<close>

inductive walk :: "(NodeId \<times> NodeId) set \<Rightarrow> NodeId \<Rightarrow> NodeId \<Rightarrow> NodeId list \<Rightarrow> bool"
  for E :: "(NodeId \<times> NodeId) set" and a :: NodeId where
  walk_refl: "walk E a a [a]"
| walk_step: "walk E a b ps \<Longrightarrow> (b, c) \<in> E \<Longrightarrow> walk E a c (ps @ [c])"

definition dominates :: "(NodeId \<times> NodeId) set \<Rightarrow> NodeId \<Rightarrow> NodeId \<Rightarrow> NodeId \<Rightarrow> bool" where
  "dominates E e d n \<longleftrightarrow> (\<forall>ps. walk E e n ps \<longrightarrow> d \<in> set ps)"

inductive_cases walk_reflE: "walk E a a ps"

lemma walk_ends: "walk E a b ps \<Longrightarrow> a \<in> set ps \<and> b \<in> set ps"
  by (induction rule: walk.induct) auto

lemma reachable_walk: "(a, b) \<in> E\<^sup>* \<Longrightarrow> \<exists>ps. walk E a b ps"
  by (induction rule: rtrancl_induct) (blast intro: walk.intros)+

lemma dominates_refl: "dominates E e n n"
  by (auto simp: dominates_def dest: walk_ends)

lemma dominates_entry: "dominates E e d e \<Longrightarrow> d = e"
  unfolding dominates_def using walk_refl [of E e] by fastforce

lemma dominates_pred: "dominates E e d k \<Longrightarrow> d \<noteq> k \<Longrightarrow> (p, k) \<in> E \<Longrightarrow> dominates E e d p"
  unfolding dominates_def using walk_step [of E e p _ k] by fastforce

section \<open>The iteration\<close>

locale dom_problem = digraph_view wf live out rel
  for wf :: "'g \<Rightarrow> bool" and live :: "'g \<Rightarrow> NodeId \<Rightarrow> bool" and out :: "'g \<Rightarrow> NodeId \<Rightarrow> NodeId list"
    and rel :: "'g \<Rightarrow> (NodeId \<times> NodeId) set" +
  fixes inc :: "'g \<Rightarrow> NodeId \<Rightarrow> NodeId list"
  assumes inc_rel: "wf g \<Longrightarrow> b \<in> set (inc g a) \<longleftrightarrow> (b, a) \<in> rel g"
begin

definition initPreds :: "'g \<Rightarrow> DomMap \<Rightarrow> NodeId \<Rightarrow> NodeId set" where
  "initPreds g M k = {p. (p, k) \<in> rel g \<and> isInit M p}"

definition newDoms :: "'g \<Rightarrow> DomMap \<Rightarrow> NodeId \<Rightarrow> NodeId set" where
  "newDoms g M k = insert k (if initPreds g M k = {} then {} else \<Inter> (domsOf M ` initPreds g M k))"

definition dinv :: "'g \<Rightarrow> NodeId \<Rightarrow> DomMap \<Rightarrow> NodeId list \<Rightarrow> bool" where
  "dinv g e M Q \<longleftrightarrow>
     wf_DomMap M \<and> distinct Q \<and> (\<forall>q \<in> set Q. q \<in> reach g e \<and> named M q)
     \<and> (\<forall>k. isInit M k \<longrightarrow> k \<in> reach g e \<and> domsOf M k \<subseteq> reach g e \<and> newDoms g M k \<subseteq> domsOf M k
          \<and> {d. dominates (rel g) e d k} \<subseteq> domsOf M k)
     \<and> (\<forall>k. isInit M k \<longrightarrow> k \<notin> set Q \<longrightarrow> domsOf M k = newDoms g M k)
     \<and> (\<forall>p c. isInit M p \<longrightarrow> (p, c) \<in> rel g \<longrightarrow> isInit M c \<or> c \<in> set Q)
     \<and> (isInit M e \<or> e \<in> set Q)
     \<and> (\<forall>k. isInit M k \<or> k \<in> set Q \<longrightarrow> k = e \<or> initPreds g M k \<noteq> {})"

lemma dinvD:
  assumes "dinv g e M Q"
  shows "wf_DomMap M" "distinct Q" "q \<in> set Q \<Longrightarrow> q \<in> reach g e" "q \<in> set Q \<Longrightarrow> named M q"
    and "isInit M k \<Longrightarrow> k \<in> reach g e" "isInit M k \<Longrightarrow> domsOf M k \<subseteq> reach g e"
    and "isInit M k \<Longrightarrow> newDoms g M k \<subseteq> domsOf M k"
    and "isInit M k \<Longrightarrow> dominates (rel g) e d k \<Longrightarrow> d \<in> domsOf M k"
    and "isInit M k \<Longrightarrow> k \<notin> set Q \<Longrightarrow> domsOf M k = newDoms g M k"
    and "isInit M p \<Longrightarrow> (p, c) \<in> rel g \<Longrightarrow> isInit M c \<or> c \<in> set Q"
    and "isInit M e \<or> e \<in> set Q"
    and "isInit M k \<or> k \<in> set Q \<Longrightarrow> k = e \<or> initPreds g M k \<noteq> {}"
  using assms unfolding dinv_def by blast+

lemma dom_step_eq:
  assumes wf: "wf g" and M: "wf_DomMap M" "named M k"
  shows "dom_step (\<lambda>n. Inr (inc g n)) (\<lambda>n. Inr (out g n)) k M Q =
     (let M1 = snd (initializedOf (inc g k) M) in
      if \<not> isInit M k \<or> domsOf M k \<noteq> newDoms g M k
      then Inr (pushOuts (out g k) (M1(k \<mapsto> (the (M k))\<lparr>Doms := newDoms g M k, initialized := True\<rparr>)) Q)
      else Inr (M1, Q))"
proof -
  obtain d where d: "M k = Some d" "dd_node d = Some k" using M(2) by (auto simp: named_def)
  define M1 where "M1 = snd (initializedOf (inc g k) M)"
  have io: "initializedOf (inc g k) M = (filter (isInit M) (inc g k), M1)"
    by (simp add: prod_eq_iff initializedOf_eq(1) M1_def)
  have set: "set (filter (isInit M) (inc g k)) = initPreds g M k"
    by (auto simp: initPreds_def inc_rel [OF wf])
  have keep: "M1 p = M p" if "isInit M p" for p
    using that initializedOf_eq(3) [of M p "inc g k"] by (auto simp: isInit_def M1_def)
  have "intersection (filter (isInit M) (inc g k)) M1 =
      Inr (if initPreds g M k = {} then {} else \<Inter> (domsOf M1 ` initPreds g M k))"
  proof -
    have "M1 p \<noteq> None" if "p \<in> set (filter (isInit M) (inc g k))" for p
      using that keep [of p] by (auto simp: isInit_def)
    moreover have "filter (isInit M) (inc g k) = [] \<longleftrightarrow> initPreds g M k = {}" using set by (metis set_empty)
    ultimately show ?thesis using intersection_eq [of "filter (isInit M) (inc g k)" M1] set by simp
  qed
  moreover have "domsOf M1 ` initPreds g M k = domsOf M ` initPreds g M k"
    by (rule image_cong) (auto simp: domsOf_def initPreds_def keep)
  ultimately have inter: "intersection (filter (isInit M) (inc g k)) M1 =
      Inr (if initPreds g M k = {} then {} else \<Inter> (domsOf M ` initPreds g M k))" by simp
  have "insert k (if initPreds g M k = {} then {} else \<Inter> (domsOf M ` initPreds g M k)) = newDoms g M k"
    by (simp add: newDoms_def)
  then show ?thesis
    using d by (simp add: dom_step_def io inter Let_def M1_def [symmetric] isInit_def domsOf_def)
qed

text \<open>
  A change at one node \<open>k\<close>: only \<open>k\<close> becomes initialised or gets other dominators. What a step does
  is one of these, or nothing.
\<close>

lemma newDoms_other:
  assumes "\<And>p. isInit M' p \<longleftrightarrow> isInit M p \<or> p = k" and "\<And>p. isInit M p \<Longrightarrow> p \<noteq> k \<Longrightarrow> domsOf M' p = domsOf M p"
    and "(k, x) \<notin> rel g"
  shows "newDoms g M' x = newDoms g M x"
proof -
  have ip: "initPreds g M' x = initPreds g M x" using assms(1,3) by (auto simp: initPreds_def)
  have "domsOf M' ` initPreds g M x = domsOf M ` initPreds g M x"
    by (rule image_cong) (use assms(2,3) in \<open>auto simp: initPreds_def\<close>)
  then show ?thesis by (simp add: newDoms_def ip)
qed

lemma newDoms_mono:
  assumes "\<And>p. isInit M' p \<longleftrightarrow> isInit M p \<or> p = k" and "\<And>p. isInit M p \<Longrightarrow> p \<noteq> k \<Longrightarrow> domsOf M' p = domsOf M p"
    and "isInit M k \<Longrightarrow> domsOf M' k \<subseteq> domsOf M k" and "initPreds g M x \<noteq> {}"
  shows "newDoms g M' x \<subseteq> newDoms g M x"
proof -
  have sub: "initPreds g M x \<subseteq> initPreds g M' x" using assms(1) by (auto simp: initPreds_def)
  have le: "domsOf M' p \<subseteq> domsOf M p" if "p \<in> initPreds g M x" for p
    using that assms(2,3) by (cases "p = k") (auto simp: initPreds_def)
  have "\<Inter> (domsOf M' ` initPreds g M' x) \<subseteq> \<Inter> (domsOf M ` initPreds g M x)"
    using sub le by blast
  then show ?thesis using assms(4) sub by (auto simp: newDoms_def)
qed

lemma newDoms_sound:
  assumes inv: "dinv g e M Q" and k: "k = e \<or> initPreds g M k \<noteq> {}"
  shows "{d. dominates (rel g) e d k} \<subseteq> newDoms g M k"
proof
  fix d assume "d \<in> {d. dominates (rel g) e d k}"
  then have d: "dominates (rel g) e d k" by simp
  show "d \<in> newDoms g M k"
  proof (cases "d = k")
    case False
    then have "initPreds g M k \<noteq> {}" using k d dominates_entry by auto
    moreover have "d \<in> domsOf M p" if "p \<in> initPreds g M k" for p
      using that dinvD(8) [OF inv] dominates_pred [OF d False] by (auto simp: initPreds_def)
    ultimately show ?thesis by (auto simp: newDoms_def)
  qed (simp add: newDoms_def)
qed

lemma newDoms_reach:
  assumes inv: "dinv g e M Q" and k: "k \<in> reach g e"
  shows "newDoms g M k \<subseteq> reach g e"
proof (cases "initPreds g M k = {}")
  case False
  then obtain p where p: "p \<in> initPreds g M k" by blast
  then have "domsOf M p \<subseteq> reach g e" using dinvD(6) [OF inv] by (simp add: initPreds_def)
  then show ?thesis using k p by (auto simp: newDoms_def)
qed (simp add: newDoms_def k)

text \<open>The potential that every change lowers.\<close>

definition weight :: "'g \<Rightarrow> NodeId \<Rightarrow> DomMap \<Rightarrow> NodeId \<Rightarrow> nat" where
  "weight g e M x = (if isInit M x then card (domsOf M x) else Suc (card (reach g e)))"

definition potential :: "'g \<Rightarrow> NodeId \<Rightarrow> DomMap \<Rightarrow> nat" where
  "potential g e M = sum (weight g e M) (reach g e)"

lemma potential_less:
  assumes wf: "wf g" and k: "k \<in> reach g e" and "weight g e M' k < weight g e M k"
    and "\<And>x. x \<in> reach g e \<Longrightarrow> x \<noteq> k \<Longrightarrow> weight g e M' x = weight g e M x"
  shows "potential g e M' < potential g e M"
  unfolding potential_def using assms
  by (intro sum_strict_mono_ex1 [OF finite_reach [OF wf]]) (metis le_refl less_imp_le, blast)

lemma dinv_step_same:
  assumes inv: "dinv g e M (k # Q)" and "isInit M k" and "domsOf M k = newDoms g M k"
    and M1: "wf_DomMap M1" "isInit M1 = isInit M" "\<And>q. M q \<noteq> None \<Longrightarrow> M1 q = M q"
  shows "dinv g e M1 Q \<and> potential g e M1 = potential g e M"
proof -
  have doms: "domsOf M1 p = domsOf M p" if "isInit M p" for p
    using M1(3) [of p] that by (auto simp: domsOf_def isInit_def)
  have ip: "initPreds g M1 = initPreds g M" by (simp add: initPreds_def M1(2) fun_eq_iff)
  have "domsOf M1 ` initPreds g M x = domsOf M ` initPreds g M x" for x
    by (rule image_cong) (auto simp: initPreds_def doms)
  then have nd: "newDoms g M1 x = newDoms g M x" for x by (simp add: newDoms_def ip)
  have named: "named M q \<Longrightarrow> named M1 q" for q using M1(3) [of q] by (auto simp: named_def)
  have "weight g e M1 x = weight g e M x" for x by (simp add: weight_def M1(2) doms)
  then have "potential g e M1 = potential g e M" by (simp add: potential_def)
  moreover have "dinv g e M1 Q"
    unfolding dinv_def M1(2) ip
  proof (intro conjI allI impI ballI)
    show "wf_DomMap M1" by (rule M1(1))
    show "distinct Q" using dinvD(2) [OF inv] by simp
    show "q \<in> reach g e" "named M1 q" if "q \<in> set Q" for q
      using dinvD(3,4) [OF inv, of q] that named by auto
    show "x \<in> reach g e" if "isInit M x" for x using dinvD(5) [OF inv that] .
    show "domsOf M1 x \<subseteq> reach g e" "newDoms g M1 x \<subseteq> domsOf M1 x"
      "{d. dominates (rel g) e d x} \<subseteq> domsOf M1 x" if "isInit M x" for x
      using dinvD(6-8) [OF inv that] doms [OF that] nd by auto
    show "domsOf M1 x = newDoms g M1 x" if "isInit M x" "x \<notin> set Q" for x
      using dinvD(9) [OF inv that(1)] assms(3) doms [OF that(1)] nd that(2) by (cases "x = k") auto
    show "isInit M c \<or> c \<in> set Q" if "isInit M p" "(p, c) \<in> rel g" for p c
      using dinvD(10) [OF inv that] assms(2) by auto
    show "isInit M e \<or> e \<in> set Q" using dinvD(11) [OF inv] assms(2) by auto
    show "x = e \<or> initPreds g M x \<noteq> {}" if "isInit M x \<or> x \<in> set Q" for x
      using dinvD(12) [OF inv, of x] that by auto
  qed
  ultimately show ?thesis by blast
qed

lemma dinv_step_change:
  assumes wf: "wf g" and noin: "\<And>p. (p, e) \<notin> rel g" and inv: "dinv g e M (k # Q)"
    and ch: "\<not> isInit M k \<or> domsOf M k \<noteq> newDoms g M k"
    and M': "wf_DomMap M'" "\<And>p. isInit M' p \<longleftrightarrow> isInit M p \<or> p = k"
      "\<And>p. named M p \<Longrightarrow> p \<noteq> k \<Longrightarrow> M' p = M p" "named M' k" "domsOf M' k = newDoms g M k"
      "\<And>p. p \<in> set (out g k) \<Longrightarrow> named M' p"
    and Q': "set Q' = set Q \<union> set (out g k)" "distinct Q'"
  shows "dinv g e M' Q' \<and> potential g e M' < potential g e M"
proof -
  note D = dinvD [OF inv]
  have k: "k \<in> reach g e" "k = e \<or> initPreds g M k \<noteq> {}" using D(3,12) [of k] by auto
  have doms: "domsOf M' p = domsOf M p" if "isInit M p" "p \<noteq> k" for p
    using M'(3) [OF initialized_named [OF D(1) that(1)] that(2)] by (simp add: domsOf_def)
  have shrink: "domsOf M' k \<subseteq> domsOf M k" if "isInit M k" using D(7) [OF that] M'(5) by simp
  have mono: "newDoms g M' x \<subseteq> newDoms g M x" if "x = e \<or> initPreds g M x \<noteq> {}" for x
  proof (cases "x = e")
    case True
    then show ?thesis using noin by (simp add: newDoms_def initPreds_def)
  next
    case False
    show ?thesis using newDoms_mono [OF M'(2) doms shrink] that False by blast
  qed
  have preds: "initPreds g M x \<subseteq> initPreds g M' x" for x by (auto simp: initPreds_def M'(2))
  have "dinv g e M' Q'"
    unfolding dinv_def
  proof (intro conjI allI impI ballI)
    show "wf_DomMap M'" "distinct Q'" by (rule M'(1), rule Q'(2))
    show "q \<in> reach g e" if "q \<in> set Q'" for q
      using that D(3) [of q] reach_step [OF wf k(1)] by (auto simp: Q'(1))
    show "named M' q" if "q \<in> set Q'" for q
      using that D(4) [of q] M'(3,4,6) by (cases "q = k") (auto simp: Q'(1) named_def)
    show "x \<in> reach g e" if "isInit M' x" for x using that D(5) k(1) by (auto simp: M'(2))
    show "domsOf M' x \<subseteq> reach g e" if "isInit M' x" for x
      using that D(6) [of x] doms newDoms_reach [OF inv k(1)] by (cases "x = k") (auto simp: M'(2,5))
    show "newDoms g M' x \<subseteq> domsOf M' x" if "isInit M' x" for x
      using that D(7) [of x] D(12) [of x] mono [of x] doms [of x] k(2)
      by (cases "x = k") (auto simp: M'(2,5))
    show "{d. dominates (rel g) e d x} \<subseteq> domsOf M' x" if "isInit M' x" for x
      using that D(8) [of x] doms [of x] newDoms_sound [OF inv k(2)]
      by (cases "x = k") (auto simp: M'(2,5))
    show "domsOf M' x = newDoms g M' x" if "isInit M' x" "x \<notin> set Q'" for x
    proof -
      have "(k, x) \<notin> rel g" using that(2) succs_rel [OF wf] by (auto simp: Q'(1))
      with newDoms_other [OF M'(2) doms] have "newDoms g M' x = newDoms g M x" by blast
      then show ?thesis
        using that D(9) [of x] doms [of x] by (cases "x = k") (auto simp: M'(2,5) Q'(1))
    qed
    show "isInit M' c \<or> c \<in> set Q'" if "isInit M' p" "(p, c) \<in> rel g" for p c
      using that D(10) [of p c] succs_rel [OF wf, of c k] by (auto simp: M'(2) Q'(1))
    show "isInit M' e \<or> e \<in> set Q'" using D(11) by (auto simp: M'(2) Q'(1))
    show "x = e \<or> initPreds g M' x \<noteq> {}" if "isInit M' x \<or> x \<in> set Q'" for x
      using that D(12) [of x] preds [of x] k(2) succs_rel [OF wf, of x k]
      by (auto simp: M'(2) Q'(1) initPreds_def)
  qed
  moreover have "potential g e M' < potential g e M"
  proof (rule potential_less [OF wf k(1)])
    have fin: "finite (reach g e)" by (rule finite_reach [OF wf])
    show "weight g e M' k < weight g e M k"
    proof (cases "isInit M k")
      case True
      then have "newDoms g M k \<subset> domsOf M k" "finite (domsOf M k)"
        using D(6,7) [OF True] ch fin finite_subset by auto
      then show ?thesis using True psubset_card_mono by (simp add: weight_def M'(2,5))
    next
      case False
      then show ?thesis
        using card_mono [OF fin newDoms_reach [OF inv k(1)]] by (simp add: weight_def M'(2,5))
    qed
    show "weight g e M' x = weight g e M x" if "x \<noteq> k" for x
      using that doms [of x] by (simp add: weight_def M'(2))
  qed
  ultimately show ?thesis by blast
qed

lemma dom_step_inv:
  assumes wf: "wf g" and noin: "\<And>p. (p, e) \<notin> rel g" and inv: "dinv g e M (k # Q)"
  shows "\<exists>M' Q'. dom_step (\<lambda>n. Inr (inc g n)) (\<lambda>n. Inr (out g n)) k M Q = Inr (M', Q') \<and> dinv g e M' Q'
     \<and> (potential g e M' < potential g e M \<or> potential g e M' = potential g e M \<and> length Q' < Suc (length Q))"
proof -
  have wfM: "wf_DomMap M" and nk: "named M k" and dQ: "distinct Q" using dinvD(1,2,4) [OF inv] by auto
  define M1 where "M1 = snd (initializedOf (inc g k) M)"
  have M1: "wf_DomMap M1" "isInit M1 = isInit M" "\<And>q. M q \<noteq> None \<Longrightarrow> M1 q = M q"
    using wfM by (simp_all add: M1_def wf_DomMap_initializedOf initializedOf_eq)
  note step = dom_step_eq [OF wf wfM nk, of Q, folded M1_def]
  show ?thesis
  proof (cases "\<not> isInit M k \<or> domsOf M k \<noteq> newDoms g M k")
    case False
    then show ?thesis
      using step dinv_step_same [OF inv _ _ M1] by (auto simp: M1_def)
  next
    case True
    obtain d where d: "M k = Some d" "dd_node d = Some k" using nk by (auto simp: named_def)
    define M2 where "M2 = M1(k \<mapsto> (the (M k))\<lparr>Doms := newDoms g M k, initialized := True\<rparr>)"
    obtain M' Q' where push: "pushOuts (out g k) M2 Q = (M', Q')" by fastforce
    have wf2: "wf_DomMap M2" using M1(1) d by (auto simp: wf_DomMap_def M2_def)
    have nk2: "named M2 k" using d by (simp add: named_def M2_def)
    note P = pushOuts_props [OF wf2 push]
    have init2: "isInit M2 p \<longleftrightarrow> isInit M p \<or> p = k" for p
      using M1(2) by (auto simp: M2_def isInit_def fun_eq_iff)
    have keep: "M' p = M p" if "named M p" "p \<noteq> k" for p
    proof -
      have "M2 p = M p" using that M1(3) [of p] by (auto simp: M2_def named_def)
      then show ?thesis using P that by (auto simp: named_def)
    qed
    have "dinv g e M' Q' \<and> potential g e M' < potential g e M"
    proof (rule dinv_step_change [OF wf noin inv True])
      show "isInit M' p \<longleftrightarrow> isInit M p \<or> p = k" for p using P init2 by simp
      show "named M' k" using P nk2 by (simp add: named_def)
      show "domsOf M' k = newDoms g M k" using P nk2 by (simp add: domsOf_def) (simp add: M2_def)
    qed (use P keep dQ in auto)
    then show ?thesis using step True push by (auto simp: M2_def M1_def)
  qed
qed

lemma dom_loop_total:
  assumes wf: "wf g" and noin: "\<And>p. (p, e) \<notin> rel g" and inv: "dinv g e M Q"
  shows "\<exists>M'. dom_loop (\<lambda>n. Inr (inc g n)) (\<lambda>n. Inr (out g n)) M Q = Some (Inr M') \<and> dinv g e M' []"
  using inv
proof (induction "(potential g e M, length Q)" arbitrary: M Q rule: wf_induct_rule [OF wf_lex_prod [OF wf_less wf_less]])
  case (1 M Q)
  show ?case
  proof (cases Q)
    case Nil
    then show ?thesis using 1 by (simp add: dom_loop_Nil)
  next
    case (Cons k Q0)
    from dom_step_inv [OF wf noin 1(2) [unfolded Cons]] obtain M' Q' where
      step: "dom_step (\<lambda>n. Inr (inc g n)) (\<lambda>n. Inr (out g n)) k M Q0 = Inr (M', Q')" and inv': "dinv g e M' Q'"
      and less: "potential g e M' < potential g e M \<or> potential g e M' = potential g e M \<and> length Q' < Suc (length Q0)"
      by blast
    have "((potential g e M', length Q'), (potential g e M, length Q)) \<in> less_than <*lex*> less_than"
      using less Cons by auto
    with 1(1) [OF _ inv'] show ?thesis using Cons step by (simp add: dom_loop_Cons)
  qed
qed

lemma dinv_initial: "dinv g e (initialDomMap e) [e]"
  by (auto simp: dinv_def initialDomMap_def wf_DomMap_def named_def isInit_def)

lemma dinv_final:
  assumes wf: "wf g" and noin: "\<And>p. (p, e) \<notin> rel g" and inv: "dinv g e M []"
  shows "isInit M n \<longleftrightarrow> n \<in> reach g e"
    and "n \<in> reach g e \<Longrightarrow> domsOf M n = {d. dominates (rel g) e d n}"
proof -
  note D = dinvD [OF inv]
  have "reach g e \<subseteq> {x. isInit M x}"
    by (rule closed_contains_reach [OF wf]) (use D(10,11) in \<open>auto simp: succs_rel [OF wf]\<close>)
  then show init: "isInit M n \<longleftrightarrow> n \<in> reach g e" for n using D(5) by auto
  have path: "d \<in> set ps" if "walk (rel g) e x ps" "d \<in> domsOf M x" for x ps d
    using that
  proof (induction arbitrary: d rule: walk.induct)
    case walk_refl
    have "initPreds g M e = {}" using noin by (simp add: initPreds_def)
    then have "domsOf M e = {e}" using D(9) [of e] D(11) by (simp add: newDoms_def)
    then show ?case using walk_refl by simp
  next
    case (walk_step b ps c)
    have b: "b \<in> reach g e" using walk_step.hyps(1)
      by (induction rule: walk.induct) (auto simp: reach_def intro: rtrancl_into_rtrancl)
    then have c: "c \<in> reach g e" using walk_step.hyps(2) by (auto simp: reach_def intro: rtrancl_into_rtrancl)
    have "b \<in> initPreds g M c" using init b walk_step.hyps(2) by (simp add: initPreds_def)
    then have "domsOf M c \<subseteq> insert c (domsOf M b)" using D(9) [of c] init c by (auto simp: newDoms_def)
    then show ?case using walk_step.IH walk_step.prems by auto
  qed
  show "domsOf M n = {d. dominates (rel g) e d n}" if "n \<in> reach g e"
    using path D(8) [of n] init that by (auto simp: dominates_def)
qed

lemma dom_result:
  assumes "wf g" and "\<And>p. (p, e) \<notin> rel g"
  shows "\<exists>M. dom_loop (\<lambda>n. Inr (inc g n)) (\<lambda>n. Inr (out g n)) (initialDomMap e) [e] = Some (Inr M)
     \<and> (\<forall>n. isInit M n \<longleftrightarrow> n \<in> reach g e)
     \<and> (\<forall>n \<in> reach g e. domsOf M n = {d. dominates (rel g) e d n})"
  using dom_loop_total [OF assms dinv_initial] dinv_final [OF assms] by blast

end

interpretation fdom: dom_problem wf_cg hasNode_id callees edgeSet callers
  by unfold_locales (auto simp: mem_callers_iff dest: wf_cgD(3))

interpretation bdom: dom_problem wf_cg hasNode_id callers "\<lambda>cg. (edgeSet cg)\<inverse>" callees
  by unfold_locales (auto simp: mem_callees_iff dest: wf_cgD(3))

lemma ptrs_map_Some: "ptrs (Inr (map Some xs)) = Inr xs"
proof -
  have "mapR derefR (map Some xs) = Inr xs" by (induction xs) simp_all
  then show ?thesis by (simp add: ptrs_def)
qed

lemma dead_no_neighbours:
  assumes "wf_cg cg" and "\<not> hasNode_id cg n"
  shows "callees cg n = []" and "callers cg n = []"
proof -
  have "set (callees cg n) = {}" "set (callers cg n) = {}"
    using wf_edgesD(2,3) [OF wf_cgD(3) [OF assms(1)]] assms(2)
    by (auto simp: wf_edgesD(5,7) [OF wf_cgD(3) [OF assms(1)]])
  then show "callees cg n = []" "callers cg n = []" by simp_all
qed

lemma neighbours_of:
  assumes "wf_cg cg"
  shows "incoming_of Forward cg = (\<lambda>n. Inr (callers cg n))" "outgoing_of Forward cg = (\<lambda>n. Inr (callees cg n))"
    and "incoming_of Backward cg = (\<lambda>n. Inr (callees cg n))" "outgoing_of Backward cg = (\<lambda>n. Inr (callers cg n))"
proof -
  have callees: "ptrs (getCallees_ref cg (self cg, n)) = Inr (callees cg n)" for n
    using ptrs_map_Some [of "[]"] dead_no_neighbours [OF assms]
    by (auto simp: getCallees_ref_def hasNode_ref_id getCallees_id_wf [OF assms] ptrs_map_Some)
  have callers: "ptrs (getCallers_ref cg (self cg, n)) = Inr (callers cg n)" for n
    using ptrs_map_Some [of "[]"] dead_no_neighbours [OF assms]
    by (auto simp: getCallers_ref_def hasNode_ref_id getCallers_id_wf [OF assms] ptrs_map_Some)
  show "incoming_of Forward cg = (\<lambda>n. Inr (callers cg n))" "outgoing_of Forward cg = (\<lambda>n. Inr (callees cg n))"
    "incoming_of Backward cg = (\<lambda>n. Inr (callees cg n))" "outgoing_of Backward cg = (\<lambda>n. Inr (callers cg n))"
    by (auto simp: incoming_of_def outgoing_of_def callees callers)
qed

section \<open>Properties\<close>

definition dir_edges :: "TraverseDir \<Rightarrow> Callgraph \<Rightarrow> (NodeId \<times> NodeId) set" where
  "dir_edges dir cg = (case dir of Forward \<Rightarrow> edgeSet cg | Backward \<Rightarrow> (edgeSet cg)\<inverse>)"

lemma dominators_exact:
  assumes "wf_cg cg" and "\<And>p. (p, e) \<notin> dir_edges dir cg"
  shows "\<exists>M. computeDominators dir cg e = Some (Inr M)
     \<and> (\<forall>n. isInit M n \<longleftrightarrow> (e, n) \<in> (dir_edges dir cg)\<^sup>*)
     \<and> (\<forall>n. (e, n) \<in> (dir_edges dir cg)\<^sup>* \<longrightarrow> domsOf M n = {d. dominates (dir_edges dir cg) e d n})"
proof (cases dir)
  case Forward
  then show ?thesis
    using fdom.dom_result [OF assms(1), of e] assms(2) neighbours_of(1,2) [OF assms(1)]
    by (simp add: computeDominators_def dir_edges_def fwd.reach_def)
next
  case Backward
  then show ?thesis
    using bdom.dom_result [OF assms(1), of e] assms(2) neighbours_of(3,4) [OF assms(1)]
    by (simp add: computeDominators_def dir_edges_def bwd.reach_def)
qed

text \<open>
  C7: the dominator analysis ends and is exact, in both directions, when the start node has no
  incoming edge in the direction of the traversal: the initialised entries of the result are the
  nodes reachable from the start, and each holds exactly the nodes that lie on every walk from the
  start to it.
\<close>

theorem dominators_correct:
  assumes "wf_cg cg" and "\<And>p. (p, e) \<notin> dir_edges dir cg"
  shows "\<exists>M. computeDominators dir cg e = Some (Inr M)
     \<and> (\<forall>n. isInit M n \<longleftrightarrow> (e, n) \<in> (dir_edges dir cg)\<^sup>*)
     \<and> (\<forall>n. (e, n) \<in> (dir_edges dir cg)\<^sup>* \<longrightarrow> domsOf M n = {d. dominates (dir_edges dir cg) e d n})"
  using assms by (rule dominators_exact)

theorem dominators_correct_witness:
  "\<exists>M. computeDominators Forward sample_cg 0 = Some (Inr M) \<and> domsOf M 0 = {d. dominates (edgeSet sample_cg) 0 d 0}"
proof -
  have "(p, 0) \<notin> dir_edges Forward sample_cg" for p by (simp add: dir_edges_def sample_cg_def edgeSet_def)
  from dominators_correct [OF wf_sample_cg this] show ?thesis by (auto simp: dir_edges_def)
qed

definition cycle_cg :: Callgraph where
  "cycle_cg =
     \<lparr>metaFields = [], self = 0,
      nodes = [Some \<lparr>metaFields = [], nid = 0, functionName = ''main'', origin = None, hasBody = True\<rparr>,
               Some \<lparr>metaFields = [], nid = 1, functionName = ''f'', origin = None, hasBody = True\<rparr>],
      nameIdMap = [''main'' \<mapsto> [0], ''f'' \<mapsto> [1]],
      edges = [((0, 1), []), ((1, 0), [])], callerList = [1 \<mapsto> [0], 0 \<mapsto> [1]],
      calleeList = [0 \<mapsto> [1], 1 \<mapsto> [0]], mainNode = None, hasDuplicates = False, numErased = 0\<rparr>"

lemma wf_cycle_cg: "wf_cg cycle_cg"
proof -
  have "foldR cg_step [OpInsert ''main'' None False True, OpInsert ''f'' None False True, OpAddEdge 0 1, OpAddEdge 1 0]
    (empty_cg 0) = Inr cycle_cg"
    by (simp add: cycle_cg_def cg_eval del: existsEdge_id_iff)
  then show ?thesis using wf_empty_cg by (rule cg.run_inv)
qed

lemma cycle_neighbours:
  "callees cycle_cg 0 = [1]" "callees cycle_cg (Suc 0) = [0]"
  "callers cycle_cg 0 = [1]" "callers cycle_cg (Suc 0) = [0]"
  by (simp_all add: cycle_cg_def callees_def callers_def entry_or_empty_def)


end
