(* ===== verification/Manager.thy ===== *)
theory Manager
  imports Merge
begin

text \<open>
  \<open>MCGManager\<close> (\<open>MCGManager.h\<close>, \<open>MCGManager.cpp\<close>): the graphs a program works on, by name, and the
  active one. Graphs are objects on the heap: \<open>managedGraphs\<close> owns them by address, \<open>activeGraph\<close> is
  a plain pointer, and following an address that the heap no longer has is undefined. \<open>nextAddr\<close>
  is the allocator's next address.
\<close>

section \<open>State and operations\<close>

record MCGManager =
  heap :: "nat \<rightharpoonup> Callgraph"
  nextAddr :: nat
  managedGraphs :: "(string \<times> nat) list"
  activeGraph :: "nat option"

definition new_MCGManager :: MCGManager where
  "new_MCGManager = \<lparr>heap = Map.empty, nextAddr = 0, managedGraphs = [], activeGraph = None\<rparr>"

definition freeManaged :: "(string \<times> nat) list \<Rightarrow> (nat \<rightharpoonup> Callgraph) \<Rightarrow> nat \<rightharpoonup> Callgraph" where
  "freeManaged gs h = (\<lambda>a. if a \<in> snd ` set gs then None else h a)"

definition resetManager :: "MCGManager \<Rightarrow> MCGManager" where
  "resetManager m = m\<lparr>heap := freeManaged (managedGraphs m) (heap m), managedGraphs := [], activeGraph := None\<rparr>"

definition derefGraph :: "MCGManager \<Rightarrow> nat option \<Rightarrow> (nat \<times> Callgraph) res" where
  "derefGraph m p = bindR (derefR p) (\<lambda>a. bindR (derefR (heap m a)) (\<lambda>g. Inr (a, g)))"

definition resetActiveGraph :: "MCGManager \<Rightarrow> (bool \<times> MCGManager) res" where
  "resetActiveGraph m =
     (if activeGraph m \<noteq> None then
        bindR (derefGraph m (activeGraph m)) (\<lambda>(a, g).
        Inr (True, m\<lparr>heap := (heap m)(a \<mapsto> clear_cg g)\<rparr>))
      else Inl AssertionFailed)"

definition size_mgr :: "MCGManager \<Rightarrow> nat res" where
  "size_mgr m = bindR (derefGraph m (activeGraph m)) (\<lambda>(a, g). Inr (size_cg g))"

definition graphs_size :: "MCGManager \<Rightarrow> nat" where
  "graphs_size m = length (managedGraphs m)"

definition setActive :: "string \<Rightarrow> MCGManager \<Rightarrow> (bool \<times> MCGManager) res" where
  "setActive callgraph m =
     (case map_of (managedGraphs m) callgraph of
        Some a \<Rightarrow> Inr (True, m\<lparr>activeGraph := Some a\<rparr>)
      | None \<Rightarrow> Inl AssertionFailed)"

definition getCallgraph :: "string \<Rightarrow> bool \<Rightarrow> MCGManager \<Rightarrow> (nat option \<times> MCGManager) res" where
  "getCallgraph name active m =
     (if name = [] then Inr (activeGraph m, m)
      else case map_of (managedGraphs m) name of
        Some a \<Rightarrow>
          (if active then bindR (setActive name m) (\<lambda>(_, m'). Inr (Some a, m')) else Inr (Some a, m))
      | None \<Rightarrow> Inr (None, m))"

definition getOrCreateCallgraph :: "string \<Rightarrow> bool \<Rightarrow> MCGManager \<Rightarrow> nat \<times> MCGManager" where
  "getOrCreateCallgraph name active m =
     (case map_of (managedGraphs m) name of
        Some a \<Rightarrow> (a, if active then m\<lparr>activeGraph := Some a\<rparr> else m)
      | None \<Rightarrow>
          (let a = nextAddr m;
               m' = m\<lparr>heap := (heap m)(a \<mapsto> empty_cg a), nextAddr := Suc a,
                      managedGraphs := AList.update name a (managedGraphs m)\<rparr>
           in (a, if active then m'\<lparr>activeGraph := Some a\<rparr> else m')))"

definition assertActive :: "string \<Rightarrow> MCGManager \<Rightarrow> bool res" where
  "assertActive callgraph m =
     (case map_of (managedGraphs m) callgraph of
        Some a \<Rightarrow> Inr (Some a = activeGraph m)
      | None \<Rightarrow> Inl AssertionFailed)"

text \<open>
  The graph handed over is a new object: it gets the next address. Assigning to \<open>managedGraphs[name]\<close>
  destroys the graph that was managed under that name.
\<close>

definition addToManagedGraphs :: "string \<Rightarrow> Callgraph option \<Rightarrow> bool \<Rightarrow> MCGManager \<Rightarrow> (bool \<times> MCGManager) res" where
  "addToManagedGraphs name callgraph active m =
     (case callgraph of
        None \<Rightarrow> Inl AssertionFailed
      | Some g \<Rightarrow>
          (let a = nextAddr m;
               h = (case map_of (managedGraphs m) name of None \<Rightarrow> heap m | Some old \<Rightarrow> (heap m)(old := None));
               m' = m\<lparr>heap := h(a \<mapsto> g\<lparr>self := a\<rparr>), nextAddr := Suc a,
                      managedGraphs := AList.update name a (managedGraphs m)\<rparr>
           in Inr (True, if active then m'\<lparr>activeGraph := Some a\<rparr> else m')))"

definition getAllManagedGraphNames :: "MCGManager \<Rightarrow> string set" where
  "getAllManagedGraphNames m = fst ` set (managedGraphs m)"

text \<open>
  One turn of the merge loop. A graph managed under the empty name is looked up as the active
  graph: source and target of the merge are then one object, which is counted as undefined.
\<close>

definition mergeOne :: "MergePolicy \<Rightarrow> string \<Rightarrow> MCGManager \<Rightarrow> MCGManager res" where
  "mergeOne policy callgraphName m =
     bindR (assertActive callgraphName m) (\<lambda>isActive.
     if isActive then Inr m
     else
       bindR (getCallgraph callgraphName False m) (\<lambda>(currentCallgraph, _).
       bindR (assertR (currentCallgraph \<noteq> None)) (\<lambda>_.
       if currentCallgraph = activeGraph m then Inl UndefinedBehaviour
       else
         bindR (derefGraph m currentCallgraph) (\<lambda>(_, source).
         bindR (derefGraph m (activeGraph m)) (\<lambda>(a, target).
         bindR (merge_cg source policy target) (\<lambda>(_, target').
         Inr (m\<lparr>heap := (heap m)(a \<mapsto> target')\<rparr>)))))))"

text \<open>\<open>order\<close> is the iteration order of the set of names.\<close>

definition mergeIntoActiveGraph :: "string list \<Rightarrow> MergePolicy \<Rightarrow> MCGManager \<Rightarrow> MCGManager res" where
  "mergeIntoActiveGraph order policy m =
     bindR (assertR (activeGraph m \<noteq> None)) (\<lambda>_. foldR (mergeOne policy) order m)"

definition getActiveGraphName :: "MCGManager \<Rightarrow> string res" where
  "getActiveGraphName m =
     bindR (assertR (activeGraph m \<noteq> None)) (\<lambda>_.
     case find (\<lambda>elem. activeGraph m = Some (snd elem)) (managedGraphs m) of
       Some elem \<Rightarrow> Inr (fst elem)
     | None \<Rightarrow> Inl AssertionFailed)"

section \<open>Invariant\<close>

text \<open>
  Names and addresses are managed once each, the heap holds exactly the managed graphs, all well
  formed, and addresses are below the allocator's next one. \<open>active_ok\<close> says that the active
  pointer does not dangle.
\<close>

definition addrs :: "MCGManager \<Rightarrow> nat set" where
  "addrs m = snd ` set (managedGraphs m)"

definition mgr_inv :: "MCGManager \<Rightarrow> bool" where
  "mgr_inv m \<longleftrightarrow>
     distinct (map fst (managedGraphs m)) \<and> distinct (map snd (managedGraphs m))
     \<and> dom (heap m) = addrs m \<and> (\<forall>a g. heap m a = Some g \<longrightarrow> wf_cg g)
     \<and> (\<forall>a \<in> addrs m. a < nextAddr m) \<and> (\<forall>a. activeGraph m = Some a \<longrightarrow> a < nextAddr m)"

definition active_ok :: "MCGManager \<Rightarrow> bool" where
  "active_ok m \<longleftrightarrow> (\<forall>a. activeGraph m = Some a \<longrightarrow> a \<in> addrs m)"

datatype mgr_op =
    OpReset
  | OpResetActive
  | OpSetActive string
  | OpGetCallgraph string bool
  | OpGetOrCreate string bool
  | OpAddGraph string Callgraph bool
  | OpEditGraph string cg_op
  | OpMergeAll "string list"

text \<open>\<open>OpEditGraph\<close> is a call on the graph pointer that \<open>getCallgraph(name)\<close> returns.\<close>

definition editGraph :: "string \<Rightarrow> cg_op \<Rightarrow> MCGManager \<Rightarrow> MCGManager res" where
  "editGraph name op m =
     bindR (derefGraph m (map_of (managedGraphs m) name)) (\<lambda>(a, g).
     bindR (cg_step op g) (\<lambda>g'. Inr (m\<lparr>heap := (heap m)(a \<mapsto> g')\<rparr>)))"

fun mgr_step :: "mgr_op \<Rightarrow> MCGManager \<Rightarrow> MCGManager res" where
  "mgr_step OpReset m = Inr (resetManager m)"
| "mgr_step OpResetActive m = bindR (resetActiveGraph m) (\<lambda>r. Inr (snd r))"
| "mgr_step (OpSetActive name) m = bindR (setActive name m) (\<lambda>r. Inr (snd r))"
| "mgr_step (OpGetCallgraph name active) m = bindR (getCallgraph name active m) (\<lambda>r. Inr (snd r))"
| "mgr_step (OpGetOrCreate name active) m = Inr (snd (getOrCreateCallgraph name active m))"
| "mgr_step (OpAddGraph name g active) m =
     (if wf_cg g then bindR (addToManagedGraphs name (Some g) active m) (\<lambda>r. Inr (snd r))
      else Inl UndefinedBehaviour)"
| "mgr_step (OpEditGraph name op) m = editGraph name op m"
| "mgr_step (OpMergeAll order) m = mergeIntoActiveGraph order MergeByName_findMatchingNode m"

lemma wf_self [simp]: "wf_cg (g\<lparr>self := a\<rparr>) = wf_cg g"
proof -
  have "nameAt (g\<lparr>self := a\<rparr>) = nameAt g" "hasNode_id (g\<lparr>self := a\<rparr>) = hasNode_id g"
    "getNodes_name (g\<lparr>self := a\<rparr>) = getNodes_name g" "edgeSet (g\<lparr>self := a\<rparr>) = edgeSet g"
    "callees (g\<lparr>self := a\<rparr>) = callees g" "callers (g\<lparr>self := a\<rparr>) = callers g"
    by (simp_all add: nameAt_def hasNode_id_def getNodes_name_def edgeSet_def callees_def callers_def fun_eq_iff)
  then show ?thesis by (simp add: wf_cg_defs)
qed

lemma snd_set_update:
  assumes "distinct (map fst m)" and "distinct (map snd m)"
  shows "snd ` set (AList.update k v m) =
    insert v (snd ` set m - (case map_of m k of None \<Rightarrow> {} | Some old \<Rightarrow> {old}))"
  using assms
proof (induction m)
  case (Cons p m)
  show ?case
  proof (cases "fst p = k")
    case True
    then show ?thesis using Cons.prems by (cases p) auto
  next
    case False
    moreover have "map_of m k = Some old \<Longrightarrow> old \<in> snd ` set m" for old
      by (force dest: map_of_SomeD)
    ultimately show ?thesis using Cons by (cases p) (auto split: option.splits)
  qed
qed simp

lemma distinct_snd_update:
  assumes "distinct (map fst m)" and "distinct (map snd m)" and "v \<notin> snd ` set m"
  shows "distinct (map snd (AList.update k v m))"
  using assms
proof (induction m)
  case (Cons p m)
  then show ?case
    using snd_set_update [of m k v] by (cases p) (auto split: option.splits)
qed simp

lemma mgr_invD:
  assumes "mgr_inv m"
  shows "distinct (map fst (managedGraphs m))" "distinct (map snd (managedGraphs m))" "dom (heap m) = addrs m"
    "heap m a = Some g \<Longrightarrow> wf_cg g" "a \<in> addrs m \<Longrightarrow> a < nextAddr m" "activeGraph m = Some a \<Longrightarrow> a < nextAddr m"
  using assms by (auto simp: mgr_inv_def)

lemma map_of_addrs: "map_of (managedGraphs m) name = Some a \<Longrightarrow> a \<in> addrs m"
  by (force simp: addrs_def dest: map_of_SomeD)

text \<open>Replacing one graph by a well-formed one keeps the invariant.\<close>

lemma mgr_inv_heap_upd:
  "mgr_inv m \<Longrightarrow> heap m a = Some g \<Longrightarrow> wf_cg g' \<Longrightarrow> mgr_inv (m\<lparr>heap := (heap m)(a \<mapsto> g')\<rparr>)"
  by (auto simp: mgr_inv_def addrs_def split: if_splits)

lemma mgr_inv_active_upd: "mgr_inv m \<Longrightarrow> a < nextAddr m \<Longrightarrow> mgr_inv (m\<lparr>activeGraph := Some a\<rparr>)"
  by (auto simp: mgr_inv_def addrs_def)

text \<open>Managing a new object under a name.\<close>

definition manageNew :: "string \<Rightarrow> Callgraph \<Rightarrow> MCGManager \<Rightarrow> MCGManager" where
  "manageNew name g m =
     m\<lparr>heap := (case map_of (managedGraphs m) name of None \<Rightarrow> heap m | Some old \<Rightarrow> (heap m)(old := None))
                (nextAddr m \<mapsto> g\<lparr>self := nextAddr m\<rparr>),
       nextAddr := Suc (nextAddr m), managedGraphs := AList.update name (nextAddr m) (managedGraphs m)\<rparr>"

lemma manageNew_sel [simp]:
  "nextAddr (manageNew name g m) = Suc (nextAddr m)" "activeGraph (manageNew name g m) = activeGraph m"
  "managedGraphs (manageNew name g m) = AList.update name (nextAddr m) (managedGraphs m)"
  by (simp_all add: manageNew_def)

lemma addrs_manageNew:
  "mgr_inv m \<Longrightarrow> addrs (manageNew name g m) =
     insert (nextAddr m) (addrs m - (case map_of (managedGraphs m) name of None \<Rightarrow> {} | Some old \<Rightarrow> {old}))"
  using snd_set_update [OF mgr_invD(1,2)] by (simp add: addrs_def manageNew_def)

lemma mgr_inv_manageNew:
  assumes inv: "mgr_inv m" and "wf_cg g"
  shows "mgr_inv (manageNew name g m)"
proof -
  note D = mgr_invD [OF inv]
  have fresh: "nextAddr m \<notin> addrs m" using D(5) by blast
  have "dom (heap (manageNew name g m)) = addrs (manageNew name g m)"
    unfolding addrs_manageNew [OF inv] using D(3) by (auto simp: manageNew_def split: option.splits if_splits)
  moreover have "heap (manageNew name g m) a = Some g' \<Longrightarrow> wf_cg g'" for a g'
    using D(4) assms(2) by (auto simp: manageNew_def split: option.splits if_splits)
  moreover have "a \<in> addrs (manageNew name g m) \<Longrightarrow> a < Suc (nextAddr m)" for a
    unfolding addrs_manageNew [OF inv] using D(5) by (auto simp: less_SucI)
  moreover have "distinct (map snd (AList.update name (nextAddr m) (managedGraphs m)))"
    using D(1,2) fresh by (intro distinct_snd_update) (simp_all add: addrs_def)
  ultimately show ?thesis
    using D(1,6) by (simp add: mgr_inv_def distinct_keys_update less_SucI)
qed

lemma getOrCreate_eq:
  "getOrCreateCallgraph name active m =
     (case map_of (managedGraphs m) name of
        Some a \<Rightarrow> (a, if active then m\<lparr>activeGraph := Some a\<rparr> else m)
      | None \<Rightarrow> (nextAddr m, if active then (manageNew name (empty_cg (nextAddr m)) m)\<lparr>activeGraph := Some (nextAddr m)\<rparr>
                 else manageNew name (empty_cg (nextAddr m)) m))"
  by (simp add: getOrCreateCallgraph_def manageNew_def Let_def empty_cg_def split: option.splits)

lemma addToManaged_eq:
  "addToManagedGraphs name (Some g) active m =
     Inr (True, if active then (manageNew name g m)\<lparr>activeGraph := Some (nextAddr m)\<rparr> else manageNew name g m)"
  by (simp add: addToManagedGraphs_def manageNew_def Let_def)

section \<open>Merging everything into the active graph\<close>

lemma derefGraph_eq_Inr: "derefGraph m p = Inr (a, g) \<longleftrightarrow> p = Some a \<and> heap m a = Some g"
  by (auto simp: derefGraph_def bindR_eq_Inr_iff)

lemma mergeOne_cases:
  assumes "mergeOne policy name m = Inr m'"
  obtains (active) a where "map_of (managedGraphs m) name = Some a" "activeGraph m = Some a" "m' = m"
  | (merged) b source a target r target' where "map_of (managedGraphs m) name = Some b"
      "heap m b = Some source" "activeGraph m = Some a" "heap m a = Some target" "b \<noteq> a"
      "merge_cg source policy target = Inr (r, target')" "m' = m\<lparr>heap := (heap m)(a \<mapsto> target')\<rparr>"
proof -
  obtain b where b: "map_of (managedGraphs m) name = Some b"
    using assms by (cases "map_of (managedGraphs m) name") (simp_all add: mergeOne_def assertActive_def)
  show thesis
  proof (cases "activeGraph m = Some b")
    case True
    then have "m' = m" using assms b by (simp add: mergeOne_def assertActive_def)
    with True b show thesis by (intro active)
  next
    case False
    then have nonempty: "name \<noteq> []"
      using assms b by (cases "name = []") (simp_all add: mergeOne_def assertActive_def getCallgraph_def assertR_def split: if_splits)
    have "bindR (derefGraph m (Some b)) (\<lambda>(_, source). bindR (derefGraph m (activeGraph m)) (\<lambda>(a, target).
       bindR (merge_cg source policy target) (\<lambda>(_, target'). Inr (m\<lparr>heap := (heap m)(a \<mapsto> target')\<rparr>)))) = Inr m'"
      using assms b False nonempty by (simp add: mergeOne_def assertActive_def getCallgraph_def eq_commute)
    then obtain source a target r target' where "heap m b = Some source" "activeGraph m = Some a"
      "heap m a = Some target" "merge_cg source policy target = Inr (r, target')"
      "m' = m\<lparr>heap := (heap m)(a \<mapsto> target')\<rparr>"
      by (auto elim!: bindR_InrE simp: derefGraph_eq_Inr)
    with b False show thesis by (intro merged) auto
  qed
qed

lemma mgr_inv_mergeOne:
  assumes "mgr_inv m" and "mergeOne MergeByName_findMatchingNode name m = Inr m'"
  shows "mgr_inv m'"
  using assms(2)
proof (cases rule: mergeOne_cases)
  case active
  then show ?thesis using assms by simp
next
  case (merged b source a target r target')
  have "wf_cg target'"
    using by_name.merge_effect [OF _ _ merged(6)] mgr_invD(4) [OF assms(1)] merged
    by (auto simp: merge_result_def)
  then show ?thesis using merged mgr_inv_heap_upd [OF assms(1)] by simp
qed

lemma mgr_step_inv: "mgr_inv m \<Longrightarrow> mgr_step op m = Inr m' \<Longrightarrow> mgr_inv m'"
proof (induction op m rule: mgr_step.induct)
  case (1 m)
  then have "freeManaged (managedGraphs m) (heap m) = Map.empty"
    using mgr_invD(3) [of m] by (auto simp: freeManaged_def addrs_def fun_eq_iff)
  with 1 show ?case by (auto simp: resetManager_def mgr_inv_def addrs_def)
next
  case (2 m)
  then show ?case
    using mgr_inv_heap_upd [of m _ _ "clear_cg _"] mgr_invD(4) [of m]
    by (auto simp: resetActiveGraph_def bindR_snd_eq bindR_eq_Inr_iff derefGraph_eq_Inr wf_clear_cg split: if_splits)
next
  case (3 name m)
  then show ?case
    using mgr_invD(5) [of m]
    by (auto simp: setActive_def bindR_snd_eq split: option.splits intro!: mgr_inv_active_upd dest!: map_of_addrs)
next
  case (4 name active m)
  then show ?case
    using mgr_invD(5) [of m]
    by (auto simp: getCallgraph_def setActive_def bindR_snd_eq split: option.splits if_splits
        intro!: mgr_inv_active_upd dest!: map_of_addrs)
next
  case (5 name active m)
  then show ?case
    using mgr_invD(5) [of m] mgr_inv_manageNew [of m "empty_cg (nextAddr m)" name]
    by (auto simp: getOrCreate_eq split: option.splits if_splits intro!: mgr_inv_active_upd dest!: map_of_addrs)
next
  case (6 name g active m)
  then show ?case
    using mgr_inv_manageNew [of m g name]
    by (auto simp: addToManaged_eq split: if_splits intro!: mgr_inv_active_upd)
next
  case (7 name op m)
  then show ?case
    using mgr_invD(4) [of m]
    by (auto simp: editGraph_def bindR_eq_Inr_iff derefGraph_eq_Inr intro!: mgr_inv_heap_upd intro: cg_step_inv)
next
  case (8 order m)
  then have "foldR (mergeOne MergeByName_findMatchingNode) order m = Inr m'"
    by (auto simp: mergeIntoActiveGraph_def)
  then show ?case using 8(1) by (rule foldR_invariant) (rule mgr_inv_mergeOne)
qed

interpretation mgr: component mgr_step mgr_inv
  by unfold_locales (rule mgr_step_inv)

section \<open>The active pointer\<close>

lemma mergeOne_frame:
  assumes "mergeOne policy name m = Inr m'"
  shows "managedGraphs m' = managedGraphs m \<and> activeGraph m' = activeGraph m \<and> nextAddr m' = nextAddr m"
  using assms by (cases rule: mergeOne_cases) auto

lemma mergeAll_frame:
  assumes "foldR (mergeOne policy) order m = Inr m'"
  shows "managedGraphs m' = managedGraphs m \<and> activeGraph m' = activeGraph m \<and> nextAddr m' = nextAddr m"
  using assms
  by (rule foldR_invariant [where P = "\<lambda>s. managedGraphs s = managedGraphs m \<and> activeGraph s = activeGraph m
     \<and> nextAddr s = nextAddr m"]) (auto dest: mergeOne_frame)

text \<open>The one operation that can leave the active pointer dangling.\<close>

definition overwritesActive :: "mgr_op \<Rightarrow> MCGManager \<Rightarrow> bool" where
  "overwritesActive op m =
     (case op of
        OpAddGraph name g active \<Rightarrow> \<not> active \<and> activeGraph m \<noteq> None \<and> map_of (managedGraphs m) name = activeGraph m
      | _ \<Rightarrow> False)"

lemma active_ok_manageNew:
  assumes "mgr_inv m" and "active_ok m" and "activeGraph m = None \<or> map_of (managedGraphs m) name \<noteq> activeGraph m"
  shows "active_ok (manageNew name g m)"
  using assms by (auto simp: active_ok_def addrs_manageNew split: option.splits)

lemma active_ok_set: "a \<in> addrs m \<Longrightarrow> active_ok (m\<lparr>activeGraph := Some a\<rparr>)"
  by (simp add: active_ok_def addrs_def)

lemma active_ok_heap: "active_ok (m\<lparr>heap := h\<rparr>) = active_ok m"
  by (simp add: active_ok_def addrs_def)

lemma mgr_step_active:
  assumes "mgr_inv m" and "active_ok m" and "mgr_step op m = Inr m'" and "\<not> overwritesActive op m"
  shows "active_ok m'"
  using assms
proof (induction op m rule: mgr_step.induct)
  case (1 m)
  then show ?case by (auto simp: resetManager_def active_ok_def)
next
  case (2 m)
  then show ?case
    by (auto simp: resetActiveGraph_def bindR_snd_eq bindR_eq_Inr_iff active_ok_heap split: if_splits)
next
  case (3 name m)
  then show ?case by (auto simp: setActive_def bindR_snd_eq split: option.splits intro: active_ok_set map_of_addrs)
next
  case (4 name active m)
  then show ?case
    by (auto simp: getCallgraph_def setActive_def bindR_snd_eq split: option.splits if_splits
        intro: active_ok_set map_of_addrs)
next
  case (5 name active m)
  have "active_ok (manageNew name (empty_cg (nextAddr m)) m)" if "map_of (managedGraphs m) name = None"
    using that 5 by (intro active_ok_manageNew) auto
  with 5 show ?case
    by (auto simp: getOrCreate_eq addrs_manageNew split: option.splits if_splits intro!: active_ok_set intro: map_of_addrs)
next
  case (6 name g active m)
  then show ?case
    using active_ok_manageNew [of m name g]
    by (auto simp: addToManaged_eq overwritesActive_def addrs_manageNew split: if_splits intro!: active_ok_set)
next
  case (7 name op m)
  then show ?case by (auto simp: editGraph_def bindR_eq_Inr_iff active_ok_heap split: prod.splits)
next
  case (8 order m)
  then have "foldR (mergeOne MergeByName_findMatchingNode) order m = Inr m'"
    by (auto simp: mergeIntoActiveGraph_def)
  from mergeAll_frame [OF this] 8(2) show ?case by (simp add: active_ok_def addrs_def)
qed

section \<open>The merge loop\<close>

text \<open>The names of all graphs that the loop has met so far end up in the active graph.\<close>

definition namesIn :: "MCGManager \<Rightarrow> string set \<Rightarrow> string set" where
  "namesIn m ns = {f. \<exists>n b g. n \<in> ns \<and> map_of (managedGraphs m) n = Some b \<and> heap m b = Some g \<and> f \<in> ran (nameAt g)}"

lemma namesIn_insert:
  "map_of (managedGraphs m) n = Some b \<Longrightarrow> heap m b = Some g \<Longrightarrow> namesIn m (insert n ns) = ran (nameAt g) \<union> namesIn m ns"
  by (auto simp: namesIn_def)

lemma mergeAll_total:
  assumes inv: "mgr_inv m" and act: "activeGraph m = Some a" "heap m a = Some target"
    and order: "\<And>n. n \<in> set order \<Longrightarrow> n \<in> getAllManagedGraphNames m \<and> n \<noteq> []"
    and mg: "\<And>b g. heap m b = Some g \<Longrightarrow> b \<noteq> a \<Longrightarrow> mergeable g"
  shows "\<exists>m'. foldR (mergeOne MergeByName_findMatchingNode) order m = Inr m' \<and> mgr_inv m'
     \<and> (\<exists>target'. heap m' = (heap m)(a \<mapsto> target') \<and> ran (nameAt target') = ran (nameAt target) \<union> namesIn m (set order))"
proof -
  let ?P = "\<lambda>k s. mgr_inv s \<and> managedGraphs s = managedGraphs m \<and> activeGraph s = activeGraph m
     \<and> (\<exists>t. heap s = (heap m)(a \<mapsto> t) \<and> ran (nameAt t) = ran (nameAt target) \<union> namesIn m (set (take k order)))"
  have "\<exists>m'. foldR (mergeOne MergeByName_findMatchingNode) order m = Inr m' \<and> ?P (length order) m'"
  proof (rule foldR_index_total)
    have "heap m = (heap m)(a \<mapsto> target)" using act(2) by (simp add: fun_upd_idem)
    then show "?P 0 m" using inv by (intro conjI exI [of _ target]) (auto simp: namesIn_def)
    fix k s assume k: "k < length order" and P: "?P k s"
    let ?n = "order ! k"
    obtain t where t: "heap s = (heap m)(a \<mapsto> t)" "ran (nameAt t) = ran (nameAt target) \<union> namesIn m (set (take k order))"
      using P by blast
    obtain b where b: "map_of (managedGraphs m) ?n = Some b"
      using order [OF nth_mem [OF k]] by (fastforce simp: getAllManagedGraphNames_def map_of_None_iff simp flip: not_None_eq)
    obtain g where g: "heap m b = Some g" using map_of_addrs [OF b] mgr_invD(3) [OF inv] by auto
    have names: "namesIn m (set (take (Suc k) order)) = ran (nameAt g) \<union> namesIn m (set (take k order))"
      using namesIn_insert [OF b g] by (simp add: take_Suc_conv_app_nth [OF k])
    show "\<exists>s'. mergeOne MergeByName_findMatchingNode ?n s = Inr s' \<and> ?P (Suc k) s'"
    proof (cases "b = a")
      case True
      then have "mergeOne MergeByName_findMatchingNode ?n s = Inr s"
        using P b act by (simp add: mergeOne_def assertActive_def)
      moreover have "ran (nameAt t) = ran (nameAt target) \<union> namesIn m (set (take (Suc k) order))"
        using True g act t(2) unfolding names by auto
      ultimately show ?thesis using P t(1) by blast
    next
      case False
      have wf: "wf_cg t" "wf_cg g"
        using mgr_invD(4) [of s a t] mgr_invD(4) [of m b g] P inv t g by simp_all
      obtain r t' where run: "merge_cg g MergeByName_findMatchingNode t = Inr (r, t')"
        using by_name.merge_total [OF wf mg [OF g False]] by blast
      have step: "mergeOne MergeByName_findMatchingNode ?n s = Inr (s\<lparr>heap := (heap s)(a \<mapsto> t')\<rparr>)"
        using P b act False order [OF nth_mem [OF k]] g t run
        by (simp add: mergeOne_def assertActive_def getCallgraph_def derefGraph_def)
      have "ran (nameAt t') = ran (nameAt target) \<union> namesIn m (set (take (Suc k) order))"
        using merge_names_union [OF wf run] t(2) names by auto
      moreover have "mgr_inv (s\<lparr>heap := (heap s)(a \<mapsto> t')\<rparr>)" using mgr_inv_mergeOne [OF _ step] P by blast
      ultimately show ?thesis using step P t(1) by auto
    qed
  qed
  then show ?thesis by (metis take_all order_refl)
qed

section \<open>Properties\<close>


definition sample_mgr_ops :: "mgr_op list" where
  "sample_mgr_ops = [OpAddGraph ''a'' sample_cg True, OpAddGraph ''b'' sample_other False, OpGetOrCreate ''c'' False]"

definition sample_mgr :: MCGManager where
  "sample_mgr = \<lparr>heap = [0 \<mapsto> sample_cg\<lparr>self := 0\<rparr>, 1 \<mapsto> sample_other\<lparr>self := 1\<rparr>, 2 \<mapsto> empty_cg 2], nextAddr = 3,
     managedGraphs = [(''a'', 0), (''b'', 1), (''c'', 2)], activeGraph = Some 0\<rparr>"

lemma sample_mgr_run: "foldR mgr_step sample_mgr_ops new_MCGManager = Inr sample_mgr"
  by (simp add: sample_mgr_ops_def sample_mgr_def new_MCGManager_def addToManagedGraphs_def getOrCreateCallgraph_def
      Let_def numeral_2_eq_2 numeral_3_eq_3)

lemma inv_sample_mgr: "mgr_inv sample_mgr"
  using sample_mgr_run by (rule mgr.run_inv) (simp add: mgr_inv_def new_MCGManager_def addrs_def)


text \<open>
  C27: the active pointer stays valid under every operation except one: adding a graph under the
  name of the active graph without making it active.
\<close>

theorem active_graph_valid:
  assumes "mgr_inv m" and "active_ok m" and "mgr_step op m = Inr m'" and "\<not> overwritesActive op m"
  shows "active_ok m'"
  using assms by (rule mgr_step_active)

theorem active_graph_valid_witness:
  "mgr_step (OpSetActive ''b'') sample_mgr = Inr (sample_mgr\<lparr>activeGraph := Some 1\<rparr>)
   \<and> active_ok (sample_mgr\<lparr>activeGraph := Some 1\<rparr>)"
proof -
  have "mgr_step (OpSetActive ''b'') sample_mgr = Inr (sample_mgr\<lparr>activeGraph := Some 1\<rparr>)"
    and "active_ok sample_mgr" "\<not> overwritesActive (OpSetActive ''b'') sample_mgr"
    by (simp_all add: setActive_def sample_mgr_def active_ok_def addrs_def overwritesActive_def)
  then show ?thesis using active_graph_valid [OF inv_sample_mgr] by blast
qed

text \<open>
  That operation does leave the active pointer dangling: the graph it points to is destroyed,
  the pointer is kept, and using the active graph afterwards is undefined.
\<close>

theorem overwriting_active_dangles:
  assumes "mgr_inv m" and "activeGraph m = Some a" and "map_of (managedGraphs m) name = Some a"
  shows "\<exists>m'. addToManagedGraphs name (Some g) False m = Inr (True, m') \<and> activeGraph m' = Some a
     \<and> heap m' a = None \<and> size_mgr m' = Inl UndefinedBehaviour"
proof -
  have "a < nextAddr m" using mgr_invD(6) [OF assms(1,2)] .
  then show ?thesis
    using assms(2,3) by (simp add: addToManaged_eq manageNew_def size_mgr_def derefGraph_def)
qed

theorem overwriting_active_dangles_witness:
  "\<exists>m'. addToManagedGraphs ''a'' (Some sample_other) False sample_mgr = Inr (True, m') \<and> heap m' 0 = None"
  using overwriting_active_dangles [OF inv_sample_mgr, of 0 "''a''" sample_other] by (auto simp: sample_mgr_def)

lemma merge_all_exact:
  assumes "mgr_inv m" and "activeGraph m = Some a" and "heap m a = Some target"
    and "set order = getAllManagedGraphNames m" and "[] \<notin> getAllManagedGraphNames m"
    and "\<forall>b g. heap m b = Some g \<longrightarrow> b \<noteq> a \<longrightarrow> mergeable g"
  shows "\<exists>m' target'. mergeIntoActiveGraph order MergeByName_findMatchingNode m = Inr m' \<and> mgr_inv m'
     \<and> heap m' = (heap m)(a \<mapsto> target')
     \<and> ran (nameAt target') = {f. \<exists>b g. heap m b = Some g \<and> f \<in> ran (nameAt g)}"
proof -
  have "\<exists>n. n \<in> set order \<and> map_of (managedGraphs m) n = Some b" if "heap m b = Some g" for b g
  proof -
    have "b \<in> addrs m" using mgr_invD(3) [OF assms(1)] that by auto
    then obtain n where n: "(n, b) \<in> set (managedGraphs m)" by (auto simp: addrs_def)
    then have "map_of (managedGraphs m) n = Some b" using mgr_invD(1) [OF assms(1)] by simp
    moreover have "n \<in> set order" using n assms(4) by (force simp: getAllManagedGraphNames_def)
    ultimately show ?thesis by blast
  qed
  then have "{f. \<exists>b g. heap m b = Some g \<and> f \<in> ran (nameAt g)} = ran (nameAt target) \<union> namesIn m (set order)"
    using assms(3) unfolding namesIn_def by blast
  moreover have "\<And>n. n \<in> set order \<Longrightarrow> n \<in> getAllManagedGraphNames m \<and> n \<noteq> []" using assms(4,5) by auto
  moreover have "mergeIntoActiveGraph order MergeByName_findMatchingNode m =
      foldR (mergeOne MergeByName_findMatchingNode) order m"
    using assms(2) by (simp add: mergeIntoActiveGraph_def)
  ultimately show ?thesis
    using mergeAll_total [OF assms(1-3), of order] assms(6) by simp
qed

text \<open>
  C28: \<open>mergeIntoActiveGraph\<close> with merging by name, for every iteration order of the managed names:
  it returns, changes no graph but the active one, and the active graph then has exactly the names
  of all managed graphs, if no name is empty and every other graph is mergeable.
\<close>

theorem merge_into_active:
  assumes "mgr_inv m" and "activeGraph m = Some a" and "heap m a = Some target"
    and "set order = getAllManagedGraphNames m" and "[] \<notin> getAllManagedGraphNames m"
    and "\<forall>b g. heap m b = Some g \<longrightarrow> b \<noteq> a \<longrightarrow> mergeable g"
  shows "\<exists>m' target'. mergeIntoActiveGraph order MergeByName_findMatchingNode m = Inr m' \<and> mgr_inv m'
     \<and> heap m' = (heap m)(a \<mapsto> target')
     \<and> ran (nameAt target') = {f. \<exists>b g. heap m b = Some g \<and> f \<in> ran (nameAt g)}"
  using assms by (rule merge_all_exact)

lemma mergeable_self: "mergeable (g\<lparr>self := a\<rparr>) = mergeable g"
  by (simp add: mergeable_def)

lemma mergeable_empty: "mergeable (empty_cg a)"
  by (simp add: mergeable_def empty_cg_def mergeable_md_def)

theorem merge_into_active_witness:
  "\<exists>m' target'. mergeIntoActiveGraph [''b'', ''a'', ''c''] MergeByName_findMatchingNode sample_mgr = Inr m'
     \<and> heap m' = (heap sample_mgr)(0 \<mapsto> target')"
proof -
  have "activeGraph sample_mgr = Some 0" "heap sample_mgr 0 = Some (sample_cg\<lparr>self := 0\<rparr>)"
    "set [''b'', ''a'', ''c''] = getAllManagedGraphNames sample_mgr" "[] \<notin> getAllManagedGraphNames sample_mgr"
    "\<forall>b g. heap sample_mgr b = Some g \<longrightarrow> b \<noteq> 0 \<longrightarrow> mergeable g"
    using mergeable_sample_other mergeable_empty
    by (auto simp: sample_mgr_def getAllManagedGraphNames_def mergeable_self)
  from merge_into_active [OF inv_sample_mgr this] show ?thesis by blast
qed

end
