(* ===== verification/DotIO.thy ===== *)
theory DotIO
  imports Manager
begin

text \<open>
  The dot import and export (\<open>DotIO.h\<close>, \<open>DotIO.cpp\<close>): tokenizer, parser, reader and generator.
\<close>

section \<open>Tokens\<close>

datatype TokenType = IGNORE | ENTITY | CONNECTOR

record ParsedToken =
  tok_type :: TokenType
  spelling :: string

definition stripWhitespaceAndInsert :: "string \<Rightarrow> nat \<Rightarrow> nat \<Rightarrow> string list \<Rightarrow> string list" where
  "stripWhitespaceAndInsert line curPos startPos tokenStrs =
     (let strippedStr = filter (\<lambda>c. \<not> isspace c) (take (curPos - startPos) (drop startPos line))
      in if strippedStr = [] then tokenStrs else tokenStrs @ [strippedStr])"

datatype LastSeen = DIGIT | ALPHA | CNTRL

definition isDelimiter :: "char \<Rightarrow> bool" where
  "isDelimiter c \<longleftrightarrow> isspace c \<or> c \<in> set [CHR ''='', CHR ''{'', CHR ''}'', CHR ''['', CHR '']'', CHR 0x22]"

text \<open>
  The loop over the characters of the line; \<open>rest\<close> are those not yet seen. What is between
  \<open>startPos\<close> and the end of the line when the loop ends is not inserted.
\<close>

fun split_loop :: "string \<Rightarrow> string \<Rightarrow> nat \<Rightarrow> nat \<Rightarrow> LastSeen \<Rightarrow> string list \<Rightarrow> string list" where
  "split_loop line [] startPos curPos ls tokenStrs = tokenStrs"
| "split_loop line (c # rest) startPos curPos ls tokenStrs =
     (if isDelimiter c then
        split_loop line rest curPos (Suc curPos) CNTRL (stripWhitespaceAndInsert line curPos startPos tokenStrs)
      else if isdigit c then split_loop line rest startPos (Suc curPos) DIGIT tokenStrs
      else if isalpha c then
        (if ls = DIGIT \<or> ls = CNTRL then
           split_loop line rest curPos (Suc curPos) ALPHA (stripWhitespaceAndInsert line curPos startPos tokenStrs)
         else split_loop line rest startPos (Suc curPos) ALPHA tokenStrs)
      else split_loop line rest startPos (Suc curPos) ls tokenStrs)"

text \<open>The local \<open>ls\<close> is not initialised: its first value is an argument of the model.\<close>

definition splitToTokenStrings :: "LastSeen \<Rightarrow> string \<Rightarrow> string list" where
  "splitToTokenStrings ls line = split_loop line line 0 0 ls []"

definition classify :: "string \<Rightarrow> ParsedToken list" where
  "classify str =
     (if isalnum (hd str) then [\<lparr>tok_type = ENTITY, spelling = str\<rparr>]
      else if str = ''->'' then [\<lparr>tok_type = CONNECTOR, spelling = str\<rparr>]
      else if str = ''--'' then []
      else [\<lparr>tok_type = IGNORE, spelling = str\<rparr>])"

definition tokenize :: "LastSeen \<Rightarrow> string \<Rightarrow> ParsedToken list" where
  "tokenize ls line = concat (map classify (splitToTokenStrings ls line))"

section \<open>The parser\<close>

datatype ParseState = INIT | NAME | GRAPH

record DotParser =
  parse_state :: ParseState
  dot_graph :: Callgraph
  seenTokens :: "ParsedToken list"

definition new_DotParser :: "Callgraph \<Rightarrow> DotParser" where
  "new_DotParser cg = \<lparr>parse_state = INIT, dot_graph = cg, seenTokens = []\<rparr>"

text \<open>
  \<open>callgraph->addEdge(getOrInsertNode(src), getOrInsertNode(target))\<close>: the order in which the two
  arguments are evaluated is unspecified; \<open>srcFirst\<close> chooses it.
\<close>

definition addDotEdge :: "bool \<Rightarrow> string \<Rightarrow> string \<Rightarrow> Callgraph \<Rightarrow> Callgraph res" where
  "addDotEdge srcFirst src tgt cg =
     (if srcFirst then
        bindR (getOrInsertNode src None False False cg) (\<lambda>(s, cg1).
        bindR (getOrInsertNode tgt None False False cg1) (\<lambda>(t, cg2).
        Inr (snd (addEdge_ref (self cg2, s) (self cg2, t) cg2))))
      else
        bindR (getOrInsertNode tgt None False False cg) (\<lambda>(t, cg1).
        bindR (getOrInsertNode src None False False cg1) (\<lambda>(s, cg2).
        Inr (snd (addEdge_ref (self cg2, s) (self cg2, t) cg2)))))"

text \<open>The head of the list is the top of the stack.\<close>

fun reduce_loop :: "bool \<Rightarrow> ParsedToken list \<Rightarrow> Callgraph \<Rightarrow> (ParsedToken list \<times> Callgraph) res" where
  "reduce_loop srcFirst [] cg = Inr ([], cg)"
| "reduce_loop srcFirst (target # s1) cg =
     bindR (assertR (tok_type target = ENTITY)) (\<lambda>_.
     bindR (assertR (length s1 > 1)) (\<lambda>_.
     case s1 of
       [] \<Rightarrow> Inl AssertionFailed
     | conn # s2 \<Rightarrow>
         bindR (assertR (tok_type conn = CONNECTOR)) (\<lambda>_.
         case s2 of
           [] \<Rightarrow> Inr ([], cg)
         | src # s3 \<Rightarrow>
             bindR (assertR (tok_type src = ENTITY)) (\<lambda>_.
             bindR (addDotEdge srcFirst (spelling src) (spelling target) cg) (\<lambda>cg'.
             reduce_loop srcFirst s3 cg')))))"

definition reduceStack :: "bool \<Rightarrow> DotParser \<Rightarrow> DotParser res" where
  "reduceStack srcFirst p =
     (if length (seenTokens p) < 3 then Inr p
      else bindR (reduce_loop srcFirst (seenTokens p) (dot_graph p)) (\<lambda>(s, cg).
        Inr (p\<lparr>seenTokens := s, dot_graph := cg\<rparr>)))"

definition handleConnector :: "ParsedToken \<Rightarrow> DotParser \<Rightarrow> DotParser" where
  "handleConnector token p = p\<lparr>seenTokens := token # seenTokens p\<rparr>"

definition handleEntity :: "bool \<Rightarrow> ParsedToken \<Rightarrow> DotParser \<Rightarrow> DotParser res" where
  "handleEntity srcFirst token p =
     (if parse_state p = INIT \<and> spelling token = ''digraph'' then Inr (p\<lparr>parse_state := NAME\<rparr>)
      else if parse_state p = NAME \<and> spelling token \<noteq> [] then Inr (p\<lparr>parse_state := GRAPH\<rparr>)
      else if parse_state p = GRAPH then
        (let p1 = (if seenTokens p = [] then p\<lparr>seenTokens := [token]\<rparr> else p) in
         if tok_type (hd (seenTokens p1)) = CONNECTOR then
           bindR (reduceStack srcFirst (p1\<lparr>seenTokens := token # seenTokens p1\<rparr>)) (\<lambda>p2.
           Inr (p2\<lparr>seenTokens := token # seenTokens p2\<rparr>))
         else
           bindR (getOrInsertNode (spelling token) None False False (dot_graph p1)) (\<lambda>(_, cg).
           Inr (p1\<lparr>seenTokens := token # tl (seenTokens p1), dot_graph := cg\<rparr>)))
      else Inr p)"

definition handleToken :: "bool \<Rightarrow> ParsedToken \<Rightarrow> DotParser \<Rightarrow> DotParser res" where
  "handleToken srcFirst token p =
     (case tok_type token of
        IGNORE \<Rightarrow> reduceStack srcFirst p
      | ENTITY \<Rightarrow> handleEntity srcFirst token p
      | CONNECTOR \<Rightarrow> Inr (handleConnector token p))"

definition parse_line :: "bool \<Rightarrow> LastSeen \<Rightarrow> string \<Rightarrow> DotParser \<Rightarrow> DotParser res" where
  "parse_line srcFirst ls line p = foldR (handleToken srcFirst) (tokenize ls line) p"

section \<open>The reader\<close>

text \<open>\<open>std::getline\<close> until the stream fails: the lines, without an empty one after the last newline.\<close>

fun getlines :: "string \<Rightarrow> string \<Rightarrow> string list" where
  "getlines cur [] = (if cur = [] then [] else [cur])"
| "getlines cur (c # cs) = (if c = CHR 0x0A then cur # getlines [] cs else getlines (cur @ [c]) cs)"

text \<open>The new graph gets the address the manager assigns when it takes it over.\<close>

definition readAndManage ::
  "bool \<Rightarrow> LastSeen \<Rightarrow> string \<Rightarrow> string \<Rightarrow> bool \<Rightarrow> MCGManager \<Rightarrow> (bool \<times> MCGManager) res" where
  "readAndManage srcFirst ls source cgName active m =
     bindR (foldR (parse_line srcFirst ls) (getlines [] source) (new_DotParser (empty_cg (nextAddr m)))) (\<lambda>parser.
     addToManagedGraphs cgName (Some (dot_graph parser)) active m)"

section \<open>The generator\<close>

text \<open>
  \<open>std::set\<close> with a comparator: an ordered list into which an element equivalent to one already
  there is not inserted.
\<close>

fun set_insert :: "('a \<Rightarrow> 'a \<Rightarrow> bool) \<Rightarrow> 'a \<Rightarrow> 'a list \<Rightarrow> 'a list" where
  "set_insert lt x [] = [x]"
| "set_insert lt x (y # ys) =
     (if lt x y then x # y # ys else if lt y x then y # set_insert lt x ys else y # ys)"

definition nodeName :: "Callgraph \<Rightarrow> NodeId \<Rightarrow> string res" where
  "nodeName cg i = bindR (getNode cg i) (\<lambda>n. bindR (derefR n) (\<lambda>n'. Inr (functionName n')))"

text \<open>The key by which \<open>CGDotEdgeComparator\<close> compares.\<close>

definition edgeKey :: "Callgraph \<Rightarrow> NodeId \<times> NodeId \<Rightarrow> string res" where
  "edgeKey cg e = bindR (nodeName cg (fst e)) (\<lambda>l. bindR (nodeName cg (snd e)) (\<lambda>r. Inr (l @ r)))"

definition CGDotEdgeComparator :: "Callgraph \<Rightarrow> NodeId \<times> NodeId \<Rightarrow> NodeId \<times> NodeId \<Rightarrow> bool" where
  "CGDotEdgeComparator cg l r =
     (case edgeKey cg l of
        Inl _ \<Rightarrow> False
      | Inr lName \<Rightarrow> (case edgeKey cg r of Inl _ \<Rightarrow> False | Inr rName \<Rightarrow> lName < rName))"

type_synonym dot_sets = "string list \<times> (NodeId \<times> NodeId) list"

definition fillNode ::
  "Callgraph \<Rightarrow> (string \<Rightarrow> string list \<Rightarrow> string list)
   \<Rightarrow> (NodeId \<times> NodeId \<Rightarrow> (NodeId \<times> NodeId) list \<Rightarrow> (NodeId \<times> NodeId) list)
   \<Rightarrow> CgNode option \<Rightarrow> dot_sets \<Rightarrow> dot_sets res" where
  "fillNode cg insN insE nodePtr st =
     bindR (derefR nodePtr) (\<lambda>node.
     bindR (getCallees_ref cg (self cg, nid node)) (\<lambda>childNodes.
     bindR (getCallers_ref cg (self cg, nid node)) (\<lambda>parentNodes.
     bindR (mapR derefR childNodes) (\<lambda>cs.
     bindR (mapR derefR parentNodes) (\<lambda>ps.
     Inr (insN (functionName node) (fst st),
          fold (\<lambda>p. insE (p, nid node)) ps (fold (\<lambda>c. insE (nid node, c)) cs (snd st))))))))"

definition fillNodesAndEdges where
  "fillNodesAndEdges cg insN insE = foldR (fillNode cg insN insE) (nodes cg) ([], [])"

definition getNodesString :: "string list \<Rightarrow> string" where
  "getNodesString ns =
     concat (map (\<lambda>nodeName. ''  '' @ [CHR 0x22] @ nodeName @ [CHR 0x22] @ [CHR 0x0A]) ns)"

definition edgeString :: "Callgraph \<Rightarrow> NodeId \<times> NodeId \<Rightarrow> string res" where
  "edgeString cg p =
     bindR (nodeName cg (fst p)) (\<lambda>l. bindR (nodeName cg (snd p)) (\<lambda>r.
     Inr (''  '' @ l @ '' -> '' @ r @ [CHR 0x0A])))"

definition generateDotString where
  "generateDotString cg insN insE =
     bindR (fillNodesAndEdges cg insN insE) (\<lambda>(ns, es).
     bindR (mapR (edgeString cg) es) (\<lambda>lines.
     Inr (getNodesString ns @ (if es \<noteq> [] then [CHR 0x0A] else []) @ concat lines)))"

text \<open>The unordered containers keep the order of insertion, one of the orders they may have.\<close>

definition generate :: "Callgraph \<Rightarrow> bool \<Rightarrow> string res" where
  "generate cg outputSorted =
     bindR (if outputSorted
            then generateDotString cg (set_insert (<)) (set_insert (CGDotEdgeComparator cg))
            else generateDotString cg List.insert List.insert) (\<lambda>body.
     Inr (''digraph callgraph {'' @ [CHR 0x0A] @ body @ ''}'' @ [CHR 0x0A]))"

end
