(* ===== verification/DotIO_Props.thy ===== *)
theory DotIO_Props
  imports DotIO
begin

text \<open>
  What the dot import and export do: the parser builds the graph a token stream describes and keeps
  the invariant of the graph, the generator prints every node and edge once, and the tokenizer is
  compared with a reference that carries the text of the current token instead of two positions.
\<close>

section \<open>Graphs by name\<close>

definition nodeNames :: "Callgraph \<Rightarrow> string set" where
  "nodeNames cg = ran (nameAt cg)"

definition namedEdges :: "Callgraph \<Rightarrow> (string \<times> string) set" where
  "namedEdges cg = {(f, g). \<exists>a b. (a, b) \<in> edgeSet cg \<and> nameAt cg a = Some f \<and> nameAt cg b = Some g}"

definition noDuplicateNames :: "Callgraph \<Rightarrow> bool" where
  "noDuplicateNames cg \<longleftrightarrow> (\<forall>i j f. nameAt cg i = Some f \<longrightarrow> nameAt cg j = Some f \<longrightarrow> i = j)"

lemma nodeNames_empty [simp]: "nodeNames (empty_cg a) = {}" "namedEdges (empty_cg a) = {}"
  by (auto simp: nodeNames_def nameAt_def empty_cg_def ran_def namedEdges_def edgeSet_def)

lemma noDuplicateNames_empty [simp]: "noDuplicateNames (empty_cg a)"
  by (simp add: noDuplicateNames_def nameAt_def empty_cg_def)

lemma edge_names:
  "wf_cg cg \<Longrightarrow> (a, b) \<in> edgeSet cg \<Longrightarrow> \<exists>f g. nameAt cg a = Some f \<and> nameAt cg b = Some g"
  using wf_edgesD(2,3) [OF wf_cgD(3), of cg a b] by (auto simp: hasNode_id_iff_nameAt)

lemma getOrInsert_names:
  assumes "wf_cg cg" and "f \<noteq> []"
  obtains i cg' where "getOrInsertNode f None False False cg = Inr (i, cg')" and "wf_cg cg'"
    and "nameAt cg' i = Some f" and "nodeNames cg' = insert f (nodeNames cg)"
    and "namedEdges cg' = namedEdges cg" and "nameAt cg \<subseteq>\<^sub>m nameAt cg'"
    and "noDuplicateNames cg \<Longrightarrow> noDuplicateNames cg'"
proof -
  obtain i cg' where r: "getOrInsertNode f None False False cg = Inr (i, cg')"
    using getOrInsertNode_total [OF assms] .
  have wf': "wf_cg cg'" using wf_getOrInsertNode [OF assms(1) r] .
  from assms(1) r show thesis
  proof (cases rule: getOrInsertNode_cases)
    case found
    then show thesis
      by (intro that [OF r wf']) (auto simp: nodeNames_def ran_def)
  next
    case inserted
    note eff = insert_cg_effect [OF inserted(2)]
    have fresh: "nameAt cg i = None" using insert_cg_fresh [OF inserted(2)] .
    have "a \<noteq> i \<and> b \<noteq> i" if "(a, b) \<in> edgeSet cg" for a b
      using edge_names [OF assms(1) that] fresh by auto
    then have "namedEdges cg' = namedEdges cg"
      by (auto simp: namedEdges_def eff(3,5))
    moreover have "nodeNames cg' = insert f (nodeNames cg)"
      using fresh by (simp add: nodeNames_def eff(3))
    moreover have "noDuplicateNames cg \<Longrightarrow> noDuplicateNames cg'"
      using inserted(1) by (auto simp: noDuplicateNames_def eff(3))
    ultimately show thesis
      using fresh by (intro that [OF r wf']) (auto simp: eff(3) map_le_def)
  qed
qed

lemma addEdge_ref_names:
  assumes wf: "wf_cg cg" and "nameAt cg a = Some f" and "nameAt cg b = Some g"
    and add: "addEdge_ref (self cg, a) (self cg, b) cg = (r, cg')"
  shows "wf_cg cg' \<and> nameAt cg' = nameAt cg \<and> edgeSet cg' = insert (a, b) (edgeSet cg)
     \<and> nodeNames cg' = nodeNames cg \<and> namedEdges cg' = insert (f, g) (namedEdges cg)"
proof -
  have "addEdgeInternal a b cg = (r, cg')"
    using assms by (simp add: addEdge_ref_effect hasNode_id_iff_nameAt)
  note eff = addEdgeInternal_effect [OF this]
  have "nameAt cg' = nameAt cg" using eff(3) by (rule nameAt_cong)
  then show ?thesis
    using assms(2,3) wf_addEdge_ref [OF wf add] by (auto simp: eff(2) nodeNames_def namedEdges_def)
qed

lemma addDotEdge_names:
  assumes wf: "wf_cg cg" and "src \<noteq> []" and "tgt \<noteq> []"
  shows "\<exists>cg'. addDotEdge srcFirst src tgt cg = Inr cg' \<and> wf_cg cg'
     \<and> nodeNames cg' = nodeNames cg \<union> {src, tgt} \<and> namedEdges cg' = insert (src, tgt) (namedEdges cg)
     \<and> (noDuplicateNames cg \<longrightarrow> noDuplicateNames cg')"
proof -
  define f where "f = (if srcFirst then src else tgt)"
  define g where "g = (if srcFirst then tgt else src)"
  have ne: "f \<noteq> []" "g \<noteq> []" using assms by (simp_all add: f_def g_def)
  obtain i cg1 where i: "getOrInsertNode f None False False cg = Inr (i, cg1)" "wf_cg cg1"
    "nameAt cg1 i = Some f" "nodeNames cg1 = insert f (nodeNames cg)" "namedEdges cg1 = namedEdges cg"
    "nameAt cg \<subseteq>\<^sub>m nameAt cg1" "noDuplicateNames cg \<Longrightarrow> noDuplicateNames cg1"
    using getOrInsert_names [OF wf ne(1)] by blast
  obtain j cg2 where j: "getOrInsertNode g None False False cg1 = Inr (j, cg2)" "wf_cg cg2"
    "nameAt cg2 j = Some g" "nodeNames cg2 = insert g (nodeNames cg1)" "namedEdges cg2 = namedEdges cg1"
    "nameAt cg1 \<subseteq>\<^sub>m nameAt cg2" "noDuplicateNames cg1 \<Longrightarrow> noDuplicateNames cg2"
    using getOrInsert_names [OF i(2) ne(2)] by blast
  have i2: "nameAt cg2 i = Some f" using i(3) j(6) by (force simp: map_le_def)
  define s where "s = (if srcFirst then i else j)"
  define t where "t = (if srcFirst then j else i)"
  have st: "nameAt cg2 s = Some src" "nameAt cg2 t = Some tgt"
    using i2 j(3) by (simp_all add: s_def t_def f_def g_def)
  obtain r cg3 where r: "addEdge_ref (self cg2, s) (self cg2, t) cg2 = (r, cg3)" by fastforce
  note E = addEdge_ref_names [OF j(2) st r]
  have "addDotEdge srcFirst src tgt cg = Inr cg3"
    using i(1) j(1) r by (cases srcFirst) (simp_all add: addDotEdge_def f_def g_def s_def t_def)
  moreover have "nodeNames cg3 = nodeNames cg \<union> {src, tgt}"
    using E i(4) j(4) by (auto simp: f_def g_def)
  moreover have "namedEdges cg3 = insert (src, tgt) (namedEdges cg)" using E i(5) j(5) by simp
  moreover have "noDuplicateNames cg \<longrightarrow> noDuplicateNames cg3"
    using E i(7) j(7) by (simp add: noDuplicateNames_def)
  ultimately show ?thesis using E by blast
qed

section \<open>The parser keeps the graph well formed\<close>

definition tokens_ok :: "ParsedToken list \<Rightarrow> bool" where
  "tokens_ok ts \<longleftrightarrow> (\<forall>t \<in> set ts. spelling t \<noteq> [])"

definition parser_ok :: "DotParser \<Rightarrow> bool" where
  "parser_ok p \<longleftrightarrow> wf_cg (dot_graph p) \<and> tokens_ok (seenTokens p)"

lemma reduce_loop_wf:
  "reduce_loop srcFirst s cg = Inr (s', cg') \<Longrightarrow> wf_cg cg \<Longrightarrow> tokens_ok s
   \<Longrightarrow> wf_cg cg' \<and> tokens_ok s'"
proof (induction srcFirst s cg rule: reduce_loop.induct)
  case (1 srcFirst cg)
  then show ?case by simp
next
  case (2 srcFirst target s1 cg)
  show ?case
  proof (cases s1)
    case Nil
    then show ?thesis using 2(2) by (simp add: bindR_eq_Inr_iff)
  next
    case (Cons conn s2)
    show ?thesis
    proof (cases s2)
      case Nil
      then show ?thesis using 2 Cons by (auto simp: bindR_eq_Inr_iff tokens_ok_def)
    next
      case (Cons src s3)
      have ne: "spelling src \<noteq> []" "spelling target \<noteq> []"
        using 2(4) \<open>s1 = conn # s2\<close> Cons by (simp_all add: tokens_ok_def)
      obtain cg1 where cg1: "addDotEdge srcFirst (spelling src) (spelling target) cg = Inr cg1" "wf_cg cg1"
        using addDotEdge_names [OF 2(3) ne] by blast
      have r: "tok_type target = ENTITY" "tok_type conn = CONNECTOR" "tok_type src = ENTITY"
          "reduce_loop srcFirst s3 cg1 = Inr (s', cg')"
        using 2(2) \<open>s1 = conn # s2\<close> Cons cg1 by (auto simp: bindR_eq_Inr_iff)
      have "tokens_ok s3" using 2(4) \<open>s1 = conn # s2\<close> Cons by (simp add: tokens_ok_def)
      from 2(1) [OF _ _ \<open>s1 = conn # s2\<close> _ Cons _ cg1(1) r(4) cg1(2) this] r(1-3) Cons \<open>s1 = conn # s2\<close>
      show ?thesis by simp
    qed
  qed
qed

lemma reduceStack_ok: "reduceStack srcFirst p = Inr p' \<Longrightarrow> parser_ok p \<Longrightarrow> parser_ok p'"
  by (auto simp: reduceStack_def parser_ok_def bindR_eq_Inr_iff dest: reduce_loop_wf split: if_splits)

lemma handleEntity_ok:
  assumes h: "handleEntity srcFirst token p = Inr p'" and ok: "parser_ok p" and ne: "spelling token \<noteq> []"
  shows "parser_ok p'"
proof -
  define p1 where "p1 = (if seenTokens p = [] then p\<lparr>seenTokens := [token]\<rparr> else p)"
  have p1: "parser_ok p1" "seenTokens p1 \<noteq> []"
    using ok ne by (simp_all add: p1_def parser_ok_def tokens_ok_def)
  then have tl: "tokens_ok (tl (seenTokens p1))" by (cases "seenTokens p1") (simp_all add: parser_ok_def tokens_ok_def)
  consider (state) "dot_graph p' = dot_graph p \<and> seenTokens p' = seenTokens p"
    | (edge) p2 where "reduceStack srcFirst (p1\<lparr>seenTokens := token # seenTokens p1\<rparr>) = Inr p2"
        "p' = p2\<lparr>seenTokens := token # seenTokens p2\<rparr>"
    | (node) i cg where "getOrInsertNode (spelling token) None False False (dot_graph p1) = Inr (i, cg)"
        "p' = p1\<lparr>seenTokens := token # tl (seenTokens p1), dot_graph := cg\<rparr>"
    using h unfolding handleEntity_def p1_def [symmetric] Let_def
    by (auto simp: bindR_eq_Inr_iff split: if_splits)
  then show ?thesis
  proof cases
    case state
    then show ?thesis using ok by (simp add: parser_ok_def)
  next
    case edge
    have "parser_ok (p1\<lparr>seenTokens := token # seenTokens p1\<rparr>)"
      using p1 ne by (simp add: parser_ok_def tokens_ok_def)
    from reduceStack_ok [OF edge(1) this] show ?thesis
      using ne by (simp add: edge(2) parser_ok_def tokens_ok_def)
  next
    case node
    then show ?thesis
      using p1(1) tl ne wf_getOrInsertNode [OF _ node(1)] by (simp add: parser_ok_def tokens_ok_def)
  qed
qed

lemma handleToken_ok:
  "handleToken srcFirst token p = Inr p' \<Longrightarrow> parser_ok p \<Longrightarrow> spelling token \<noteq> [] \<Longrightarrow> parser_ok p'"
  by (auto simp: handleToken_def handleConnector_def parser_ok_def [of "p\<lparr>seenTokens := token # seenTokens p\<rparr>"]
      tokens_ok_def parser_ok_def [of p] split: TokenType.splits
      dest: reduceStack_ok handleEntity_ok)

lemma split_loop_nonempty:
  "[] \<notin> set toks \<Longrightarrow> [] \<notin> set (split_loop line rest s c ls toks)"
  by (induction line rest s c ls toks rule: split_loop.induct)
     (auto simp: stripWhitespaceAndInsert_def Let_def)

lemma tokenize_ok: "tokens_ok (tokenize ls line)"
  using split_loop_nonempty [of "[]" line line 0 0 ls]
  by (auto simp: tokens_ok_def tokenize_def splitToTokenStrings_def classify_def split: if_splits)

lemma parse_line_ok: "parse_line srcFirst ls line p = Inr p' \<Longrightarrow> parser_ok p \<Longrightarrow> parser_ok p'"
  unfolding parse_line_def
  by (erule foldR_invariant) (use tokenize_ok in \<open>auto simp: tokens_ok_def intro: handleToken_ok\<close>)

lemma new_DotParser_ok: "wf_cg cg \<Longrightarrow> parser_ok (new_DotParser cg)"
  by (simp add: parser_ok_def new_DotParser_def tokens_ok_def)

section \<open>Reading a token stream\<close>

text \<open>
  The statements of a dot file as the parser understands them: a chain of names joined by
  \<open>->\<close>, a single name being the shortest one, or a token it ignores, such as a brace.
\<close>

datatype dotItem = Chain "string list" | Ignored string

definition entityTok :: "string \<Rightarrow> ParsedToken" where
  "entityTok f = \<lparr>tok_type = ENTITY, spelling = f\<rparr>"

definition connTok :: ParsedToken where
  "connTok = \<lparr>tok_type = CONNECTOR, spelling = ''->''\<rparr>"

fun itemTokens :: "dotItem \<Rightarrow> ParsedToken list" where
  "itemTokens (Chain []) = []"
| "itemTokens (Chain (f # fs)) = entityTok f # concat (map (\<lambda>g. [connTok, entityTok g]) fs)"
| "itemTokens (Ignored s) = [\<lparr>tok_type = IGNORE, spelling = s\<rparr>]"

fun itemNames :: "dotItem \<Rightarrow> string set" where
  "itemNames (Chain fs) = set fs"
| "itemNames (Ignored s) = {}"

fun itemEdges :: "dotItem \<Rightarrow> (string \<times> string) set" where
  "itemEdges (Chain fs) = set (zip fs (tl fs))"
| "itemEdges (Ignored s) = {}"

definition parsed :: "string set \<Rightarrow> (string \<times> string) set \<Rightarrow> DotParser \<Rightarrow> bool" where
  "parsed N E p \<longleftrightarrow> parse_state p = GRAPH \<and> wf_cg (dot_graph p) \<and> noDuplicateNames (dot_graph p)
     \<and> nodeNames (dot_graph p) = N \<and> namedEdges (dot_graph p) = E"

definition idle :: "DotParser \<Rightarrow> bool" where
  "idle p \<longleftrightarrow> seenTokens p = [] \<or> (\<exists>f. seenTokens p = [entityTok f])"

lemmas token_sel = entityTok_def connTok_def

lemma handle_first:
  assumes "parsed N E p" and "idle p" and "f \<noteq> []"
  shows "\<exists>p'. handleToken srcFirst (entityTok f) p = Inr p' \<and> parsed (insert f N) E p'
     \<and> seenTokens p' = [entityTok f]"
proof -
  have wf: "wf_cg (dot_graph p)" using assms(1) by (simp add: parsed_def)
  obtain i cg' where g: "getOrInsertNode f None False False (dot_graph p) = Inr (i, cg')" "wf_cg cg'"
    "nodeNames cg' = insert f (nodeNames (dot_graph p))" "namedEdges cg' = namedEdges (dot_graph p)"
    "noDuplicateNames (dot_graph p) \<Longrightarrow> noDuplicateNames cg'"
    using getOrInsert_names [OF wf assms(3)] by metis
  have "handleToken srcFirst (entityTok f) p = Inr (p\<lparr>seenTokens := [entityTok f], dot_graph := cg'\<rparr>)"
    using assms(1,2) g(1) by (auto simp: handleToken_def handleEntity_def token_sel parsed_def idle_def Let_def)
  then show ?thesis using assms(1) g(2-5) by (simp add: parsed_def)
qed

lemma handle_arrow:
  assumes "parsed N E p" and "seenTokens p = [entityTok f]" and "f \<noteq> []" and "g \<noteq> []"
  shows "\<exists>p'. foldR (handleToken srcFirst) [connTok, entityTok g] p = Inr p'
     \<and> parsed (N \<union> {f, g}) (insert (f, g) E) p' \<and> seenTokens p' = [entityTok g]"
proof -
  have wf: "wf_cg (dot_graph p)" using assms(1) by (simp add: parsed_def)
  obtain cg' where g: "addDotEdge srcFirst f g (dot_graph p) = Inr cg'" "wf_cg cg'"
    "nodeNames cg' = nodeNames (dot_graph p) \<union> {f, g}"
    "namedEdges cg' = insert (f, g) (namedEdges (dot_graph p))"
    "noDuplicateNames (dot_graph p) \<longrightarrow> noDuplicateNames cg'"
    using addDotEdge_names [OF wf assms(3,4)] by blast
  have "foldR (handleToken srcFirst) [connTok, entityTok g] p
      = Inr (p\<lparr>seenTokens := [entityTok g], dot_graph := cg'\<rparr>)"
    using assms(1,2) g(1)
    by (simp add: handleToken_def handleConnector_def handleEntity_def reduceStack_def token_sel parsed_def Let_def)
  then show ?thesis using assms(1) g(2-5) by (simp add: parsed_def)
qed

lemma handle_arrows:
  assumes "parsed N E p" and "seenTokens p = [entityTok f]" and "f \<in> N"
    and "[] \<notin> set (f # fs)"
  shows "\<exists>p'. foldR (handleToken srcFirst) (concat (map (\<lambda>g. [connTok, entityTok g]) fs)) p = Inr p'
     \<and> parsed (N \<union> set fs) (E \<union> set (zip (f # fs) fs)) p' \<and> idle p'"
  using assms
proof (induction fs arbitrary: f p N E)
  case Nil
  then show ?case by (auto simp: idle_def)
next
  case (Cons g fs)
  have ne: "f \<noteq> []" "g \<noteq> []" using Cons.prems(4) by auto
  obtain p1 where p1: "foldR (handleToken srcFirst) [connTok, entityTok g] p = Inr p1"
    "parsed (N \<union> {f, g}) (insert (f, g) E) p1" "seenTokens p1 = [entityTok g]"
    using handle_arrow [OF Cons.prems(1,2) ne] by blast
  obtain p2 where p2: "foldR (handleToken srcFirst) (concat (map (\<lambda>g. [connTok, entityTok g]) fs)) p1 = Inr p2"
    "parsed (N \<union> {f, g} \<union> set fs) (insert (f, g) E \<union> set (zip (g # fs) fs)) p2" "idle p2"
    using Cons.IH [OF p1(2,3)] Cons.prems(4) by auto
  have "foldR (handleToken srcFirst) (concat (map (\<lambda>g. [connTok, entityTok g]) (g # fs))) p = Inr p2"
    using p1(1) p2(1) by (simp add: bindR_assoc [symmetric]) (auto simp: bindR_eq_Inr_iff)
  moreover have "N \<union> {f, g} \<union> set fs = N \<union> set (g # fs)" using Cons.prems(3) by auto
  ultimately show ?case using p2(2,3) by auto
qed

lemma handle_item:
  assumes "parsed N E p" and "idle p" and "[] \<notin> itemNames it"
  shows "\<exists>p'. foldR (handleToken srcFirst) (itemTokens it) p = Inr p'
     \<and> parsed (N \<union> itemNames it) (E \<union> itemEdges it) p' \<and> idle p'"
proof (cases it rule: itemTokens.cases)
  case 1
  then show ?thesis using assms by simp
next
  case (2 f fs)
  have ne: "f \<noteq> []" "[] \<notin> set (f # fs)" using assms(3) 2 by auto
  obtain p1 where p1: "handleToken srcFirst (entityTok f) p = Inr p1" "parsed (insert f N) E p1"
    "seenTokens p1 = [entityTok f]"
    using handle_first [OF assms(1,2) ne(1)] by blast
  show ?thesis using handle_arrows [OF p1(2,3) _ ne(2)] p1(1) by (auto simp: 2)
next
  case (3 s)
  have "handleToken srcFirst \<lparr>tok_type = IGNORE, spelling = s\<rparr> p = Inr p"
    using assms(2) by (auto simp: handleToken_def reduceStack_def idle_def)
  then show ?thesis using assms 3 by simp
qed

lemma handle_items:
  assumes "parsed N E p" and "idle p" and "\<forall>it \<in> set its. [] \<notin> itemNames it"
  shows "\<exists>p'. foldR (handleToken srcFirst) (concat (map itemTokens its)) p = Inr p'
     \<and> parsed (N \<union> \<Union> (itemNames ` set its)) (E \<union> \<Union> (itemEdges ` set its)) p' \<and> idle p'"
  using assms
proof (induction its arbitrary: p N E)
  case Nil
  then show ?case by simp
next
  case (Cons it its)
  obtain p1 where p1: "foldR (handleToken srcFirst) (itemTokens it) p = Inr p1"
    "parsed (N \<union> itemNames it) (E \<union> itemEdges it) p1" "idle p1"
    using handle_item [OF Cons.prems(1,2), of it srcFirst] Cons.prems(3) by auto
  show ?case using Cons.IH [OF p1(2,3)] Cons.prems(3) p1(1) by (auto simp: foldR_append Un_assoc)
qed

lemma foldR_concat: "foldR (\<lambda>x. foldR f (g x)) xs s = foldR f (concat (map g xs)) s"
  by (induction xs arbitrary: s) (auto simp: foldR_append bindR_def split: sum.splits)

lemma handle_stream:
  assumes "gname \<noteq> []" and "\<forall>it \<in> set its. [] \<notin> itemNames it"
  shows "\<exists>p. foldR (handleToken srcFirst) (entityTok ''digraph'' # entityTok gname # concat (map itemTokens its))
       (new_DotParser (empty_cg a)) = Inr p
     \<and> parsed (\<Union> (itemNames ` set its)) (\<Union> (itemEdges ` set its)) p"
proof -
  define p0 where "p0 = (new_DotParser (empty_cg a))\<lparr>parse_state := GRAPH\<rparr>"
  have p0: "parsed {} {} p0" "idle p0"
    by (simp_all add: p0_def new_DotParser_def parsed_def idle_def)
  have hd: "foldR (handleToken srcFirst) [entityTok ''digraph'', entityTok gname] (new_DotParser (empty_cg a)) = Inr p0"
    using assms(1) by (simp add: handleToken_def handleEntity_def token_sel new_DotParser_def p0_def)
  have "foldR (handleToken srcFirst) (entityTok ''digraph'' # entityTok gname # concat (map itemTokens its)) (new_DotParser (empty_cg a))
      = foldR (handleToken srcFirst) (concat (map itemTokens its)) p0"
    using foldR_append [of "handleToken srcFirst" "[entityTok ''digraph'', entityTok gname]"
        "concat (map itemTokens its)" "new_DotParser (empty_cg a)"] hd
    by (simp only: append.simps bindR_simps)
  then show ?thesis
    using handle_items [OF p0 assms(2), of srcFirst] by (simp only: Un_empty_left) blast
qed

text \<open>
  C24: Importing a dot file. If the lines of the source tokenise to the keyword \<open>digraph\<close>, a name and
  chains of names joined by arrows, interspersed with ignored tokens, the reader returns true and
  manages under the given name a well-formed graph with exactly the names of the chains as nodes,
  no name twice, and exactly the pairs of adjacent names as edges, whatever the order in which
  the two arguments of \<open>addEdge\<close> are evaluated.
\<close>

theorem dot_import_correct:
  assumes "mgr_inv m" and "gname \<noteq> []" and "\<forall>it \<in> set its. [] \<notin> itemNames it"
    and "concat (map (tokenize ls) (getlines [] source))
         = entityTok ''digraph'' # entityTok gname # concat (map itemTokens its)"
  shows "\<exists>m' g. readAndManage srcFirst ls source cgName active m = Inr (True, m') \<and> mgr_inv m'
     \<and> map_of (managedGraphs m') cgName = Some (nextAddr m) \<and> heap m' (nextAddr m) = Some g \<and> wf_cg g
     \<and> noDuplicateNames g \<and> nodeNames g = \<Union> (itemNames ` set its) \<and> namedEdges g = \<Union> (itemEdges ` set its)"
proof -
  obtain p where p: "foldR (parse_line srcFirst ls) (getlines [] source) (new_DotParser (empty_cg (nextAddr m))) = Inr p"
    and ok: "parsed (\<Union> (itemNames ` set its)) (\<Union> (itemEdges ` set its)) p"
    using handle_stream [OF assms(2,3), of srcFirst "nextAddr m"]
    unfolding assms(4) [symmetric] foldR_concat [of "handleToken srcFirst" "tokenize ls", symmetric]
    by (auto simp: parse_line_def [abs_def])
  define g where "g = (dot_graph p)\<lparr>self := nextAddr m\<rparr>"
  define m' where "m' = manageNew cgName (dot_graph p) m"
  have inv: "mgr_inv m'" using assms(1) ok by (simp add: m'_def mgr_inv_manageNew parsed_def)
  have g: "nameAt g = nameAt (dot_graph p)" "edgeSet g = edgeSet (dot_graph p)"
    by (simp_all add: g_def edgeSet_def nameAt_def fun_eq_iff)
  have "wf_cg g \<and> noDuplicateNames g \<and> nodeNames g = \<Union> (itemNames ` set its) \<and> namedEdges g = \<Union> (itemEdges ` set its)"
    using ok g by (simp add: parsed_def noDuplicateNames_def nodeNames_def namedEdges_def) (simp add: g_def)
  moreover have "heap m' (nextAddr m) = Some g" by (simp add: m'_def manageNew_def g_def)
  moreover have "map_of (managedGraphs m') cgName = Some (nextAddr m)" by (simp add: m'_def alist_simps)
  moreover have "mgr_inv (m'\<lparr>activeGraph := Some (nextAddr m)\<rparr>)"
    using inv by (intro mgr_inv_active_upd) (simp_all add: m'_def)
  ultimately show ?thesis
    using p inv by (auto simp: readAndManage_def addToManaged_eq m'_def [symmetric])
qed

definition sample_dot :: string where
  "sample_dot = ''digraph g {'' @ [CHR 0x0A] @ ''  main -> foo -> bar '' @ [CHR 0x0A] @ ''}'' @ [CHR 0x0A]"

lemma sample_dot_tokens:
  "concat (map (tokenize CNTRL) (getlines [] sample_dot))
   = entityTok ''digraph'' # entityTok ''g'' # concat (map itemTokens [Chain [''main'', ''foo'', ''bar'']])"
  by (simp add: sample_dot_def tokenize_def splitToTokenStrings_def isDelimiter_def isspace_def isdigit_def isalpha_def
      isalnum_def char_code_def stripWhitespaceAndInsert_def Let_def classify_def token_sel)

theorem dot_import_correct_witness:
  "\<exists>m' g. readAndManage True CNTRL sample_dot ''G'' True new_MCGManager = Inr (True, m') \<and> mgr_inv m'
     \<and> map_of (managedGraphs m') ''G'' = Some (nextAddr new_MCGManager)
     \<and> heap m' (nextAddr new_MCGManager) = Some g \<and> wf_cg g \<and> noDuplicateNames g
     \<and> nodeNames g = {''main'', ''foo'', ''bar''} \<and> namedEdges g = {(''main'', ''foo''), (''foo'', ''bar'')}"
proof -
  have inv: "mgr_inv new_MCGManager" by (simp add: mgr_inv_def new_MCGManager_def addrs_def)
  have names: "\<Union> (itemNames ` set [Chain [''main'', ''foo'', ''bar'']]) = {''main'', ''foo'', ''bar''}"
    and edges: "\<Union> (itemEdges ` set [Chain [''main'', ''foo'', ''bar'']]) = {(''main'', ''foo''), (''foo'', ''bar'')}"
    by simp_all
  have ne: "\<forall>it \<in> set [Chain [''main'', ''foo'', ''bar'']]. [] \<notin> itemNames it" by simp
  show ?thesis
    using dot_import_correct [OF inv _ ne sample_dot_tokens] unfolding names edges by blast
qed

section \<open>The tokenizer\<close>

text \<open>The tokenizer with the text of the current token in place of the two positions.\<close>

definition insertToken :: "string \<Rightarrow> string list \<Rightarrow> string list" where
  "insertToken buf toks =
     (let t = filter (\<lambda>c. \<not> isspace c) buf in if t = [] then toks else toks @ [t])"

fun splitRef :: "string \<Rightarrow> string \<Rightarrow> LastSeen \<Rightarrow> string list \<Rightarrow> string list" where
  "splitRef buf [] ls toks = toks"
| "splitRef buf (c # rest) ls toks =
     (if isDelimiter c then splitRef [c] rest CNTRL (insertToken buf toks)
      else if isdigit c then splitRef (buf @ [c]) rest DIGIT toks
      else if isalpha c then
        (if ls \<noteq> ALPHA then splitRef [c] rest ALPHA (insertToken buf toks)
         else splitRef (buf @ [c]) rest ALPHA toks)
      else splitRef (buf @ [c]) rest ls toks)"

lemma take_drop_snoc:
  assumes "drop cur line = c # rest" and "start \<le> cur"
  shows "take (Suc cur - start) (drop start line) = take (cur - start) (drop start line) @ [c]"
    and "take (Suc cur - cur) (drop cur line) = [c]" and "drop (Suc cur) line = rest"
proof -
  have len: "cur < length line" using assms(1) by (metis drop_eq_Nil2 leI list.distinct(1))
  then have c: "line ! cur = c" using assms(1) by (simp add: Cons_nth_drop_Suc [symmetric])
  have "cur - start < length (drop start line)" using len assms(2) by auto
  from take_Suc_conv_app_nth [OF this]
  show "take (Suc cur - start) (drop start line) = take (cur - start) (drop start line) @ [c]"
    using assms(2) len c by (simp add: Suc_diff_le)
  show "take (Suc cur - cur) (drop cur line) = [c]" using assms(1) by simp
  show "drop (Suc cur) line = rest" using assms(1) by (simp add: drop_Suc drop_tl tl_drop)
qed

lemma split_loop_ref:
  "drop cur line = rest \<Longrightarrow> start \<le> cur
   \<Longrightarrow> split_loop line rest start cur ls toks = splitRef (take (cur - start) (drop start line)) rest ls toks"
proof (induction line rest start cur ls toks rule: split_loop.induct)
  case (1 line startPos curPos ls tokenStrs)
  then show ?case by simp
next
  case (2 line c rest startPos curPos ls tokenStrs)
  note T = take_drop_snoc [OF 2(6,7)]
  have ins: "stripWhitespaceAndInsert line curPos startPos tokenStrs = insertToken (take (curPos - startPos) (drop startPos line)) tokenStrs"
    by (simp add: stripWhitespaceAndInsert_def insertToken_def)
  have ls: "ls = DIGIT \<or> ls = CNTRL \<longleftrightarrow> ls \<noteq> ALPHA" by (cases ls) auto
  show ?case
  proof (cases "isDelimiter c")
    case True
    then show ?thesis using 2(1) [OF True T(3)] T(2) by (simp add: ins)
  next
    case False
    then show ?thesis
      using 2(2) [OF False _ T(3)] 2(3) [OF False _ _ _ T(3)] 2(4) [OF False _ _ _ T(3)]
        2(5) [OF False _ _ T(3)] 2(7) T(1,2)
      by (simp add: ins ls)
  qed
qed

lemma splitToTokenStrings_ref: "splitToTokenStrings ls line = splitRef [] line ls []"
  by (simp add: splitToTokenStrings_def split_loop_ref)

lemma alpha_not_delimiter: "isalpha c \<Longrightarrow> \<not> isDelimiter c \<and> \<not> isdigit c \<and> \<not> isspace c"
  by (auto simp: isalpha_def isDelimiter_def isdigit_def isspace_def char_code_def)

lemma splitRef_word:
  "list_all isalpha w \<Longrightarrow> splitRef buf (w @ rest) ALPHA toks = splitRef (buf @ w) rest ALPHA toks"
  by (induction w arbitrary: buf) (auto simp: alpha_not_delimiter)

lemma insertToken_word: "list_all isalpha w \<Longrightarrow> w \<noteq> [] \<Longrightarrow> insertToken w toks = toks @ [w]"
  by (auto simp: insertToken_def Let_def list_all_iff alpha_not_delimiter filter_id_conv filter_empty_conv)

lemma splitRef_word_start:
  assumes "list_all isalpha w" and "w \<noteq> []" and "filter (\<lambda>c. \<not> isspace c) buf = []"
  shows "splitRef buf (w @ rest) CNTRL toks = splitRef w rest ALPHA toks"
  using assms splitRef_word [of "tl w" "[hd w]" rest toks]
  by (cases w) (auto simp: alpha_not_delimiter insertToken_def)

lemma delimiter_space: "isDelimiter CHR '' ''" "isspace CHR '' ''"
  by (simp_all add: isDelimiter_def isspace_def char_code_def)

lemma arrow_chars:
  "\<not> isDelimiter CHR ''-''" "\<not> isdigit CHR ''-''" "\<not> isalpha CHR ''-''" "\<not> isspace CHR ''-''"
  "\<not> isDelimiter CHR ''>''" "\<not> isdigit CHR ''>''" "\<not> isalpha CHR ''>''" "\<not> isspace CHR ''>''"
  by (simp_all add: isDelimiter_def isspace_def isdigit_def isalpha_def char_code_def)

lemma split_edge_line:
  assumes "list_all isalpha f" "f \<noteq> []" "list_all isalpha g" "g \<noteq> []"
  shows "splitToTokenStrings ls (''  '' @ f @ '' -> '' @ g @ rest) = splitRef g rest ALPHA [f, ''->'']"
  using splitRef_word_start [OF assms(1,2)] splitRef_word_start [OF assms(3,4)] insertToken_word [OF assms(1,2)]
  by (simp add: splitToTokenStrings_ref delimiter_space arrow_chars insertToken_def)

lemma classify_word: "list_all isalpha f \<Longrightarrow> f \<noteq> [] \<Longrightarrow> classify f = [entityTok f]"
  by (cases f) (auto simp: classify_def entityTok_def isalnum_def)

lemma classify_arrow: "classify ''->'' = [connTok]"
  by (simp add: classify_def connTok_def isalnum_def isalpha_def isdigit_def char_code_def)

text \<open>
  C30: The line the generator writes for an edge between two alphabetic names does not tokenise to
  that edge: the target is dropped, because the text after the last delimiter is never inserted.
  With a blank at the end of the line the three tokens are found. Both hold for every value of the
  uninitialised \<open>ls\<close>.
\<close>

theorem edge_line_loses_target:
  assumes "list_all isalpha f" "f \<noteq> []" "list_all isalpha g" "g \<noteq> []"
  shows "tokenize ls (''  '' @ f @ '' -> '' @ g) = [entityTok f, connTok]
     \<and> tokenize ls (''  '' @ f @ '' -> '' @ g @ '' '') = [entityTok f, connTok, entityTok g]"
  using split_edge_line [OF assms, of ls "[]"] split_edge_line [OF assms, of ls "'' ''"]
  by (simp add: tokenize_def delimiter_space insertToken_word [OF assms(3,4)] classify_word classify_arrow assms)

theorem edge_line_loses_target_witness:
  "tokenize ALPHA (''  main -> foo'') = [entityTok ''main'', connTok]
   \<and> tokenize ALPHA (''  main -> foo '') = [entityTok ''main'', connTok, entityTok ''foo'']"
  using edge_line_loses_target [of "''main''" "''foo''" ALPHA] by (simp add: isalpha_def char_code_def)

section \<open>The containers of the generator\<close>

text \<open>
  What the generator relies on in a container of nodes or edges: inserting keeps what is there,
  adds nothing but the element, and afterwards the element or an equivalent one is there; \<open>ok\<close> is
  the container's own invariant.
\<close>

locale set_container =
  fixes ins :: "'a \<Rightarrow> 'a list \<Rightarrow> 'a list" and eqv :: "'a \<Rightarrow> 'a \<Rightarrow> bool" and ok :: "'a list \<Rightarrow> bool"
  assumes ins_sub: "set (ins x xs) \<subseteq> insert x (set xs)" and ins_keep: "set xs \<subseteq> set (ins x xs)"
    and ins_new: "\<exists>y \<in> set (ins x xs). eqv y x" and ok_Nil: "ok []" and ok_ins: "ok xs \<Longrightarrow> ok (ins x xs)"
begin

lemma fold_ins_ok: "ok xs \<Longrightarrow> ok (fold ins ys xs)"
  by (induction ys arbitrary: xs) (auto intro: ok_ins)

lemma fold_ins_sub: "set (fold ins ys xs) \<subseteq> set ys \<union> set xs"
  using ins_sub by (induction ys arbitrary: xs) fastforce+

lemma fold_ins_keep: "set xs \<subseteq> set (fold ins ys xs)"
  using ins_keep by (induction ys arbitrary: xs) fastforce+

lemma fold_ins_new: "y \<in> set ys \<Longrightarrow> \<exists>z \<in> set (fold ins ys xs). eqv z y"
proof (induction ys arbitrary: xs)
  case Nil
  then show ?case by simp
next
  case (Cons a ys)
  then show ?case
    using ins_new [of y xs] fold_ins_keep [of "ins a xs" ys] by (cases "y = a") fastforce+
qed

lemma filled:
  "set (fold ins ys []) \<subseteq> set ys \<and> (\<forall>y \<in> set ys. \<exists>z \<in> set (fold ins ys []). eqv z y) \<and> ok (fold ins ys [])"
  using fold_ins_sub [of ys "[]"] fold_ins_new fold_ins_ok [OF ok_Nil] by auto

end

interpretation hashed: set_container List.insert "(=)" distinct
  by unfold_locales auto

definition equivalent :: "('a \<Rightarrow> 'a \<Rightarrow> bool) \<Rightarrow> 'a \<Rightarrow> 'a \<Rightarrow> bool" where
  "equivalent lt x y \<longleftrightarrow> x = y \<or> \<not> lt x y \<and> \<not> lt y x"

lemma equivalent_less [simp]: "equivalent (<) (x :: 'a :: linorder) y \<longleftrightarrow> x = y"
  by (auto simp: equivalent_def)

lemma set_insert_sub: "set (set_insert lt x xs) \<subseteq> insert x (set xs)"
  by (induction xs) auto

lemma set_insert_sorted:
  assumes "transp lt" and "sorted_wrt lt xs"
  shows "sorted_wrt lt (set_insert lt x xs)"
  using assms(2)
proof (induction xs)
  case Nil
  then show ?case by simp
next
  case (Cons y ys)
  then show ?case
    using set_insert_sub [of lt x ys] transpD [OF assms(1), of x y] by auto
qed

lemma set_insert_container:
  assumes "transp lt"
  shows "set_container (set_insert lt) (equivalent lt) (sorted_wrt lt)"
proof
  fix x xs
  show "set (set_insert lt x xs) \<subseteq> insert x (set xs)" by (rule set_insert_sub)
  show "set xs \<subseteq> set (set_insert lt x xs)" by (induction xs) auto
  show "\<exists>y \<in> set (set_insert lt x xs). equivalent lt y x"
    by (induction xs) (auto simp: equivalent_def)
qed (use set_insert_sorted [OF assms] in simp_all)

lemma transp_CGDotEdgeComparator: "transp (CGDotEdgeComparator cg)"
  by (auto simp: transp_def CGDotEdgeComparator_def split: sum.splits)

interpretation sortedNames: set_container "set_insert (<)" "equivalent (<)" "sorted_wrt (<) :: string list \<Rightarrow> bool"
  by (rule set_insert_container) (auto simp: transp_def)

interpretation sortedEdges: set_container "set_insert (CGDotEdgeComparator cg)" "equivalent (CGDotEdgeComparator cg)"
    "sorted_wrt (CGDotEdgeComparator cg)" for cg
  by (rule set_insert_container) (rule transp_CGDotEdgeComparator)

section \<open>The generator\<close>

definition edgesAt :: "Callgraph \<Rightarrow> CgNode option \<Rightarrow> (NodeId \<times> NodeId) list" where
  "edgesAt cg n = (case n of None \<Rightarrow> []
     | Some node \<Rightarrow> map (Pair (nid node)) (callees cg (nid node)) @ map (\<lambda>p. (p, nid node)) (callers cg (nid node)))"

definition nameOf :: "CgNode option \<Rightarrow> string" where
  "nameOf n = (case n of None \<Rightarrow> [] | Some node \<Rightarrow> functionName node)"

lemma foldR_pure:
  "(\<And>x s. x \<in> set xs \<Longrightarrow> f x s = Inr (g x s)) \<Longrightarrow> foldR f xs s = Inr (fold g xs s)"
  by (induction xs arbitrary: s) auto

lemma mapR_derefR_Some [simp]: "mapR derefR (map Some xs) = Inr xs"
  by (induction xs) auto

lemma fillNode_wf:
  assumes "wf_cg cg" and "Some node \<in> set (nodes cg)"
  shows "fillNode cg insN insE (Some node) st
     = Inr (insN (functionName node) (fst st), fold insE (edgesAt cg (Some node)) (snd st))"
proof -
  obtain i where "i < length (nodes cg)" "nodes cg ! i = Some node" using assms(2) by (auto simp: in_set_conv_nth)
  then have "hasNode_id cg (nid node)" using wf_cgD(1) [OF assms(1)] by (auto simp: wf_nodes_def hasNode_id_def)
  then have "hasNode_ref cg (self cg, nid node)" by (simp add: hasNode_ref_id)
  then show ?thesis
    by (simp add: fillNode_def getCallees_ref_def getCallers_ref_def getCallees_id_wf getCallers_id_wf assms(1)
        edgesAt_def fold_append fold_map comp_def)
qed

lemma fold_concat: "fold (\<lambda>x s. (f (a x) (fst s), fold g (b x) (snd s))) xs (s, t)
   = (fold f (map a xs) s, fold g (concat (map b xs)) t)"
  by (induction xs arbitrary: s t) auto

lemma fillNodesAndEdges_wf:
  assumes "wf_cg cg" and "None \<notin> set (nodes cg)"
  shows "fillNodesAndEdges cg insN insE
     = Inr (fold insN (map nameOf (nodes cg)) [], fold insE (concat (map (edgesAt cg) (nodes cg))) [])"
proof -
  have "foldR (fillNode cg insN insE) (nodes cg) ([], [])
      = Inr (fold (\<lambda>n s. (insN (nameOf n) (fst s), fold insE (edgesAt cg n) (snd s))) (nodes cg) ([], []))"
  proof (rule foldR_pure)
    fix n and s :: dot_sets assume n: "n \<in> set (nodes cg)"
    then have "n \<noteq> None" using assms(2) by metis
    then obtain node where "n = Some node" by blast
    then show "fillNode cg insN insE n s = Inr (insN (nameOf n) (fst s), fold insE (edgesAt cg n) (snd s))"
      using fillNode_wf [OF assms(1)] n by (simp add: nameOf_def)
  qed
  then show ?thesis by (simp add: fillNodesAndEdges_def fold_concat)
qed

lemma names_filled:
  assumes "None \<notin> set (nodes cg)"
  shows "set (map nameOf (nodes cg)) = nodeNames cg"
proof -
  have at: "nameAt cg i = Some (nameOf (nodes cg ! i))" if "i < length (nodes cg)" for i
  proof -
    have "nodes cg ! i \<noteq> None" using assms nth_mem [OF that] by metis
    then obtain n where "nodes cg ! i = Some n" by blast
    then show ?thesis using that by (simp add: nameAt_def nameOf_def)
  qed
  show ?thesis
  proof (intro equalityI subsetI)
    fix f assume "f \<in> set (map nameOf (nodes cg))"
    then obtain i where "i < length (nodes cg)" "f = nameOf (nodes cg ! i)" by (metis in_set_conv_nth length_map nth_map)
    then show "f \<in> nodeNames cg" using at [of i] by (simp add: nodeNames_def ranI)
  next
    fix f assume "f \<in> nodeNames cg"
    then obtain i where i: "nameAt cg i = Some f" by (auto simp: nodeNames_def ran_def)
    then have "i < length (nodes cg)" by (simp add: nameAt_SomeD)
    then show "f \<in> set (map nameOf (nodes cg))" using at [of i] i by simp
  qed
qed

lemma edges_filled:
  assumes "wf_cg cg"
  shows "set (concat (map (edgesAt cg) (nodes cg))) = edgeSet cg"
proof -
  note E = wf_edgesD [OF wf_cgD(3) [OF assms]]
  have "(a, b) \<in> set (concat (map (edgesAt cg) (nodes cg)))" if "(a, b) \<in> edgeSet cg" for a b
  proof -
    have "hasNode_id cg a" using E(2) that .
    then obtain n where n: "a < length (nodes cg)" "nodes cg ! a = Some n" by (auto simp: hasNode_id_def)
    then have "nid n = a" using wf_cgD(1) [OF assms] by (simp add: wf_nodes_def)
    then have "(a, b) \<in> set (edgesAt cg (Some n))" using that by (simp add: edgesAt_def E(5))
    moreover have "Some n \<in> set (nodes cg)" using n by (auto simp: in_set_conv_nth)
    ultimately show ?thesis by force
  qed
  moreover have "set (edgesAt cg n) \<subseteq> edgeSet cg" for n
    by (auto simp: edgesAt_def E(5,7) split: option.splits)
  ultimately show ?thesis by auto
qed

definition edgeLine :: "Callgraph \<Rightarrow> NodeId \<times> NodeId \<Rightarrow> string" where
  "edgeLine cg e = ''  '' @ the (nameAt cg (fst e)) @ '' -> '' @ the (nameAt cg (snd e)) @ [CHR 0x0A]"

lemma nodeName_live: "wf_cg cg \<Longrightarrow> nameAt cg i = Some f \<Longrightarrow> nodeName cg i = Inr f"
  by (erule getNode_live [OF wf_cgD(1)]) (auto simp: nodeName_def)

lemma edgeString_wf: "wf_cg cg \<Longrightarrow> e \<in> edgeSet cg \<Longrightarrow> edgeString cg e = Inr (edgeLine cg e)"
  using edge_names [of cg "fst e" "snd e"] by (auto simp: edgeString_def edgeLine_def nodeName_live)

lemma edgeKey_wf:
  "wf_cg cg \<Longrightarrow> e \<in> edgeSet cg
   \<Longrightarrow> edgeKey cg e = Inr (the (nameAt cg (fst e)) @ the (nameAt cg (snd e)))"
  using edge_names [of cg "fst e" "snd e"] by (auto simp: edgeKey_def nodeName_live)

lemma generate_wf:
  assumes "wf_cg cg" and "None \<notin> set (nodes cg)" and "set (fold insE (concat (map (edgesAt cg) (nodes cg))) []) \<subseteq> edgeSet cg"
  shows "generateDotString cg insN insE =
     (let ns = fold insN (map nameOf (nodes cg)) []; es = fold insE (concat (map (edgesAt cg) (nodes cg))) []
      in Inr (getNodesString ns @ (if es \<noteq> [] then [CHR 0x0A] else []) @ concat (map (edgeLine cg) es)))"
proof -
  have "mapR (edgeString cg) (fold insE (concat (map (edgesAt cg) (nodes cg))) [])
      = Inr (map (edgeLine cg) (fold insE (concat (map (edgesAt cg) (nodes cg))) []))"
    using assms(3) edgeString_wf [OF assms(1)] by (intro mapR_eq_Inr) auto
  then show ?thesis by (simp add: generateDotString_def fillNodesAndEdges_wf [OF assms(1,2)] Let_def)
qed

lemma generate_sel:
  "generate cg True = bindR (generateDotString cg (set_insert (<)) (set_insert (CGDotEdgeComparator cg)))
     (\<lambda>body. Inr (''digraph callgraph {'' @ [CHR 0x0A] @ body @ ''}'' @ [CHR 0x0A]))"
  "generate cg False = bindR (generateDotString cg List.insert List.insert)
     (\<lambda>body. Inr (''digraph callgraph {'' @ [CHR 0x0A] @ body @ ''}'' @ [CHR 0x0A]))"
  by (simp_all only: generate_def if_True if_False)

definition dotText :: "Callgraph \<Rightarrow> string list \<Rightarrow> (NodeId \<times> NodeId) list \<Rightarrow> string" where
  "dotText cg ns es = ''digraph callgraph {'' @ [CHR 0x0A] @ getNodesString ns
     @ (if es \<noteq> [] then [CHR 0x0A] else []) @ concat (map (edgeLine cg) es) @ ''}'' @ [CHR 0x0A]"

text \<open>
  C25: Exporting a well-formed graph with no erased node returns the text of its nodes and edges:
  each name once and, unsorted, each edge once; sorted, the names ascend and every edge is
  printed or one with the same concatenated caller and callee names is printed in its place.
\<close>

theorem dot_export_correct:
  assumes wf: "wf_cg cg" and live: "None \<notin> set (nodes cg)"
  shows "\<exists>ns es. generate cg outputSorted = Inr (dotText cg ns es) \<and> set ns = nodeNames cg \<and> distinct ns
     \<and> set es \<subseteq> edgeSet cg
     \<and> (\<forall>e \<in> edgeSet cg. \<exists>e' \<in> set es. e' = e \<or> outputSorted \<and> edgeKey cg e' = edgeKey cg e)
     \<and> (if outputSorted then sorted ns else distinct es)"
proof -
  define N where "N = map nameOf (nodes cg)"
  define E where "E = concat (map (edgesAt cg) (nodes cg))"
  have N: "set N = nodeNames cg" unfolding N_def by (rule names_filled [OF live])
  have E: "set E = edgeSet cg" unfolding E_def by (rule edges_filled [OF wf])
  note gen = generate_wf [OF wf live, folded N_def E_def]
  show ?thesis
  proof (cases outputSorted)
    case False
    note n = hashed.filled [of N, unfolded N] and e = hashed.filled [of E, unfolded E]
    have "generate cg outputSorted = Inr (dotText cg (fold List.insert N []) (fold List.insert E []))"
      using False gen [OF conjunct1 [OF e]] by (simp only: generate_sel bindR_simps Let_def dotText_def append_assoc)
    moreover have "set (fold List.insert N []) = nodeNames cg" using n by blast
    ultimately show ?thesis
      using False n e by (intro exI [of _ "fold List.insert N []"] exI [of _ "fold List.insert E []"]) simp
  next
    case True
    note n = sortedNames.filled [of N, unfolded N] and e = sortedEdges.filled [of cg E, unfolded E]
    let ?es = "fold (set_insert (CGDotEdgeComparator cg)) E []" and ?ns = "fold (set_insert (<)) N []"
    have "generate cg outputSorted = Inr (dotText cg ?ns ?es)"
      using True gen [OF conjunct1 [OF e]] by (simp only: generate_sel bindR_simps Let_def dotText_def append_assoc)
    moreover have "set ?ns = nodeNames cg" using n unfolding equivalent_less by blast
    moreover have "sorted ?ns \<and> distinct ?ns" using conjunct2 [OF conjunct2 [OF n]] unfolding strict_sorted_iff .
    moreover have sub: "set ?es \<subseteq> edgeSet cg" by (rule conjunct1 [OF e])
    moreover have "\<exists>e' \<in> set ?es. e' = x \<or> edgeKey cg e' = edgeKey cg x" if x: "x \<in> edgeSet cg" for x
    proof -
      obtain z where z: "z \<in> set ?es" "equivalent (CGDotEdgeComparator cg) z x"
        using bspec [OF conjunct1 [OF conjunct2 [OF e]] x] by (elim bexE)
      then show ?thesis
        using edgeKey_wf [OF wf x] edgeKey_wf [OF wf subsetD [OF sub z(1)]]
        by (intro bexI [OF _ z(1)]) (auto simp: equivalent_def CGDotEdgeComparator_def)
    qed
    ultimately show ?thesis using True by (intro exI [of _ ?ns] exI [of _ ?es]) simp
  qed
qed

lemma live_sample_cg: "None \<notin> set (nodes sample_cg)"
  by (simp add: sample_cg_def)

theorem dot_export_correct_witness:
  "\<exists>ns es. generate sample_cg True = Inr (dotText sample_cg ns es) \<and> set ns = nodeNames sample_cg \<and> distinct ns
     \<and> set es \<subseteq> edgeSet sample_cg
     \<and> (\<forall>e \<in> edgeSet sample_cg. \<exists>e' \<in> set es. e' = e \<or> True \<and> edgeKey sample_cg e' = edgeKey sample_cg e)
     \<and> (if True then sorted ns else distinct es)"
  by (rule dot_export_correct [OF wf_sample_cg live_sample_cg])

text \<open>
  An erased node makes the export fail: the generator dereferences the null pointer its slot
  holds, sorted or not.
\<close>

theorem dot_export_erased:
  assumes "wf_cg cg" and "None \<in> set (nodes cg)"
  shows "generate cg outputSorted = Inl UndefinedBehaviour"
proof -
  obtain live rest where split: "nodes cg = live @ None # rest" and ok: "None \<notin> set live"
    using split_list_first [OF assms(2)] by metis
  have "foldR (fillNode cg insN insE) live s = Inr (fold (\<lambda>n s. (insN (nameOf n) (fst s), fold insE (edgesAt cg n) (snd s))) live s)" for insN insE s
  proof (rule foldR_pure)
    fix n and s :: dot_sets assume n: "n \<in> set live"
    then have "n \<noteq> None" using ok by metis
    then obtain node where "n = Some node" by blast
    then show "fillNode cg insN insE n s = Inr (insN (nameOf n) (fst s), fold insE (edgesAt cg n) (snd s))"
      using fillNode_wf [OF assms(1), of node] n split by (simp add: nameOf_def)
  qed
  then have "fillNodesAndEdges cg insN insE = Inl UndefinedBehaviour" for insN insE
    by (simp add: fillNodesAndEdges_def split foldR_append) (simp add: fillNode_def)
  then show ?thesis by (simp add: generate_def generateDotString_def)
qed

lemma erased_sample: "\<exists>cg. erase_cg 1 sample_cg = Inr (True, cg) \<and> wf_cg cg \<and> None \<in> set (nodes cg)"
proof -
  obtain cg where cg: "erase_cg 1 sample_cg = Inr (True, cg)" "nodes cg = (nodes sample_cg)[1 := None]"
    using erase_cg_live [OF wf_sample_cg, of 1] by (auto simp: hasNode_id_def sample_cg_def)
  then show ?thesis
    using wf_erase_cg [OF wf_sample_cg cg(1)] by (simp add: sample_cg_def)
qed

theorem dot_export_erased_witness:
  "\<exists>cg. erase_cg 1 sample_cg = Inr (True, cg) \<and> generate cg True = Inl UndefinedBehaviour"
  using erased_sample dot_export_erased by blast

end
