(* ===== verification/Json_Api.thy ===== *)
theory Json_Api
  imports MCG_Prelude
begin

text \<open>
  The JSON library (\<open>nlohmann::json\<close>) is not part of the repository: the operations the readers
  and writers call are the fields of a record that every definition using them takes as an
  argument. \<open>json_laws\<close> collects what its documentation promises of them, on the values the
  constructors build: an object keeps its members in the order of their keys and each key once.
  \<open>json_model\<close> is one implementation that has all of these properties.
\<close>

record 'j json_api =
  j_null :: 'j
  j_bool :: "bool \<Rightarrow> 'j"
  j_int :: "int \<Rightarrow> 'j"
  j_str :: "string \<Rightarrow> 'j"
  j_array :: "'j list \<Rightarrow> 'j"
  j_object :: "(string \<times> 'j) list \<Rightarrow> 'j"
  is_null :: "'j \<Rightarrow> bool"
  is_object :: "'j \<Rightarrow> bool"
  is_array :: "'j \<Rightarrow> bool"
  empty :: "'j \<Rightarrow> bool"
  get_bool :: "'j \<Rightarrow> bool option"
  get_int :: "'j \<Rightarrow> int option"
  get_llong :: "'j \<Rightarrow> int option"
  get_str :: "'j \<Rightarrow> string option"
  contains :: "'j \<Rightarrow> string \<Rightarrow> bool"
  member :: "'j \<Rightarrow> string \<Rightarrow> 'j option"
  items :: "'j \<Rightarrow> (string \<times> 'j) list"
  elements :: "'j \<Rightarrow> 'j list"
  set_member :: "string \<Rightarrow> 'j \<Rightarrow> 'j \<Rightarrow> 'j option"
  erase_member :: "string \<Rightarrow> 'j \<Rightarrow> 'j"
  j_less :: "'j \<Rightarrow> 'j \<Rightarrow> bool"

definition ordered_members :: "(string \<times> 'j) list \<Rightarrow> bool" where
  "ordered_members ms \<longleftrightarrow> sorted_wrt (<) (map fst ms)"

text \<open>
  \<open>get_int\<close> is \<open>get<int>\<close> and \<open>get_llong\<close> is \<open>get<long long>\<close>: numbers in the range of \<open>int\<close> come back unchanged. \<open>member\<close> looks up
  a key of an object, \<open>items\<close> iterates keys and values, \<open>elements\<close> the values of an array or
  object; \<open>null\<close> has no items and becomes an object when a member is assigned.
\<close>

definition json_scalar_laws :: "'j json_api \<Rightarrow> bool" where
  "json_scalar_laws J \<longleftrightarrow>
     is_null J (j_null J) \<and> (\<forall>b. \<not> is_null J (j_bool J b)) \<and> (\<forall>n. \<not> is_null J (j_int J n))
     \<and> (\<forall>s. \<not> is_null J (j_str J s)) \<and> (\<forall>xs. \<not> is_null J (j_array J xs)) \<and> (\<forall>ms. \<not> is_null J (j_object J ms))
     \<and> (\<forall>b. get_bool J (j_bool J b) = Some b) \<and> (\<forall>n. int32 n \<longrightarrow> get_int J (j_int J n) = Some n)
     \<and> (\<forall>n. int32 n \<longrightarrow> get_llong J (j_int J n) = Some n)
     \<and> (\<forall>s. get_str J (j_str J s) = Some s)
     \<and> empty J (j_null J) \<and> (\<forall>b. \<not> empty J (j_bool J b)) \<and> (\<forall>n. \<not> empty J (j_int J n)) \<and> (\<forall>s. \<not> empty J (j_str J s))"

definition json_container_laws :: "'j json_api \<Rightarrow> bool" where
  "json_container_laws J \<longleftrightarrow>
     (\<forall>xs. empty J (j_array J xs) \<longleftrightarrow> xs = []) \<and> (\<forall>xs. elements J (j_array J xs) = xs) \<and> (\<forall>xs. is_array J (j_array J xs))
     \<and> (\<forall>ms. is_object J (j_object J ms)) \<and> (\<forall>ms. \<not> is_array J (j_object J ms)) \<and> \<not> is_object J (j_null J)
     \<and> items J (j_null J) = [] \<and> elements J (j_null J) = []
     \<and> (\<forall>k. \<not> contains J (j_null J) k) \<and> (\<forall>k v. set_member J k v (j_null J) = Some (j_object J [(k, v)]))
     \<and> (\<forall>ms. ordered_members ms \<longrightarrow>
           (empty J (j_object J ms) \<longleftrightarrow> ms = []) \<and> items J (j_object J ms) = ms \<and> elements J (j_object J ms) = map snd ms
           \<and> (\<forall>k. contains J (j_object J ms) k \<longleftrightarrow> map_of ms k \<noteq> None)
           \<and> (\<forall>k. member J (j_object J ms) k = map_of ms k)
           \<and> (\<forall>k v. set_member J k v (j_object J ms) = Some (j_object J (map_set k v ms)))
           \<and> (\<forall>k. erase_member J k (j_object J ms) = j_object J (AList.delete k ms)))"

definition json_laws :: "'j json_api \<Rightarrow> bool" where
  "json_laws J \<longleftrightarrow> json_scalar_laws J \<and> json_container_laws J"

section \<open>Calls that throw\<close>

definition type_error :: cpp_failure where
  "type_error = RuntimeError ''type_error''"

definition getR :: "('j \<Rightarrow> 'a option) \<Rightarrow> 'j \<Rightarrow> 'a res" where
  "getR get j = (case get j of None \<Rightarrow> Inl type_error | Some x \<Rightarrow> Inr x)"

text \<open>\<open>at\<close> throws if the key is missing or the value is no object.\<close>

definition j_at :: "'j json_api \<Rightarrow> 'j \<Rightarrow> string \<Rightarrow> 'j res" where
  "j_at J j k =
     (if \<not> is_object J j then Inl type_error
      else case member J j k of None \<Rightarrow> Inl OutOfRange | Some v \<Rightarrow> Inr v)"

text \<open>\<open>operator[]\<close> on a constant value: a missing key is undefined.\<close>

definition j_const_sub :: "'j json_api \<Rightarrow> 'j \<Rightarrow> string \<Rightarrow> 'j res" where
  "j_const_sub J j k =
     (if \<not> is_object J j then Inl type_error
      else case member J j k of None \<Rightarrow> Inl UndefinedBehaviour | Some v \<Rightarrow> Inr v)"

text \<open>\<open>operator[]\<close> on a mutable value, read: a missing member is created as \<open>null\<close>.\<close>

definition j_sub :: "'j json_api \<Rightarrow> 'j \<Rightarrow> string \<Rightarrow> 'j res" where
  "j_sub J j k =
     (if is_null J j then Inr (j_null J)
      else if \<not> is_object J j then Inl type_error
      else Inr (case member J j k of None \<Rightarrow> j_null J | Some v \<Rightarrow> v))"

definition j_set :: "'j json_api \<Rightarrow> string \<Rightarrow> 'j \<Rightarrow> 'j \<Rightarrow> 'j res" where
  "j_set J k v j = (case set_member J k v j of None \<Rightarrow> Inl type_error | Some j' \<Rightarrow> Inr j')"

lemmas json_calls = getR_def j_at_def j_const_sub_def j_sub_def j_set_def

lemma json_scalarD:
  assumes "json_laws J"
  shows "is_null J (j_null J)" "\<not> is_null J (j_bool J b)" "\<not> is_null J (j_int J n)" "\<not> is_null J (j_str J s)"
    "\<not> is_null J (j_array J xs)" "\<not> is_null J (j_object J ms)" "get_bool J (j_bool J b) = Some b"
    "int32 n \<Longrightarrow> get_int J (j_int J n) = Some n" "get_str J (j_str J s) = Some s" "empty J (j_null J)"
    "\<not> empty J (j_bool J b)" "\<not> empty J (j_int J n)" "\<not> empty J (j_str J s)"
    "int32 n \<Longrightarrow> get_llong J (j_int J n) = Some n"
  using assms by (simp_all add: json_laws_def json_scalar_laws_def)

lemma json_containerD:
  assumes "json_laws J"
  shows "empty J (j_array J xs) \<longleftrightarrow> xs = []" "elements J (j_array J xs) = xs" "is_array J (j_array J xs)"
    "is_object J (j_object J ms)" "\<not> is_array J (j_object J ms)" "\<not> is_object J (j_null J)"
    "items J (j_null J) = []" "elements J (j_null J) = []" "\<not> contains J (j_null J) k"
    "set_member J k v (j_null J) = Some (j_object J [(k, v)])"
    "ordered_members ms \<Longrightarrow> empty J (j_object J ms) \<longleftrightarrow> ms = []"
    "ordered_members ms \<Longrightarrow> items J (j_object J ms) = ms"
    "ordered_members ms \<Longrightarrow> elements J (j_object J ms) = map snd ms"
    "ordered_members ms \<Longrightarrow> contains J (j_object J ms) k \<longleftrightarrow> map_of ms k \<noteq> None"
    "ordered_members ms \<Longrightarrow> member J (j_object J ms) k = map_of ms k"
    "ordered_members ms \<Longrightarrow> set_member J k v (j_object J ms) = Some (j_object J (map_set k v ms))"
    "ordered_members ms \<Longrightarrow> erase_member J k (j_object J ms) = j_object J (AList.delete k ms)"
  using assms unfolding json_laws_def json_container_laws_def by (elim conjE, simp)+

lemma ordered_members_simps [simp]:
  "ordered_members []" "ordered_members [kv]"
  "ordered_members ((k, v) # kv # ms) \<longleftrightarrow> k < fst kv \<and> ordered_members (kv # ms)"
  by (auto simp: ordered_members_def intro: less_trans)

lemma ordered_map_set [simp]: "ordered_members ms \<Longrightarrow> ordered_members (map_set k v ms)"
  by (simp add: ordered_members_def sorted_map_set)

lemma ordered_delete [simp]: "ordered_members ms \<Longrightarrow> ordered_members (AList.delete k ms)"
  by (induction ms) (auto simp: ordered_members_def set_delete_eq)

section \<open>An implementation\<close>

datatype Json = JNull | JBool bool | JInt int | JStr string | JArray "Json list" | JObject "(string \<times> Json) list"

fun keyed :: "nat \<Rightarrow> Json list \<Rightarrow> (string \<times> Json) list" where
  "keyed n [] = []"
| "keyed n (x # xs) = (replicate n (CHR ''i''), x) # keyed (Suc n) xs"

definition json_model :: "Json json_api" where
  "json_model =
     \<lparr>j_null = JNull, j_bool = JBool, j_int = JInt, j_str = JStr, j_array = JArray, j_object = JObject,
      is_null = (\<lambda>j. j = JNull),
      is_object = (\<lambda>j. case j of JObject _ \<Rightarrow> True | _ \<Rightarrow> False),
      is_array = (\<lambda>j. case j of JArray _ \<Rightarrow> True | _ \<Rightarrow> False),
      empty = (\<lambda>j. case j of JNull \<Rightarrow> True | JArray xs \<Rightarrow> xs = [] | JObject ms \<Rightarrow> ms = [] | _ \<Rightarrow> False),
      get_bool = (\<lambda>j. case j of JBool b \<Rightarrow> Some b | _ \<Rightarrow> None),
      get_int = (\<lambda>j. case j of JInt n \<Rightarrow> Some n | _ \<Rightarrow> None),
      get_llong = (\<lambda>j. case j of JInt n \<Rightarrow> Some n | _ \<Rightarrow> None),
      get_str = (\<lambda>j. case j of JStr s \<Rightarrow> Some s | _ \<Rightarrow> None),
      contains = (\<lambda>j k. case j of JObject ms \<Rightarrow> map_of ms k \<noteq> None | _ \<Rightarrow> False),
      member = (\<lambda>j k. case j of JObject ms \<Rightarrow> map_of ms k | _ \<Rightarrow> None),
      items = (\<lambda>j. case j of JObject ms \<Rightarrow> ms | JArray xs \<Rightarrow> keyed 0 xs | _ \<Rightarrow> []),
      elements = (\<lambda>j. case j of JObject ms \<Rightarrow> map snd ms | JArray xs \<Rightarrow> xs | _ \<Rightarrow> []),
      set_member = (\<lambda>k v j. case j of JObject ms \<Rightarrow> Some (JObject (map_set k v ms)) | JNull \<Rightarrow> Some (JObject [(k, v)]) | _ \<Rightarrow> None),
      erase_member = (\<lambda>k j. case j of JObject ms \<Rightarrow> JObject (AList.delete k ms) | _ \<Rightarrow> j),
      j_less = (\<lambda>a b. case a of JStr s \<Rightarrow> (case b of JStr t \<Rightarrow> s < t | _ \<Rightarrow> False) | _ \<Rightarrow> False)\<rparr>"

lemma json_model_laws: "json_laws json_model"
  by (simp add: json_laws_def json_scalar_laws_def json_container_laws_def json_model_def)

end
