(* ===== verification/Metadata_Json.thy ===== *)
theory Metadata_Json
  imports Metadata_Props Json_Api
begin

text \<open>
  The JSON form of the metadata classes: \<open>toJson\<close> and the constructor from JSON of each class
  (\<open>graph/include/metacg/metadata\<close>), and the registry (\<open>MetaDataFactory\<close>) that chooses the constructor
  by key. Nodes are referred to by strings: \<open>nodeToStr\<close> is \<open>NodeToStrMapping::getStrFromNode\<close> and
  \<open>strToNode\<close> is \<open>StrToNodeMapping::getNodeFromStr\<close>, which gives the ID of the node or null.
\<close>

type_synonym NodeToStr = "NodeId \<Rightarrow> string res"
type_synonym StrToNode = "string \<Rightarrow> NodeId option"

text \<open>An initializer list of key-value pairs, or assignments to the members of a fresh value.\<close>

definition objectOf :: "'j json_api \<Rightarrow> (string \<times> 'j) list \<Rightarrow> 'j" where
  "objectOf J kvs = j_object J (fold (\<lambda>(k, v). map_set k v) kvs [])"

section \<open>Writing\<close>

definition toJson_OverrideMD :: "'j json_api \<Rightarrow> NodeToStr \<Rightarrow> OverrideMD \<Rightarrow> 'j res" where
  "toJson_OverrideMD J nodeToStr md =
     bindR (mapR nodeToStr (overrides md)) (\<lambda>jOverrides.
     bindR (mapR nodeToStr (overriddenBy md)) (\<lambda>jOverriddenBy.
     Inr (objectOf J [(''overrides'', j_array J (map (j_str J) jOverrides)),
                      (''overriddenBy'', j_array J (map (j_str J) jOverriddenBy))])))"

definition toJson_EntryFunctionMD :: "'j json_api \<Rightarrow> NodeToStr \<Rightarrow> EntryFunctionMD \<Rightarrow> 'j res" where
  "toJson_EntryFunctionMD J nodeToStr md =
     (case entryFunction md of
        None \<Rightarrow> Inr (j_str J [])
      | Some e \<Rightarrow> bindR (nodeToStr e) (\<lambda>nodeStr. Inr (j_str J nodeStr)))"

definition toJson_CodeStatisticsMD :: "'j json_api \<Rightarrow> CodeStatisticsMD \<Rightarrow> 'j" where
  "toJson_CodeStatisticsMD J md = objectOf J [(''numVars'', j_int J (numVars md))]"

definition toJson_FilePropertiesMD :: "'j json_api \<Rightarrow> FilePropertiesMD \<Rightarrow> 'j" where
  "toJson_FilePropertiesMD J md = objectOf J [(''systemInclude'', j_bool J (fromSystemInclude md))]"

definition toJson_FileInfoMetadata :: "'j json_api \<Rightarrow> FileInfoMetadata \<Rightarrow> 'j" where
  "toJson_FileInfoMetadata J md =
     objectOf J [(''origin'', j_str J (fi_origin md)), (''systemInclude'', j_bool J (fi_fromSystemInclude md))]"

definition toJson_InlineMD :: "'j json_api \<Rightarrow> InlineMD \<Rightarrow> 'j" where
  "toJson_InlineMD J md =
     objectOf J [(''markedInline'', j_bool J (markedInline md)), (''likelyInline'', j_bool J (likelyInline md)),
       (''isTemplate'', j_bool J (isTemplateFunction md)), (''markedAlwaysInline'', j_bool J (markedAlwaysInline md))]"

definition toJson_LoopDepthMD :: "'j json_api \<Rightarrow> LoopDepthMD \<Rightarrow> 'j" where
  "toJson_LoopDepthMD J md = j_int J (loopDepth md)"

definition toJson_GlobalLoopDepthMD :: "'j json_api \<Rightarrow> GlobalLoopDepthMD \<Rightarrow> 'j" where
  "toJson_GlobalLoopDepthMD J md = j_int J (globalLoopDepth md)"

definition toJson_LoopCallDepthMD :: "'j json_api \<Rightarrow> LoopCallDepthMD \<Rightarrow> 'j" where
  "toJson_LoopCallDepthMD J md = j_object J (map (map_prod id (j_int J)) (loopFunctionMap md))"

definition toJson_MallocVariableMD :: "'j json_api \<Rightarrow> MallocVariableMD \<Rightarrow> 'j" where
  "toJson_MallocVariableMD J md =
     j_array J (map (\<lambda>(k, v). objectOf J [(''global'', j_str J k), (''allocStmt'', j_str J v)]) (allocs md))"

definition toJson_NumConditionalBranchMD :: "'j json_api \<Rightarrow> NumConditionalBranchMD \<Rightarrow> 'j" where
  "toJson_NumConditionalBranchMD J md = j_int J (numConditionalBranches md)"

definition toJson_NumOperationsMD :: "'j json_api \<Rightarrow> NumOperationsMD \<Rightarrow> 'j" where
  "toJson_NumOperationsMD J md =
     objectOf J [(''numberOfIntOps'', j_int J (numberOfIntOps md)), (''numberOfFloatOps'', j_int J (numberOfFloatOps md)),
       (''numberOfControlFlowOps'', j_int J (numberOfControlFlowOps md)),
       (''numberOfMemoryAccesses'', j_int J (numberOfMemoryAccesses md))]"

definition toJson_NumStatementsMD :: "'j json_api \<Rightarrow> NumStatementsMD \<Rightarrow> 'j" where
  "toJson_NumStatementsMD J md = j_int J (numStmts md)"

definition toJson_UniqueTypeMD :: "'j json_api \<Rightarrow> UniqueTypeMD \<Rightarrow> 'j" where
  "toJson_UniqueTypeMD J md = j_int J (numTypes md)"

fun md_toJson :: "'j json_api \<Rightarrow> NodeToStr \<Rightarrow> MetaData \<Rightarrow> 'j res" where
  "md_toJson J nodeToStr (OverrideMD md) = toJson_OverrideMD J nodeToStr md"
| "md_toJson J nodeToStr (EntryFunctionMD md) = toJson_EntryFunctionMD J nodeToStr md"
| "md_toJson J nodeToStr (CodeStatisticsMD md) = Inr (toJson_CodeStatisticsMD J md)"
| "md_toJson J nodeToStr (FilePropertiesMD md) = Inr (toJson_FilePropertiesMD J md)"
| "md_toJson J nodeToStr (FileInfoMetadata md) = Inr (toJson_FileInfoMetadata J md)"
| "md_toJson J nodeToStr (InlineMD md) = Inr (toJson_InlineMD J md)"
| "md_toJson J nodeToStr (LoopDepthMD md) = Inr (toJson_LoopDepthMD J md)"
| "md_toJson J nodeToStr (GlobalLoopDepthMD md) = Inr (toJson_GlobalLoopDepthMD J md)"
| "md_toJson J nodeToStr (LoopCallDepthMD md) = Inr (toJson_LoopCallDepthMD J md)"
| "md_toJson J nodeToStr (MallocVariableMD md) = Inr (toJson_MallocVariableMD J md)"
| "md_toJson J nodeToStr (NumConditionalBranchMD md) = Inr (toJson_NumConditionalBranchMD J md)"
| "md_toJson J nodeToStr (NumOperationsMD md) = Inr (toJson_NumOperationsMD J md)"
| "md_toJson J nodeToStr (NumStatementsMD md) = Inr (toJson_NumStatementsMD J md)"
| "md_toJson J nodeToStr (UniqueTypeMD md) = Inr (toJson_UniqueTypeMD J md)"

section \<open>Reading\<close>

text \<open>\<open>get<std::vector<std::string>>\<close> and the loop that looks the strings up.\<close>

definition getStrings :: "'j json_api \<Rightarrow> 'j \<Rightarrow> string list res" where
  "getStrings J j = (if is_array J j then mapR (getR (get_str J)) (elements J j) else Inl type_error)"

definition nodesFromStrs :: "StrToNode \<Rightarrow> string list \<Rightarrow> NodeId list res" where
  "nodesFromStrs strToNode strs =
     mapR (\<lambda>s. case strToNode s of None \<Rightarrow> Inl AssertionFailed | Some n \<Rightarrow> Inr n) strs"

definition fromJson_OverrideMD :: "'j json_api \<Rightarrow> StrToNode \<Rightarrow> 'j \<Rightarrow> OverrideMD res" where
  "fromJson_OverrideMD J strToNode j =
     bindR (j_at J j ''overrides'') (\<lambda>jo.
     bindR (getStrings J jo) (\<lambda>overrideStrs.
     bindR (nodesFromStrs strToNode overrideStrs) (\<lambda>ov.
     bindR (j_at J j ''overriddenBy'') (\<lambda>jb.
     bindR (getStrings J jb) (\<lambda>overriddenByStrs.
     bindR (nodesFromStrs strToNode overriddenByStrs) (\<lambda>ob.
     Inr \<lparr>overrides = ov, overriddenBy = ob\<rparr>))))))"

definition fromJson_EntryFunctionMD :: "'j json_api \<Rightarrow> StrToNode \<Rightarrow> 'j \<Rightarrow> EntryFunctionMD res" where
  "fromJson_EntryFunctionMD J strToNode j =
     bindR (getR (get_str J) j) (\<lambda>nodeStr. Inr \<lparr>entryFunction = strToNode nodeStr\<rparr>)"

definition subInt :: "'j json_api \<Rightarrow> 'j \<Rightarrow> string \<Rightarrow> int res" where
  "subInt J j k = bindR (j_const_sub J j k) (getR (get_int J))"

definition subBool :: "'j json_api \<Rightarrow> 'j \<Rightarrow> string \<Rightarrow> bool res" where
  "subBool J j k = bindR (j_const_sub J j k) (getR (get_bool J))"

definition fromJson_CodeStatisticsMD :: "'j json_api \<Rightarrow> 'j \<Rightarrow> CodeStatisticsMD res" where
  "fromJson_CodeStatisticsMD J j =
     (if is_null J j then Inr \<lparr>numVars = 0\<rparr>
      else bindR (subInt J j ''numVars'') (\<lambda>n. Inr \<lparr>numVars = n\<rparr>))"

text \<open>From \<open>null\<close> the member without initializer stays indeterminate: counted as undefined.\<close>

definition fromJson_FilePropertiesMD :: "'j json_api \<Rightarrow> 'j \<Rightarrow> FilePropertiesMD res" where
  "fromJson_FilePropertiesMD J j =
     (if is_null J j then Inl UndefinedBehaviour
      else bindR (subBool J j ''systemInclude'') (\<lambda>b. Inr \<lparr>fromSystemInclude = b\<rparr>))"

text \<open>\<open>line0\<close> is what the storage of the uninitialised member \<open>lineNumber\<close> happens to hold.\<close>

definition fromJson_FileInfoMetadata :: "'j json_api \<Rightarrow> int \<Rightarrow> 'j \<Rightarrow> FileInfoMetadata res" where
  "fromJson_FileInfoMetadata J line0 j =
     (if is_null J j then Inl UndefinedBehaviour
      else
        bindR (j_const_sub J j ''origin'') (\<lambda>jo. bindR (getR (get_str J) jo) (\<lambda>orig.
        bindR (subBool J j ''systemInclude'') (\<lambda>b.
        Inr \<lparr>fi_origin = orig, fi_fromSystemInclude = b, fi_lineNumber = line0\<rparr>))))"

definition fromJson_InlineMD :: "'j json_api \<Rightarrow> 'j \<Rightarrow> InlineMD res" where
  "fromJson_InlineMD J j =
     (if is_null J j
      then Inr \<lparr>markedInline = False, likelyInline = False, markedAlwaysInline = False, isTemplateFunction = False\<rparr>
      else
        bindR (subBool J j ''markedInline'') (\<lambda>m.
        bindR (subBool J j ''likelyInline'') (\<lambda>l.
        bindR (subBool J j ''markedAlwaysInline'') (\<lambda>a.
        bindR (subBool J j ''isTemplate'') (\<lambda>t.
        Inr \<lparr>markedInline = m, likelyInline = l, markedAlwaysInline = a, isTemplateFunction = t\<rparr>)))))"

definition fromJson_LoopDepthMD :: "'j json_api \<Rightarrow> 'j \<Rightarrow> LoopDepthMD res" where
  "fromJson_LoopDepthMD J j =
     (if is_null J j then Inr \<lparr>loopDepth = 0\<rparr>
      else bindR (getR (get_int J) j) (\<lambda>n. Inr \<lparr>loopDepth = n\<rparr>))"

definition fromJson_GlobalLoopDepthMD :: "'j json_api \<Rightarrow> 'j \<Rightarrow> GlobalLoopDepthMD res" where
  "fromJson_GlobalLoopDepthMD J j =
     (if is_null J j then Inr \<lparr>globalLoopDepth = 0\<rparr>
      else bindR (getR (get_int J) j) (\<lambda>n. Inr \<lparr>globalLoopDepth = n\<rparr>))"

definition fromJson_LoopCallDepthMD :: "'j json_api \<Rightarrow> 'j \<Rightarrow> LoopCallDepthMD res" where
  "fromJson_LoopCallDepthMD J j =
     (if is_null J j then Inr \<lparr>loopFunctionMap = []\<rparr>
      else if \<not> is_object J j then Inl type_error
      else
        bindR (mapR (\<lambda>(k, v). bindR (getR (get_int J) v) (\<lambda>n. Inr (k, n))) (items J j)) (\<lambda>m.
        Inr \<lparr>loopFunctionMap = m\<rparr>))"

definition fromJson_MallocVariableMD :: "'j json_api \<Rightarrow> 'j \<Rightarrow> MallocVariableMD res" where
  "fromJson_MallocVariableMD J j =
     bindR (foldR (\<lambda>elem m.
        bindR (j_at J elem ''allocStmt'') (\<lambda>jv. bindR (getR (get_str J) jv) (\<lambda>v.
        bindR (j_at J elem ''global'') (\<lambda>jk. bindR (getR (get_str J) jk) (\<lambda>k.
        Inr (map_set k v m)))))) (elements J j) []) (\<lambda>m.
     Inr \<lparr>allocs = m\<rparr>)"

definition fromJson_NumConditionalBranchMD :: "'j json_api \<Rightarrow> 'j \<Rightarrow> NumConditionalBranchMD res" where
  "fromJson_NumConditionalBranchMD J j =
     (if is_null J j then Inr \<lparr>numConditionalBranches = 0\<rparr>
      else bindR (getR (get_int J) j) (\<lambda>n. Inr \<lparr>numConditionalBranches = n\<rparr>))"

definition fromJson_NumOperationsMD :: "'j json_api \<Rightarrow> 'j \<Rightarrow> NumOperationsMD res" where
  "fromJson_NumOperationsMD J j =
     (if is_null J j
      then Inr \<lparr>numberOfIntOps = 0, numberOfFloatOps = 0, numberOfControlFlowOps = 0, numberOfMemoryAccesses = 0\<rparr>
      else
        bindR (subInt J j ''numberOfIntOps'') (\<lambda>i.
        bindR (subInt J j ''numberOfFloatOps'') (\<lambda>f.
        bindR (subInt J j ''numberOfControlFlowOps'') (\<lambda>c.
        bindR (subInt J j ''numberOfMemoryAccesses'') (\<lambda>a.
        Inr \<lparr>numberOfIntOps = i, numberOfFloatOps = f, numberOfControlFlowOps = c, numberOfMemoryAccesses = a\<rparr>)))))"

text \<open>The number is read as \<open>long long\<close> and passed as \<open>int\<close>: the conversion keeps the low 32 bits.\<close>

definition narrow32 :: "int \<Rightarrow> int" where
  "narrow32 n = (n + 2 ^ 31) mod 2 ^ 32 - 2 ^ 31"

definition fromJson_NumStatementsMD :: "'j json_api \<Rightarrow> 'j \<Rightarrow> NumStatementsMD res" where
  "fromJson_NumStatementsMD J j =
     (if is_null J j then Inr \<lparr>numStmts = 0\<rparr>
      else bindR (getR (get_llong J) j) (\<lambda>jsonNumStmts. Inr \<lparr>numStmts = narrow32 jsonNumStmts\<rparr>))"

definition fromJson_UniqueTypeMD :: "'j json_api \<Rightarrow> 'j \<Rightarrow> UniqueTypeMD res" where
  "fromJson_UniqueTypeMD J j = bindR (getR (get_int J) j) (\<lambda>n. Inr \<lparr>numTypes = n\<rparr>)"

section \<open>The registry\<close>

text \<open>
  The constructors the built-in classes register under their keys (\<open>BuiltinMD.h\<close>). \<open>create\<close> gives
  null for an unknown key.
\<close>

definition builtinRegistry :: "'j json_api \<Rightarrow> StrToNode \<Rightarrow> (string \<times> ('j \<Rightarrow> MetaData res)) list" where
  "builtinRegistry J strToNode =
     [(''overrideMD'', \<lambda>j. bindR (fromJson_OverrideMD J strToNode j) (\<lambda>md. Inr (OverrideMD md))),
      (''entryFunction'', \<lambda>j. bindR (fromJson_EntryFunctionMD J strToNode j) (\<lambda>md. Inr (EntryFunctionMD md))),
      (''codeStatistics'', \<lambda>j. bindR (fromJson_CodeStatisticsMD J j) (\<lambda>md. Inr (CodeStatisticsMD md))),
      (''fileProperties'', \<lambda>j. bindR (fromJson_FilePropertiesMD J j) (\<lambda>md. Inr (FilePropertiesMD md))),
      (''inlineInfo'', \<lambda>j. bindR (fromJson_InlineMD J j) (\<lambda>md. Inr (InlineMD md))),
      (''loopDepth'', \<lambda>j. bindR (fromJson_LoopDepthMD J j) (\<lambda>md. Inr (LoopDepthMD md))),
      (''globalLoopDepth'', \<lambda>j. bindR (fromJson_GlobalLoopDepthMD J j) (\<lambda>md. Inr (GlobalLoopDepthMD md))),
      (''loopCallDepth'', \<lambda>j. bindR (fromJson_LoopCallDepthMD J j) (\<lambda>md. Inr (LoopCallDepthMD md))),
      (''mallocCollector'', \<lambda>j. bindR (fromJson_MallocVariableMD J j) (\<lambda>md. Inr (MallocVariableMD md))),
      (''numConditionalBranches'', \<lambda>j. bindR (fromJson_NumConditionalBranchMD J j) (\<lambda>md. Inr (NumConditionalBranchMD md))),
      (''numOperations'', \<lambda>j. bindR (fromJson_NumOperationsMD J j) (\<lambda>md. Inr (NumOperationsMD md))),
      (''numStatements'', \<lambda>j. bindR (fromJson_NumStatementsMD J j) (\<lambda>md. Inr (NumStatementsMD md))),
      (''uniqueTypeMetaData'', \<lambda>j. bindR (fromJson_UniqueTypeMD J j) (\<lambda>md. Inr (UniqueTypeMD md)))]"

definition md_create :: "'j json_api \<Rightarrow> StrToNode \<Rightarrow> string \<Rightarrow> 'j \<Rightarrow> MetaData option res" where
  "md_create J strToNode s j =
     (case map_of (builtinRegistry J strToNode) s of
        None \<Rightarrow> Inr None
      | Some ctor \<Rightarrow> bindR (ctor j) (\<lambda>md. Inr (Some md)))"


section \<open>Round trip\<close>

text \<open>What can be written and read back: counters of type \<open>int\<close>, maps in the order of their keys.\<close>

fun md_json_ok :: "MetaData \<Rightarrow> bool" where
  "md_json_ok (FileInfoMetadata _) = False"
| "md_json_ok (CodeStatisticsMD a) = int32 (numVars a)"
| "md_json_ok (LoopDepthMD a) = int32 (loopDepth a)"
| "md_json_ok (GlobalLoopDepthMD a) = int32 (globalLoopDepth a)"
| "md_json_ok (LoopCallDepthMD a) =
     (sorted_wrt (<) (map fst (loopFunctionMap a)) \<and> list_all (\<lambda>(_, n). int32 n) (loopFunctionMap a))"
| "md_json_ok (MallocVariableMD a) = sorted_wrt (<) (map fst (allocs a))"
| "md_json_ok (NumConditionalBranchMD a) = int32 (numConditionalBranches a)"
| "md_json_ok (NumOperationsMD a) =
     (int32 (numberOfIntOps a) \<and> int32 (numberOfFloatOps a) \<and> int32 (numberOfControlFlowOps a) \<and> int32 (numberOfMemoryAccesses a))"
| "md_json_ok (NumStatementsMD a) = int32 (numStmts a)"
| "md_json_ok (UniqueTypeMD a) = int32 (numTypes a)"
| "md_json_ok _ = True"

lemma ordered_fold_map_set:
  "ordered_members ms \<Longrightarrow> ordered_members (fold (\<lambda>(k, v). map_set k v) kvs ms)"
  by (induction kvs arbitrary: ms) auto

lemma map_of_fold_map_set:
  "map_of (fold (\<lambda>(k, v). map_set k v) kvs ms) = map_of ms ++ map_of (rev kvs)"
  by (induction kvs arbitrary: ms) (auto simp: map_of_map_set)

lemma map_set_not_Nil [simp]: "map_set k v ms \<noteq> []"
  by (induction k v ms rule: map_set.induct) auto

lemma fold_map_set_Nil: "fold (\<lambda>(k, v). map_set k v) kvs ms = [] \<longleftrightarrow> kvs = [] \<and> ms = []"
proof -
  have ne: "ms \<noteq> [] \<Longrightarrow> fold (\<lambda>(k, v). map_set k v) kvs ms \<noteq> []" for kvs ms
    by (induction kvs arbitrary: ms) (simp_all add: case_prod_unfold)
  show ?thesis
  proof (cases kvs)
    case (Cons kv kvs')
    then show ?thesis using ne [of "map_set (fst kv) (snd kv) ms" kvs'] by (cases kv) simp
  qed simp
qed

lemma objectOf_laws:
  assumes "json_laws J"
  shows "member J (objectOf J kvs) k = map_of (rev kvs) k" "is_object J (objectOf J kvs)"
    "\<not> is_null J (objectOf J kvs)" "empty J (objectOf J kvs) \<longleftrightarrow> kvs = []"
  by (simp_all add: objectOf_def json_containerD [OF assms] json_scalarD [OF assms] ordered_fold_map_set
      map_of_fold_map_set fold_map_set_Nil)

lemma objectOf_calls:
  assumes "json_laws J" and "map_of (rev kvs) k = Some v"
  shows "j_at J (objectOf J kvs) k = Inr v" "j_const_sub J (objectOf J kvs) k = Inr v"
  using assms by (simp_all add: j_at_def j_const_sub_def objectOf_laws)

lemma getR_json:
  assumes "json_laws J"
  shows "getR (get_str J) (j_str J s) = Inr s" "getR (get_bool J) (j_bool J b) = Inr b"
    "int32 n \<Longrightarrow> getR (get_int J) (j_int J n) = Inr n" "int32 n \<Longrightarrow> getR (get_llong J) (j_int J n) = Inr n"
  using assms by (simp_all add: getR_def json_scalarD)

lemma getStrings_array: "json_laws J \<Longrightarrow> getStrings J (j_array J (map (j_str J) ss)) = Inr ss"
  unfolding getStrings_def
  by (induction ss) (auto simp: json_containerD getR_json)

lemma narrow32_int32: "int32 n \<Longrightarrow> narrow32 n = n"
  by (simp add: narrow32_def int32_def)

lemma sub_objectOf:
  assumes "json_laws J"
  shows "map_of (rev kvs) k = Some (j_int J n) \<Longrightarrow> int32 n \<Longrightarrow> subInt J (objectOf J kvs) k = Inr n"
    and "map_of (rev kvs) k = Some (j_bool J b) \<Longrightarrow> subBool J (objectOf J kvs) k = Inr b"
  using assms by (simp_all add: subInt_def subBool_def objectOf_calls getR_json)

lemma nodesFromStrs_map:
  assumes "\<And>i. i \<in> set ids \<Longrightarrow> strToNode (str i) = m i" and "set ids \<subseteq> dom m"
  shows "nodesFromStrs strToNode (map str ids) = mapIds m ids"
  using assms unfolding nodesFromStrs_def mapIds_def by (induction ids) auto

text \<open>The strings that stand for nodes lead back to the nodes they are mapped to.\<close>

definition refs_ok :: "NodeToStr \<Rightarrow> StrToNode \<Rightarrow> GraphMapping \<Rightarrow> NodeId set \<Rightarrow> bool" where
  "refs_ok nodeToStr strToNode m ids \<longleftrightarrow>
     (\<forall>i \<in> ids. m i \<noteq> None \<and> (\<exists>s. nodeToStr i = Inr s \<and> strToNode s = m i))"

lemma refs_ok_mapR:
  assumes "refs_ok nodeToStr strToNode m ids" and "set xs \<subseteq> ids"
  shows "\<exists>ss. mapR nodeToStr xs = Inr ss \<and> nodesFromStrs strToNode ss = mapIds m xs"
  using assms(2)
proof (induction xs)
  case Nil
  then show ?case by (simp add: nodesFromStrs_def mapIds_def)
next
  case (Cons x xs)
  obtain ss where "mapR nodeToStr xs = Inr ss" "nodesFromStrs strToNode ss = mapIds m xs" using Cons by auto
  moreover obtain s where "nodeToStr x = Inr s" "strToNode s = m x" using assms(1) Cons.prems by (auto simp: refs_ok_def)
  ultimately show ?case by (auto simp: nodesFromStrs_def mapIds_def)
qed

lemma OverrideMD_roundtrip:
  assumes J: "json_laws J" and refs: "refs_ok nodeToStr strToNode m (set (overrides a) \<union> set (overriddenBy a))"
  shows "\<exists>j. toJson_OverrideMD J nodeToStr a = Inr j \<and> \<not> empty J j \<and> \<not> is_null J j
     \<and> fromJson_OverrideMD J strToNode j = applyMapping_OverrideMD a m"
proof -
  obtain o1 where o1: "mapR nodeToStr (overrides a) = Inr o1" "nodesFromStrs strToNode o1 = mapIds m (overrides a)"
    using refs_ok_mapR [OF refs, of "overrides a"] by auto
  obtain o2 where o2: "mapR nodeToStr (overriddenBy a) = Inr o2" "nodesFromStrs strToNode o2 = mapIds m (overriddenBy a)"
    using refs_ok_mapR [OF refs, of "overriddenBy a"] by auto
  have "mapIds m (overrides a) = Inr (map (the \<circ> m) (overrides a))" "mapIds m (overriddenBy a) = Inr (map (the \<circ> m) (overriddenBy a))"
    using refs by (auto simp: refs_ok_def intro!: mapIds_total)
  then show ?thesis
    using o1 o2 by (simp add: toJson_OverrideMD_def fromJson_OverrideMD_def objectOf_laws [OF J] objectOf_calls [OF J]
        getStrings_array [OF J] applyMapping_OverrideMD_def)
qed

lemma LoopCallDepthMD_roundtrip:
  assumes J: "json_laws J" and ok: "md_json_ok (LoopCallDepthMD a)"
  shows "fromJson_LoopCallDepthMD J (toJson_LoopCallDepthMD J a) = Inr a"
proof -
  have ord: "ordered_members (map (map_prod id (j_int J)) (loopFunctionMap a))"
    using ok by (simp add: ordered_members_def comp_def)
  have conv: "mapR (\<lambda>(k, v). bindR (getR (get_int J) v) (\<lambda>n. Inr (k, n))) (map (map_prod id (j_int J)) m) = Inr m"
    if "list_all (\<lambda>(_, n). int32 n) m" for m
    using that by (induction m) (auto simp: getR_json [OF J])
  have "list_all (\<lambda>(_, n). int32 n) (loopFunctionMap a)" using ok by simp
  from conv [OF this] show ?thesis
    using ord by (simp add: fromJson_LoopCallDepthMD_def toJson_LoopCallDepthMD_def json_scalarD [OF J] json_containerD [OF J])
qed

lemma map_set_append:
  "sorted_wrt (<) (map fst (m @ [(k, v)])) \<Longrightarrow> map_set k v m = m @ [(k, v)]"
  by (induction m) (auto simp: sorted_wrt_append)

lemma MallocVariableMD_roundtrip:
  assumes J: "json_laws J" and ok: "md_json_ok (MallocVariableMD a)"
  shows "fromJson_MallocVariableMD J (toJson_MallocVariableMD J a) = Inr a"
proof -
  define f where "f = (\<lambda>elem m. bindR (j_at J elem ''allocStmt'') (\<lambda>jv. bindR (getR (get_str J) jv) (\<lambda>v.
        bindR (j_at J elem ''global'') (\<lambda>jk. bindR (getR (get_str J) jk) (\<lambda>k.
        Inr (map_set k v m))))))"
  have step: "f (objectOf J [(''global'', j_str J k), (''allocStmt'', j_str J v)]) m = Inr (map_set k v m)" for k v m
    by (simp add: f_def objectOf_calls [OF J] getR_json [OF J])
  have "foldR f (map (\<lambda>(k, v). objectOf J [(''global'', j_str J k), (''allocStmt'', j_str J v)]) ys) xs = Inr (xs @ ys)"
    if "sorted_wrt (<) (map fst (xs @ ys))" for xs ys
    using that
  proof (induction ys arbitrary: xs)
    case Nil
    then show ?case by simp
  next
    case (Cons y ys)
    obtain k v where y: "y = (k, v)" by fastforce
    have "sorted_wrt (<) (map fst (xs @ [(k, v)]))" using Cons.prems y by (auto simp: sorted_wrt_append)
    then have "map_set k v xs = xs @ [(k, v)]" by (rule map_set_append)
    then show ?case using Cons.IH [of "xs @ [(k, v)]"] Cons.prems by (simp add: y step)
  qed
  from this [of "[]" "allocs a"] show ?thesis
    using ok by (simp add: fromJson_MallocVariableMD_def toJson_MallocVariableMD_def json_containerD [OF J] f_def)
qed

lemmas fromJson_defs =
  fromJson_CodeStatisticsMD_def fromJson_FilePropertiesMD_def fromJson_InlineMD_def fromJson_LoopDepthMD_def
  fromJson_GlobalLoopDepthMD_def fromJson_NumConditionalBranchMD_def fromJson_NumOperationsMD_def
  fromJson_NumStatementsMD_def fromJson_UniqueTypeMD_def

lemmas toJson_defs =
  toJson_CodeStatisticsMD_def toJson_FilePropertiesMD_def toJson_InlineMD_def toJson_LoopDepthMD_def
  toJson_GlobalLoopDepthMD_def toJson_NumConditionalBranchMD_def toJson_NumOperationsMD_def
  toJson_NumStatementsMD_def toJson_UniqueTypeMD_def

lemma md_create_simps:
  "md_create J s2n ''overrideMD'' j = bindR (fromJson_OverrideMD J s2n j) (\<lambda>md. Inr (Some (OverrideMD md)))"
  "md_create J s2n ''entryFunction'' j = bindR (fromJson_EntryFunctionMD J s2n j) (\<lambda>md. Inr (Some (EntryFunctionMD md)))"
  "md_create J s2n ''codeStatistics'' j = bindR (fromJson_CodeStatisticsMD J j) (\<lambda>md. Inr (Some (CodeStatisticsMD md)))"
  "md_create J s2n ''fileProperties'' j = bindR (fromJson_FilePropertiesMD J j) (\<lambda>md. Inr (Some (FilePropertiesMD md)))"
  "md_create J s2n ''inlineInfo'' j = bindR (fromJson_InlineMD J j) (\<lambda>md. Inr (Some (InlineMD md)))"
  "md_create J s2n ''loopDepth'' j = bindR (fromJson_LoopDepthMD J j) (\<lambda>md. Inr (Some (LoopDepthMD md)))"
  "md_create J s2n ''globalLoopDepth'' j = bindR (fromJson_GlobalLoopDepthMD J j) (\<lambda>md. Inr (Some (GlobalLoopDepthMD md)))"
  "md_create J s2n ''loopCallDepth'' j = bindR (fromJson_LoopCallDepthMD J j) (\<lambda>md. Inr (Some (LoopCallDepthMD md)))"
  "md_create J s2n ''mallocCollector'' j = bindR (fromJson_MallocVariableMD J j) (\<lambda>md. Inr (Some (MallocVariableMD md)))"
  "md_create J s2n ''numConditionalBranches'' j = bindR (fromJson_NumConditionalBranchMD J j) (\<lambda>md. Inr (Some (NumConditionalBranchMD md)))"
  "md_create J s2n ''numOperations'' j = bindR (fromJson_NumOperationsMD J j) (\<lambda>md. Inr (Some (NumOperationsMD md)))"
  "md_create J s2n ''numStatements'' j = bindR (fromJson_NumStatementsMD J j) (\<lambda>md. Inr (Some (NumStatementsMD md)))"
  "md_create J s2n ''uniqueTypeMetaData'' j = bindR (fromJson_UniqueTypeMD J j) (\<lambda>md. Inr (Some (UniqueTypeMD md)))"
  by (simp_all add: md_create_def builtinRegistry_def bindR_assoc)

text \<open>What the writers drop: an entry whose JSON is empty.\<close>

fun md_nonempty :: "MetaData \<Rightarrow> bool" where
  "md_nonempty (LoopCallDepthMD a) = (loopFunctionMap a \<noteq> [])"
| "md_nonempty (MallocVariableMD a) = (allocs a \<noteq> [])"
| "md_nonempty _ = True"

lemma md_json_roundtrip:
  assumes J: "json_laws J" and ok: "md_json_ok md" and refs: "refs_ok nodeToStr strToNode m (md_refs md)"
    and none: "strToNode [] = None"
  shows "\<exists>j md'. md_toJson J nodeToStr md = Inr j \<and> (\<not> empty J j \<and> \<not> is_null J j \<longleftrightarrow> md_nonempty md)
     \<and> md_create J strToNode (getKey md) j = Inr (Some md') \<and> md_applyMapping md m = Inr md'"
proof (cases md)
  case (OverrideMD a)
  obtain j where j: "toJson_OverrideMD J nodeToStr a = Inr j" "\<not> empty J j" "\<not> is_null J j"
    "fromJson_OverrideMD J strToNode j = applyMapping_OverrideMD a m"
    using OverrideMD_roundtrip [OF J, of nodeToStr strToNode m a] refs OverrideMD by auto
  obtain a' where "applyMapping_OverrideMD a m = Inr a'"
    using md_applyMapping_total [of md m] refs OverrideMD by (auto simp: refs_ok_def bindR_eq_Inr_iff)
  with j OverrideMD show ?thesis by (simp add: md_create_simps)
next
  case (EntryFunctionMD a)
  show ?thesis
  proof (cases "entryFunction a")
    case None
    then show ?thesis
      using EntryFunctionMD none by (auto simp: toJson_EntryFunctionMD_def md_create_simps fromJson_EntryFunctionMD_def
          json_scalarD [OF J] getR_json [OF J] applyMapping_EntryFunctionMD_def)
  next
    case (Some e)
    then obtain s n where "nodeToStr e = Inr s" "strToNode s = m e" "m e = Some n"
      using refs EntryFunctionMD by (auto simp: refs_ok_def)
    then show ?thesis
      using EntryFunctionMD Some by (auto simp: toJson_EntryFunctionMD_def md_create_simps fromJson_EntryFunctionMD_def
          json_scalarD [OF J] getR_json [OF J] applyMapping_EntryFunctionMD_def)
  qed
next
  case (LoopCallDepthMD a)
  have "ordered_members (map (map_prod id (j_int J)) (loopFunctionMap a))"
    using ok LoopCallDepthMD by (simp add: ordered_members_def comp_def)
  then have "empty J (toJson_LoopCallDepthMD J a) \<longleftrightarrow> loopFunctionMap a = []" "\<not> is_null J (toJson_LoopCallDepthMD J a)"
    by (simp_all add: toJson_LoopCallDepthMD_def json_scalarD [OF J] json_containerD [OF J])
  then show ?thesis using LoopCallDepthMD_roundtrip [OF J] ok LoopCallDepthMD by (simp add: md_create_simps)
next
  case (MallocVariableMD a)
  have "empty J (toJson_MallocVariableMD J a) \<longleftrightarrow> allocs a = []" "\<not> is_null J (toJson_MallocVariableMD J a)"
    by (simp_all add: toJson_MallocVariableMD_def json_scalarD [OF J] json_containerD [OF J])
  then show ?thesis using MallocVariableMD_roundtrip [OF J] ok MallocVariableMD by (simp add: md_create_simps)
next
  case (FileInfoMetadata a)
  then show ?thesis using ok by simp
qed (use ok in \<open>simp_all add: md_create_simps toJson_defs fromJson_defs objectOf_laws [OF J] json_scalarD [OF J]
      sub_objectOf [OF J] getR_json [OF J] narrow32_int32\<close>)

text \<open>
  C18: writing metadata and reading it back, for every built-in class: the constructor registered
  under the key of the class gives the metadata with its node references mapped the way the two
  string tables map them, and the written value is empty or null exactly for an empty map.
\<close>

theorem metadata_roundtrip:
  assumes J: "json_laws J" and ok: "md_json_ok md" and refs: "refs_ok nodeToStr strToNode m (md_refs md)"
    and none: "strToNode [] = None"
  shows "\<exists>j md'. md_toJson J nodeToStr md = Inr j \<and> (\<not> empty J j \<and> \<not> is_null J j \<longleftrightarrow> md_nonempty md)
     \<and> md_create J strToNode (getKey md) j = Inr (Some md') \<and> md_applyMapping md m = Inr md'"
  using assms by (rule md_json_roundtrip)

theorem metadata_roundtrip_witness:
  "\<exists>j md'. md_toJson json_model (\<lambda>i. Inr ''f'') (OverrideMD \<lparr>overrides = [3], overriddenBy = []\<rparr>) = Inr j
     \<and> (\<not> empty json_model j \<and> \<not> is_null json_model j \<longleftrightarrow> md_nonempty (OverrideMD \<lparr>overrides = [3], overriddenBy = []\<rparr>))
     \<and> md_create json_model [''f'' \<mapsto> 5] (getKey (OverrideMD \<lparr>overrides = [3], overriddenBy = []\<rparr>)) j = Inr (Some md')
     \<and> md_applyMapping (OverrideMD \<lparr>overrides = [3], overriddenBy = []\<rparr>) [3 \<mapsto> 5] = Inr md'"
  by (rule metadata_roundtrip [OF json_model_laws]) (simp_all add: refs_ok_def)

end
