(* ===== verification/McgFormat.thy ===== *)
theory McgFormat
  imports Manager Metadata_Json
begin

text \<open>
  The MetaCG file formats: version information (\<open>MCGBaseInfo.h\<close>, \<open>Util.h\<close>), the writers and readers
  of format versions 4 and 2 and their factories (\<open>graph/src/io\<close>, \<open>graph/include/metacg/io\<close>).
  Loggers are left out; the callback for metadata that could not be read is modelled by the list of
  its calls.
\<close>

section \<open>Numbers as text\<close>

definition digit :: "nat \<Rightarrow> char" where
  "digit d = char_of (48 + d)"

fun to_string :: "nat \<Rightarrow> string" where
  "to_string n = (if n < 10 then [digit n] else to_string (n div 10) @ [digit (n mod 10)])"

declare to_string.simps [simp del]

section \<open>Version information\<close>

record MCGFileFormatVersion =
  versionMajor :: nat
  versionMinor :: nat

definition version_eq :: "MCGFileFormatVersion \<Rightarrow> MCGFileFormatVersion \<Rightarrow> bool" where
  "version_eq this rhs = (versionMajor this = versionMajor rhs \<and> versionMinor this = versionMinor rhs)"

definition version_ne :: "MCGFileFormatVersion \<Rightarrow> MCGFileFormatVersion \<Rightarrow> bool" where
  "version_ne this rhs = (\<not> version_eq rhs this)"

definition version_less :: "MCGFileFormatVersion \<Rightarrow> MCGFileFormatVersion \<Rightarrow> bool" where
  "version_less this rhs =
     (versionMajor this < versionMajor rhs
      \<or> versionMajor this = versionMajor rhs \<and> versionMinor this < versionMinor rhs)"

definition version_greater :: "MCGFileFormatVersion \<Rightarrow> MCGFileFormatVersion \<Rightarrow> bool" where
  "version_greater this rhs = (\<not> version_less this rhs)"

definition getVersionStr :: "MCGFileFormatVersion \<Rightarrow> string" where
  "getVersionStr v = to_string (versionMajor v) @ ''.'' @ to_string (versionMinor v)"

record MCGGeneratorVersionInfo =
  gen_name :: string
  gen_versionMajor :: nat
  gen_versionMinor :: nat
  sha :: string

definition gen_getVersionStr :: "MCGGeneratorVersionInfo \<Rightarrow> string" where
  "gen_getVersionStr g = to_string (gen_versionMajor g) @ ''.'' @ to_string (gen_versionMinor g)"

record MCGFileFormatInfo =
  fmt_version :: MCGFileFormatVersion
  cgFieldName :: string
  metaInfoFieldName :: string

definition new_MCGFileFormatInfo :: "nat \<Rightarrow> nat \<Rightarrow> MCGFileFormatInfo" where
  "new_MCGFileFormatInfo major minor =
     \<lparr>fmt_version = \<lparr>versionMajor = major, versionMinor = minor\<rparr>, cgFieldName = ''_CG'', metaInfoFieldName = ''_MetaCG''\<rparr>"

record MCGFileInfo =
  formatInfo :: MCGFileFormatInfo
  generatorInfo :: MCGGeneratorVersionInfo

definition getVersionTwoFileInfo :: "MCGGeneratorVersionInfo \<Rightarrow> MCGFileInfo" where
  "getVersionTwoFileInfo mcgGenInfo = \<lparr>formatInfo = new_MCGFileFormatInfo 2 0, generatorInfo = mcgGenInfo\<rparr>"

text \<open>
  \<open>find_from c s p\<close>: the position of the first \<open>c\<close> at or after \<open>p\<close>. The loop of \<open>string_split\<close>
  collects the positions after the separators and gives up after 5000; each part is the single
  character at its position, because the length passed to \<open>substr\<close> is the distance of two
  neighbouring iterators.
\<close>

fun find_from :: "char \<Rightarrow> string \<Rightarrow> nat \<Rightarrow> nat option" where
  "find_from c [] p = None"
| "find_from c (x # xs) 0 = (if x = c then Some 0 else map_option Suc (find_from c xs 0))"
| "find_from c (x # xs) (Suc p) = map_option Suc (find_from c xs p)"

fun split_positions :: "nat \<Rightarrow> char \<Rightarrow> string \<Rightarrow> nat list \<Rightarrow> nat list res" where
  "split_positions 0 c s positions = Inl (ExitCall (- 1))"
| "split_positions (Suc fuel) c s positions =
     (case find_from c s (last positions + 1) of
        None \<Rightarrow> Inr positions
      | Some pos \<Rightarrow>
          (if length (positions @ [pos + 1]) > 5000 then Inl (ExitCall (- 1))
           else split_positions fuel c s (positions @ [pos + 1])))"

definition string_split :: "string \<Rightarrow> char \<Rightarrow> string list res" where
  "string_split s c =
     bindR (split_positions 5001 c s [0]) (\<lambda>positions.
     Inr (map (\<lambda>bg. take 1 (drop bg s)) positions))"

text \<open>\<open>atoi\<close> of a string of at most one character.\<close>

definition atoi1 :: "string \<Rightarrow> nat" where
  "atoi1 s = (case s of [c] \<Rightarrow> let d = of_char c :: nat in (if 48 \<le> d \<and> d \<le> 57 then d - 48 else 0) | _ \<Rightarrow> 0)"

definition getVersionNoAtPosition :: "string \<Rightarrow> nat \<Rightarrow> nat res" where
  "getVersionNoAtPosition versionStr index =
     (if length (filter (\<lambda>c. c = CHR ''.'') versionStr) < 1 then Inl (ExitCall (- 1))
      else
        bindR (string_split versionStr CHR ''.'') (\<lambda>versionParts.
        if index < length versionParts then Inr (atoi1 (versionParts ! index)) else Inl OutOfRange))"

definition getMajorVersionFromString :: "string \<Rightarrow> nat res" where
  "getMajorVersionFromString versionStr = getVersionNoAtPosition versionStr 0"

definition getMinorVersionFromString :: "string \<Rightarrow> nat res" where
  "getMinorVersionFromString versionStr = getVersionNoAtPosition versionStr 1"

definition attachMCGFormatHeader :: "'j json_api \<Rightarrow> MCGFileInfo \<Rightarrow> 'j res" where
  "attachMCGFormatHeader J info =
     (let f = formatInfo info; g = generatorInfo info;
          j = objectOf J [(metaInfoFieldName f, j_null J), (cgFieldName f, j_null J)]
      in j_set J (metaInfoFieldName f)
           (objectOf J [(''version'', j_str J (getVersionStr (fmt_version f))),
              (''generator'', objectOf J [(''name'', j_str J (gen_name g)), (''version'', j_str J (gen_getVersionStr g)),
                 (''sha'', j_str J (sha g))])]) j)"

section \<open>The version 4 writer\<close>

fun index_of :: "'a \<Rightarrow> 'a list \<Rightarrow> nat" where
  "index_of x [] = 0"
| "index_of x (y # ys) = (if x = y then 0 else Suc (index_of x ys))"

definition convertToStr :: "Callgraph \<Rightarrow> bool \<Rightarrow> CgNode \<Rightarrow> string" where
  "convertToStr cg useNameAsId node =
     (if useNameAsId then
        (let allNodesWithName = getNodes_name cg (functionName node)
         in if length allNodesWithName > 1
            then functionName node @ ''#'' @ to_string (index_of (nid node) allNodesWithName)
            else functionName node)
      else to_string (nid node))"

text \<open>\<open>idToStr\<close> caches the strings; what is looked up does not depend on it (\<open>getStrFromNode_coherent\<close>).\<close>

record V4WriterMapping =
  wm_cg :: Callgraph
  useNameAsId :: bool
  idToStr :: "NodeId \<rightharpoonup> string"

definition getStrFromNode :: "V4WriterMapping \<Rightarrow> NodeId \<Rightarrow> (string \<times> V4WriterMapping) res" where
  "getStrFromNode wm i =
     (case idToStr wm i of
        Some s \<Rightarrow> Inr (s, wm)
      | None \<Rightarrow>
          bindR (getNode (wm_cg wm) i) (\<lambda>n.
          case n of
            None \<Rightarrow> Inl AssertionFailed
          | Some node \<Rightarrow>
              (let s = convertToStr (wm_cg wm) (useNameAsId wm) node
               in Inr (s, wm\<lparr>idToStr := (idToStr wm)(i \<mapsto> s)\<rparr>))))"

definition v4_nodeToStr :: "Callgraph \<Rightarrow> bool \<Rightarrow> NodeToStr" where
  "v4_nodeToStr cg useName i =
     bindR (getStrFromNode \<lparr>wm_cg = cg, useNameAsId = useName, idToStr = Map.empty\<rparr> i) (\<lambda>r. Inr (fst r))"

definition writeMeta :: "'j json_api \<Rightarrow> NodeToStr \<Rightarrow> string \<times> MetaData \<Rightarrow> 'j \<Rightarrow> 'j res" where
  "writeMeta J nodeToStr kmd jMeta =
     bindR (md_toJson J nodeToStr (snd kmd)) (\<lambda>jMetaEntry.
     if \<not> empty J jMetaEntry \<and> \<not> is_null J jMetaEntry then j_set J (fst kmd) jMetaEntry jMeta else Inr jMeta)"

definition originJson :: "'j json_api \<Rightarrow> string option \<Rightarrow> 'j" where
  "originJson J orig = (case orig of None \<Rightarrow> j_null J | Some s \<Rightarrow> j_str J s)"

definition writeNode :: "'j json_api \<Rightarrow> NodeToStr \<Rightarrow> CgNode option \<Rightarrow> 'j \<Rightarrow> 'j res" where
  "writeNode J nodeToStr nodePtr jNodes =
     (case nodePtr of
        None \<Rightarrow> Inr jNodes
      | Some node \<Rightarrow>
          bindR (foldR (writeMeta J nodeToStr) (metaFields node) (j_object J [])) (\<lambda>jMeta.
          bindR (nodeToStr (nid node)) (\<lambda>idStr.
          j_set J idStr
            (objectOf J [(''functionName'', j_str J (functionName node)), (''origin'', originJson J (origin node)),
               (''hasBody'', j_bool J (hasBody node)), (''callees'', j_object J []), (''meta'', jMeta)]) jNodes)))"

definition writeEdgeMeta :: "'j json_api \<Rightarrow> NodeToStr \<Rightarrow> string \<times> MetaData \<Rightarrow> 'j \<Rightarrow> 'j res" where
  "writeEdgeMeta J nodeToStr kmd jEdgeMD =
     bindR (md_toJson J nodeToStr (snd kmd)) (\<lambda>v. j_set J (fst kmd) v jEdgeMD)"

definition writeEdge ::
  "'j json_api \<Rightarrow> Callgraph \<Rightarrow> NodeToStr \<Rightarrow> (NodeId \<times> NodeId) \<times> NamedMetadata \<Rightarrow> 'j \<Rightarrow> 'j res" where
  "writeEdge J cg nodeToStr edge jNodes =
     bindR (getNode cg (fst (fst edge))) (\<lambda>callerPtr.
     bindR (getNode cg (snd (fst edge))) (\<lambda>calleePtr.
     case (callerPtr, calleePtr) of
       (Some caller, Some callee) \<Rightarrow>
         bindR (nodeToStr (nid caller)) (\<lambda>callerStr.
         bindR (nodeToStr (nid callee)) (\<lambda>calleeStr.
         bindR (getAllEdgeMetaData_id cg (nid caller, nid callee)) (\<lambda>mdMap.
         bindR (foldR (writeEdgeMeta J nodeToStr) mdMap (j_object J [])) (\<lambda>jEdgeMD.
         bindR (j_sub J jNodes callerStr) (\<lambda>jCaller.
         bindR (j_sub J jCaller ''callees'') (\<lambda>jCallees.
         bindR (j_set J calleeStr jEdgeMD jCallees) (\<lambda>jCallees'.
         bindR (j_set J ''callees'' jCallees' jCaller) (\<lambda>jCaller'.
         j_set J callerStr jCaller' jNodes))))))))
     | _ \<Rightarrow> Inl AssertionFailed))"

text \<open>\<open>std::sort\<close> with the order of JSON values.\<close>

fun insert_by :: "('a \<Rightarrow> 'a \<Rightarrow> bool) \<Rightarrow> 'a \<Rightarrow> 'a list \<Rightarrow> 'a list" where
  "insert_by lt x [] = [x]"
| "insert_by lt x (y # ys) = (if lt y x then y # insert_by lt x ys else x # y # ys)"

definition sort_by :: "('a \<Rightarrow> 'a \<Rightarrow> bool) \<Rightarrow> 'a list \<Rightarrow> 'a list" where
  "sort_by lt xs = foldr (insert_by lt) xs []"

definition sortIfArray :: "'j json_api \<Rightarrow> 'j \<Rightarrow> 'j" where
  "sortIfArray J elem = (if is_array J elem then j_array J (sort_by (j_less J) (elements J elem)) else elem)"

definition sortElements :: "'j json_api \<Rightarrow> 'j \<Rightarrow> 'j" where
  "sortElements J j =
     (if is_object J j then j_object J (map (\<lambda>(k, v). (k, sortIfArray J v)) (items J j))
      else if is_array J j then j_array J (map (sortIfArray J) (elements J j)) else j)"

definition sortCallgraph :: "'j json_api \<Rightarrow> 'j \<Rightarrow> 'j res" where
  "sortCallgraph J j =
     (if contains J j ''_CG''
      then bindR (j_sub J j ''_CG'') (\<lambda>callgraph. j_set J ''_CG'' (sortElements J callgraph) j)
      else Inr (sortElements J j))"

definition write_V4 :: "'j json_api \<Rightarrow> MCGFileInfo \<Rightarrow> bool \<Rightarrow> bool \<Rightarrow> Callgraph \<Rightarrow> 'j res" where
  "write_V4 J info useNamesAsIds exportSorted cg =
     (let nodeToStr = v4_nodeToStr cg useNamesAsIds in
      bindR (attachMCGFormatHeader J info) (\<lambda>j.
      bindR (foldR (writeNode J nodeToStr) (nodes cg) (j_object J [])) (\<lambda>jNodes.
      bindR (foldR (writeEdge J cg nodeToStr) (edges cg) jNodes) (\<lambda>jNodes'.
      bindR (j_set J ''nodes'' jNodes' (j_object J [])) (\<lambda>jCG.
      bindR (foldR (writeMeta J nodeToStr) (metaFields cg) (j_object J [])) (\<lambda>jMeta.
      bindR (j_set J ''meta'' jMeta jCG) (\<lambda>jCG'.
      bindR (j_set J ''_CG'' jCG' j) (\<lambda>j'.
      if exportSorted then sortCallgraph J j' else Inr j'))))))))"

section \<open>The version 4 reader\<close>

text \<open>Iterating with \<open>begin\<close> and \<open>end\<close> and asking for the key of the element throws on an array.\<close>

definition j_iter :: "'j json_api \<Rightarrow> 'j \<Rightarrow> (string \<times> 'j) list res" where
  "j_iter J j =
     (if is_null J j then Inr []
      else if is_object J j then Inr (items J j)
      else if is_array J j \<and> elements J j = [] then Inr []
      else Inl (RuntimeError ''invalid_iterator''))"

definition registerNode :: "string \<Rightarrow> NodeId \<Rightarrow> (string \<rightharpoonup> NodeId) \<Rightarrow> (string \<rightharpoonup> NodeId) option" where
  "registerNode nodeStr node strToNode =
     (if strToNode nodeStr \<noteq> None then None else Some (strToNode(nodeStr \<mapsto> node)))"

text \<open>The result \<open>Inr None\<close> is the null pointer that makes the reader throw.\<close>

definition createNodeFromJson ::
  "'j json_api \<Rightarrow> string \<Rightarrow> 'j \<Rightarrow> Callgraph \<Rightarrow> (string \<rightharpoonup> NodeId) \<Rightarrow> (NodeId \<times> Callgraph \<times> (string \<rightharpoonup> NodeId)) option res" where
  "createNodeFromJson J nodeStr j cg strToNode =
     (if is_null J j then Inr None
      else if \<not> contains J j ''origin'' then Inr None
      else
        bindR (j_at J j ''origin'') (\<lambda>jOrigin.
        bindR (if is_null J jOrigin \<or> empty J jOrigin then Inr None
               else bindR (getR (get_str J) jOrigin) (\<lambda>s. Inr (Some s))) (\<lambda>orig.
        if \<not> contains J j ''functionName'' then Inr None
        else
          bindR (j_at J j ''functionName'') (\<lambda>jName.
          bindR (getR (get_str J) jName) (\<lambda>fname.
          bindR (insert_cg fname orig False False cg) (\<lambda>(i, cg1).
          if \<not> contains J j ''hasBody'' then Inr None
          else
            bindR (j_at J j ''hasBody'') (\<lambda>jBody.
            bindR (getR (get_bool J) jBody) (\<lambda>b.
            let cg2 = modifyNode i (setHasBody b) cg1 in
            if \<not> contains J j ''meta'' then Inr None
            else
              bindR (j_at J j ''meta'') (\<lambda>jMeta.
              if \<not> is_null J jMeta \<and> \<not> is_object J jMeta then Inr None
              else Inr (map_option (\<lambda>m. (i, cg2, m)) (registerNode nodeStr i strToNode)))))))))))"

record 'j TempNodeData =
  tmp_nodeId :: NodeId
  tmp_jEdges :: 'j
  tmp_jMeta :: 'j

type_synonym 'j FailedCalls = "(NodeId option \<times> string \<times> 'j) list"

definition readNode ::
  "'j json_api \<Rightarrow> string \<times> 'j \<Rightarrow> Callgraph \<times> (string \<rightharpoonup> NodeId) \<times> 'j TempNodeData list
   \<Rightarrow> (Callgraph \<times> (string \<rightharpoonup> NodeId) \<times> 'j TempNodeData list) res" where
  "readNode J entry st =
     (case st of (cg, strToNode, temp) \<Rightarrow>
        bindR (createNodeFromJson J (fst entry) (snd entry) cg strToNode) (\<lambda>r.
        case r of
          None \<Rightarrow> Inl (RuntimeError ''Error while reading nodes'')
        | Some (i, cg', strToNode') \<Rightarrow>
            bindR (j_sub J (snd entry) ''callees'') (\<lambda>je.
            bindR (j_sub J (snd entry) ''meta'') (\<lambda>jm.
            Inr (cg', strToNode', temp @ [\<lparr>tmp_nodeId = i, tmp_jEdges = je, tmp_jMeta = jm\<rparr>])))))"

definition readEdgeMeta ::
  "'j json_api \<Rightarrow> StrToNode \<Rightarrow> NodeId \<times> NodeId \<Rightarrow> string \<times> 'j \<Rightarrow> Callgraph \<times> 'j FailedCalls \<Rightarrow> (Callgraph \<times> 'j FailedCalls) res" where
  "readEdgeMeta J strToNode e mdElem st =
     bindR (md_create J strToNode (fst mdElem) (snd mdElem)) (\<lambda>md.
     case md of
       Some md' \<Rightarrow> Inr (snd (addEdgeMetaData_id baseClassKey e md' (fst st)), snd st)
     | None \<Rightarrow> Inr (fst st, snd st @ [(Some (fst e), mdElem)]))"

definition readEdge ::
  "'j json_api \<Rightarrow> StrToNode \<Rightarrow> NodeId \<Rightarrow> string \<times> 'j \<Rightarrow> Callgraph \<times> 'j FailedCalls \<Rightarrow> (Callgraph \<times> 'j FailedCalls) res" where
  "readEdge J strToNode i entry st =
     (case strToNode (fst entry) of
        None \<Rightarrow> Inl (RuntimeError ''Error while reading edges'')
      | Some callee \<Rightarrow>
          bindR (addEdge_id i callee (fst st)) (\<lambda>r.
          if is_null J (snd entry) then Inr (snd r, snd st)
          else foldR (readEdgeMeta J strToNode (i, callee)) (items J (snd entry)) (snd r, snd st)))"

definition readNodeMeta ::
  "'j json_api \<Rightarrow> StrToNode \<Rightarrow> NodeId \<Rightarrow> string \<times> 'j \<Rightarrow> Callgraph \<times> 'j FailedCalls \<Rightarrow> (Callgraph \<times> 'j FailedCalls) res" where
  "readNodeMeta J strToNode i mdElem st =
     bindR (md_create J strToNode (fst mdElem) (snd mdElem)) (\<lambda>md.
     case md of
       Some md' \<Rightarrow> Inr (modifyNode i (addMetaData md') (fst st), snd st)
     | None \<Rightarrow> Inr (fst st, snd st @ [(Some i, mdElem)]))"

definition readNodeData ::
  "'j json_api \<Rightarrow> StrToNode \<Rightarrow> 'j TempNodeData \<Rightarrow> Callgraph \<times> 'j FailedCalls \<Rightarrow> (Callgraph \<times> 'j FailedCalls) res" where
  "readNodeData J strToNode nodeData st =
     bindR (getNode (fst st) (tmp_nodeId nodeData)) (\<lambda>node.
     bindR (assertR (node \<noteq> None)) (\<lambda>_.
     bindR (j_iter J (tmp_jEdges nodeData)) (\<lambda>es.
     bindR (foldR (readEdge J strToNode (tmp_nodeId nodeData)) es st) (\<lambda>st1.
     bindR (j_iter J (tmp_jMeta nodeData)) (\<lambda>ms.
     foldR (readNodeMeta J strToNode (tmp_nodeId nodeData)) ms st1)))))"

definition readGlobalMeta ::
  "'j json_api \<Rightarrow> StrToNode \<Rightarrow> string \<times> 'j \<Rightarrow> Callgraph \<times> 'j FailedCalls \<Rightarrow> (Callgraph \<times> 'j FailedCalls) res" where
  "readGlobalMeta J strToNode mdElem st =
     bindR (md_create J strToNode (fst mdElem) (snd mdElem)) (\<lambda>md.
     case md of
       Some md' \<Rightarrow> Inr (addMetaData md' (fst st), snd st)
     | None \<Rightarrow> Inr (fst st, snd st @ [(None, mdElem)]))"

text \<open>The part of \<open>read\<close> after the header; \<open>a\<close> is the address of the new graph.\<close>

definition read_cg_V4 :: "'j json_api \<Rightarrow> nat \<Rightarrow> 'j \<Rightarrow> (Callgraph \<times> 'j FailedCalls) res" where
  "read_cg_V4 J a jsonCG =
     bindR (j_sub J jsonCG ''nodes'') (\<lambda>jNodes.
     if is_null J jNodes then Inl (RuntimeError ''Nodes entry in MetaCG file was null.'')
     else
       bindR (j_iter J jNodes) (\<lambda>entries.
       bindR (foldR (readNode J) entries (empty_cg a, Map.empty, [])) (\<lambda>(cg, strToNode, temp).
       bindR (foldR (readNodeData J strToNode) temp (cg, [])) (\<lambda>st.
       bindR (j_sub J jsonCG ''meta'') (\<lambda>jGlobalMeta.
       foldR (readGlobalMeta J strToNode) (items J jGlobalMeta) st)))))"

definition read_V4 :: "'j json_api \<Rightarrow> nat \<Rightarrow> 'j \<Rightarrow> (Callgraph \<times> 'j FailedCalls) res" where
  "read_V4 J a j =
     bindR (j_sub J j ''_MetaCG'') (\<lambda>mcgInfo.
     if is_null J mcgInfo then Inl (RuntimeError ''Could not read version info from metacg file'')
     else
       bindR (j_sub J mcgInfo ''version'') (\<lambda>jv. bindR (getR (get_str J) jv) (\<lambda>mcgVersion.
       bindR (j_sub J mcgInfo ''generator'') (\<lambda>jg.
       bindR (j_sub J jg ''name'') (\<lambda>jn. bindR (getR (get_str J) jn) (\<lambda>generatorName.
       bindR (j_sub J jg ''version'') (\<lambda>jgv. bindR (getR (get_str J) jgv) (\<lambda>generatorVersion.
       bindR (getMajorVersionFromString generatorVersion) (\<lambda>_.
       bindR (getMinorVersionFromString generatorVersion) (\<lambda>_.
       case mcgVersion of
         [] \<Rightarrow> Inl OutOfRange
       | c # _ \<Rightarrow>
           (if c \<noteq> CHR ''4'' then Inl (RuntimeError ''Trying to read incompatible file with V4 MCGReader'')
            else
              bindR (j_sub J j ''_CG'') (\<lambda>jsonCG.
              if is_null J jsonCG then Inl (RuntimeError ''CG in MetaCG file was null.'')
              else read_cg_V4 J a jsonCG))))))))))))"

end
