(* ===== verification/McgFormatV2.thy ===== *)
theory McgFormatV2
  imports McgFormat
begin

text \<open>
  Format version 2 (\<open>VersionTwoMCGWriter.cpp\<close>, \<open>VersionTwoMCGReader.cpp\<close>): both go through version 4 and
  convert the JSON of the graph; the factories and the writing of managed graphs (\<open>MCGReader.cpp\<close>,
  \<open>MCGWriter.cpp\<close>).
\<close>

section \<open>Writing version 2\<close>

text \<open>\<open>push_back\<close> on an array, or on \<open>null\<close>, which becomes one.\<close>

definition j_push :: "'j json_api \<Rightarrow> 'j \<Rightarrow> 'j \<Rightarrow> 'j res" where
  "j_push J v j =
     (if is_null J j then Inr (j_array J [v])
      else if is_array J j then Inr (j_array J (elements J j @ [v])) else Inl type_error)"

fun j_sets :: "'j json_api \<Rightarrow> (string \<times> 'j) list \<Rightarrow> 'j \<Rightarrow> 'j res" where
  "j_sets J [] j = Inr j"
| "j_sets J ((k, v) # kvs) j = bindR (j_set J k v j) (j_sets J kvs)"

definition j_erases :: "'j json_api \<Rightarrow> string list \<Rightarrow> 'j \<Rightarrow> 'j" where
  "j_erases J ks j = fold (erase_member J) ks j"

definition downgradeOrigin :: "'j json_api \<Rightarrow> 'j \<Rightarrow> 'j \<Rightarrow> 'j res" where
  "downgradeOrigin J jOrigin jMeta =
     (if contains J jMeta ''fileProperties'' then
        bindR (j_sub J jMeta ''fileProperties'') (\<lambda>fp.
        bindR (j_set J ''origin'' (if is_null J jOrigin then j_str J [] else jOrigin) fp) (\<lambda>fp'.
        j_set J ''fileProperties'' fp' jMeta))
      else if \<not> is_null J jOrigin then j_set J ''fileProperties'' (j_object J [(''origin'', jOrigin)]) jMeta
      else Inr jMeta)"

definition downgradeOverride :: "'j json_api \<Rightarrow> 'j \<Rightarrow> 'j \<Rightarrow> ('j \<times> 'j) res" where
  "downgradeOverride J jNode jMeta =
     bindR (j_sets J [(''isVirtual'', j_bool J False), (''doesOverride'', j_bool J False),
              (''overrides'', j_array J []), (''overriddenBy'', j_array J [])] jNode) (\<lambda>n1.
     if contains J jMeta ''overrideMD'' then
       bindR (j_set J ''isVirtual'' (j_bool J True) n1) (\<lambda>n2.
       bindR (j_sub J jMeta ''overrideMD'') (\<lambda>jo.
       bindR (j_sub J jo ''overrides'') (\<lambda>ov.
       bindR (if \<not> empty J ov then j_sets J [(''doesOverride'', j_bool J True), (''overrides'', ov)] n2 else Inr n2) (\<lambda>n3.
       bindR (j_sub J jo ''overriddenBy'') (\<lambda>ob.
       bindR (j_set J ''overriddenBy'' ob n3) (\<lambda>n4.
       Inr (n4, erase_member J ''overrideMD'' jMeta)))))))
     else Inr (n1, jMeta))"

definition downgradeNode :: "'j json_api \<Rightarrow> 'j \<Rightarrow> 'j res" where
  "downgradeNode J jNode =
     (let n1 = erase_member J ''functionName'' jNode in
      bindR (j_sub J n1 ''callees'') (\<lambda>jCallees.
      bindR (j_sets J [(''callers'', j_array J []), (''callees'', j_array J (map (j_str J \<circ> fst) (items J jCallees)))]
               (erase_member J ''callees'' n1)) (\<lambda>n2.
      bindR (j_sub J n2 ''meta'') (\<lambda>jMeta.
      bindR (j_sub J n2 ''origin'') (\<lambda>jOrigin.
      bindR (downgradeOrigin J jOrigin jMeta) (\<lambda>jMeta1.
      bindR (downgradeOverride J (erase_member J ''origin'' n2) jMeta1) (\<lambda>(n3, jMeta2).
      j_set J ''meta'' (if empty J jMeta2 then j_null J else jMeta2) n3)))))))"

definition addCaller :: "'j json_api \<Rightarrow> string \<Rightarrow> 'j \<Rightarrow> 'j \<Rightarrow> 'j res" where
  "addCaller J caller callee jNodes =
     bindR (getR (get_str J) callee) (\<lambda>s.
     bindR (j_sub J jNodes s) (\<lambda>jn.
     bindR (j_sub J jn ''callers'') (\<lambda>jc.
     bindR (j_push J (j_str J caller) jc) (\<lambda>jc'.
     bindR (j_set J ''callers'' jc' jn) (\<lambda>jn'. j_set J s jn' jNodes)))))"

definition addCallersOf :: "'j json_api \<Rightarrow> string \<times> 'j \<Rightarrow> 'j \<Rightarrow> 'j res" where
  "addCallersOf J entry jNodes =
     bindR (j_sub J (snd entry) ''callees'') (\<lambda>jc. foldR (addCaller J (fst entry)) (elements J jc) jNodes)"

definition sortCallersOf :: "'j json_api \<Rightarrow> 'j \<Rightarrow> 'j res" where
  "sortCallersOf J jNode = bindR (j_sub J jNode ''callers'') (\<lambda>jc. j_set J ''callers'' (sortIfArray J jc) jNode)"

definition mapItemsR :: "'j json_api \<Rightarrow> ('j \<Rightarrow> 'j res) \<Rightarrow> 'j \<Rightarrow> 'j res" where
  "mapItemsR J f j =
     bindR (mapR (\<lambda>(k, v). bindR (f v) (\<lambda>v'. Inr (k, v'))) (items J j)) (\<lambda>ms. Inr (j_object J ms))"

definition downgradeV4FormatToV2Format :: "'j json_api \<Rightarrow> bool \<Rightarrow> 'j \<Rightarrow> 'j res" where
  "downgradeV4FormatToV2Format J sortCallers j =
     bindR (j_sub J (erase_member J ''meta'' j) ''nodes'') (\<lambda>jNodes.
     bindR (mapItemsR J (downgradeNode J) jNodes) (\<lambda>j1.
     bindR (foldR (addCallersOf J) (items J j1) j1) (\<lambda>j2.
     if sortCallers then mapItemsR J (sortCallersOf J) j2 else Inr j2)))"

text \<open>\<open>v4Info\<close> is the file information the version 4 writer is constructed with by default.\<close>

definition write_V2 :: "'j json_api \<Rightarrow> MCGFileInfo \<Rightarrow> MCGFileInfo \<Rightarrow> bool \<Rightarrow> Callgraph \<Rightarrow> 'j res" where
  "write_V2 J v4Info info exportSorted cg =
     bindR (attachMCGFormatHeader J info) (\<lambda>j.
     bindR (write_V4 J v4Info True exportSorted cg) (\<lambda>v4Json.
     bindR (j_sub J v4Json (cgFieldName (formatInfo info))) (\<lambda>jsonCG.
     bindR (downgradeV4FormatToV2Format J exportSorted jsonCG) (\<lambda>jsonCG'.
     bindR (j_at J j (cgFieldName (formatInfo info))) (\<lambda>_.
     j_set J (cgFieldName (formatInfo info)) jsonCG' j)))))"

section \<open>Reading version 2\<close>

definition upgradeCallees :: "'j json_api \<Rightarrow> 'j \<Rightarrow> 'j res" where
  "upgradeCallees J jCallees =
     foldR (\<lambda>jCallee acc. bindR (getR (get_str J) jCallee) (\<lambda>s. j_set J s (j_null J) acc))
       (elements J jCallees) (j_object J [])"

text \<open>The origin and the metadata without it.\<close>

definition upgradeOrigin :: "'j json_api \<Rightarrow> 'j \<Rightarrow> ('j \<times> 'j) res" where
  "upgradeOrigin J jMeta =
     (if contains J jMeta ''fileProperties'' then
        bindR (j_at J jMeta ''fileProperties'') (\<lambda>fp.
        bindR (j_at J fp ''origin'') (\<lambda>jo.
        bindR (getR (get_str J) jo) (\<lambda>s.
        if s \<noteq> [] then bindR (j_set J ''fileProperties'' (erase_member J ''origin'' fp) jMeta) (\<lambda>m. Inr (jo, m))
        else Inr (j_null J, jMeta))))
      else Inr (j_null J, jMeta))"

definition upgradeOverride :: "'j json_api \<Rightarrow> 'j \<Rightarrow> 'j \<Rightarrow> 'j res" where
  "upgradeOverride J jNode jMeta =
     bindR (j_at J jNode ''overrides'') (\<lambda>ov.
     bindR (if \<not> empty J ov then Inr True
            else bindR (j_at J jNode ''overriddenBy'') (\<lambda>ob. Inr (\<not> empty J ob))) (\<lambda>definesOverrideData.
     bindR (j_at J jNode ''isVirtual'') (\<lambda>jv.
     bindR (getR (get_bool J) jv) (\<lambda>virt.
     if virt \<or> definesOverrideData then
       bindR (j_at J jNode ''overriddenBy'') (\<lambda>ob.
       j_set J ''overrideMD''
         (objectOf J [(''overrides'', j_array J (elements J ov)), (''overriddenBy'', j_array J (elements J ob))]) jMeta)
     else Inr jMeta))))"

definition upgradeNode :: "'j json_api \<Rightarrow> string \<times> 'j \<Rightarrow> 'j \<Rightarrow> 'j res" where
  "upgradeNode J entry jNodes =
     bindR (j_set J ''functionName'' (j_str J (fst entry)) (snd entry)) (\<lambda>n1.
     bindR (j_sub J n1 ''callees'') (\<lambda>jCallees.
     bindR (upgradeCallees J jCallees) (\<lambda>jNewCallees.
     bindR (j_set J ''callees'' jNewCallees (j_erases J [''callees'', ''callers''] n1)) (\<lambda>n2.
     bindR (j_at J n2 ''meta'') (\<lambda>jMeta.
     bindR (upgradeOrigin J jMeta) (\<lambda>(jo, jMeta1).
     bindR (j_set J ''origin'' jo n2) (\<lambda>n3.
     bindR (upgradeOverride J n3 jMeta1) (\<lambda>jMeta2.
     bindR (j_set J ''meta'' jMeta2 n3) (\<lambda>n4.
     j_set J (fst entry) (j_erases J [''isVirtual'', ''doesOverride'', ''overrides'', ''overriddenBy''] n4) jNodes)))))))))"

text \<open>The nodes are moved out of the graph object, which leaves \<open>null\<close> in their places.\<close>

definition upgradeV2FormatToV4Format :: "'j json_api \<Rightarrow> 'j \<Rightarrow> 'j res" where
  "upgradeV2FormatToV4Format J j =
     bindR (foldR (upgradeNode J) (items J j) (j_object J [])) (\<lambda>jNodes.
     bindR (j_sets J (map (\<lambda>(k, _). (k, j_null J)) (items J j)) j) (\<lambda>j1.
     j_sets J [(''nodes'', jNodes), (''meta'', j_object J [])] j1))"

definition read_V2 :: "'j json_api \<Rightarrow> nat \<Rightarrow> 'j \<Rightarrow> (Callgraph \<times> 'j FailedCalls) res" where
  "read_V2 J a j =
     (if is_null J j then Inl (RuntimeError ''JSON source did not contain any data.'')
      else if \<not> contains J j ''_MetaCG'' then Inl (RuntimeError ''Could not read version info from metacg file.'')
      else
        bindR (j_at J j ''_MetaCG'') (\<lambda>mcgInfo.
        if is_null J mcgInfo then Inl (RuntimeError ''Could not read version info from metacg file.'')
        else
          bindR (j_at J mcgInfo ''version'') (\<lambda>jv. bindR (getR (get_str J) jv) (\<lambda>mcgVersion.
          if take 1 mcgVersion \<noteq> ''2''
          then Inl (RuntimeError (''File is of version '' @ mcgVersion @ '', this reader handles version 2.x''))
          else
            bindR (j_at J mcgInfo ''generator'') (\<lambda>jg.
            bindR (j_at J jg ''name'') (\<lambda>jn. bindR (getR (get_str J) jn) (\<lambda>generatorName.
            bindR (j_at J jg ''version'') (\<lambda>jgv. bindR (getR (get_str J) jgv) (\<lambda>generatorVersion.
            bindR (getMajorVersionFromString generatorVersion) (\<lambda>_.
            bindR (getMinorVersionFromString generatorVersion) (\<lambda>_.
            bindR (j_at J j ''_CG'') (\<lambda>jcg.
            bindR (upgradeV2FormatToV4Format J (if is_null J jcg then j_object J [] else jcg)) (\<lambda>jsonCG.
            bindR (j_set J ''version'' (j_str J ''4.0'') mcgInfo) (\<lambda>mcgInfo'.
            bindR (j_sets J [(''_CG'', jsonCG), (''_MetaCG'', mcgInfo')] j) (\<lambda>j'.
            read_V4 J a j')))))))))))))))"

section \<open>Factories\<close>

datatype ReaderKind = VersionTwoMCGReader | VersionFourMCGReader
datatype WriterKind = VersionTwoMCGWriter | VersionFourMCGWriter

definition getFormatVersion :: "'j json_api \<Rightarrow> 'j \<Rightarrow> string res" where
  "getFormatVersion J j =
     (if \<not> contains J j ''_MetaCG'' then Inr ''unknown''
      else
        bindR (j_at J j ''_MetaCG'') (\<lambda>info.
        if \<not> contains J info ''version'' then Inr ''unknown''
        else bindR (j_at J info ''version'') (getR (get_str J))))"

definition createReader :: "'j json_api \<Rightarrow> 'j \<Rightarrow> ReaderKind option res" where
  "createReader J j =
     bindR (getFormatVersion J j) (\<lambda>versionStr.
     Inr (if versionStr = ''2'' \<or> versionStr = ''2.0'' then Some VersionTwoMCGReader
          else if versionStr = ''3'' \<or> versionStr = ''3.0'' then None
          else if versionStr = ''4'' \<or> versionStr = ''4.0'' then Some VersionFourMCGReader
          else None))"

definition createWriter :: "int \<Rightarrow> WriterKind option" where
  "createWriter version =
     (if version = 2 then Some VersionTwoMCGWriter
      else if version = 4 then Some VersionFourMCGWriter else None)"

text \<open>\<open>write\<close> is the virtual method of the writer; the sink keeps its contents if there is no graph.\<close>

definition writeActiveGraph :: "(Callgraph \<Rightarrow> 'j res) \<Rightarrow> MCGManager \<Rightarrow> 'j \<Rightarrow> 'j res" where
  "writeActiveGraph wr m sink =
     bindR (getCallgraph [] False m) (\<lambda>(p, _).
     case p of None \<Rightarrow> Inr sink | Some a \<Rightarrow> bindR (derefGraph m (Some a)) (\<lambda>(_, cg). wr cg))"

definition writeNamedGraph :: "(Callgraph \<Rightarrow> 'j res) \<Rightarrow> string \<Rightarrow> MCGManager \<Rightarrow> 'j \<Rightarrow> 'j res" where
  "writeNamedGraph wr cgName m sink =
     bindR (getCallgraph cgName False m) (\<lambda>(p, _).
     case p of None \<Rightarrow> Inr sink | Some a \<Rightarrow> bindR (derefGraph m (Some a)) (\<lambda>(_, cg). wr cg))"

end
