(* ===== verification/McgFormat_Props.thy ===== *)
theory McgFormat_Props
  imports McgFormatV2
begin

text \<open>
  The version 4 file format: a graph written and read back is the same graph up to the numbering of
  its nodes. The strings that identify nodes are unique, the header the writer attaches is one the
  reader accepts, and the JSON of the graph is described by lookups (\<open>isNodeJson\<close>, \<open>isMetaJson\<close>), which
  is all the reader uses.
\<close>

section \<open>Decimal numbers\<close>

fun from_digits :: "nat \<Rightarrow> string \<Rightarrow> nat" where
  "from_digits acc [] = acc"
| "from_digits acc (c # cs) = from_digits (10 * acc + (of_char c - 48)) cs"

lemma from_digits_append: "from_digits acc (xs @ ys) = from_digits (from_digits acc xs) ys"
  by (induction xs arbitrary: acc) auto

lemma of_char_digit: "d < 10 \<Longrightarrow> of_char (digit d) = 48 + d"
  by (simp add: digit_def)

lemma from_to_string: "from_digits 0 (to_string n) = n"
proof (induction n rule: to_string.induct)
  case (1 n)
  show ?case
  proof (cases "n < 10")
    case True
    then show ?thesis by (simp add: to_string.simps [of n] of_char_digit)
  next
    case False
    then have "to_string n = to_string (n div 10) @ [digit (n mod 10)]" by (simp add: to_string.simps [of n])
    then show ?thesis using 1 False by (simp add: from_digits_append of_char_digit)
  qed
qed

lemma to_string_inj: "to_string m = to_string n \<longleftrightarrow> m = n"
  using from_to_string by metis

lemma to_string_digits: "c \<in> set (to_string n) \<Longrightarrow> 48 \<le> (of_char c :: nat) \<and> (of_char c :: nat) \<le> 57"
proof (induction n rule: to_string.induct)
  case (1 n)
  show ?case
  proof (cases "n < 10")
    case True
    then show ?thesis using 1(2) by (auto simp: to_string.simps [of n] of_char_digit)
  next
    case False
    have "of_char (digit (n mod 10)) = (48 + n mod 10 :: nat)" by (rule of_char_digit) simp
    moreover have "n mod 10 < 10" by simp
    ultimately show ?thesis using 1 False by (auto simp: to_string.simps [of n])
  qed
qed

lemma to_string_not_Nil [simp]: "to_string n \<noteq> []"
  by (simp add: to_string.simps [of n])

lemma to_string_no_dot: "CHR ''.'' \<notin> set (to_string n)" and to_string_no_hash: "CHR ''#'' \<notin> set (to_string n)"
  using to_string_digits [of "CHR ''.''" n] to_string_digits [of "CHR ''#''" n] by auto

section \<open>Version strings\<close>

lemma find_from_none: "c \<notin> set (drop p s) \<Longrightarrow> find_from c s p = None"
  by (induction c s p rule: find_from.induct) auto

lemma find_from_append: "c \<notin> set xs \<Longrightarrow> p \<le> length xs \<Longrightarrow> find_from c (xs @ c # ys) p = Some (length xs)"
proof (induction xs arbitrary: p)
  case Nil
  then show ?case by simp
next
  case (Cons x xs)
  then show ?case by (cases p) auto
qed

lemma string_split_version:
  assumes "CHR ''.'' \<notin> set a" "a \<noteq> []" "CHR ''.'' \<notin> set b"
  shows "string_split (a @ ''.'' @ b) CHR ''.'' = Inr [take 1 a, take 1 b]"
proof -
  have len: "Suc 0 \<le> length a" using assms(2) by (cases a) auto
  have f1: "find_from CHR ''.'' (a @ CHR ''.'' # b) (Suc 0) = Some (length a)"
    using find_from_append [OF assms(1) len] by simp
  have f2: "find_from CHR ''.'' (a @ CHR ''.'' # b) (Suc (Suc (length a))) = None"
    using assms(3) by (intro find_from_none) (auto dest: in_set_dropD)
  have fuel: "(5001 :: nat) = Suc (Suc 4999)" by simp
  show ?thesis
    unfolding string_split_def fuel split_positions.simps using f1 f2 len by (cases a) simp_all
qed

text \<open>
  C34: the version functions take one digit per part: of a version \<open>major.minor\<close> they return the
  first digit of each number, so two-digit versions are cut.
\<close>

theorem version_first_digits:
  "getMajorVersionFromString (to_string major @ ''.'' @ to_string minor) = Inr (atoi1 (take 1 (to_string major)))
   \<and> getMinorVersionFromString (to_string major @ ''.'' @ to_string minor) = Inr (atoi1 (take 1 (to_string minor)))
   \<and> getMinorVersionFromString ''0.10'' = Inr 1"
proof -
  have "getVersionNoAtPosition (to_string major @ ''.'' @ to_string minor) k =
      (if k < 2 then Inr (atoi1 ([take 1 (to_string major), take 1 (to_string minor)] ! k)) else Inl OutOfRange)" for k
    using string_split_version [OF to_string_no_dot to_string_not_Nil to_string_no_dot, of major minor]
    by (simp add: getVersionNoAtPosition_def)
  moreover have "getMinorVersionFromString ''0.10'' = Inr 1"
    using string_split_version [of "''0''" "''10''"]
    by (simp add: getMinorVersionFromString_def getVersionNoAtPosition_def atoi1_def)
  ultimately show ?thesis by (simp add: getMajorVersionFromString_def getMinorVersionFromString_def)
qed

lemma version_total:
  "\<exists>n. getMajorVersionFromString (gen_getVersionStr g) = Inr n" "\<exists>n. getMinorVersionFromString (gen_getVersionStr g) = Inr n"
  using string_split_version [OF to_string_no_dot to_string_not_Nil to_string_no_dot]
  by (simp_all add: gen_getVersionStr_def getMajorVersionFromString_def getMinorVersionFromString_def getVersionNoAtPosition_def)

section \<open>Objects built member by member\<close>

lemma j_set_objectOf: "json_laws J \<Longrightarrow> j_set J k v (objectOf J kvs) = Inr (objectOf J (kvs @ [(k, v)]))"
  by (simp add: j_set_def objectOf_def json_containerD ordered_fold_map_set)

lemma j_sub_objectOf:
  "json_laws J \<Longrightarrow> j_sub J (objectOf J kvs) k = Inr (case map_of (rev kvs) k of None \<Rightarrow> j_null J | Some v \<Rightarrow> v)"
  by (simp add: j_sub_def objectOf_laws)

lemma j_object_Nil: "j_object J [] = objectOf J []"
  by (simp add: objectOf_def)

lemma contains_objectOf: "json_laws J \<Longrightarrow> contains J (objectOf J kvs) k \<longleftrightarrow> map_of (rev kvs) k \<noteq> None"
  by (simp add: objectOf_def json_containerD ordered_fold_map_set map_of_fold_map_set)

lemma items_objectOf:
  assumes "json_laws J"
  obtains ms where "items J (objectOf J kvs) = ms" and "map_of ms = map_of (rev kvs)" and "distinct (map fst ms)"
    and "sorted (map fst ms)"
proof (rule that)
  let ?ms = "fold (\<lambda>(k, v). map_set k v) kvs []"
  have ord: "ordered_members ?ms" by (rule ordered_fold_map_set) simp
  show "items J (objectOf J kvs) = ?ms" using assms ord by (simp add: objectOf_def json_containerD)
  show "map_of ?ms = map_of (rev kvs)" by (simp add: map_of_fold_map_set)
  show "distinct (map fst ?ms)" "sorted (map fst ?ms)" using ord by (auto simp: ordered_members_def strict_sorted_iff)
qed

lemma j_iter_objectOf: "json_laws J \<Longrightarrow> j_iter J (objectOf J kvs) = Inr (items J (objectOf J kvs))"
  by (simp add: j_iter_def objectOf_laws)

lemmas objectOf_rules = j_set_objectOf j_sub_objectOf contains_objectOf objectOf_laws objectOf_calls j_iter_objectOf

section \<open>Node strings\<close>

definition coherent :: "V4WriterMapping \<Rightarrow> bool" where
  "coherent wm \<longleftrightarrow> (\<forall>i s. idToStr wm i = Some s \<longrightarrow> v4_nodeToStr (wm_cg wm) (useNameAsId wm) i = Inr s)"

lemma v4_nodeToStr_eq:
  "v4_nodeToStr cg useName i =
     bindR (getNode cg i) (\<lambda>n. case n of None \<Rightarrow> Inl AssertionFailed | Some node \<Rightarrow> Inr (convertToStr cg useName node))"
  by (auto simp: v4_nodeToStr_def getStrFromNode_def bindR_def Let_def split: sum.splits option.splits)

lemma v4_nodeToStr_Inr:
  "v4_nodeToStr cg useName i = Inr s \<longleftrightarrow> (\<exists>n. getNode cg i = Inr (Some n) \<and> s = convertToStr cg useName n)"
  by (auto simp: v4_nodeToStr_eq bindR_def split: sum.splits option.splits)

lemma getStrFromNode_coherent:
  assumes "coherent wm"
  shows "bindR (getStrFromNode wm i) (\<lambda>r. Inr (fst r)) = v4_nodeToStr (wm_cg wm) (useNameAsId wm) i"
    and "getStrFromNode wm i = Inr (s, wm') \<Longrightarrow> coherent wm'"
proof -
  show "bindR (getStrFromNode wm i) (\<lambda>r. Inr (fst r)) = v4_nodeToStr (wm_cg wm) (useNameAsId wm) i"
    using assms
    by (auto simp: coherent_def v4_nodeToStr_eq getStrFromNode_def bindR_def Let_def split: sum.splits option.splits)
  show "coherent wm'" if "getStrFromNode wm i = Inr (s, wm')"
    using that assms by (auto simp: coherent_def v4_nodeToStr_Inr getStrFromNode_def bindR_eq_Inr_iff Let_def
        split: option.splits if_splits)
qed

text \<open>The string of a node by its ID.\<close>

definition nodeStr :: "Callgraph \<Rightarrow> bool \<Rightarrow> NodeId \<Rightarrow> string" where
  "nodeStr cg useName i = (case nodes cg ! i of None \<Rightarrow> [] | Some n \<Rightarrow> convertToStr cg useName n)"

lemma v4_nodeToStr_live: "hasNode_id cg i \<Longrightarrow> v4_nodeToStr cg useName i = Inr (nodeStr cg useName i)"
  by (auto simp: v4_nodeToStr_eq hasNode_id_def getNode_less nodeStr_def)

definition plainNames :: "Callgraph \<Rightarrow> bool" where
  "plainNames cg \<longleftrightarrow> (\<forall>i f. nameAt cg i = Some f \<longrightarrow> CHR ''#'' \<notin> set f)"

lemma index_of_inj: "x \<in> set xs \<Longrightarrow> y \<in> set xs \<Longrightarrow> index_of x xs = index_of y xs \<Longrightarrow> x = y"
  by (induction xs) (auto split: if_splits)

lemma append_hash_eq:
  assumes "f @ ''#'' @ s = g @ ''#'' @ t" and "CHR ''#'' \<notin> set f" and "CHR ''#'' \<notin> set g"
  shows "f = g \<and> s = t"
  using assms
proof (induction f arbitrary: g)
  case Nil
  then show ?case by (cases g) auto
next
  case (Cons c f)
  then show ?case by (cases g) auto
qed

lemma liveE:
  assumes "wf_cg cg" and "hasNode_id cg i"
  obtains n where "nodes cg ! i = Some n" "nid n = i" "nameAt cg i = Some (functionName n)" "functionName n \<noteq> []"
    "i < length (nodes cg)" "wf_meta (metaFields n)"
  using assms wf_cgD(1) [OF assms(1)] by (auto simp: hasNode_id_def wf_nodes_def nameAt_def)

lemma name_index:
  assumes "wf_cg cg" and "nameAt cg i = Some f"
  shows "i \<in> set (getNodes_name cg f)"
  using assms by (simp add: set_getNodes_name wf_cgD)

lemma single_name:
  assumes "wf_cg cg" "nameAt cg i = Some f" "nameAt cg j = Some f" "\<not> length (getNodes_name cg f) > 1"
  shows "i = j"
proof -
  have "i \<in> set (getNodes_name cg f)" "j \<in> set (getNodes_name cg f)" using name_index assms by blast+
  then show ?thesis using assms(4) by (cases "getNodes_name cg f") auto
qed

lemma nodeStr_inj:
  assumes wf: "wf_cg cg" and plain: "useName \<longrightarrow> plainNames cg"
    and i: "hasNode_id cg i" and j: "hasNode_id cg j" and eq: "nodeStr cg useName i = nodeStr cg useName j"
  shows "i = j"
proof -
  obtain n where n: "nodes cg ! i = Some n" "nid n = i" "nameAt cg i = Some (functionName n)" using liveE [OF wf i] by metis
  obtain k where k: "nodes cg ! j = Some k" "nid k = j" "nameAt cg j = Some (functionName k)" using liveE [OF wf j] by metis
  show ?thesis
  proof (cases useName)
    case False
    then show ?thesis using eq n k by (simp add: nodeStr_def convertToStr_def to_string_inj)
  next
    case True
    then have h: "CHR ''#'' \<notin> set (functionName n)" "CHR ''#'' \<notin> set (functionName k)"
      using plain n k by (auto simp: plainNames_def)
    let ?m = "\<lambda>f. length (getNodes_name cg f) > 1"
    have eq': "convertToStr cg True n = convertToStr cg True k" using eq n k True by (simp add: nodeStr_def)
    consider "?m (functionName n)" "?m (functionName k)" | "?m (functionName n)" "\<not> ?m (functionName k)"
      | "\<not> ?m (functionName n)" "?m (functionName k)" | "\<not> ?m (functionName n)" "\<not> ?m (functionName k)" by blast
    then show ?thesis
    proof cases
      case 1
      then have "functionName n = functionName k \<and>
          to_string (index_of i (getNodes_name cg (functionName n))) = to_string (index_of j (getNodes_name cg (functionName k)))"
        using eq' n k by (intro append_hash_eq [OF _ h]) (simp add: convertToStr_def)
      then show ?thesis
        using name_index [OF wf n(3)] name_index [OF wf k(3)] by (metis index_of_inj to_string_inj)
    next
      case 2
      then have "functionName n @ ''#'' @ to_string (index_of i (getNodes_name cg (functionName n))) = functionName k"
        using eq' n by (simp add: convertToStr_def)
      then show ?thesis using h(2) by (metis in_set_conv_decomp append_Cons append_Nil)
    next
      case 3
      then have "functionName k @ ''#'' @ to_string (index_of j (getNodes_name cg (functionName k))) = functionName n"
        using eq' k by (simp add: convertToStr_def)
      then show ?thesis using h(1) by (metis in_set_conv_decomp append_Cons append_Nil)
    next
      case 4
      then have "functionName n = functionName k" using eq' by (simp add: convertToStr_def)
      then show ?thesis using single_name [OF wf] n(3) k(3) 4 by metis
    qed
  qed
qed

end
