(* ===== verification/McgFormat_RT.thy ===== *)
theory McgFormat_RT
  imports McgFormat_Props
begin

text \<open>
  The round trip of format version 4: what the writer produces, in terms of lookups, and what the
  reader makes of it.
\<close>

section \<open>Graphs that can be written\<close>

definition metas_ok :: "Callgraph \<Rightarrow> NamedMetadata \<Rightarrow> bool" where
  "metas_ok cg mds \<longleftrightarrow> (\<forall>(k, md) \<in> set mds. md_json_ok md \<and> (\<forall>i \<in> md_refs md. hasNode_id cg i))"

text \<open>
  A well-formed graph whose metadata is of built-in classes and refers to live nodes, and whose
  edges carry no metadata; names used as identifiers must not contain the separator.
\<close>

definition writable :: "Callgraph \<Rightarrow> bool \<Rightarrow> bool" where
  "writable cg useName \<longleftrightarrow>
     wf_cg cg \<and> (useName \<longrightarrow> plainNames cg) \<and> (\<forall>n. Some n \<in> set (nodes cg) \<longrightarrow> metas_ok cg (metaFields n))
     \<and> metas_ok cg (metaFields cg) \<and> (\<forall>e \<in> set (edges cg). snd e = [])"

lemma writableD:
  assumes "writable cg useName"
  shows "wf_cg cg" "useName \<longrightarrow> plainNames cg" "Some n \<in> set (nodes cg) \<Longrightarrow> metas_ok cg (metaFields n)"
    "metas_ok cg (metaFields cg)" "e \<in> set (edges cg) \<Longrightarrow> snd e = []"
  using assms by (auto simp: writable_def)

lemma nodeStr_nonempty:
  assumes "wf_cg cg" "hasNode_id cg i"
  shows "nodeStr cg useName i \<noteq> []"
proof -
  obtain n where "nodes cg ! i = Some n" "functionName n \<noteq> []" using liveE [OF assms] by metis
  then show ?thesis by (simp add: nodeStr_def convertToStr_def Let_def)
qed

section \<open>What is written\<close>

definition jsonOf :: "'j json_api \<Rightarrow> NodeToStr \<Rightarrow> MetaData \<Rightarrow> 'j" where
  "jsonOf J nodeToStr md = projr (md_toJson J nodeToStr md)"

definition metaKvs :: "'j json_api \<Rightarrow> NodeToStr \<Rightarrow> NamedMetadata \<Rightarrow> (string \<times> 'j) list" where
  "metaKvs J nodeToStr mds = map (map_prod id (jsonOf J nodeToStr)) (filter (md_nonempty \<circ> snd) mds)"

lemma md_written:
  assumes J: "json_laws J" and wf: "wf_cg cg" and md: "md_json_ok md" "\<forall>i \<in> md_refs md. hasNode_id cg i"
  shows "md_toJson J (v4_nodeToStr cg useName) md = Inr (jsonOf J (v4_nodeToStr cg useName) md)"
    and "\<not> empty J (jsonOf J (v4_nodeToStr cg useName) md) \<and> \<not> is_null J (jsonOf J (v4_nodeToStr cg useName) md) \<longleftrightarrow> md_nonempty md"
proof -
  let ?s2n = "\<lambda>s. if s = [] then None else Some (0 :: NodeId)"
  have "refs_ok (v4_nodeToStr cg useName) ?s2n (\<lambda>_. Some 0) (md_refs md)"
    using md(2) v4_nodeToStr_live nodeStr_nonempty [OF wf] by (simp add: refs_ok_def)
  then obtain j where "md_toJson J (v4_nodeToStr cg useName) md = Inr j" "\<not> empty J j \<and> \<not> is_null J j \<longleftrightarrow> md_nonempty md"
    using md_json_roundtrip [OF J md(1)] by force
  then show "md_toJson J (v4_nodeToStr cg useName) md = Inr (jsonOf J (v4_nodeToStr cg useName) md)"
    and "\<not> empty J (jsonOf J (v4_nodeToStr cg useName) md) \<and> \<not> is_null J (jsonOf J (v4_nodeToStr cg useName) md) \<longleftrightarrow> md_nonempty md"
    by (simp_all add: jsonOf_def)
qed

lemma writeMeta_all:
  assumes J: "json_laws J" and wf: "wf_cg cg" and "metas_ok cg mds"
  shows "foldR (writeMeta J (v4_nodeToStr cg useName)) mds (objectOf J kvs)
     = Inr (objectOf J (kvs @ metaKvs J (v4_nodeToStr cg useName) mds))"
  using assms(3)
proof (induction mds arbitrary: kvs)
  case Nil
  then show ?case by (simp add: metaKvs_def)
next
  case (Cons kmd mds)
  obtain k md where kmd: "kmd = (k, md)" by fastforce
  have md: "md_json_ok md" "\<forall>i \<in> md_refs md. hasNode_id cg i" and rest: "metas_ok cg mds"
    using Cons.prems by (auto simp: metas_ok_def kmd)
  note W = md_written [OF J wf md, of useName]
  have "writeMeta J (v4_nodeToStr cg useName) kmd (objectOf J kvs)
      = Inr (objectOf J (if md_nonempty md then kvs @ [(k, jsonOf J (v4_nodeToStr cg useName) md)] else kvs))"
    using W(2) by (auto simp: writeMeta_def kmd W(1) j_set_objectOf [OF J])
  then show ?case using Cons.IH [OF rest] by (simp add: kmd metaKvs_def)
qed

definition nodeKvs :: "'j json_api \<Rightarrow> NodeToStr \<Rightarrow> CgNode \<Rightarrow> (string \<times> 'j) list" where
  "nodeKvs J nodeToStr n =
     [(''functionName'', j_str J (functionName n)), (''origin'', originJson J (origin n)), (''hasBody'', j_bool J (hasBody n)),
      (''callees'', objectOf J []), (''meta'', objectOf J (metaKvs J nodeToStr (metaFields n)))]"

definition nodeEntry :: "'j json_api \<Rightarrow> Callgraph \<Rightarrow> bool \<Rightarrow> CgNode option \<Rightarrow> (string \<times> 'j) list" where
  "nodeEntry J cg useName p =
     (case p of None \<Rightarrow> [] | Some n \<Rightarrow> [(nodeStr cg useName (nid n), objectOf J (nodeKvs J (v4_nodeToStr cg useName) n))])"

lemma writeNode_all:
  assumes J: "json_laws J" and ok: "writable cg useName" and "set ps \<subseteq> set (nodes cg)"
  shows "foldR (writeNode J (v4_nodeToStr cg useName)) ps (objectOf J kvs)
     = Inr (objectOf J (kvs @ concat (map (nodeEntry J cg useName) ps)))"
  using assms(3)
proof (induction ps arbitrary: kvs)
  case Nil
  then show ?case by simp
next
  case (Cons p ps)
  note wf = writableD(1) [OF ok]
  show ?case
  proof (cases p)
    case None
    then show ?thesis using Cons by (simp add: writeNode_def nodeEntry_def)
  next
    case (Some n)
    then have n: "Some n \<in> set (nodes cg)" using Cons.prems by simp
    then obtain i where "i < length (nodes cg)" "nodes cg ! i = Some n" by (auto simp: in_set_conv_nth)
    then have live: "hasNode_id cg (nid n)" using wf_cgD(1) [OF wf] by (auto simp: wf_nodes_def hasNode_id_def)
    have "writeNode J (v4_nodeToStr cg useName) p (objectOf J kvs) = Inr (objectOf J (kvs @ nodeEntry J cg useName p))"
      using writeMeta_all [OF J wf writableD(3) [OF ok n], of useName "[]"]
      by (simp add: writeNode_def Some nodeEntry_def nodeKvs_def v4_nodeToStr_live [OF live] j_object_Nil j_set_objectOf [OF J])
    then show ?thesis using Cons by simp
  qed
qed

text \<open>The JSON of a node and of all nodes, as lookups; \<open>E\<close> are the edges written so far.\<close>

definition isNodeJson :: "'j json_api \<Rightarrow> Callgraph \<Rightarrow> bool \<Rightarrow> (NodeId \<times> NodeId) set \<Rightarrow> NodeId \<Rightarrow> 'j \<Rightarrow> bool" where
  "isNodeJson J cg useName E i v \<longleftrightarrow>
     (\<exists>kvs cs n. v = objectOf J kvs \<and> nodes cg ! i = Some n
        \<and> map_of (rev kvs) ''functionName'' = Some (j_str J (functionName n))
        \<and> map_of (rev kvs) ''origin'' = Some (originJson J (origin n))
        \<and> map_of (rev kvs) ''hasBody'' = Some (j_bool J (hasBody n))
        \<and> map_of (rev kvs) ''meta'' = Some (objectOf J (metaKvs J (v4_nodeToStr cg useName) (metaFields n)))
        \<and> map_of (rev kvs) ''callees'' = Some (objectOf J cs)
        \<and> (\<forall>t. map_of (rev cs) t = (if \<exists>b. (i, b) \<in> E \<and> t = nodeStr cg useName b then Some (objectOf J []) else None)))"

definition isNodesJson :: "'j json_api \<Rightarrow> Callgraph \<Rightarrow> bool \<Rightarrow> (NodeId \<times> NodeId) set \<Rightarrow> (string \<times> 'j) list \<Rightarrow> bool" where
  "isNodesJson J cg useName E kvs \<longleftrightarrow>
     (\<forall>s v. map_of (rev kvs) s = Some v \<longrightarrow> (\<exists>i. hasNode_id cg i \<and> s = nodeStr cg useName i))
     \<and> (\<forall>i. hasNode_id cg i \<longrightarrow> (\<exists>v. map_of (rev kvs) (nodeStr cg useName i) = Some v \<and> isNodeJson J cg useName E i v))"

lemma isNodesJson_nodes:
  assumes ok: "writable cg useName"
  shows "isNodesJson J cg useName {} (concat (map (nodeEntry J cg useName) (nodes cg)))"
proof -
  note wf = writableD(1) [OF ok]
  let ?kvs = "concat (map (nodeEntry J cg useName) (nodes cg))"
  have mem: "(s, v) \<in> set ?kvs \<longleftrightarrow> (\<exists>i n. hasNode_id cg i \<and> nodes cg ! i = Some n \<and> s = nodeStr cg useName i
      \<and> v = objectOf J (nodeKvs J (v4_nodeToStr cg useName) n))" for s v
  proof
    assume "(s, v) \<in> set ?kvs"
    then obtain n where n: "Some n \<in> set (nodes cg)" "s = nodeStr cg useName (nid n)"
      "v = objectOf J (nodeKvs J (v4_nodeToStr cg useName) n)" by (auto simp: nodeEntry_def split: option.splits)
    then obtain i where "i < length (nodes cg)" "nodes cg ! i = Some n" by (auto simp: in_set_conv_nth)
    moreover from this have "nid n = i" using wf_cgD(1) [OF wf] by (simp add: wf_nodes_def)
    ultimately show "\<exists>i n. hasNode_id cg i \<and> nodes cg ! i = Some n \<and> s = nodeStr cg useName i
      \<and> v = objectOf J (nodeKvs J (v4_nodeToStr cg useName) n)" using n by (auto simp: hasNode_id_def)
  next
    assume "\<exists>i n. hasNode_id cg i \<and> nodes cg ! i = Some n \<and> s = nodeStr cg useName i
      \<and> v = objectOf J (nodeKvs J (v4_nodeToStr cg useName) n)"
    then obtain i n where n: "hasNode_id cg i" "nodes cg ! i = Some n" "s = nodeStr cg useName i"
      "v = objectOf J (nodeKvs J (v4_nodeToStr cg useName) n)" by blast
    then have "nid n = i" "Some n \<in> set (nodes cg)"
      using wf_cgD(1) [OF wf] by (auto simp: wf_nodes_def hasNode_id_def in_set_conv_nth)
    then show "(s, v) \<in> set ?kvs" using n by (force simp: nodeEntry_def)
  qed
  have look: "map_of (rev ?kvs) (nodeStr cg useName i) = Some (objectOf J (nodeKvs J (v4_nodeToStr cg useName) n))"
    if "hasNode_id cg i" "nodes cg ! i = Some n" for i n
  proof -
    have "(nodeStr cg useName i, objectOf J (nodeKvs J (v4_nodeToStr cg useName) n)) \<in> set (rev ?kvs)"
      using that mem by auto
    then obtain v where v: "map_of (rev ?kvs) (nodeStr cg useName i) = Some v" by (metis weak_map_of_SomeI)
    then obtain i' n' where "hasNode_id cg i'" "nodes cg ! i' = Some n'" "nodeStr cg useName i = nodeStr cg useName i'"
      "v = objectOf J (nodeKvs J (v4_nodeToStr cg useName) n')"
      using mem [of "nodeStr cg useName i" v] map_of_SomeD [OF v] by auto
    moreover from this have "i' = i" using nodeStr_inj [OF wf writableD(2) [OF ok]] that(1) by metis
    ultimately show ?thesis using v that by simp
  qed
  have node: "isNodeJson J cg useName {} i (objectOf J (nodeKvs J (v4_nodeToStr cg useName) n))"
    if "nodes cg ! i = Some n" for i n
    using that unfolding isNodeJson_def by (intro exI [of _ "nodeKvs J (v4_nodeToStr cg useName) n"] exI [of _ "[]"] exI [of _ n]) (simp add: nodeKvs_def)
  show ?thesis
    unfolding isNodesJson_def
  proof (intro conjI allI impI)
    fix s v assume "map_of (rev ?kvs) s = Some v"
    then have "(s, v) \<in> set ?kvs" using map_of_SomeD by fastforce
    then show "\<exists>i. hasNode_id cg i \<and> s = nodeStr cg useName i" using mem by blast
  next
    fix i assume i: "hasNode_id cg i"
    then obtain n where "nodes cg ! i = Some n" by (auto simp: hasNode_id_def)
    then show "\<exists>v. map_of (rev ?kvs) (nodeStr cg useName i) = Some v \<and> isNodeJson J cg useName {} i v"
      using look [OF i] node by blast
  qed
qed

lemma isNodeJson_addEdge:
  assumes J: "json_laws J" and "isNodeJson J cg useName E a v"
  obtains kvs cs where "v = objectOf J kvs" and "map_of (rev kvs) ''callees'' = Some (objectOf J cs)"
    and "isNodeJson J cg useName (insert (a, b) E) a
       (objectOf J (kvs @ [(''callees'', objectOf J (cs @ [(nodeStr cg useName b, objectOf J [])]))]))"
proof -
  obtain kvs cs n where v: "v = objectOf J kvs" "nodes cg ! a = Some n"
    "map_of (rev kvs) ''functionName'' = Some (j_str J (functionName n))"
    "map_of (rev kvs) ''origin'' = Some (originJson J (origin n))"
    "map_of (rev kvs) ''hasBody'' = Some (j_bool J (hasBody n))"
    "map_of (rev kvs) ''meta'' = Some (objectOf J (metaKvs J (v4_nodeToStr cg useName) (metaFields n)))"
    "map_of (rev kvs) ''callees'' = Some (objectOf J cs)"
    "\<forall>t. map_of (rev cs) t = (if \<exists>b. (a, b) \<in> E \<and> t = nodeStr cg useName b then Some (objectOf J []) else None)"
    using assms(2) unfolding isNodeJson_def by blast
  let ?cs = "cs @ [(nodeStr cg useName b, objectOf J [])]"
  have "map_of (rev ?cs) t = (if \<exists>c. (a, c) \<in> insert (a, b) E \<and> t = nodeStr cg useName c then Some (objectOf J []) else None)" for t
    using v(8) by auto
  then show thesis
    using v by (intro that [OF v(1) v(7)])
      (unfold isNodeJson_def, intro exI [of _ "kvs @ [(''callees'', objectOf J ?cs)]"] exI [of _ ?cs] exI [of _ n], simp)
qed

lemma isNodeJson_other: "isNodeJson J cg useName E i v \<Longrightarrow> i \<noteq> a \<Longrightarrow> isNodeJson J cg useName (insert (a, b) E) i v"
  by (simp add: isNodeJson_def)

lemma isNodesJson_update:
  assumes ok: "writable cg useName" and N: "isNodesJson J cg useName E kvs" and a: "hasNode_id cg a"
    and v: "isNodeJson J cg useName (insert (a, b) E) a v"
  shows "isNodesJson J cg useName (insert (a, b) E) (kvs @ [(nodeStr cg useName a, v)])"
  unfolding isNodesJson_def
proof (intro conjI allI impI)
  fix s w assume "map_of (rev (kvs @ [(nodeStr cg useName a, v)])) s = Some w"
  then show "\<exists>i. hasNode_id cg i \<and> s = nodeStr cg useName i"
    using N a by (auto simp: isNodesJson_def split: if_splits)
next
  fix i assume i: "hasNode_id cg i"
  show "\<exists>w. map_of (rev (kvs @ [(nodeStr cg useName a, v)])) (nodeStr cg useName i) = Some w
      \<and> isNodeJson J cg useName (insert (a, b) E) i w"
  proof (cases "i = a")
    case True
    then show ?thesis using v by simp
  next
    case False
    then have "nodeStr cg useName i \<noteq> nodeStr cg useName a"
      using nodeStr_inj [OF writableD(1,2) [OF ok] i a] by blast
    moreover obtain w where "map_of (rev kvs) (nodeStr cg useName i) = Some w" "isNodeJson J cg useName E i w"
      using N i by (auto simp: isNodesJson_def)
    ultimately show ?thesis using isNodeJson_other False by force
  qed
qed

lemma writeEdge_step:
  assumes J: "json_laws J" and ok: "writable cg useName" and N: "isNodesJson J cg useName E kvs"
    and e: "((a, b), md) \<in> set (edges cg)"
  shows "\<exists>kvs'. writeEdge J cg (v4_nodeToStr cg useName) ((a, b), md) (objectOf J kvs) = Inr (objectOf J kvs')
     \<and> isNodesJson J cg useName (insert (a, b) E) kvs'"
proof -
  note wf = writableD(1) [OF ok] and WE = wf_edgesD [OF wf_cgD(3) [OF wf]]
  have ab: "(a, b) \<in> edgeSet cg" using e by (force simp: edgeSet_def)
  have live: "hasNode_id cg a" "hasNode_id cg b" using WE(2,3) ab by blast+
  obtain n where n: "nodes cg ! a = Some n" "nid n = a" "a < length (nodes cg)" using liveE [OF wf live(1)] by metis
  obtain k where k: "nodes cg ! b = Some k" "nid k = b" "b < length (nodes cg)" using liveE [OF wf live(2)] by metis
  have md: "map_of (edges cg) (a, b) = Some []"
    using e writableD(5) [OF ok e] WE(1) by (simp add: map_of_eq_Some_iff)
  obtain v where v: "map_of (rev kvs) (nodeStr cg useName a) = Some v" "isNodeJson J cg useName E a v"
    using N live(1) by (auto simp: isNodesJson_def)
  obtain nkvs cs where c: "v = objectOf J nkvs" "map_of (rev nkvs) ''callees'' = Some (objectOf J cs)"
    "isNodeJson J cg useName (insert (a, b) E) a
       (objectOf J (nkvs @ [(''callees'', objectOf J (cs @ [(nodeStr cg useName b, objectOf J [])]))]))"
    using isNodeJson_addEdge [OF J v(2)] by metis
  have "writeEdge J cg (v4_nodeToStr cg useName) ((a, b), md) (objectOf J kvs)
      = Inr (objectOf J (kvs @ [(nodeStr cg useName a,
          objectOf J (nkvs @ [(''callees'', objectOf J (cs @ [(nodeStr cg useName b, objectOf J [])]))]))]))"
    using n k v(1) c(1,2) md
    by (simp add: writeEdge_def getNode_less v4_nodeToStr_live live getAllEdgeMetaData_id_def j_object_Nil
        j_sub_objectOf [OF J] j_set_objectOf [OF J])
  with isNodesJson_update [OF ok N live(1) c(3)] show ?thesis by blast
qed

lemma writeEdge_all:
  assumes J: "json_laws J" and ok: "writable cg useName"
  shows "set es \<subseteq> set (edges cg) \<Longrightarrow> isNodesJson J cg useName E kvs
     \<Longrightarrow> \<exists>kvs'. foldR (writeEdge J cg (v4_nodeToStr cg useName)) es (objectOf J kvs) = Inr (objectOf J kvs')
       \<and> isNodesJson J cg useName (E \<union> fst ` set es) kvs'"
proof (induction es arbitrary: E kvs)
  case Nil
  then show ?case by auto
next
  case (Cons e es)
  obtain a b md where e: "e = ((a, b), md)" by (metis surj_pair)
  obtain kvs1 where k1: "writeEdge J cg (v4_nodeToStr cg useName) e (objectOf J kvs) = Inr (objectOf J kvs1)"
    "isNodesJson J cg useName (insert (a, b) E) kvs1"
    using writeEdge_step [OF J ok Cons.prems(2), of a b md] Cons.prems(1) e by auto
  obtain kvs2 where k2: "foldR (writeEdge J cg (v4_nodeToStr cg useName)) es (objectOf J kvs1) = Inr (objectOf J kvs2)"
    "isNodesJson J cg useName (insert (a, b) E \<union> fst ` set es) kvs2"
    using Cons.IH [OF _ k1(2)] Cons.prems(1) by auto
  show ?case using k1(1) k2 e by (intro exI [of _ kvs2]) (simp add: insert_commute Un_insert_left Un_insert_right)
qed

text \<open>A file with the given header information.\<close>

definition headerJson :: "'j json_api \<Rightarrow> MCGFileInfo \<Rightarrow> 'j" where
  "headerJson J info =
     objectOf J [(''version'', j_str J (getVersionStr (fmt_version (formatInfo info)))),
       (''generator'', objectOf J [(''name'', j_str J (gen_name (generatorInfo info))),
          (''version'', j_str J (gen_getVersionStr (generatorInfo info))), (''sha'', j_str J (sha (generatorInfo info)))])]"

definition isFileJson :: "'j json_api \<Rightarrow> MCGFileInfo \<Rightarrow> Callgraph \<Rightarrow> bool \<Rightarrow> 'j \<Rightarrow> bool" where
  "isFileJson J info cg useName j \<longleftrightarrow>
     (\<exists>kvs cs ns. j = objectOf J kvs \<and> map_of (rev kvs) ''_MetaCG'' = Some (headerJson J info)
        \<and> map_of (rev kvs) ''_CG'' = Some (objectOf J cs) \<and> map_of (rev cs) ''nodes'' = Some (objectOf J ns)
        \<and> isNodesJson J cg useName (edgeSet cg) ns
        \<and> map_of (rev cs) ''meta'' = Some (objectOf J (metaKvs J (v4_nodeToStr cg useName) (metaFields cg))))"

lemma sortElements_objects:
  assumes J: "json_laws J" and obj: "\<And>k v. map_of (rev kvs) k = Some v \<Longrightarrow> \<not> is_array J v"
  shows "sortElements J (objectOf J kvs) = objectOf J kvs"
proof -
  define ms where "ms = fold (\<lambda>(k, v). map_set k v) kvs []"
  have ord: "ordered_members ms" unfolding ms_def by (rule ordered_fold_map_set) simp
  have items: "items J (objectOf J kvs) = ms" using J ord by (simp add: objectOf_def ms_def json_containerD)
  have "map (\<lambda>(k, v). (k, sortIfArray J v)) ms = ms"
  proof (rule map_idI)
    fix kv assume kv: "kv \<in> set ms"
    have "distinct (map fst ms)" using ord by (simp add: ordered_members_def strict_sorted_iff)
    then have "map_of ms (fst kv) = Some (snd kv)" using kv by simp
    then have "\<not> is_array J (snd kv)" using obj by (simp add: ms_def map_of_fold_map_set)
    then show "(case kv of (k, v) \<Rightarrow> (k, sortIfArray J v)) = kv" by (cases kv) (simp add: sortIfArray_def)
  qed
  then show ?thesis unfolding sortElements_def items by (simp add: objectOf_laws [OF J]) (simp add: objectOf_def ms_def)
qed

lemma objectOf_not_array: "json_laws J \<Longrightarrow> \<not> is_array J (objectOf J kvs)"
  by (simp add: objectOf_def json_containerD)

lemma write_V4_file:
  assumes J: "json_laws J" and ok: "writable cg useName" and info: "formatInfo info = new_MCGFileFormatInfo 4 0"
  shows "\<exists>j. write_V4 J info useName srt cg = Inr j \<and> isFileJson J info cg useName j"
proof -
  let ?n2s = "v4_nodeToStr cg useName"
  have nodes: "foldR (writeNode J ?n2s) (nodes cg) (objectOf J []) = Inr (objectOf J (concat (map (nodeEntry J cg useName) (nodes cg))))"
    using writeNode_all [OF J ok, of "nodes cg" "[]"] by simp
  obtain ns where ns: "foldR (writeEdge J cg ?n2s) (edges cg) (objectOf J (concat (map (nodeEntry J cg useName) (nodes cg)))) = Inr (objectOf J ns)"
    "isNodesJson J cg useName (edgeSet cg) ns"
    using writeEdge_all [OF J ok subset_refl isNodesJson_nodes [OF ok]] by (auto simp: edgeSet_def)
  have meta: "foldR (writeMeta J ?n2s) (metaFields cg) (objectOf J []) = Inr (objectOf J (metaKvs J ?n2s (metaFields cg)))"
    using writeMeta_all [OF J writableD(1,4) [OF ok], of useName "[]"] by simp
  let ?cs = "[(''nodes'', objectOf J ns), (''meta'', objectOf J (metaKvs J ?n2s (metaFields cg)))]"
  let ?kvs = "[(''_MetaCG'', j_null J), (''_CG'', j_null J), (''_MetaCG'', headerJson J info), (''_CG'', objectOf J ?cs)]"
  have unsorted: "write_V4 J info useName srt cg = (if srt then sortCallgraph J (objectOf J ?kvs) else Inr (objectOf J ?kvs))"
    using nodes ns(1) meta
    by (simp add: write_V4_def attachMCGFormatHeader_def Let_def info new_MCGFileFormatInfo_def j_object_Nil
        j_set_objectOf [OF J] headerJson_def)
  have "sortElements J (objectOf J ?cs) = objectOf J ?cs"
    by (rule sortElements_objects [OF J]) (auto simp: objectOf_not_array [OF J] split: if_splits)
  then have "sortCallgraph J (objectOf J ?kvs) = Inr (objectOf J (?kvs @ [(''_CG'', objectOf J ?cs)]))"
    by (simp add: sortCallgraph_def contains_objectOf [OF J] j_sub_objectOf [OF J] j_set_objectOf [OF J])
  then obtain kvs where "write_V4 J info useName srt cg = Inr (objectOf J kvs)"
    "map_of (rev kvs) ''_MetaCG'' = Some (headerJson J info)" "map_of (rev kvs) ''_CG'' = Some (objectOf J ?cs)"
    using unsorted by (cases srt) auto
  then show ?thesis
    unfolding isFileJson_def using ns(2) by (intro exI [of _ "objectOf J kvs"] conjI exI [of _ kvs] exI [of _ ?cs] exI [of _ ns]) simp_all
qed

end
