(* ===== verification/McgFormat_Read.thy ===== *)
theory McgFormat_Read
  imports McgFormat_RT
begin

text \<open>
  Reading back what the version 4 writer wrote: the loop over the nodes, the loop over their edges
  and metadata, and the global metadata.
\<close>

section \<open>Metadata\<close>

text \<open>The metadata a reader reconstructs, by key.\<close>

definition remapped :: "GraphMapping \<Rightarrow> NamedMetadata \<Rightarrow> string \<Rightarrow> MetaData option" where
  "remapped m mds k =
     (case map_of mds k of
        None \<Rightarrow> None
      | Some md \<Rightarrow> if md_nonempty md then Some (projr (md_applyMapping md m)) else None)"

lemma map_of_fold_addMetaData:
  "map_of (metaFields (fold addMetaData mds x)) = map_of (metaFields x) ++ map_of (rev (map (\<lambda>md. (getKey md, md)) mds))"
  by (induction mds arbitrary: x) (auto simp: addMetaData_def alist_simps)

lemma fold_addMetaData_node [simp]:
  "nid (fold addMetaData mds n) = nid n" "functionName (fold addMetaData mds n) = functionName n"
  "origin (fold addMetaData mds n) = origin n" "hasBody (fold addMetaData mds n) = hasBody n"
  by (induction mds arbitrary: n) (simp_all add: addMetaData_def)

lemma fold_addMetaData_graph [simp]:
  "nodes (fold addMetaData mds cg) = nodes cg" "edgeSet (fold addMetaData mds cg) = edgeSet cg"
  by (induction mds arbitrary: cg) (simp_all add: addMetaData_def edgeSet_def)

lemma wf_fold_addMetaData: "wf_cg cg \<Longrightarrow> wf_cg (fold addMetaData mds cg)"
  by (induction mds arbitrary: cg) (simp_all add: wf_graph_addMetaData)

text \<open>The entries of a written metadata object lead back to the metadata, re-mapped.\<close>

lemma map_of_metaKvs_Cons:
  "map_of (metaKvs J n2s ((k', md) # mds)) k =
     (if k' = k \<and> md_nonempty md then Some (jsonOf J n2s md) else map_of (metaKvs J n2s mds) k)"
  by (simp add: metaKvs_def)

lemma metaKvs_absent: "k \<notin> fst ` set mds \<Longrightarrow> map_of (metaKvs J n2s mds) k = None"
  by (auto simp: map_of_eq_None_iff metaKvs_def image_iff)

lemma map_of_metaKvs:
  assumes "distinct (map fst mds)"
  shows "map_of (rev (metaKvs J n2s mds)) k =
     (case map_of mds k of None \<Rightarrow> None | Some md \<Rightarrow> if md_nonempty md then Some (jsonOf J n2s md) else None)"
proof -
  have "distinct (map fst (metaKvs J n2s mds))"
    using assms by (auto simp: metaKvs_def comp_def intro: distinct_map_filter)
  then have "map_of (rev (metaKvs J n2s mds)) k = map_of (metaKvs J n2s mds) k"
    by (metis distinct_map distinct_rev map_of_eq_Some_iff not_None_eq rev_map set_rev)
  also have "\<dots> = (case map_of mds k of None \<Rightarrow> None | Some md \<Rightarrow> if md_nonempty md then Some (jsonOf J n2s md) else None)"
  using assms
  proof (induction mds)
    case Nil
    then show ?case by (simp add: metaKvs_def)
  next
    case (Cons kmd mds)
    then show ?case by (cases kmd; cases "fst kmd = k") (simp_all add: map_of_metaKvs_Cons metaKvs_absent)
  qed
  finally show ?thesis .
qed

lemma meta_created:
  assumes J: "json_laws J" and wf: "wf_cg cg" and ok: "metas_ok cg mds" and wm: "wf_meta mds"
    and refs: "\<And>i. hasNode_id cg i \<Longrightarrow> m i \<noteq> None \<and> s2n (nodeStr cg useName i) = m i" and none: "s2n [] = None"
  obtains ms mds' where "items J (objectOf J (metaKvs J (v4_nodeToStr cg useName) mds)) = ms"
    and "mapR (\<lambda>(k, v). md_create J s2n k v) ms = Inr (map Some mds')"
    and "map_of (rev (map (\<lambda>md. (getKey md, md)) mds')) = remapped m mds"
proof -
  let ?n2s = "v4_nodeToStr cg useName"
  have dist: "distinct (map fst mds)" using wm by (simp add: wf_meta_def)
  obtain ms where ms: "items J (objectOf J (metaKvs J ?n2s mds)) = ms" "map_of ms = map_of (rev (metaKvs J ?n2s mds))"
    "distinct (map fst ms)" using items_objectOf [OF J] by metis
  define g where "g k = projr (md_applyMapping (the (map_of mds k)) m)" for k
  have made: "md_create J s2n k v = Inr (Some (g k)) \<and> getKey (g k) = k \<and> remapped m mds k = Some (g k)" if "(k, v) \<in> set ms" for k v
  proof -
    have "map_of ms k = Some v" using that ms(3) by simp
    then obtain md where md: "map_of mds k = Some md" "md_nonempty md" "v = jsonOf J ?n2s md"
      using ms(2) map_of_metaKvs [OF dist, of J ?n2s k] by (auto split: option.splits if_splits)
    have mdok: "md_json_ok md" "\<forall>i \<in> md_refs md. hasNode_id cg i" and key: "getKey md = k"
      using map_of_SomeD [OF md(1)] ok wm by (auto simp: metas_ok_def wf_meta_def)
    have "refs_ok ?n2s s2n m (md_refs md)"
      using mdok(2) refs v4_nodeToStr_live by (auto simp: refs_ok_def)
    from md_json_roundtrip [OF J mdok(1) this none] obtain md'
      where "md_create J s2n k (jsonOf J ?n2s md) = Inr (Some md')" "md_applyMapping md m = Inr md'"
      using key by (auto simp: jsonOf_def)
    then show ?thesis using md key md_applyMapping_key [of md m md'] by (simp add: g_def remapped_def)
  qed
  define mds' where "mds' = map (g \<circ> fst) ms"
  have "mapR (\<lambda>(k, v). md_create J s2n k v) ms = Inr (map Some mds')"
  proof -
    have "mapR (\<lambda>(k, v). md_create J s2n k v) ms = Inr (map (\<lambda>kv. Some (g (fst kv))) ms)"
      using made by (intro mapR_eq_Inr) auto
    then show ?thesis by (simp add: mds'_def comp_def)
  qed
  moreover have "map_of (rev (map (\<lambda>md. (getKey md, md)) mds')) k = remapped m mds k" for k
  proof -
    have eq: "map (\<lambda>md. (getKey md, md)) mds' = map (\<lambda>kv. (fst kv, g (fst kv))) ms"
      using made by (auto simp: mds'_def)
    have d: "distinct (map fst (map (\<lambda>kv. (fst kv, g (fst kv))) ms))" using ms(3) by (simp add: comp_def)
    show ?thesis
    proof (cases "map_of ms k")
      case None
      then have "remapped m mds k = None"
        using ms(2) map_of_metaKvs [OF dist, of J ?n2s k] by (auto simp: remapped_def split: option.splits if_splits)
      moreover have "k \<notin> fst ` set ms" using None by (simp add: map_of_eq_None_iff)
      ultimately show ?thesis unfolding eq by (simp add: map_of_eq_None_iff image_image)
    next
      case (Some v)
      then have "(k, v) \<in> set ms" by (rule map_of_SomeD)
      then have "(k, g k) \<in> set (rev (map (\<lambda>kv. (fst kv, g (fst kv))) ms))" by force
      then have "map_of (rev (map (\<lambda>kv. (fst kv, g (fst kv))) ms)) k = Some (g k)"
        using d by (intro map_of_is_SomeI) (simp_all add: rev_map [symmetric])
      then show ?thesis using made [OF \<open>(k, v) \<in> set ms\<close>] eq by simp
    qed
  qed
  ultimately show thesis using ms(1) by (intro that) auto
qed

lemma readNodeMeta_all:
  "mapR (\<lambda>(k, v). md_create J s2n k v) ms = Inr (map Some mds)
   \<Longrightarrow> foldR (readNodeMeta J s2n i) ms (cg, fs) = Inr (fold (\<lambda>md. modifyNode i (addMetaData md)) mds cg, fs)"
proof (induction ms arbitrary: mds cg)
  case Nil
  then show ?case by simp
next
  case (Cons kv ms)
  obtain k v where kv: "kv = (k, v)" by fastforce
  obtain md mds' where m: "mds = md # mds'" "md_create J s2n k v = Inr (Some md)"
    "mapR (\<lambda>(k, v). md_create J s2n k v) ms = Inr (map Some mds')"
    using Cons.prems by (auto simp: kv bindR_eq_Inr_iff Cons_eq_map_conv)
  then show ?case using Cons.IH [OF m(3)] by (simp add: kv readNodeMeta_def)
qed

lemma readGlobalMeta_all:
  "mapR (\<lambda>(k, v). md_create J s2n k v) ms = Inr (map Some mds)
   \<Longrightarrow> foldR (readGlobalMeta J s2n) ms (cg, fs) = Inr (fold addMetaData mds cg, fs)"
proof (induction ms arbitrary: mds cg)
  case Nil
  then show ?case by simp
next
  case (Cons kv ms)
  obtain k v where kv: "kv = (k, v)" by fastforce
  obtain md mds' where m: "mds = md # mds'" "md_create J s2n k v = Inr (Some md)"
    "mapR (\<lambda>(k, v). md_create J s2n k v) ms = Inr (map Some mds')"
    using Cons.prems by (auto simp: kv bindR_eq_Inr_iff Cons_eq_map_conv)
  then show ?case using Cons.IH [OF m(3)] by (simp add: kv readGlobalMeta_def)
qed

lemma fold_modifyNode:
  assumes "nodes cg ! i = Some n" and "i < length (nodes cg)"
  shows "nodes (fold (\<lambda>md. modifyNode i (addMetaData md)) mds cg) = (nodes cg)[i := Some (fold addMetaData mds n)]"
    and "edgeSet (fold (\<lambda>md. modifyNode i (addMetaData md)) mds cg) = edgeSet cg"
    and "metaFields (fold (\<lambda>md. modifyNode i (addMetaData md)) mds cg) = metaFields cg"
    and "wf_cg cg \<Longrightarrow> wf_cg (fold (\<lambda>md. modifyNode i (addMetaData md)) mds cg)"
  using assms
proof (induction mds arbitrary: cg n)
  case Nil
  { case 1 then show ?case by (metis fold_simps(1) list_update_id) }
  { case 2 then show ?case by simp }
  { case 3 then show ?case by simp }
  { case 4 then show ?case by simp }
next
  case (Cons md mds)
  have at: "nodes (modifyNode i (addMetaData md) cg) ! i = Some (addMetaData md n)"
    "i < length (nodes (modifyNode i (addMetaData md) cg))"
    if "nodes cg ! i = Some n" "i < length (nodes cg)" for cg n
    using that by (simp_all add: modifyNode_def)
  { case 1 then show ?case using Cons.IH(1) [OF at] by (simp add: modifyNode_def) }
  { case 2 then show ?case using Cons.IH(2) [OF at] by (simp add: modifyNode_def edgeSet_def) }
  { case 3 then show ?case using Cons.IH(3) [OF at] by (simp add: modifyNode_def) }
  { case 4 then show ?case using Cons.IH(4) [OF wf_node_addMetaData at] by simp }
qed

end
