(* ===== verification/McgFormat_Roundtrip.thy ===== *)
theory McgFormat_Roundtrip
  imports McgFormat_Read
begin

text \<open>
  The round trip of format version 4: reading what was written gives a graph that is the same up to
  the numbering of the nodes.
\<close>

section \<open>The entries of the node object\<close>

lemma nodes_entries:
  assumes J: "json_laws J" and ok: "writable cg useName" and N: "isNodesJson J cg useName E ns"
  obtains es old where "items J (objectOf J ns) = es" and "bij_betw old {..<length es} {i. hasNode_id cg i}"
    and "\<And>k. k < length es \<Longrightarrow> fst (es ! k) = nodeStr cg useName (old k)"
    and "\<And>k. k < length es \<Longrightarrow> isNodeJson J cg useName E (old k) (snd (es ! k))"
proof -
  obtain es where es: "items J (objectOf J ns) = es" "map_of es = map_of (rev ns)" "distinct (map fst es)"
    using items_objectOf [OF J] by metis
  note inj = nodeStr_inj [OF writableD(1,2) [OF ok]]
  have at: "map_of (rev ns) (fst (es ! k)) = Some (snd (es ! k))" if "k < length es" for k
    using es that by (metis map_of_eq_Some_iff nth_mem prod.collapse)
  define old where "old k = (THE i. hasNode_id cg i \<and> fst (es ! k) = nodeStr cg useName i)" for k
  have old: "hasNode_id cg (old k) \<and> fst (es ! k) = nodeStr cg useName (old k)" if k: "k < length es" for k
  proof -
    obtain i where i: "hasNode_id cg i" "fst (es ! k) = nodeStr cg useName i"
      using N at [OF k] by (auto simp: isNodesJson_def)
    show ?thesis unfolding old_def by (rule theI [of _ i]) (use i inj in \<open>auto\<close>)
  qed
  have json: "isNodeJson J cg useName E (old k) (snd (es ! k))" if k: "k < length es" for k
  proof -
    obtain v where "map_of (rev ns) (nodeStr cg useName (old k)) = Some v" "isNodeJson J cg useName E (old k) v"
      using N old [OF k] by (auto simp: isNodesJson_def)
    then show ?thesis using at [OF k] old [OF k] by simp
  qed
  have inj_old: "inj_on old {..<length es}"
  proof (rule inj_onI)
    fix k l assume kl: "k \<in> {..<length es}" "l \<in> {..<length es}" "old k = old l"
    then have "fst (es ! k) = fst (es ! l)" using old by (metis lessThan_iff)
    then show "k = l" using kl(1,2) es(3) by (simp add: distinct_conv_nth) (metis nth_map)
  qed
  have onto: "\<exists>k < length es. old k = i" if i: "hasNode_id cg i" for i
  proof -
    obtain v where "map_of es (nodeStr cg useName i) = Some v" using N i es(2) by (auto simp: isNodesJson_def)
    then obtain k where "k < length es" "es ! k = (nodeStr cg useName i, v)" by (metis in_set_conv_nth map_of_SomeD)
    then show ?thesis using old inj i by (metis fst_conv)
  qed
  have "old ` {..<length es} = {i. hasNode_id cg i}" using old onto by (auto simp: image_iff)
  with inj_old show thesis using es(1) old json by (intro that [of es old]) (auto simp: bij_betw_def)
qed

section \<open>The loop over the nodes\<close>

definition bareCopy :: "NodeId \<Rightarrow> CgNode \<Rightarrow> CgNode" where
  "bareCopy i n = \<lparr>metaFields = [], nid = i, functionName = functionName n, origin = origin n, hasBody = hasBody n\<rparr>"

lemma bareCopy_simps [simp]:
  "metaFields (bareCopy i n) = []" "nid (bareCopy i n) = i" "functionName (bareCopy i n) = functionName n"
  "origin (bareCopy i n) = origin n" "hasBody (bareCopy i n) = hasBody n"
  by (simp_all add: bareCopy_def)

lemma origin_read:
  assumes "json_laws J"
  shows "(if is_null J (originJson J orig) \<or> empty J (originJson J orig) then Inr None
          else bindR (getR (get_str J) (originJson J orig)) (\<lambda>s. Inr (Some s))) = Inr orig"
  using assms by (cases orig) (simp_all add: originJson_def json_scalarD getR_json)

lemma createNode_written:
  assumes J: "json_laws J" and v: "isNodeJson J cg useName E i v" and n: "nodes cg ! i = Some n"
    and name: "functionName n \<noteq> []" and fresh: "s2n s = None" and wf: "wf_cg c"
  shows "\<exists>c'. createNodeFromJson J s v c s2n = Inr (Some (length (nodes c), c', s2n(s \<mapsto> length (nodes c))))
     \<and> wf_cg c' \<and> nodes c' = nodes c @ [Some (bareCopy (length (nodes c)) n)] \<and> edgeSet c' = edgeSet c \<and> metaFields c' = metaFields c"
proof -
  obtain kvs where k: "v = objectOf J kvs" "map_of (rev kvs) ''functionName'' = Some (j_str J (functionName n))"
    "map_of (rev kvs) ''origin'' = Some (originJson J (origin n))" "map_of (rev kvs) ''hasBody'' = Some (j_bool J (hasBody n))"
    "map_of (rev kvs) ''meta'' = Some (objectOf J (metaKvs J (v4_nodeToStr cg useName) (metaFields n)))"
    using v n unfolding isNodeJson_def by auto
  obtain c1 where c1: "insert_cg (functionName n) (origin n) False False c = Inr (length (nodes c), c1)"
    using insert_cg_nonempty [OF name] by blast
  let ?c = "modifyNode (length (nodes c)) (setHasBody (hasBody n)) c1"
  have "createNodeFromJson J s v c s2n = Inr (Some (length (nodes c), ?c, s2n(s \<mapsto> length (nodes c))))"
    unfolding createNodeFromJson_def k(1)
    by (simp add: contains_objectOf [OF J] objectOf_laws [OF J] objectOf_calls [OF J] k(2-5) origin_read [OF J] getR_json [OF J]
        c1 registerNode_def fresh)
  moreover have "wf_cg ?c" using wf_insert_cg [OF wf c1] by (rule wf_node_setters)
  moreover have "nodes ?c = nodes c @ [Some (bareCopy (length (nodes c)) n)]"
    by (simp add: modifyNode_def insert_cg_effect(2) [OF c1] setHasBody_def new_CgNode_def bareCopy_def)
  moreover have "edgeSet ?c = edgeSet c" "metaFields ?c = metaFields c"
    using insert_cg_effect(5,9) [OF c1] by (simp_all add: modifyNode_def edgeSet_def)
  ultimately show ?thesis by blast
qed

text \<open>What holds after \<open>k\<close> nodes are read.\<close>

definition nodesRead ::
  "'j json_api \<Rightarrow> Callgraph \<Rightarrow> (string \<times> 'j) list \<Rightarrow> (nat \<Rightarrow> NodeId) \<Rightarrow> nat
   \<Rightarrow> Callgraph \<times> (string \<rightharpoonup> NodeId) \<times> 'j TempNodeData list \<Rightarrow> bool" where
  "nodesRead J cg es old k st \<longleftrightarrow>
     (case st of (c, s2n, temp) \<Rightarrow>
        wf_cg c \<and> length (nodes c) = k \<and> edgeSet c = {} \<and> metaFields c = [] \<and> length temp = k
        \<and> (\<forall>s j. s2n s = Some j \<longleftrightarrow> j < k \<and> fst (es ! j) = s)
        \<and> (\<forall>j < k. nodes c ! j = Some (bareCopy j (the (nodes cg ! old j))) \<and> tmp_nodeId (temp ! j) = j
            \<and> j_sub J (snd (es ! j)) ''callees'' = Inr (tmp_jEdges (temp ! j))
            \<and> j_sub J (snd (es ! j)) ''meta'' = Inr (tmp_jMeta (temp ! j))))"

lemma readNode_all:
  assumes J: "json_laws J" and ok: "writable cg useName"
    and live: "\<And>k. k < length es \<Longrightarrow> hasNode_id cg (old k)"
    and json: "\<And>k. k < length es \<Longrightarrow> isNodeJson J cg useName E (old k) (snd (es ! k))"
    and dist: "distinct (map fst es)"
  shows "\<exists>st. foldR (readNode J) es (empty_cg a, Map.empty, []) = Inr st \<and> nodesRead J cg es old (length es) st"
proof (rule foldR_index_total)
  show "nodesRead J cg es old 0 (empty_cg a, Map.empty, [])"
    by (simp add: nodesRead_def) (simp add: empty_cg_def edgeSet_def)
next
  fix k st assume k: "k < length es" and st: "nodesRead J cg es old k st"
  obtain c s2n temp where c: "st = (c, s2n, temp)" by (cases st) auto
  note R = st [unfolded nodesRead_def c prod.case]
  obtain n where n: "nodes cg ! old k = Some n" "functionName n \<noteq> []" using liveE [OF writableD(1) [OF ok] live [OF k]] by metis
  have fresh: "s2n (fst (es ! k)) = None"
  proof (rule ccontr)
    assume "s2n (fst (es ! k)) \<noteq> None"
    then obtain j where "j < k" "fst (es ! j) = fst (es ! k)" using R by auto
    then show False using dist k by (simp add: distinct_conv_nth)
  qed
  obtain c' where c': "createNodeFromJson J (fst (es ! k)) (snd (es ! k)) c s2n = Inr (Some (k, c', s2n(fst (es ! k) \<mapsto> k)))"
    "wf_cg c'" "nodes c' = nodes c @ [Some (bareCopy k n)]" "edgeSet c' = edgeSet c" "metaFields c' = metaFields c"
    using createNode_written [where s = "fst (es ! k)" and s2n = s2n, OF J json [OF k] n fresh, of c] R by auto
  obtain je jm where jm: "j_sub J (snd (es ! k)) ''callees'' = Inr je" "j_sub J (snd (es ! k)) ''meta'' = Inr jm"
    using json [OF k] by (auto simp: isNodeJson_def j_sub_objectOf [OF J])
  let ?st = "(c', s2n(fst (es ! k) \<mapsto> k), temp @ [\<lparr>tmp_nodeId = k, tmp_jEdges = je, tmp_jMeta = jm\<rparr>])"
  have "readNode J (es ! k) st = Inr ?st" by (simp add: readNode_def c c'(1) jm)
  moreover have "nodesRead J cg es old (Suc k) ?st"
  proof -
    have s2n: "(s2n(fst (es ! k) \<mapsto> k)) s = Some j \<longleftrightarrow> j < Suc k \<and> fst (es ! j) = s" for s j
    proof -
      have "fst (es ! j) \<noteq> fst (es ! k)" if "j < k" for j using R fresh that by (metis option.distinct(1))
      then show ?thesis using R by (auto simp: less_Suc_eq)
    qed
    let ?temp = "temp @ [\<lparr>tmp_nodeId = k, tmp_jEdges = je, tmp_jMeta = jm\<rparr>]"
    have "nodes c' ! j = Some (bareCopy j (the (nodes cg ! old j))) \<and> tmp_nodeId (?temp ! j) = j
      \<and> j_sub J (snd (es ! j)) ''callees'' = Inr (tmp_jEdges (?temp ! j)) \<and> j_sub J (snd (es ! j)) ''meta'' = Inr (tmp_jMeta (?temp ! j))"
      if "j < Suc k" for j
      using that R c'(3) n(1) jm by (cases "j = k") (auto simp: nth_append)
    with s2n R c'(2-5) show ?thesis by (simp add: nodesRead_def del: fun_upd_apply)
  qed
  ultimately show "\<exists>st'. readNode J (es ! k) st = Inr st' \<and> nodesRead J cg es old (Suc k) st'" by blast
qed

section \<open>The loop over edges and node metadata\<close>

lemma readEdge_all:
  assumes J: "json_laws J" and x: "x < length (nodes c)"
    and cs: "\<And>t v. (t, v) \<in> set cs \<Longrightarrow> v = objectOf J [] \<and> (\<exists>y < length (nodes c). s2n t = Some y)"
    and full: "\<And>y. y < length (nodes c) \<Longrightarrow> hasNode_id c y" and wf: "wf_cg c"
  shows "\<exists>c'. foldR (readEdge J s2n x) cs (c, fs) = Inr (c', fs) \<and> wf_cg c' \<and> nodes c' = nodes c
     \<and> metaFields c' = metaFields c \<and> edgeSet c' = edgeSet c \<union> {(x, y) | t y. t \<in> fst ` set cs \<and> s2n t = Some y}"
  using cs full wf x
proof (induction cs arbitrary: c)
  case Nil
  then show ?case by auto
next
  case (Cons tv cs)
  obtain t v where tv: "tv = (t, v)" by fastforce
  obtain y where y: "y < length (nodes c)" "s2n t = Some y" and v: "v = objectOf J []" using Cons.prems(1) tv by auto
  obtain r c1 where c1: "addEdgeInternal x y c = (r, c1)" by fastforce
  note eff = addEdgeInternal_effect [OF c1]
  have add: "addEdge_id x y c = Inr (r, c1)" using Cons.prems(2,4) y c1 by (simp add: addEdge_id_live)
  have "hasNode_id c1 = hasNode_id c" by (rule hasNode_id_cong) (rule eff(3))
  then have "\<exists>c2. foldR (readEdge J s2n x) cs (c1, fs) = Inr (c2, fs) \<and> wf_cg c2 \<and> nodes c2 = nodes c1
    \<and> metaFields c2 = metaFields c1 \<and> edgeSet c2 = edgeSet c1 \<union> {(x, y) | t y. t \<in> fst ` set cs \<and> s2n t = Some y}"
    using Cons.prems(1) [OF list.set_intros(2)] Cons.prems(2-) eff(3) wf_addEdge_id [OF Cons.prems(3) add]
    by (intro Cons.IH) simp_all
  then obtain c2 where c2: "foldR (readEdge J s2n x) cs (c1, fs) = Inr (c2, fs)" "wf_cg c2" "nodes c2 = nodes c1"
    "metaFields c2 = metaFields c1" "edgeSet c2 = edgeSet c1 \<union> {(x, y) | t y. t \<in> fst ` set cs \<and> s2n t = Some y}" by blast
  have "readEdge J s2n x tv (c, fs) = Inr (c1, fs)"
    by (simp add: readEdge_def tv y(2) add v objectOf_laws [OF J] j_object_Nil [symmetric] json_containerD [OF J] json_scalarD [OF J])
  then show ?case using c2 eff y(2) tv by auto
qed

text \<open>What holds after the data of \<open>k\<close> nodes is read; \<open>m\<close> maps old to new identifiers.\<close>

definition nodeRead :: "GraphMapping \<Rightarrow> bool \<Rightarrow> NodeId \<Rightarrow> CgNode \<Rightarrow> CgNode \<Rightarrow> bool" where
  "nodeRead m complete j n n' \<longleftrightarrow>
     nid n' = j \<and> functionName n' = functionName n \<and> origin n' = origin n \<and> hasBody n' = hasBody n
     \<and> (if complete then map_of (metaFields n') = remapped m (metaFields n) else metaFields n' = [])"

definition dataRead ::
  "Callgraph \<Rightarrow> nat \<Rightarrow> (nat \<Rightarrow> NodeId) \<Rightarrow> GraphMapping \<Rightarrow> nat \<Rightarrow> Callgraph \<times> 'j FailedCalls \<Rightarrow> bool" where
  "dataRead cg N old m k st \<longleftrightarrow>
     (case st of (c, fs) \<Rightarrow>
        fs = [] \<and> wf_cg c \<and> length (nodes c) = N \<and> metaFields c = []
        \<and> edgeSet c = {(x, y). x < k \<and> y < N \<and> (old x, old y) \<in> edgeSet cg}
        \<and> (\<forall>j < N. \<exists>n'. nodes c ! j = Some n' \<and> nodeRead m (j < k) j (the (nodes cg ! old j)) n'))"

lemma readNodeData_step:
  assumes J: "json_laws J" and ok: "writable cg useName" and k: "k < N" and st: "dataRead cg N old m k (c, fs)"
    and old: "bij_betw old {..<N} {i. hasNode_id cg i}"
    and s2n: "\<And>j. j < N \<Longrightarrow> s2n (nodeStr cg useName (old j)) = Some j" and none: "s2n [] = None"
    and m: "\<And>j. j < N \<Longrightarrow> m (old j) = Some j"
    and v: "isNodeJson J cg useName (edgeSet cg) (old k) v"
    and d: "tmp_nodeId d = k" "j_sub J v ''callees'' = Inr (tmp_jEdges d)" "j_sub J v ''meta'' = Inr (tmp_jMeta d)"
  shows "\<exists>st'. readNodeData J s2n d (c, fs) = Inr st' \<and> dataRead cg N old m (Suc k) st'"
proof -
  note wf = writableD(1) [OF ok]
  have D: "fs = []" "wf_cg c" "length (nodes c) = N" "metaFields c = []"
    "edgeSet c = {(x, y). x < k \<and> y < N \<and> (old x, old y) \<in> edgeSet cg}"
    and Dn: "\<And>j. j < N \<Longrightarrow> \<exists>n'. nodes c ! j = Some n' \<and> nodeRead m (j < k) j (the (nodes cg ! old j)) n'"
    using st by (simp_all add: dataRead_def)
  note WE = wf_edgesD [OF wf_cgD(3) [OF wf]]
  have live: "hasNode_id cg (old j)" if "j < N" for j using old that by (auto simp: bij_betw_def)
  have ex: "\<exists>j < N. old j = i" if "hasNode_id cg i" for i
    using old that by (metis (mono_tags, lifting) bij_betw_def imageE lessThan_iff mem_Collect_eq)
  have refs: "m i \<noteq> None \<and> s2n (nodeStr cg useName i) = m i" if "hasNode_id cg i" for i
    using ex [OF that] s2n m by (metis option.distinct(1))
  obtain kvs cs n where n: "v = objectOf J kvs" "nodes cg ! old k = Some n"
    "map_of (rev kvs) ''meta'' = Some (objectOf J (metaKvs J (v4_nodeToStr cg useName) (metaFields n)))"
    "map_of (rev kvs) ''callees'' = Some (objectOf J cs)"
    "\<And>t. map_of (rev cs) t = (if \<exists>b. (old k, b) \<in> edgeSet cg \<and> t = nodeStr cg useName b then Some (objectOf J []) else None)"
    using v unfolding isNodeJson_def by blast
  have je: "tmp_jEdges d = objectOf J cs" and jm: "tmp_jMeta d = objectOf J (metaKvs J (v4_nodeToStr cg useName) (metaFields n))"
    using d n by (simp_all add: j_sub_objectOf [OF J])
  obtain es where es: "items J (objectOf J cs) = es" "map_of es = map_of (rev cs)" "distinct (map fst es)"
    using items_objectOf [OF J] by metis
  have mem: "(t, w) \<in> set es \<longleftrightarrow> w = objectOf J [] \<and> (\<exists>y < N. (old k, old y) \<in> edgeSet cg \<and> t = nodeStr cg useName (old y))" for t w
  proof -
    have "(t, w) \<in> set es \<longleftrightarrow> map_of (rev cs) t = Some w" using es(2,3) by (metis map_of_eq_Some_iff)
    also have "\<dots> \<longleftrightarrow> w = objectOf J [] \<and> (\<exists>b. (old k, b) \<in> edgeSet cg \<and> t = nodeStr cg useName b)" using n(5) by auto
    also have "\<dots> \<longleftrightarrow> w = objectOf J [] \<and> (\<exists>y < N. (old k, old y) \<in> edgeSet cg \<and> t = nodeStr cg useName (old y))"
      using ex WE(3) by metis
    finally show ?thesis .
  qed
  have full: "hasNode_id c y" if "y < length (nodes c)" for y using D(3) Dn that by (force simp: hasNode_id_def)
  have "\<exists>c'. foldR (readEdge J s2n k) es (c, fs) = Inr (c', fs) \<and> wf_cg c' \<and> nodes c' = nodes c
     \<and> metaFields c' = metaFields c \<and> edgeSet c' = edgeSet c \<union> {(k, y) | t y. t \<in> fst ` set es \<and> s2n t = Some y}"
  proof (rule readEdge_all [OF J _ _ full D(2)])
    show "k < length (nodes c)" using k D(3) by simp
    show "w = objectOf J [] \<and> (\<exists>y < length (nodes c). s2n t = Some y)" if "(t, w) \<in> set es" for t w
      using that s2n unfolding mem D(3) by blast
  qed
  then obtain c1 where c1: "foldR (readEdge J s2n k) es (c, fs) = Inr (c1, fs)" "wf_cg c1" "nodes c1 = nodes c"
     "metaFields c1 = metaFields c" "edgeSet c1 = edgeSet c \<union> {(k, y) | t y. t \<in> fst ` set es \<and> s2n t = Some y}" by blast
  have edges: "edgeSet c1 = {(x, y). x < Suc k \<and> y < N \<and> (old x, old y) \<in> edgeSet cg}"
  proof -
    have "{(k, y) | t y. t \<in> fst ` set es \<and> s2n t = Some y} = {(x, y). x = k \<and> y < N \<and> (old x, old y) \<in> edgeSet cg}"
    proof (intro set_eqI iffI)
      fix p assume "p \<in> {(k, y) | t y. t \<in> fst ` set es \<and> s2n t = Some y}"
      then obtain t w y where "p = (k, y)" "(t, w) \<in> set es" "s2n t = Some y" by force
      then show "p \<in> {(x, y). x = k \<and> y < N \<and> (old x, old y) \<in> edgeSet cg}" using mem s2n by auto
    next
      fix p assume "p \<in> {(x, y). x = k \<and> y < N \<and> (old x, old y) \<in> edgeSet cg}"
      then obtain y where y: "p = (k, y)" "y < N" "(old k, old y) \<in> edgeSet cg" by auto
      then have "(nodeStr cg useName (old y), objectOf J []) \<in> set es" unfolding mem by blast
      then show "p \<in> {(k, y) | t y. t \<in> fst ` set es \<and> s2n t = Some y}" using y s2n by force
    qed
    then show ?thesis unfolding c1(5) D(5) by (auto simp: less_Suc_eq)
  qed
  obtain n' where n': "nodes c ! k = Some n'" "nodeRead m False k n n'" using Dn [OF k] n(2) by auto
  obtain n0 where n0: "nodes cg ! old k = Some n0" "wf_meta (metaFields n0)" "old k < length (nodes cg)" using liveE [OF wf live [OF k]] by metis
  then have "Some n \<in> set (nodes cg)" "wf_meta (metaFields n)" using n(2) by (auto simp: in_set_conv_nth)
  then obtain ms mds where ms: "items J (tmp_jMeta d) = ms" "mapR (\<lambda>(k, v). md_create J s2n k v) ms = Inr (map Some mds)"
    "map_of (rev (map (\<lambda>md. (getKey md, md)) mds)) = remapped m (metaFields n)"
    unfolding jm by (rule meta_created [OF J wf writableD(3) [OF ok] _ refs none])
  let ?c = "fold (\<lambda>md. modifyNode k (addMetaData md)) mds c1"
  have at: "nodes c1 ! k = Some n'" "k < length (nodes c1)" using c1(3) n'(1) k D(3) by auto
  note F = fold_modifyNode [OF at, of mds]
  have "readNodeData J s2n d (c, fs) = Inr (?c, fs)"
    using c1(1) readNodeMeta_all [OF ms(2), of k c1 fs] k D(3) n'(1) es(1) ms(1)
    by (simp add: readNodeData_def d(1) getNode_less je jm j_iter_objectOf [OF J])
  moreover have "dataRead cg N old m (Suc k) (?c, fs)"
  proof -
    have "\<exists>n1. nodes ?c ! j = Some n1 \<and> nodeRead m (j < Suc k) j (the (nodes cg ! old j)) n1" if j: "j < N" for j
    proof (cases "j = k")
      case True
      then show ?thesis using n'(2) n(2) at(2) ms(3) by (simp add: F(1) nodeRead_def map_of_fold_addMetaData)
    next
      case False
      then show ?thesis using Dn [OF j] c1(3) by (simp add: F(1) less_Suc_eq)
    qed
    then show ?thesis using D(1,3,4) edges c1(2-4) F by (simp add: dataRead_def)
  qed
  ultimately show ?thesis by blast
qed

section \<open>The round trip\<close>

text \<open>The numbering of the nodes of the original graph in the graph that was read.\<close>

definition renumbering :: "Callgraph \<Rightarrow> (NodeId \<Rightarrow> NodeId) \<Rightarrow> GraphMapping" where
  "renumbering cg \<pi> i = (if hasNode_id cg i then Some (\<pi> i) else None)"

text \<open>
  \<open>cg'\<close> is \<open>cg\<close> with the live nodes renumbered by \<open>\<pi>\<close>: same names, origins and bodies, the same calls,
  and the same metadata (up to renumbering, and without the entries whose JSON is empty).
\<close>

definition sameGraph :: "Callgraph \<Rightarrow> (NodeId \<Rightarrow> NodeId) \<Rightarrow> Callgraph \<Rightarrow> bool" where
  "sameGraph cg \<pi> cg' \<longleftrightarrow>
     bij_betw \<pi> {i. hasNode_id cg i} {..<length (nodes cg')}
     \<and> (\<forall>i n. hasNode_id cg i \<and> nodes cg ! i = Some n \<longrightarrow>
          (\<exists>n'. nodes cg' ! \<pi> i = Some n' \<and> functionName n' = functionName n \<and> origin n' = origin n
             \<and> hasBody n' = hasBody n \<and> map_of (metaFields n') = remapped (renumbering cg \<pi>) (metaFields n)))
     \<and> edgeSet cg' = map_prod \<pi> \<pi> ` edgeSet cg
     \<and> map_of (metaFields cg') = remapped (renumbering cg \<pi>) (metaFields cg)"

lemma dataRead_sameGraph:
  assumes wf: "wf_cg cg" and old: "bij_betw old {..<N} {i. hasNode_id cg i}"
    and R: "dataRead cg N old (renumbering cg (the_inv_into {..<N} old)) N (c, fs)"
    and nodes: "nodes c' = nodes c" "edgeSet c' = edgeSet c"
    and meta: "map_of (metaFields c') = remapped (renumbering cg (the_inv_into {..<N} old)) (metaFields cg)"
  shows "sameGraph cg (the_inv_into {..<N} old) c'"
proof -
  let ?\<pi> = "the_inv_into {..<N} old"
  note WE = wf_edgesD [OF wf_cgD(3) [OF wf]]
  have bij: "bij_betw ?\<pi> {i. hasNode_id cg i} {..<N}" using old by (rule bij_betw_the_inv_into)
  have inv: "?\<pi> i < N" "old (?\<pi> i) = i" if "hasNode_id cg i" for i
    using bij old that by (auto simp: bij_betw_def intro: f_the_inv_into_f)
  have bk: "?\<pi> (old j) = j" "hasNode_id cg (old j)" if "j < N" for j
    using old that by (auto simp: bij_betw_def intro: the_inv_into_f_f)
  have D: "length (nodes c) = N" "edgeSet c = {(x, y). x < N \<and> y < N \<and> (old x, old y) \<in> edgeSet cg}"
    and Dn: "\<And>j. j < N \<Longrightarrow> \<exists>n'. nodes c ! j = Some n' \<and> nodeRead (renumbering cg ?\<pi>) True j (the (nodes cg ! old j)) n'"
    using R by (simp_all add: dataRead_def)
  have "edgeSet c = map_prod ?\<pi> ?\<pi> ` edgeSet cg"
  proof (intro set_eqI iffI)
    fix p assume "p \<in> edgeSet c"
    then obtain x y where p: "p = (x, y)" "x < N" "y < N" "(old x, old y) \<in> edgeSet cg" using D(2) by auto
    then have "p = map_prod ?\<pi> ?\<pi> (old x, old y)" using bk by simp
    then show "p \<in> map_prod ?\<pi> ?\<pi> ` edgeSet cg" using p(4) by blast
  next
    fix p assume "p \<in> map_prod ?\<pi> ?\<pi> ` edgeSet cg"
    then obtain a b where p: "p = (?\<pi> a, ?\<pi> b)" "(a, b) \<in> edgeSet cg" by auto
    then show "p \<in> edgeSet c" using WE(2,3) [OF p(2)] inv D(2) by simp
  qed
  moreover have "\<exists>n'. nodes c' ! ?\<pi> i = Some n' \<and> functionName n' = functionName n \<and> origin n' = origin n
      \<and> hasBody n' = hasBody n \<and> map_of (metaFields n') = remapped (renumbering cg ?\<pi>) (metaFields n)"
    if "hasNode_id cg i" "nodes cg ! i = Some n" for i n
    using Dn [OF inv(1) [OF that(1)]] inv(2) [OF that(1)] that(2) nodes(1) by (auto simp: nodeRead_def)
  ultimately show ?thesis unfolding sameGraph_def using bij D(1) nodes meta by simp
qed

lemma read_cg_V4_file:
  fixes J :: "'j json_api"
  assumes J: "json_laws J" and ok: "writable cg useName" and N: "isNodesJson J cg useName (edgeSet cg) ns"
    and cs: "map_of (rev cs) ''nodes'' = Some (objectOf J ns)"
      "map_of (rev cs) ''meta'' = Some (objectOf J (metaKvs J (v4_nodeToStr cg useName) (metaFields cg)))"
  shows "\<exists>cg' \<pi>. read_cg_V4 J a (objectOf J cs) = Inr (cg', []) \<and> wf_cg cg' \<and> sameGraph cg \<pi> cg'"
proof -
  note wf = writableD(1) [OF ok]
  obtain es old where es: "items J (objectOf J ns) = es" "bij_betw old {..<length es} {i. hasNode_id cg i}"
    "\<And>k. k < length es \<Longrightarrow> fst (es ! k) = nodeStr cg useName (old k)"
    "\<And>k. k < length es \<Longrightarrow> isNodeJson J cg useName (edgeSet cg) (old k) (snd (es ! k))"
    using nodes_entries [OF J ok N] by metis
  have dist: "distinct (map fst es)" using items_objectOf [OF J] es(1) by metis
  define \<pi> where "\<pi> = the_inv_into {..<length es} old"
  have live: "hasNode_id cg (old k)" if "k < length es" for k using es(2) that by (auto simp: bij_betw_def)
  have bk: "\<pi> (old k) = k" if "k < length es" for k
    using es(2) that by (auto simp: bij_betw_def \<pi>_def intro: the_inv_into_f_f)
  obtain c s2n temp where st: "foldR (readNode J) es (empty_cg a, Map.empty, []) = Inr (c, s2n, temp)"
    "nodesRead J cg es old (length es) (c, s2n, temp)"
    using readNode_all [OF J ok live es(4) dist] by (metis prod_cases3)
  have R: "length temp = length es" "\<And>s j. s2n s = Some j \<longleftrightarrow> j < length es \<and> fst (es ! j) = s"
    "\<And>j. j < length es \<Longrightarrow> tmp_nodeId (temp ! j) = j \<and> j_sub J (snd (es ! j)) ''callees'' = Inr (tmp_jEdges (temp ! j))
        \<and> j_sub J (snd (es ! j)) ''meta'' = Inr (tmp_jMeta (temp ! j))"
    using st(2) by (simp_all add: nodesRead_def)
  have s2n: "s2n (nodeStr cg useName (old j)) = Some j" if "j < length es" for j using R(2) es(3) that by metis
  have none: "s2n [] = None"
  proof (rule ccontr)
    assume "s2n [] \<noteq> None"
    then obtain j where "j < length es" "nodeStr cg useName (old j) = []" using R(2) es(3) by (metis not_None_eq)
    then show False using nodeStr_nonempty [OF wf live] by blast
  qed
  have m: "renumbering cg \<pi> (old j) = Some j" if "j < length es" for j using that live bk by (simp add: renumbering_def)
  have "dataRead cg (length es) old (renumbering cg \<pi>) 0 (c, [] :: 'j FailedCalls)"
    using st(2) by (auto simp: dataRead_def nodesRead_def nodeRead_def)
  moreover have "\<exists>st'. readNodeData J s2n (temp ! k) st = Inr st' \<and> dataRead cg (length es) old (renumbering cg \<pi>) (Suc k) st'"
    if k: "k < length temp" and st: "dataRead cg (length es) old (renumbering cg \<pi>) k st" for k and st :: "Callgraph \<times> 'j FailedCalls"
  proof -
    obtain c fs where "st = (c, fs)" by fastforce
    then show ?thesis
      using readNodeData_step [OF J ok _ _ es(2) s2n none m es(4), of k c fs "temp ! k"] k st R(1) R(3) [of k] by simp
  qed
  ultimately obtain c1 fs where c1: "foldR (readNodeData J s2n) temp (c, []) = Inr (c1, fs)"
    "dataRead cg (length es) old (renumbering cg \<pi>) (length es) (c1, fs)"
    using foldR_index_total [of "dataRead cg (length es) old (renumbering cg \<pi>)" "(c, [])" temp "readNodeData J s2n"] R(1)
    by (metis surj_pair)
  then have fs: "fs = []" "wf_cg c1" "metaFields c1 = []" by (simp_all add: dataRead_def)
  have refs: "renumbering cg \<pi> i \<noteq> None \<and> s2n (nodeStr cg useName i) = renumbering cg \<pi> i" if i: "hasNode_id cg i" for i
  proof -
    have "i \<in> old ` {..<length es}" using es(2) i by (simp add: bij_betw_def)
    then obtain j where "j < length es" "old j = i" by auto
    then show ?thesis using s2n m by auto
  qed
  obtain ms mds where ms: "items J (objectOf J (metaKvs J (v4_nodeToStr cg useName) (metaFields cg))) = ms"
    "mapR (\<lambda>(k, v). md_create J s2n k v) ms = Inr (map Some mds)"
    "map_of (rev (map (\<lambda>md. (getKey md, md)) mds)) = remapped (renumbering cg \<pi>) (metaFields cg)"
    by (rule meta_created [OF J wf writableD(4) [OF ok] wf_cgD(7) [OF wf] refs none])
  have "read_cg_V4 J a (objectOf J cs) = Inr (fold addMetaData mds c1, [])"
    using st(1) c1(1) readGlobalMeta_all [OF ms(2), of c1 "[]"]
    by (simp add: read_cg_V4_def j_sub_objectOf [OF J] cs objectOf_laws [OF J] j_iter_objectOf [OF J] es(1) ms(1) fs)
  moreover have "sameGraph cg \<pi> (fold addMetaData mds c1)"
    unfolding \<pi>_def by (rule dataRead_sameGraph [OF wf es(2) c1(2) [unfolded \<pi>_def]])
      (use ms(3) fs(3) in \<open>simp_all add: map_of_fold_addMetaData \<pi>_def\<close>)
  moreover have "wf_cg (fold addMetaData mds c1)" using fs(2) by (rule wf_fold_addMetaData)
  ultimately show ?thesis by blast
qed

lemma v4_write_read:
  assumes J: "json_laws J" and ok: "writable cg useName" and info: "formatInfo info = new_MCGFileFormatInfo 4 0"
  shows "\<exists>cg' \<pi>. bindR (write_V4 J info useName srt cg) (read_V4 J a) = Inr (cg', []) \<and> wf_cg cg' \<and> sameGraph cg \<pi> cg'"
proof -
  obtain j where j: "write_V4 J info useName srt cg = Inr j" "isFileJson J info cg useName j"
    using write_V4_file [OF J ok info] by blast
  obtain kvs cs ns where k: "j = objectOf J kvs" "map_of (rev kvs) ''_MetaCG'' = Some (headerJson J info)"
    "map_of (rev kvs) ''_CG'' = Some (objectOf J cs)" "map_of (rev cs) ''nodes'' = Some (objectOf J ns)"
    "isNodesJson J cg useName (edgeSet cg) ns"
    "map_of (rev cs) ''meta'' = Some (objectOf J (metaKvs J (v4_nodeToStr cg useName) (metaFields cg)))"
    using j(2) unfolding isFileJson_def by blast
  obtain x y where v: "getMajorVersionFromString (gen_getVersionStr (generatorInfo info)) = Inr x"
    "getMinorVersionFromString (gen_getVersionStr (generatorInfo info)) = Inr y" using version_total by blast
  have "getVersionStr (fmt_version (formatInfo info)) = ''4.0''"
    by (simp add: info new_MCGFileFormatInfo_def getVersionStr_def to_string.simps digit_def char_of_def bit_0 bit_Suc)
  then have "read_V4 J a j = read_cg_V4 J a (objectOf J cs)"
    by (simp add: read_V4_def k(1-3) headerJson_def j_sub_objectOf [OF J] objectOf_laws [OF J] getR_json [OF J] v)
  then show ?thesis using read_cg_V4_file [OF J ok k(5,4,6), of a] j(1) by simp
qed


lemma sample_writable: "writable sample_cg True"
  unfolding writable_def
  by (intro conjI wf_sample_cg) (auto simp: metas_ok_def plainNames_def sample_cg_def nameAt_def OverrideMD_default_def
      less_Suc_eq nth_Cons split: nat.splits if_splits)


end
