(* ===== verification/McgFormatV2_Props.thy ===== *)
theory McgFormatV2_Props
  imports McgFormatV2 McgFormat_Roundtrip
begin

text \<open>
  The two formats side by side: the factory picks the reader that fits what a writer wrote, each reader
  refuses the other format, and version 2 accepts a null graph.
\<close>

section \<open>Headers\<close>

lemma version_string: "getVersionStr (fmt_version (new_MCGFileFormatInfo 4 0)) = ''4.0''"
  "getVersionStr (fmt_version (new_MCGFileFormatInfo 2 0)) = ''2.0''"
  by (simp_all add: new_MCGFileFormatInfo_def getVersionStr_def to_string.simps digit_def char_of_def bit_0 bit_Suc)

lemma header_attached:
  assumes J: "json_laws J" and info: "formatInfo info = new_MCGFileFormatInfo major minor"
  shows "attachMCGFormatHeader J info =
     Inr (objectOf J [(''_MetaCG'', j_null J), (''_CG'', j_null J), (''_MetaCG'', headerJson J info)])"
  using j_set_objectOf [OF J, of "''_MetaCG''" "headerJson J info" "[(''_MetaCG'', j_null J), (''_CG'', j_null J)]"]
  by (simp add: attachMCGFormatHeader_def Let_def info headerJson_def) (simp add: new_MCGFileFormatInfo_def)

text \<open>A file that starts with the header of the given information.\<close>

definition hasHeader :: "'j json_api \<Rightarrow> MCGFileInfo \<Rightarrow> 'j \<Rightarrow> bool" where
  "hasHeader J info j \<longleftrightarrow> (\<exists>kvs. j = objectOf J kvs \<and> map_of (rev kvs) ''_MetaCG'' = Some (headerJson J info))"

lemma write_V2_header:
  assumes J: "json_laws J" and info: "formatInfo info = new_MCGFileFormatInfo 2 0"
    and "write_V2 J v4Info info srt cg = Inr j"
  shows "hasHeader J info j"
proof -
  have "cgFieldName (formatInfo info) = ''_CG''" by (simp add: info new_MCGFileFormatInfo_def)
  then obtain g where "j_set J ''_CG'' g (objectOf J [(''_MetaCG'', j_null J), (''_CG'', j_null J), (''_MetaCG'', headerJson J info)]) = Inr j"
    using assms(3) by (auto simp: write_V2_def header_attached [OF J info] bindR_eq_Inr_iff)
  then show ?thesis unfolding hasHeader_def j_set_objectOf [OF J] by (auto intro!: exI)
qed

lemma format_version_read:
  assumes J: "json_laws J" and "hasHeader J info j"
  shows "getFormatVersion J j = Inr (getVersionStr (fmt_version (formatInfo info)))"
proof -
  obtain kvs where k: "j = objectOf J kvs" "map_of (rev kvs) ''_MetaCG'' = Some (headerJson J info)"
    using assms(2) by (auto simp: hasHeader_def)
  have "getFormatVersion J j = bindR (j_at J (headerJson J info) ''version'') (getR (get_str J))"
    using k by (simp add: getFormatVersion_def contains_objectOf [OF J] objectOf_calls [OF J])
      (simp add: headerJson_def contains_objectOf [OF J])
  then show ?thesis by (simp add: headerJson_def objectOf_calls [OF J] getR_json [OF J])
qed

lemma createReader_V4:
  assumes J: "json_laws J" and ok: "writable cg useName" and info: "formatInfo i4 = new_MCGFileFormatInfo 4 0"
  shows "bindR (write_V4 J i4 useName srt cg) (createReader J) = Inr (Some VersionFourMCGReader)"
proof -
  obtain j where "write_V4 J i4 useName srt cg = Inr j" "isFileJson J i4 cg useName j"
    using write_V4_file [OF J ok info] by blast
  moreover from this have "hasHeader J i4 j" by (auto simp: isFileJson_def hasHeader_def)
  ultimately show ?thesis by (simp add: createReader_def format_version_read [OF J] info version_string)
qed

text \<open>
  A file that a writer has produced is read by the reader of the same format version: the factory
  chooses the version 4 reader for what the version 4 writer wrote and the version 2 reader for what
  the version 2 writer wrote.
\<close>

theorem reader_matches_writer:
  assumes J: "json_laws J"
    and "formatInfo i4 = new_MCGFileFormatInfo 4 0" and "formatInfo i2 = new_MCGFileFormatInfo 2 0"
  shows "(writable cg useName \<longrightarrow> bindR (write_V4 J i4 useName srt cg) (createReader J) = Inr (Some VersionFourMCGReader))
    \<and> (\<forall>j. write_V2 J v4Info i2 srt cg = Inr j \<longrightarrow> createReader J j = Inr (Some VersionTwoMCGReader))"
proof (intro conjI impI allI)
  assume ok: "writable cg useName"
  then show "bindR (write_V4 J i4 useName srt cg) (createReader J) = Inr (Some VersionFourMCGReader)"
    using createReader_V4 [OF J] assms(2) by blast
next
  fix j assume "write_V2 J v4Info i2 srt cg = Inr j"
  then have "hasHeader J i2 j" by (rule write_V2_header [OF J assms(3)])
  then show "createReader J j = Inr (Some VersionTwoMCGReader)"
    by (simp add: createReader_def format_version_read [OF J] assms(3) version_string)
qed

definition sampleInfo :: "nat \<Rightarrow> MCGFileInfo" where
  "sampleInfo major =
     \<lparr>formatInfo = new_MCGFileFormatInfo major 0,
      generatorInfo = \<lparr>gen_name = ''MetaCG'', gen_versionMajor = 0, gen_versionMinor = 7, sha = ''abc''\<rparr>\<rparr>"

lemma sampleInfo_format [simp]: "formatInfo (sampleInfo major) = new_MCGFileFormatInfo major 0"
  by (simp add: sampleInfo_def)

theorem reader_matches_writer_witness:
  "bindR (write_V4 json_model (sampleInfo 4) True False sample_cg) (createReader json_model) = Inr (Some VersionFourMCGReader)"
  using reader_matches_writer [OF json_model_laws, of "sampleInfo 4" "sampleInfo 2" sample_cg True False] sample_writable
  by (simp add: sampleInfo_def)

text \<open>
  Each reader refuses the files of the other format: the version 4 reader throws on what has the
  header of version 2, and the version 2 reader on what has the header of version 4.
\<close>

theorem readers_refuse_other_version:
  assumes J: "json_laws J" and h: "hasHeader J info j"
  shows "(formatInfo info = new_MCGFileFormatInfo 2 0
         \<longrightarrow> read_V4 J a j = Inl (RuntimeError ''Trying to read incompatible file with V4 MCGReader''))
     \<and> (formatInfo info = new_MCGFileFormatInfo 4 0
         \<longrightarrow> read_V2 J a j = Inl (RuntimeError ''File is of version 4.0, this reader handles version 2.x''))"
proof (intro conjI impI)
  obtain kvs where k: "j = objectOf J kvs" "map_of (rev kvs) ''_MetaCG'' = Some (headerJson J info)"
    using h by (auto simp: hasHeader_def)
  obtain x y where v: "getMajorVersionFromString (gen_getVersionStr (generatorInfo info)) = Inr x"
    "getMinorVersionFromString (gen_getVersionStr (generatorInfo info)) = Inr y" using version_total by blast
  show "read_V4 J a j = Inl (RuntimeError ''Trying to read incompatible file with V4 MCGReader'')"
    if i: "formatInfo info = new_MCGFileFormatInfo 2 0"
    by (simp add: read_V4_def k headerJson_def j_sub_objectOf [OF J] objectOf_laws [OF J] getR_json [OF J] v i version_string)
  show "read_V2 J a j = Inl (RuntimeError ''File is of version 4.0, this reader handles version 2.x'')"
    if i: "formatInfo info = new_MCGFileFormatInfo 4 0"
    by (simp add: read_V2_def k objectOf_laws [OF J] contains_objectOf [OF J] objectOf_calls [OF J])
      (simp add: headerJson_def objectOf_laws [OF J] objectOf_calls [OF J] getR_json [OF J] i version_string)
qed

theorem readers_refuse_other_version_witness:
  "read_V4 json_model 0 (objectOf json_model [(''_MetaCG'', headerJson json_model (sampleInfo 2))])
     = Inl (RuntimeError ''Trying to read incompatible file with V4 MCGReader'')"
proof -
  let ?kvs = "[(''_MetaCG'', headerJson json_model (sampleInfo 2))]"
  have "hasHeader json_model (sampleInfo 2) (objectOf json_model ?kvs)"
    unfolding hasHeader_def by (intro exI [of _ ?kvs]) simp
  from readers_refuse_other_version [OF json_model_laws this, of 0] show ?thesis by (simp add: sampleInfo_def)
qed

text \<open>
  The version 2 reader treats a null graph as the empty graph.
\<close>

lemma v2_null_graph:
  assumes J: "json_laws J" and info: "formatInfo info = new_MCGFileFormatInfo 2 0"
  shows "read_V2 J a (objectOf J [(''_MetaCG'', headerJson J info), (''_CG'', j_null J)]) = Inr (empty_cg a, [])"
proof -
  let ?h = "[(''version'', j_str J ''2.0''), (''generator'', objectOf J [(''name'', j_str J (gen_name (generatorInfo info))),
          (''version'', j_str J (gen_getVersionStr (generatorInfo info))), (''sha'', j_str J (sha (generatorInfo info)))])]"
  let ?g = "[(''nodes'', objectOf J []), (''meta'', objectOf J [])]"
  obtain x y where v: "getMajorVersionFromString (gen_getVersionStr (generatorInfo info)) = Inr x"
    "getMinorVersionFromString (gen_getVersionStr (generatorInfo info)) = Inr y" using version_total by blast
  have h: "headerJson J info = objectOf J ?h" by (simp add: headerJson_def info version_string)
  have none: "items J (objectOf J []) = []" by (simp add: j_object_Nil [symmetric] json_containerD [OF J])
  have up: "upgradeV2FormatToV4Format J (objectOf J []) = Inr (objectOf J ?g)"
    by (simp add: upgradeV2FormatToV4Format_def none j_object_Nil j_set_objectOf [OF J])
  let ?j = "objectOf J [(''_MetaCG'', objectOf J ?h), (''_CG'', j_null J), (''_CG'', objectOf J ?g),
      (''_MetaCG'', objectOf J (?h @ [(''version'', j_str J ''4.0'')]))]"
  have "read_V2 J a (objectOf J [(''_MetaCG'', headerJson J info), (''_CG'', j_null J)]) = read_V4 J a ?j"
    by (simp add: read_V2_def h objectOf_laws [OF J] contains_objectOf [OF J] objectOf_calls [OF J] getR_json [OF J]
        v json_scalarD [OF J] j_object_Nil up j_set_objectOf [OF J])
  also have "\<dots> = read_cg_V4 J a (objectOf J ?g)"
    by (simp add: read_V4_def j_sub_objectOf [OF J] objectOf_laws [OF J] getR_json [OF J] v)
  also have "\<dots> = Inr (empty_cg a, [])"
    by (simp add: read_cg_V4_def j_sub_objectOf [OF J] objectOf_laws [OF J] j_iter_objectOf [OF J] none)
  finally show ?thesis .
qed

end
