(* ===== verification/CGDiff.thy ===== *)
theory CGDiff
  imports McgFormatV2 "HOL-Library.Word"
begin

unbundle bit_operations_syntax

text \<open>
  The tool \<open>cgdiff\<close> (\<open>tools/cgdiff\<close>): summaries of nodes, their comparison under a mode, the diffs and the
  comparison of two call graphs. \<open>dump\<close> is the serialisation of a JSON value to text. An
  \<open>unordered_set<string>\<close> is a set and \<open>iter\<close> gives its iteration order; the set of node summaries is a list
  without two summaries of the same name, and \<open>iterN\<close> gives its iteration order.
\<close>

section \<open>Modes\<close>

type_synonym ComparisonMode = "32 word"

definition ignoreEdges :: ComparisonMode where "ignoreEdges = push_bit 0 1"
definition ignoreBody :: ComparisonMode where "ignoreBody = push_bit 1 1"
definition ignoreMetadata :: ComparisonMode where "ignoreMetadata = push_bit 2 1"
definition ignoreEdgeMetadata :: ComparisonMode where "ignoreEdgeMetadata = push_bit 3 1"
definition ignoreGlobalMetadata :: ComparisonMode where "ignoreGlobalMetadata = push_bit 4 1"

definition orMode :: "ComparisonMode \<Rightarrow> ComparisonMode \<Rightarrow> ComparisonMode" where
  "orMode a b = a OR b"

definition hasFlag :: "ComparisonMode \<Rightarrow> ComparisonMode \<Rightarrow> bool" where
  "hasFlag mode flag = (mode AND flag \<noteq> 0)"

definition nameOnlyMode :: ComparisonMode where
  "nameOnlyMode =
     orMode (orMode (orMode (orMode ignoreBody ignoreEdges) ignoreMetadata) ignoreEdgeMetadata) ignoreGlobalMetadata"

section \<open>Summaries\<close>

record NodeSummary =
  ns_name :: string
  ns_hasBody :: bool
  ns_callees :: "string set"
  ns_metadata :: "string set"
  ns_edgeMetadata :: "(string \<times> string set) list"

text \<open>Equality of two \<open>unordered_map\<close>s.\<close>

definition sameEntries :: "('k \<times> 'v) list \<Rightarrow> ('k \<times> 'v) list \<Rightarrow> bool" where
  "sameEntries a b =
     ((\<forall>k \<in> fst ` set a. map_of b k = map_of a k) \<and> (\<forall>k \<in> fst ` set b. map_of a k = map_of b k))"

definition NodeSummaryComparator :: "ComparisonMode \<Rightarrow> NodeSummary \<Rightarrow> NodeSummary \<Rightarrow> bool" where
  "NodeSummaryComparator mode a b =
     (ns_name a = ns_name b
      \<and> (\<not> hasFlag mode ignoreBody \<longrightarrow> ns_hasBody a = ns_hasBody b)
      \<and> (\<not> hasFlag mode ignoreEdges \<longrightarrow> ns_callees a = ns_callees b)
      \<and> (\<not> hasFlag mode ignoreMetadata \<longrightarrow> ns_metadata a = ns_metadata b)
      \<and> (\<not> hasFlag mode ignoreEdgeMetadata \<and> \<not> hasFlag mode ignoreEdges \<longrightarrow> sameEntries (ns_edgeMetadata a) (ns_edgeMetadata b)))"

text \<open>\<open>insert\<close> into the set of summaries, which are equal if their names are.\<close>

definition insertSummary :: "NodeSummary \<Rightarrow> NodeSummary list \<Rightarrow> NodeSummary list" where
  "insertSummary ns summaries =
     (if list_ex (\<lambda>n. NodeSummaryComparator nameOnlyMode n ns) summaries then summaries else summaries @ [ns])"

text \<open>\<open>emplace\<close> keeps an existing entry.\<close>

definition emplace :: "'k \<Rightarrow> 'v \<Rightarrow> ('k \<times> 'v) list \<Rightarrow> ('k \<times> 'v) list" where
  "emplace k v m = (if map_of m k = None then m @ [(k, v)] else m)"

definition NameMapping :: "Callgraph \<Rightarrow> NodeToStr" where
  "NameMapping cg i = bindR (getNode cg i) (\<lambda>p. bindR (derefR p) (\<lambda>n. Inr (functionName n)))"

definition edgeMdString ::
  "'j json_api \<Rightarrow> ('j \<Rightarrow> string) \<Rightarrow> NodeToStr \<Rightarrow> string list \<Rightarrow> string \<times> MetaData \<Rightarrow> string set \<Rightarrow> string set res" where
  "edgeMdString J dump nodeToStr ignoredMdKeys entry emd =
     bindR (md_toJson J nodeToStr (snd entry)) (\<lambda>j.
     Inr (if fst entry \<in> set ignoredMdKeys then emd else insert (fst entry @ '':'' @ dump j) emd))"

definition edgeMdOf ::
  "'j json_api \<Rightarrow> ('j \<Rightarrow> string) \<Rightarrow> NodeToStr \<Rightarrow> string list \<Rightarrow> Callgraph \<Rightarrow> NodeId \<Rightarrow> NodeId
   \<Rightarrow> (string \<times> string set) list \<Rightarrow> (string \<times> string set) list res" where
  "edgeMdOf J dump nodeToStr ignoredMdKeys cg i callee edgeMetaData =
     bindR (getAllEdgeMetaData_id cg (i, callee)) (\<lambda>mds.
     bindR (foldR (edgeMdString J dump nodeToStr ignoredMdKeys) mds {}) (\<lambda>emd.
     bindR (NameMapping cg callee) (\<lambda>name. Inr (emplace name emd edgeMetaData))))"

definition sortMembers :: "'j json_api \<Rightarrow> 'j \<Rightarrow> 'j" where
  "sortMembers J j =
     (if is_object J j then j_object J (map (\<lambda>(k, v). (k, sortIfArray J v)) (items J j)) else j)"

definition nodeMdString ::
  "'j json_api \<Rightarrow> ('j \<Rightarrow> string) \<Rightarrow> NodeToStr \<Rightarrow> string list \<Rightarrow> string \<times> MetaData \<Rightarrow> string set \<Rightarrow> string set res" where
  "nodeMdString J dump nodeToStr ignoredMdKeys entry acc =
     bindR (md_toJson J nodeToStr (snd entry)) (\<lambda>j.
     Inr (if fst entry \<in> set ignoredMdKeys then acc else insert (fst entry @ '':'' @ dump (sortMembers J j)) acc))"

definition nodeSummary ::
  "'j json_api \<Rightarrow> ('j \<Rightarrow> string) \<Rightarrow> ComparisonMode \<Rightarrow> string list \<Rightarrow> Callgraph \<Rightarrow> CgNode option \<Rightarrow> NodeSummary res" where
  "nodeSummary J dump mode ignoredMdKeys cg nodePtr =
     bindR (derefR nodePtr) (\<lambda>node.
     bindR (getCallees_ref cg (self cg, nid node)) (\<lambda>ptrs.
     bindR (mapR derefR ptrs) (\<lambda>callees.
     bindR (mapR (NameMapping cg) callees) (\<lambda>calleeNames.
     bindR (if \<not> hasFlag mode ignoreEdgeMetadata
            then foldR (edgeMdOf J dump (NameMapping cg) ignoredMdKeys cg (nid node)) callees [] else Inr []) (\<lambda>edgeMetaData.
     bindR (if \<not> hasFlag mode ignoreMetadata
            then foldR (nodeMdString J dump (NameMapping cg) ignoredMdKeys) (metaFields node) {} else Inr {}) (\<lambda>nodeMetadata.
     Inr \<lparr>ns_name = functionName node, ns_hasBody = hasBody node, ns_callees = set calleeNames,
          ns_metadata = nodeMetadata, ns_edgeMetadata = edgeMetaData\<rparr>))))))"

definition collectNodeSummaries ::
  "'j json_api \<Rightarrow> ('j \<Rightarrow> string) \<Rightarrow> ComparisonMode \<Rightarrow> string list \<Rightarrow> Callgraph \<Rightarrow> NodeSummary list res" where
  "collectNodeSummaries J dump mode ignoredMdKeys cg =
     foldR (\<lambda>p ns. bindR (nodeSummary J dump mode ignoredMdKeys cg p) (\<lambda>s. Inr (insertSummary s ns))) (nodes cg) []"

section \<open>Diffs\<close>

record EdgeDiff =
  ed_callee :: string
  ed_onlyInA :: bool
  ed_onlyInB :: bool
  ed_metadataOnlyInA :: "string set"
  ed_metadataOnlyInB :: "string set"

record NodeDiff =
  nd_name :: string
  nd_diffType :: "string list"
  nd_in :: string
  nd_edgeDiffs :: "EdgeDiff list"
  nd_metadataOnlyInA :: "string set"
  nd_metadataOnlyInB :: "string set"

record GlobalMDDiff =
  gd_key :: string
  gd_aValue :: string
  gd_bValue :: string

datatype Diff = DiffNode NodeDiff | DiffGlobalMD GlobalMDDiff

definition new_NodeDiff :: "string \<Rightarrow> string list \<Rightarrow> NodeDiff" where
  "new_NodeDiff name types =
     \<lparr>nd_name = name, nd_diffType = types, nd_in = [], nd_edgeDiffs = [], nd_metadataOnlyInA = {}, nd_metadataOnlyInB = {}\<rparr>"

definition onlyInA :: "NodeSummary \<Rightarrow> NodeDiff" where
  "onlyInA a = (new_NodeDiff (ns_name a) [''missingNode''])\<lparr>nd_in := ''cgA''\<rparr>"

definition onlyInB :: "NodeSummary \<Rightarrow> NodeDiff" where
  "onlyInB b = (new_NodeDiff (ns_name b) [''missingNode''])\<lparr>nd_in := ''cgB''\<rparr>"

definition edgeDiffOf :: "NodeSummary \<Rightarrow> NodeSummary \<Rightarrow> bool \<Rightarrow> string \<Rightarrow> EdgeDiff" where
  "edgeDiffOf nsA nsB edgeMetadataDifferent callee =
     (let mds = (if \<not> edgeMetadataDifferent then ({}, {})
                 else case (map_of (ns_edgeMetadata nsA) callee, map_of (ns_edgeMetadata nsB) callee) of
                   (Some a, Some b) \<Rightarrow> (a - b, b - a)
                 | (Some a, None) \<Rightarrow> (a, {})
                 | (None, Some b) \<Rightarrow> ({}, b)
                 | (None, None) \<Rightarrow> ({}, {}))
      in \<lparr>ed_callee = callee, ed_onlyInA = (callee \<notin> ns_callees nsB), ed_onlyInB = (callee \<notin> ns_callees nsA),
          ed_metadataOnlyInA = fst mds, ed_metadataOnlyInB = snd mds\<rparr>)"

definition structuralDiff :: "EdgeDiff \<Rightarrow> bool" where
  "structuralDiff ed = (ed_onlyInA ed \<or> ed_onlyInB ed)"

definition metadataDiff :: "EdgeDiff \<Rightarrow> bool" where
  "metadataDiff ed = (ed_metadataOnlyInA ed \<noteq> {} \<or> ed_metadataOnlyInB ed \<noteq> {})"

definition createNodeDiff :: "(string set \<Rightarrow> string list) \<Rightarrow> NodeSummary \<Rightarrow> NodeSummary \<Rightarrow> ComparisonMode \<Rightarrow> NodeDiff" where
  "createNodeDiff iter nsA nsB mode =
     (let bodyTypes = (if \<not> hasFlag mode ignoreBody \<and> ns_hasBody nsA \<noteq> ns_hasBody nsB then [''differentBody''] else []);
          edgeMetadataDifferent =
            (\<not> hasFlag mode ignoreEdgeMetadata \<and> \<not> sameEntries (ns_edgeMetadata nsA) (ns_edgeMetadata nsB));
          eds = (if hasFlag mode ignoreEdges then []
                 else filter (\<lambda>ed. structuralDiff ed \<or> metadataDiff ed)
                        (map (edgeDiffOf nsA nsB edgeMetadataDifferent) (iter (ns_callees nsA \<union> ns_callees nsB))));
          edgeTypes = (if hasFlag mode ignoreEdges then []
                       else (if list_ex structuralDiff eds \<and> \<not> hasFlag mode ignoreEdges then [''differentEdges''] else [])
                         @ (if list_ex metadataDiff eds \<and> \<not> hasFlag mode ignoreEdgeMetadata then [''differentEdgeMetadata''] else []));
          md = (\<not> hasFlag mode ignoreMetadata \<and> ns_metadata nsA \<noteq> ns_metadata nsB)
      in \<lparr>nd_name = ns_name nsA,
          nd_diffType = bodyTypes @ edgeTypes @ (if md then [''differentMetadata''] else []),
          nd_in = [], nd_edgeDiffs = eds,
          nd_metadataOnlyInA = (if md then ns_metadata nsA - ns_metadata nsB else {}),
          nd_metadataOnlyInB = (if md then ns_metadata nsB - ns_metadata nsA else {})\<rparr>)"

section \<open>Comparing graphs\<close>

text \<open>The loop over the first graph's summaries; matched summaries are erased from the second set.\<close>

definition diffStep ::
  "(string set \<Rightarrow> string list) \<Rightarrow> ComparisonMode \<Rightarrow> NodeSummary \<Rightarrow> Diff list \<times> NodeSummary list \<Rightarrow> Diff list \<times> NodeSummary list" where
  "diffStep iter mode nA st =
     (case List.find (\<lambda>n. NodeSummaryComparator nameOnlyMode n nA) (snd st) of
        None \<Rightarrow> (fst st @ [DiffNode (onlyInA nA)], snd st)
      | Some nB \<Rightarrow>
          (if \<not> NodeSummaryComparator mode nB nA then fst st @ [DiffNode (createNodeDiff iter nA nB mode)] else fst st,
           remove1 nB (snd st)))"

definition compareNodes ::
  "(string set \<Rightarrow> string list) \<Rightarrow> (NodeSummary list \<Rightarrow> NodeSummary list) \<Rightarrow> ComparisonMode
   \<Rightarrow> NodeSummary list \<Rightarrow> NodeSummary list \<Rightarrow> Diff list" where
  "compareNodes iter iterN mode nodesA nodesB =
     (case fold (diffStep iter mode) (iterN nodesA) ([], nodesB) of
        (diffs, rest) \<Rightarrow> diffs @ map (DiffNode \<circ> onlyInB) (iterN rest))"

definition dumpWith :: "'j json_api \<Rightarrow> ('j \<Rightarrow> string) \<Rightarrow> Callgraph \<Rightarrow> MetaData \<Rightarrow> string res" where
  "dumpWith J dump cg md = bindR (md_toJson J (NameMapping cg) md) (\<lambda>j. Inr (dump j))"

definition globalDiffA ::
  "'j json_api \<Rightarrow> ('j \<Rightarrow> string) \<Rightarrow> string list \<Rightarrow> Callgraph \<Rightarrow> Callgraph \<Rightarrow> string \<times> MetaData \<Rightarrow> Diff list \<Rightarrow> Diff list res" where
  "globalDiffA J dump ignoredMdKeys mcgA mcgB entry diffs =
     (if fst entry \<in> set ignoredMdKeys then Inr diffs
      else case map_of (metaFields mcgB) (fst entry) of
        None \<Rightarrow>
          bindR (dumpWith J dump mcgA (snd entry)) (\<lambda>a.
          Inr (diffs @ [DiffGlobalMD \<lparr>gd_key = fst entry, gd_aValue = a, gd_bValue = []\<rparr>]))
      | Some mdB \<Rightarrow>
          bindR (dumpWith J dump mcgB (snd entry)) (\<lambda>a'.
          bindR (dumpWith J dump mcgB mdB) (\<lambda>b.
          if a' \<noteq> b then
            bindR (dumpWith J dump mcgA (snd entry)) (\<lambda>a.
            Inr (diffs @ [DiffGlobalMD \<lparr>gd_key = fst entry, gd_aValue = a, gd_bValue = b\<rparr>]))
          else Inr diffs)))"

definition globalDiffB ::
  "'j json_api \<Rightarrow> ('j \<Rightarrow> string) \<Rightarrow> string list \<Rightarrow> Callgraph \<Rightarrow> string \<times> MetaData \<Rightarrow> Diff list \<Rightarrow> Diff list res" where
  "globalDiffB J dump ignoredMdKeys mcgA entry diffs =
     (if fst entry \<in> set ignoredMdKeys then Inr diffs
      else case map_of (metaFields mcgA) (fst entry) of
        None \<Rightarrow>
          bindR (dumpWith J dump mcgA (snd entry)) (\<lambda>b.
          Inr (diffs @ [DiffGlobalMD \<lparr>gd_key = fst entry, gd_aValue = [], gd_bValue = b\<rparr>]))
      | Some _ \<Rightarrow> Inr diffs)"

definition compare ::
  "'j json_api \<Rightarrow> ('j \<Rightarrow> string) \<Rightarrow> (string set \<Rightarrow> string list) \<Rightarrow> (NodeSummary list \<Rightarrow> NodeSummary list)
   \<Rightarrow> Callgraph \<Rightarrow> Callgraph \<Rightarrow> ComparisonMode \<Rightarrow> string list \<Rightarrow> Diff list res" where
  "compare J dump iter iterN mcgA mcgB mode ignoredMdKeys =
     bindR (collectNodeSummaries J dump mode ignoredMdKeys mcgA) (\<lambda>nodesA.
     bindR (collectNodeSummaries J dump mode ignoredMdKeys mcgB) (\<lambda>nodesB.
     bindR (if \<not> hasFlag ignoreGlobalMetadata mode
            then bindR (foldR (globalDiffA J dump ignoredMdKeys mcgA mcgB) (metaFields mcgA) [])
                   (foldR (globalDiffB J dump ignoredMdKeys mcgA) (metaFields mcgB))
            else Inr []) (\<lambda>globals.
     Inr (globals @ compareNodes iter iterN mode nodesA nodesB))))"

section \<open>Output and the tool\<close>

text \<open>
  The report is built with \<open>ordered_json\<close>, whose operations \<open>OJ\<close> are those of the JSON library; a set of strings
  becomes an array in iteration order.
\<close>

definition jsonSet :: "'o json_api \<Rightarrow> (string set \<Rightarrow> string list) \<Rightarrow> string set \<Rightarrow> 'o" where
  "jsonSet OJ iter S = j_array OJ (map (j_str OJ) (iter S))"

definition edgeInfo :: "'o json_api \<Rightarrow> (string set \<Rightarrow> string list) \<Rightarrow> EdgeDiff \<Rightarrow> 'o res" where
  "edgeInfo OJ iter ed =
     j_sets OJ [(''in'', j_str OJ (if ed_onlyInA ed then ''cgA'' else if ed_onlyInB ed then ''cgB'' else ''both'')),
       (''metadataOnlyInA'', jsonSet OJ iter (ed_metadataOnlyInA ed)), (''metadataOnlyInB'', jsonSet OJ iter (ed_metadataOnlyInB ed))]
       (j_null OJ)"

definition NodeDiff_toJson :: "'o json_api \<Rightarrow> (string set \<Rightarrow> string list) \<Rightarrow> NodeDiff \<Rightarrow> 'o res" where
  "NodeDiff_toJson OJ iter nd =
     bindR (j_sets OJ [(''diffType'', j_array OJ (map (j_str OJ) (nd_diffType nd))),
        (''in'', j_str OJ (if nd_in nd = [] then ''both'' else nd_in nd)),
        (''metadataOnlyInA'', jsonSet OJ iter (nd_metadataOnlyInA nd)), (''metadataOnlyInB'', jsonSet OJ iter (nd_metadataOnlyInB nd))]
        (j_null OJ)) (\<lambda>inner.
     if nd_edgeDiffs nd = [] then Inr inner
     else
       bindR (foldR (\<lambda>ed edgesJson. bindR (edgeInfo OJ iter ed) (\<lambda>e. j_set OJ (ed_callee ed) e edgesJson))
                (nd_edgeDiffs nd) (j_object OJ [])) (\<lambda>edgesJson.
       j_set OJ ''edges'' edgesJson inner))"

definition GlobalMDDiff_toJson :: "'o json_api \<Rightarrow> GlobalMDDiff \<Rightarrow> 'o res" where
  "GlobalMDDiff_toJson OJ gd = j_sets OJ [(''aValue'', j_str OJ (gd_aValue gd)), (''bValue'', j_str OJ (gd_bValue gd))] (j_null OJ)"

definition emitOne :: "'o json_api \<Rightarrow> (string set \<Rightarrow> string list) \<Rightarrow> Diff \<Rightarrow> 'o \<times> 'o \<Rightarrow> ('o \<times> 'o) res" where
  "emitOne OJ iter diff st =
     (case diff of
        DiffNode nd \<Rightarrow>
          bindR (NodeDiff_toJson OJ iter nd) (\<lambda>inner. bindR (j_set OJ (nd_name nd) inner (fst st)) (\<lambda>n. Inr (n, snd st)))
      | DiffGlobalMD gd \<Rightarrow>
          bindR (GlobalMDDiff_toJson OJ gd) (\<lambda>inner. bindR (j_set OJ (gd_key gd) inner (snd st)) (\<lambda>g. Inr (fst st, g))))"

definition emitAsJson ::
  "'o json_api \<Rightarrow> (string set \<Rightarrow> string list) \<Rightarrow> Diff list \<Rightarrow> string list \<Rightarrow> string \<Rightarrow> string \<Rightarrow> 'o res" where
  "emitAsJson OJ iter diffs ignoring cgA cgB =
     bindR (j_sets OJ [(''cgA'', j_str OJ cgA), (''cgB'', j_str OJ cgB), (''ignoring'', j_array OJ (map (j_str OJ) ignoring))] (j_null OJ)) (\<lambda>root.
     bindR (foldR (emitOne OJ iter) diffs (j_object OJ [], j_object OJ [])) (\<lambda>(nodeDiffs, globalMetaDiffs).
     bindR (j_sets OJ [(''nodeDiffs'', nodeDiffs), (''globalMetaDiff'', globalMetaDiffs)] (j_null OJ)) (\<lambda>diffObj.
     j_set OJ ''diff'' diffObj root)))"

text \<open>The parsed command line.\<close>

record DiffOptions =
  opt_help :: bool
  opt_ignoreEdges :: bool
  opt_ignoreHasBody :: bool
  opt_ignoreMd :: bool
  opt_ignoreEdgeMd :: bool
  opt_ignoreGlobalMd :: bool
  opt_ignoreMdKeys :: "string list"
  opt_emitDiffOnSuccess :: bool
  opt_output :: "string option"
  opt_unmatched :: "string list"

definition modeOf :: "DiffOptions \<Rightarrow> ComparisonMode" where
  "modeOf opts =
     fold (\<lambda>(b, flag) mode. if b then orMode mode flag else mode)
       [(opt_ignoreEdges opts, ignoreEdges), (opt_ignoreHasBody opts, ignoreBody), (opt_ignoreMd opts, ignoreMetadata),
        (opt_ignoreEdgeMd opts, ignoreEdgeMetadata), (opt_ignoreGlobalMd opts, ignoreGlobalMetadata)] 0"

definition ignoringOf :: "DiffOptions \<Rightarrow> string list" where
  "ignoringOf opts =
     map snd (filter fst
       [(opt_ignoreEdges opts, ''edges''), (opt_ignoreHasBody opts, ''body''), (opt_ignoreMd opts, ''metadata''),
        (opt_ignoreEdgeMd opts, ''edge-metadata''), (opt_ignoreGlobalMd opts, ''global-metadata'')])
     @ map (\<lambda>k. k @ ''MD'') (opt_ignoreMdKeys opts)"

definition readWith :: "'j json_api \<Rightarrow> nat \<Rightarrow> 'j \<Rightarrow> ReaderKind option \<Rightarrow> Callgraph res" where
  "readWith J a j reader =
     bindR (derefR reader) (\<lambda>kind.
     bindR (case kind of VersionTwoMCGReader \<Rightarrow> read_V2 J a j | VersionFourMCGReader \<Rightarrow> read_V4 J a j) (\<lambda>st.
     Inr (fst st)))"

text \<open>\<open>std::exception\<close>s are caught and give exit status 3. \<open>file\<close> is the contents of a file and \<open>canOpen\<close>
  tells whether the output file can be written.\<close>

definition catchAll :: "int res \<Rightarrow> int res" where
  "catchAll r = (case r of Inl (RuntimeError _) \<Rightarrow> Inr 3 | Inl OutOfRange \<Rightarrow> Inr 3 | _ \<Rightarrow> r)"

definition cgdiff_main ::
  "'j json_api \<Rightarrow> ('j \<Rightarrow> string) \<Rightarrow> (string set \<Rightarrow> string list) \<Rightarrow> (NodeSummary list \<Rightarrow> NodeSummary list)
   \<Rightarrow> (string \<Rightarrow> 'j res) \<Rightarrow> (string \<Rightarrow> bool) \<Rightarrow> DiffOptions \<Rightarrow> int res" where
  "cgdiff_main J dump iter iterN file canOpen opts =
     (if opt_help opts then Inr 0
      else
        case opt_unmatched opts of
          cg1 # cg2 # _ \<Rightarrow>
            catchAll
              (bindR (file cg1) (\<lambda>j1. bindR (createReader J j1) (\<lambda>r1.
               bindR (file cg2) (\<lambda>j2. bindR (createReader J j2) (\<lambda>r2.
               bindR (readWith J 0 j1 r1) (\<lambda>mcgA. bindR (readWith J 1 j2 r2) (\<lambda>mcgB.
               bindR (compare J dump iter iterN mcgA mcgB (modeOf opts) (opt_ignoreMdKeys opts)) (\<lambda>diffs.
               Inr (if (diffs \<noteq> [] \<or> opt_emitDiffOnSuccess opts)
                       \<and> (case opt_output opts of None \<Rightarrow> False | Some f \<Rightarrow> \<not> canOpen f) then 1
                    else if diffs = [] then 0 else 1)))))))))
        | _ \<Rightarrow> Inr 1)"

end
