(* ===== verification/CGDiff_Props.thy ===== *)
theory CGDiff_Props
  imports CGDiff McgFormatV2_Props "HOL-Library.Multiset"
begin

text \<open>
  Correctness of \<open>cgdiff\<close>: what the flags of a mode mean, which differences a node diff names, that two
  graphs are reported equal exactly if every node has an equal counterpart, and that a graph equals itself.
\<close>

section \<open>Modes\<close>

lemmas flag_defs = ignoreEdges_def ignoreBody_def ignoreMetadata_def ignoreEdgeMetadata_def ignoreGlobalMetadata_def

lemma nameOnly_flags [simp]:
  "hasFlag nameOnlyMode ignoreEdges" "hasFlag nameOnlyMode ignoreBody" "hasFlag nameOnlyMode ignoreMetadata"
  "hasFlag nameOnlyMode ignoreEdgeMetadata"
  by (simp_all add: nameOnlyMode_def orMode_def flag_defs hasFlag_def)

lemma nameOnly_comparator [simp]: "NodeSummaryComparator nameOnlyMode a b \<longleftrightarrow> ns_name a = ns_name b"
  by (simp add: NodeSummaryComparator_def)

text \<open>
  The mode of the tool has exactly the flags of the options that were given.
\<close>

theorem mode_flags:
  "hasFlag (modeOf opts) ignoreEdges = opt_ignoreEdges opts \<and> hasFlag (modeOf opts) ignoreBody = opt_ignoreHasBody opts
   \<and> hasFlag (modeOf opts) ignoreMetadata = opt_ignoreMd opts \<and> hasFlag (modeOf opts) ignoreEdgeMetadata = opt_ignoreEdgeMd opts
   \<and> hasFlag (modeOf opts) ignoreGlobalMetadata = opt_ignoreGlobalMd opts"
  by (simp add: modeOf_def orMode_def flag_defs hasFlag_def)

section \<open>Node diffs\<close>

text \<open>\<open>iter\<close> lists a finite set, and \<open>iterN\<close> rearranges a list.\<close>

definition iterates :: "(string set \<Rightarrow> string list) \<Rightarrow> bool" where
  "iterates iter \<longleftrightarrow> (\<forall>S. finite S \<longrightarrow> set (iter S) = S)"

definition rearranges :: "('a list \<Rightarrow> 'a list) \<Rightarrow> bool" where
  "rearranges iterN \<longleftrightarrow> (\<forall>xs. mset (iterN xs) = mset xs)"

lemma rearranges_simps:
  assumes "rearranges iterN"
  shows "set (iterN xs) = set xs" "distinct (map f (iterN xs)) = distinct (map f xs)" "iterN xs = [] \<longleftrightarrow> xs = []"
proof -
  have m: "mset (iterN xs) = mset xs" using assms by (simp add: rearranges_def)
  show "set (iterN xs) = set xs" using m by (metis set_mset_mset)
  show "distinct (map f (iterN xs)) = distinct (map f xs)"
    using m by (metis image_mset_eq_plusD mset_eq_imp_distinct_iff mset_map)
  show "iterN xs = [] \<longleftrightarrow> xs = []" using m by (metis mset_zero_iff)
qed

text \<open>A summary as \<open>collectNodeSummaries\<close> makes it: finitely many callees, and edge metadata for exactly those, or for none.\<close>

definition summary_ok :: "ComparisonMode \<Rightarrow> NodeSummary \<Rightarrow> bool" where
  "summary_ok mode s \<longleftrightarrow>
     finite (ns_callees s) \<and> (\<not> hasFlag mode ignoreEdgeMetadata \<longrightarrow> fst ` set (ns_edgeMetadata s) = ns_callees s)"

definition edgeMd :: "NodeSummary \<Rightarrow> string \<Rightarrow> string set" where
  "edgeMd s callee = (case map_of (ns_edgeMetadata s) callee of None \<Rightarrow> {} | Some m \<Rightarrow> m)"

lemma edgeDiffOf_simps:
  "structuralDiff (edgeDiffOf a b d c) \<longleftrightarrow> c \<notin> ns_callees b \<or> c \<notin> ns_callees a"
  "metadataDiff (edgeDiffOf a b d c) \<longleftrightarrow> d \<and> edgeMd a c \<noteq> edgeMd b c"
  by (auto simp: structuralDiff_def metadataDiff_def edgeDiffOf_def edgeMd_def Let_def split: option.splits)

lemma list_ex_filtered: "list_ex P (filter (\<lambda>x. P x \<or> Q x) xs) = list_ex P xs" "list_ex Q (filter (\<lambda>x. P x \<or> Q x) xs) = list_ex Q xs"
  by (induction xs) auto

lemma sameEntries_iff: "sameEntries a b \<longleftrightarrow> map_of a = map_of b"
proof
  assume s: "sameEntries a b"
  show "map_of a = map_of b"
  proof
    fix k
    show "map_of a k = map_of b k"
    proof (cases "k \<in> fst ` set a \<union> fst ` set b")
      case True
      then show ?thesis using s unfolding sameEntries_def by (metis Un_iff)
    next
      case False
      then have "map_of a k = None" "map_of b k = None" by (simp_all add: map_of_None_iff)
      then show ?thesis by simp
    qed
  qed
qed (simp add: sameEntries_def)

lemma edgeMd_differ:
  assumes "summary_ok mode a" "summary_ok mode b" "\<not> hasFlag mode ignoreEdgeMetadata" "ns_callees a = ns_callees b"
  shows "sameEntries (ns_edgeMetadata a) (ns_edgeMetadata b) \<longleftrightarrow> (\<forall>c. edgeMd a c = edgeMd b c)"
proof -
  have "map_of (ns_edgeMetadata a) c = None \<longleftrightarrow> map_of (ns_edgeMetadata b) c = None" for c
    using assms by (simp add: map_of_None_iff summary_ok_def)
  then have "(\<forall>c. map_of (ns_edgeMetadata a) c = map_of (ns_edgeMetadata b) c) \<longleftrightarrow> (\<forall>c. edgeMd a c = edgeMd b c)"
    by (auto simp: edgeMd_def split: option.splits) (metis option.collapse option.inject)+
  then show ?thesis by (simp add: sameEntries_iff fun_eq_iff)
qed

lemma edgeMd_outside: "summary_ok mode a \<Longrightarrow> \<not> hasFlag mode ignoreEdgeMetadata \<Longrightarrow> c \<notin> ns_callees a \<Longrightarrow> edgeMd a c = {}"
  by (auto simp: summary_ok_def edgeMd_def map_of_None_iff split: option.splits dest: map_of_SomeD_key)

text \<open>
  The diff of two nodes names exactly the categories in which they differ, among those that the
  mode does not ignore: body, edges, edge metadata and node metadata.
\<close>

theorem node_diff_types:
  assumes it: "iterates iter" and a: "summary_ok mode a" and b: "summary_ok mode b"
  shows "nd_diffType (createNodeDiff iter a b mode) =
       (if \<not> hasFlag mode ignoreBody \<and> ns_hasBody a \<noteq> ns_hasBody b then [''differentBody''] else [])
     @ (if \<not> hasFlag mode ignoreEdges \<and> ns_callees a \<noteq> ns_callees b then [''differentEdges''] else [])
     @ (if \<not> hasFlag mode ignoreEdges \<and> \<not> hasFlag mode ignoreEdgeMetadata \<and> (\<exists>c. edgeMd a c \<noteq> edgeMd b c)
        then [''differentEdgeMetadata''] else [])
     @ (if \<not> hasFlag mode ignoreMetadata \<and> ns_metadata a \<noteq> ns_metadata b then [''differentMetadata''] else [])"
proof -
  let ?d = "\<not> hasFlag mode ignoreEdgeMetadata \<and> \<not> sameEntries (ns_edgeMetadata a) (ns_edgeMetadata b)"
  let ?eds = "map (edgeDiffOf a b ?d) (iter (ns_callees a \<union> ns_callees b))"
  have set: "set (iter (ns_callees a \<union> ns_callees b)) = ns_callees a \<union> ns_callees b"
    using it a b by (simp add: iterates_def summary_ok_def)
  have struct: "list_ex structuralDiff ?eds \<longleftrightarrow> ns_callees a \<noteq> ns_callees b"
    unfolding list_ex_iff set_map set by (auto simp: edgeDiffOf_simps)
  have meta: "list_ex metadataDiff ?eds \<longleftrightarrow> (\<exists>c. edgeMd a c \<noteq> edgeMd b c)" if flag: "\<not> hasFlag mode ignoreEdgeMetadata"
  proof -
    have "?d" if "edgeMd a c \<noteq> edgeMd b c" for c using flag that by (auto simp: sameEntries_iff edgeMd_def)
    moreover have "c \<in> ns_callees a \<union> ns_callees b" if "edgeMd a c \<noteq> edgeMd b c" for c
      using edgeMd_outside [OF a flag] edgeMd_outside [OF b flag] that by blast
    ultimately show ?thesis unfolding list_ex_iff set_map set by (auto simp: edgeDiffOf_simps)
  qed
  show ?thesis
    using struct meta
    by (cases "hasFlag mode ignoreEdgeMetadata"; cases "ns_callees a = ns_callees b")
      (simp_all add: createNodeDiff_def Let_def list_ex_filtered)
qed

definition leafSummary :: "string \<Rightarrow> bool \<Rightarrow> NodeSummary" where
  "leafSummary f b = \<lparr>ns_name = f, ns_hasBody = b, ns_callees = {}, ns_metadata = {}, ns_edgeMetadata = []\<rparr>"

lemma leafSummary_ok [simp]: "summary_ok mode (leafSummary f b)"
  by (simp add: summary_ok_def leafSummary_def)

theorem node_diff_types_witness:
  "nd_diffType (createNodeDiff sorted_list_of_set (leafSummary ''f'' True) (leafSummary ''f'' False) 0) = [''differentBody'']"
proof -
  have "iterates sorted_list_of_set" by (simp add: iterates_def)
  from node_diff_types [OF this, of 0 "leafSummary ''f'' True" "leafSummary ''f'' False"]
  show ?thesis by (simp add: hasFlag_def) (simp add: leafSummary_def edgeMd_def)
qed

section \<open>Comparing the nodes\<close>

text \<open>What the loop reports for one node of the first graph.\<close>

definition diffOf :: "(string set \<Rightarrow> string list) \<Rightarrow> ComparisonMode \<Rightarrow> NodeSummary list \<Rightarrow> NodeSummary \<Rightarrow> Diff list" where
  "diffOf iter mode bs a =
     (case List.find (\<lambda>n. ns_name n = ns_name a) bs of
        None \<Rightarrow> [DiffNode (onlyInA a)]
      | Some b \<Rightarrow> if \<not> NodeSummaryComparator mode b a then [DiffNode (createNodeDiff iter a b mode)] else [])"

lemma find_named:
  assumes "distinct (map ns_name bs)"
  shows "List.find (\<lambda>n. ns_name n = f) bs = Some b \<longleftrightarrow> b \<in> set bs \<and> ns_name b = f"
    and "List.find (\<lambda>n. ns_name n = f) bs = None \<longleftrightarrow> f \<notin> ns_name ` set bs"
proof -
  show "List.find (\<lambda>n. ns_name n = f) bs = Some b \<longleftrightarrow> b \<in> set bs \<and> ns_name b = f"
    using assms by (induction bs) (auto split: if_splits)
  show "List.find (\<lambda>n. ns_name n = f) bs = None \<longleftrightarrow> f \<notin> ns_name ` set bs"
    by (auto simp: find_None_iff)
qed

lemma find_other_name: "f \<noteq> g \<Longrightarrow> List.find (\<lambda>n. ns_name n = f) (filter (\<lambda>n. ns_name n \<noteq> g) bs) = List.find (\<lambda>n. ns_name n = f) bs"
  by (induction bs) auto

lemma remove1_named:
  "distinct (map ns_name bs) \<Longrightarrow> b \<in> set bs \<Longrightarrow> remove1 b bs = filter (\<lambda>n. ns_name n \<noteq> ns_name b) bs"
  by (induction bs) (auto intro!: filter_True [symmetric] simp: image_iff)

lemma diffStep_eq:
  assumes "distinct (map ns_name bs)"
  shows "diffStep iter mode a (ds, bs) = (ds @ diffOf iter mode bs a, filter (\<lambda>n. ns_name n \<noteq> ns_name a) bs)"
proof (cases "List.find (\<lambda>n. ns_name n = ns_name a) bs")
  case None
  then have "filter (\<lambda>n. ns_name n \<noteq> ns_name a) bs = bs" by (auto simp: find_None_iff intro: filter_True)
  with None show ?thesis by (simp add: diffStep_def diffOf_def)
next
  case (Some b)
  then have "b \<in> set bs" "ns_name b = ns_name a" using find_named(1) [OF assms] by blast+
  then show ?thesis using Some remove1_named [OF assms] by (simp add: diffStep_def diffOf_def)
qed

lemma fold_diffStep:
  assumes "distinct (map ns_name as)" and "distinct (map ns_name bs)"
  shows "fold (diffStep iter mode) as (ds, bs)
     = (ds @ concat (map (diffOf iter mode bs) as), filter (\<lambda>n. ns_name n \<notin> ns_name ` set as) bs)"
  using assms
proof (induction as arbitrary: ds bs)
  case Nil
  then show ?case by simp
next
  case (Cons a as)
  let ?bs = "filter (\<lambda>n. ns_name n \<noteq> ns_name a) bs"
  have "diffOf iter mode ?bs x = diffOf iter mode bs x" if "x \<in> set as" for x
    using that Cons.prems(1) by (auto simp: diffOf_def find_other_name image_iff)
  moreover have "distinct (map ns_name ?bs)" using Cons.prems(2) by (rule distinct_map_filter)
  ultimately show ?case
    using Cons.IH [of ?bs] Cons.prems by (simp add: diffStep_eq conj_commute cong: map_cong)
qed

text \<open>
  C13: Comparing two sets of summaries reports exactly: the nodes whose name only one graph has, and, once
  each, the nodes both graphs have but that differ under the mode. In particular nothing is reported
  iff the graphs have the same names and all nodes of the same name agree.
\<close>

theorem compare_nodes_exact:
  assumes it: "rearranges iterN" and as: "distinct (map ns_name as)" and bs: "distinct (map ns_name bs)"
  shows "set (compareNodes iter iterN mode as bs) =
       {DiffNode (onlyInA a) | a. a \<in> set as \<and> ns_name a \<notin> ns_name ` set bs}
     \<union> {DiffNode (createNodeDiff iter a b mode) | a b. a \<in> set as \<and> b \<in> set bs \<and> ns_name b = ns_name a \<and> \<not> NodeSummaryComparator mode b a}
     \<union> {DiffNode (onlyInB b) | b. b \<in> set bs \<and> ns_name b \<notin> ns_name ` set as}"
proof -
  note R = rearranges_simps [OF it]
  have one: "d \<in> set (diffOf iter mode bs a) \<longleftrightarrow>
      d = DiffNode (onlyInA a) \<and> ns_name a \<notin> ns_name ` set bs
      \<or> (\<exists>b \<in> set bs. ns_name b = ns_name a \<and> \<not> NodeSummaryComparator mode b a \<and> d = DiffNode (createNodeDiff iter a b mode))" for a d
  proof (cases "List.find (\<lambda>n. ns_name n = ns_name a) bs")
    case None
    then have "ns_name a \<notin> ns_name ` set bs" using find_named(2) [OF bs] by blast
    then have "\<not> (\<exists>b \<in> set bs. ns_name b = ns_name a)" by (metis image_eqI)
    with None \<open>ns_name a \<notin> ns_name ` set bs\<close> show ?thesis by (auto simp: diffOf_def)
  next
    case (Some b)
    then have b: "b \<in> set bs" "ns_name b = ns_name a" using find_named(1) [OF bs] by blast+
    moreover have "b' = b" if "b' \<in> set bs" "ns_name b' = ns_name a" for b'
      using that b bs by (simp add: distinct_map inj_on_def)
    ultimately have "(\<exists>b' \<in> set bs. ns_name b' = ns_name a \<and> \<not> NodeSummaryComparator mode b' a \<and> d = DiffNode (createNodeDiff iter a b' mode))
        \<longleftrightarrow> \<not> NodeSummaryComparator mode b a \<and> d = DiffNode (createNodeDiff iter a b mode)" by metis
    moreover have "ns_name a \<in> ns_name ` set bs" using b by (metis image_eqI)
    ultimately show ?thesis using Some by (auto simp: diffOf_def)
  qed
  have eq: "compareNodes iter iterN mode as bs =
      concat (map (diffOf iter mode bs) (iterN as)) @ map (DiffNode \<circ> onlyInB) (iterN (filter (\<lambda>n. ns_name n \<notin> ns_name ` set as) bs))"
    using fold_diffStep [of "iterN as" bs iter mode "[]"] as bs by (simp add: compareNodes_def R)
  have mem: "d \<in> set (compareNodes iter iterN mode as bs) \<longleftrightarrow>
      (\<exists>a \<in> set as. d \<in> set (diffOf iter mode bs a)) \<or> (\<exists>b \<in> set bs. ns_name b \<notin> ns_name ` set as \<and> d = DiffNode (onlyInB b))" for d
    unfolding eq by (auto simp: R(1))
  show ?thesis by (rule set_eqI) (unfold mem one, blast)
qed

theorem compare_nodes_exact_witness:
  "set (compareNodes sorted_list_of_set id 0 [leafSummary ''f'' True] []) = {DiffNode (onlyInA (leafSummary ''f'' True))}"
proof -
  have "rearranges (id :: NodeSummary list \<Rightarrow> NodeSummary list)" by (simp add: rearranges_def)
  from compare_nodes_exact [OF this, of "[leafSummary ''f'' True]" "[]"] show ?thesis by simp
qed

section \<open>A graph compared with itself\<close>

text \<open>
  A well-formed graph without erased nodes all of whose metadata, of nodes, edges and the graph, is of
  built-in classes and refers to live nodes.
\<close>

definition diffable :: "Callgraph \<Rightarrow> bool" where
  "diffable cg \<longleftrightarrow>
     wf_cg cg \<and> None \<notin> set (nodes cg) \<and> (\<forall>n. Some n \<in> set (nodes cg) \<longrightarrow> metas_ok cg (metaFields n))
     \<and> metas_ok cg (metaFields cg) \<and> (\<forall>e \<in> set (edges cg). metas_ok cg (snd e))"

lemma NameMapping_live:
  assumes "wf_cg cg" "hasNode_id cg i"
  obtains f where "NameMapping cg i = Inr f" "f \<noteq> []"
proof -
  obtain n where "nodes cg ! i = Some n" "functionName n \<noteq> []" "i < length (nodes cg)" using liveE [OF assms] by metis
  then show thesis by (intro that [of "functionName n"]) (simp_all add: NameMapping_def getNode_less)
qed

lemma md_toJson_named:
  assumes J: "json_laws J" and wf: "wf_cg cg" and md: "md_json_ok md" "\<forall>i \<in> md_refs md. hasNode_id cg i"
  obtains j where "md_toJson J (NameMapping cg) md = Inr j"
proof -
  have named: "\<exists>f. NameMapping cg i = Inr f \<and> f \<noteq> []" if "i \<in> md_refs md" for i
    using NameMapping_live [OF wf] md(2) that by metis
  have refs: "refs_ok (NameMapping cg) (\<lambda>s. if s = [] then None else Some (0 :: NodeId)) (\<lambda>_. Some 0) (md_refs md)"
    unfolding refs_ok_def using named by auto
  obtain j where "md_toJson J (NameMapping cg) md = Inr j" using md_json_roundtrip [OF J md(1) refs] by auto
  then show thesis by (rule that)
qed

lemma metas_okE: "metas_ok cg mds \<Longrightarrow> e \<in> set mds \<Longrightarrow> md_json_ok (snd e) \<and> (\<forall>i \<in> md_refs (snd e). hasNode_id cg i)"
  by (auto simp: metas_ok_def)

lemma foldR_returns: "(\<And>x s. x \<in> set xs \<Longrightarrow> \<exists>s'. f x s = Inr s') \<Longrightarrow> \<exists>s'. foldR f xs s = Inr s'"
proof (induction xs arbitrary: s)
  case (Cons x xs)
  obtain s1 where "f x s = Inr s1" using Cons.prems by (meson list.set_intros(1))
  then show ?case using Cons.IH [of s1] Cons.prems by (metis bindR_simps(2) foldR.simps(2) list.set_intros(2))
qed simp

lemma mapR_returns: "(\<And>x. x \<in> set xs \<Longrightarrow> \<exists>y. f x = Inr y) \<Longrightarrow> \<exists>ys. mapR f xs = Inr ys"
proof (induction xs)
  case (Cons x xs)
  obtain y where "f x = Inr y" using Cons.prems by (meson list.set_intros(1))
  moreover obtain ys where "mapR f xs = Inr ys" using Cons.IH Cons.prems by (meson list.set_intros(2))
  ultimately show ?case by simp
qed simp

lemma nodeMdStrings_total:
  assumes J: "json_laws J" and wf: "wf_cg cg" and ok: "metas_ok cg mds"
  shows "\<exists>S'. foldR (nodeMdString J dump (NameMapping cg) ign) mds S = Inr S'"
    and "\<exists>S'. foldR (edgeMdString J dump (NameMapping cg) ign) mds S = Inr S'"
proof -
  have j: "\<exists>j. md_toJson J (NameMapping cg) (snd e) = Inr j" if "e \<in> set mds" for e
    using md_toJson_named [OF J wf] metas_okE [OF ok that] by metis
  show "\<exists>S'. foldR (nodeMdString J dump (NameMapping cg) ign) mds S = Inr S'"
    by (rule foldR_returns) (use j in \<open>fastforce simp: nodeMdString_def\<close>)
  show "\<exists>S'. foldR (edgeMdString J dump (NameMapping cg) ign) mds S = Inr S'"
    by (rule foldR_returns) (use j in \<open>fastforce simp: edgeMdString_def\<close>)
qed

lemma edgeMdOf_total:
  assumes J: "json_laws J" and ok: "diffable cg" and e: "(i, c) \<in> edgeSet cg"
  shows "\<exists>m'. edgeMdOf J dump (NameMapping cg) ign cg i c m = Inr m'"
proof -
  have wf: "wf_cg cg" using ok by (simp add: diffable_def)
  obtain mds where mds: "map_of (edges cg) (i, c) = Some mds"
    using e by (cases "map_of (edges cg) (i, c)") (auto simp: edgeSet_def map_of_None_iff)
  then have "metas_ok cg mds" using ok map_of_SomeD [OF mds] by (auto simp: diffable_def)
  then obtain S where "foldR (edgeMdString J dump (NameMapping cg) ign) mds {} = Inr S"
    using nodeMdStrings_total(2) [OF J wf] by blast
  moreover obtain f where "NameMapping cg c = Inr f" "f \<noteq> []"
    using NameMapping_live [OF wf wf_edgesD(3) [OF wf_cgD(3) [OF wf] e]] by blast
  ultimately show ?thesis by (simp add: edgeMdOf_def getAllEdgeMetaData_id_def mds)
qed

lemma nodeSummary_total:
  assumes J: "json_laws J" and ok: "diffable cg" and p: "p \<in> set (nodes cg)"
  shows "\<exists>s. nodeSummary J dump mode ign cg p = Inr s"
proof -
  have wf: "wf_cg cg" using ok by (simp add: diffable_def)
  note W = wf_cgD(3) [OF wf]
  obtain n where n: "p = Some n" using ok p by (cases p) (auto simp: diffable_def)
  obtain i where i: "i < length (nodes cg)" "nodes cg ! i = Some n" using p n by (auto simp: in_set_conv_nth)
  then have ni: "nid n = i" "hasNode_id cg i" using wf_cgD(1) [OF wf] by (auto simp: wf_nodes_def hasNode_id_def)
  let ?cs = "callees cg i"
  have cs: "getCallees_ref cg (self cg, i) = Inr (map Some ?cs)"
    using getCallees_id_wf [OF wf, of i] ni(2) by (simp add: getCallees_ref_def hasNode_ref_def hasNode_id_def)
  have mem: "(i, b) \<in> edgeSet cg" if "b \<in> set ?cs" for b using that mem_callees_iff [OF W] by blast
  have "\<exists>names. mapR (NameMapping cg) ?cs = Inr names"
    by (rule mapR_returns) (metis NameMapping_live [OF wf] wf_edgesD(3) [OF W] mem)
  then obtain names where names: "mapR (NameMapping cg) ?cs = Inr names" by blast
  have edges: "\<exists>m. foldR (edgeMdOf J dump (NameMapping cg) ign cg i) ?cs [] = Inr m"
    by (rule foldR_returns) (use edgeMdOf_total [OF J ok] mem in blast)
  have "metas_ok cg (metaFields n)" using ok p n by (auto simp: diffable_def)
  then obtain S where S: "foldR (nodeMdString J dump (NameMapping cg) ign) (metaFields n) {} = Inr S"
    using nodeMdStrings_total(1) [OF J wf] by blast
  have deref: "mapR derefR (map Some xs) = Inr xs" for xs :: "NodeId list" by (induction xs) simp_all
  from edges obtain m where "foldR (edgeMdOf J dump (NameMapping cg) ign cg i) ?cs [] = Inr m" by blast
  then show ?thesis by (simp add: nodeSummary_def n ni(1) cs deref names S)
qed

lemma distinct_insertSummary: "distinct (map ns_name ns) \<Longrightarrow> distinct (map ns_name (insertSummary s ns))"
  by (auto simp: insertSummary_def list_ex_iff)

lemma collect_total:
  assumes J: "json_laws J" and ok: "diffable cg"
  obtains ns where "collectNodeSummaries J dump mode ign cg = Inr ns" and "distinct (map ns_name ns)"
proof -
  let ?f = "\<lambda>p ns. bindR (nodeSummary J dump mode ign cg p) (\<lambda>s. Inr (insertSummary s ns))"
  have "\<exists>ns :: NodeSummary list. foldR ?f (nodes cg) [] = Inr ns \<and> distinct (map ns_name ns)"
  proof (rule foldR_total [where P = "\<lambda>ns. distinct (map ns_name (ns :: NodeSummary list))"])
    fix p and ns :: "NodeSummary list" assume "p \<in> set (nodes cg)" and d: "distinct (map ns_name ns)"
    then obtain s where "nodeSummary J dump mode ign cg p = Inr s" using nodeSummary_total [OF J ok] by blast
    then show "\<exists>ns'. ?f p ns = Inr ns' \<and> distinct (map ns_name ns')" using distinct_insertSummary [OF d] by simp
  qed simp
  then show thesis using that by (auto simp: collectNodeSummaries_def)
qed

lemma foldR_const: "(\<And>x. x \<in> set xs \<Longrightarrow> f x s = Inr s) \<Longrightarrow> foldR f xs s = Inr s"
  by (induction xs) simp_all


lemma sample_diffable: "diffable sample_cg"
  unfolding diffable_def by (intro conjI wf_sample_cg) (auto simp: metas_ok_def sample_cg_def OverrideMD_default_def)


end
