(* ===== verification/CgQuery.thy ===== *)
theory CgQuery
  imports CGDiff_Props Dominators
begin

text \<open>
  The tool \<open>cgquery\<close> (\<open>tools/cgquery\<close>): finding a node by ID or name and the commands \<open>reaches\<close>, \<open>dom\<close> and
  \<open>postdom\<close>. A command returns its exit code and the lines it prints to the standard output; \<open>file\<close> is the
  contents of a file and \<open>iterI\<close> the iteration order of a set of nodes. Parsing of the command line is left to
  the option library: the records hold its result.
\<close>

section \<open>Finding nodes\<close>

definition exitSuccess :: int where "exitSuccess = 0"
definition exitError :: int where "exitError = 1"
definition exitUsage :: int where "exitUsage = 2"

definition isNumber :: "string \<Rightarrow> bool" where
  "isNumber s = (s \<noteq> [] \<and> list_all isdigit s)"

text \<open>\<open>std::stoul\<close> of a non-empty string of digits.\<close>

definition stoul :: "string \<Rightarrow> nat res" where
  "stoul s = (let n = from_digits 0 s in if n < 2 ^ 64 then Inr n else Inl OutOfRange)"

definition findNode :: "Callgraph \<Rightarrow> string \<Rightarrow> CgNode option res" where
  "findNode cg spec = (if isNumber spec then bindR (stoul spec) (getNode cg) else getFirstNode cg spec)"

section \<open>Commands\<close>

record ReachesArgs =
  ra_help :: bool
  ra_source :: "string option"
  ra_to :: "string option"
  ra_input :: "string option"

definition openGraph :: "'j json_api \<Rightarrow> (string \<Rightarrow> 'j res) \<Rightarrow> string \<Rightarrow> Callgraph res" where
  "openGraph J file cg_name =
     bindR (file cg_name) (\<lambda>j. bindR (createReader J j) (\<lambda>reader. readWith J 0 j reader))"

definition namesOf :: "(NodeId set \<Rightarrow> NodeId list) \<Rightarrow> Callgraph \<Rightarrow> NodeId set \<Rightarrow> string list res" where
  "namesOf iterI cg S = mapR (NameMapping cg) (iterI S)"

text \<open>An option without a value makes the option library throw, which the command catches.\<close>

definition ReachesCommand_run ::
  "'j json_api \<Rightarrow> (string \<Rightarrow> 'j res) \<Rightarrow> (NodeId set \<Rightarrow> NodeId list) \<Rightarrow> ReachesArgs \<Rightarrow> (int \<times> string list) res" where
  "ReachesCommand_run J file iterI args =
     (if ra_help args then Inr (exitSuccess, [])
      else
        case ra_input args of
          None \<Rightarrow> Inr (exitError, [])
        | Some cg_name \<Rightarrow>
            bindR (openGraph J file cg_name) (\<lambda>cg.
            case ra_source args of
              None \<Rightarrow> Inr (exitUsage, [])
            | Some sourceStr \<Rightarrow>
                bindR (findNode cg sourceStr) (\<lambda>sourceNode.
                case sourceNode of
                  None \<Rightarrow> Inr (exitError, [])
                | Some src \<Rightarrow>
                    (case ra_to args of
                       Some toName \<Rightarrow>
                         bindR (findNode cg toName) (\<lambda>toNode.
                         case toNode of
                           None \<Rightarrow> Inr (exitError, [])
                         | Some dest \<Rightarrow>
                             bindR (existsPathBetween cg (nid src) (nid dest) True new_ReachabilityAnalysis) (\<lambda>(path, _).
                             Inr (if \<not> path then 1 else 0, [])))
                     | None \<Rightarrow>
                         bindR (getReachableNodesFrom cg (nid src) True new_ReachabilityAnalysis) (\<lambda>(reachable, _).
                         bindR (namesOf iterI cg reachable) (\<lambda>names.
                         Inr (exitSuccess, ''Reachable nodes:'' # names)))))))"

text \<open>\<open>dom\<close> and \<open>postdom\<close> differ in the direction; \<open>None\<close> is an analysis that does not end.\<close>

record DomArgs =
  da_help :: bool
  da_node :: "string option"
  da_ref :: "string option"
  da_input :: "string option"

definition printDoms ::
  "(NodeId set \<Rightarrow> NodeId list) \<Rightarrow> Callgraph \<Rightarrow> NodeId \<Rightarrow> DomMap \<Rightarrow> (int \<times> string list) res" where
  "printDoms iterI cg target M =
     (let data = the (ensure target M target) in
      if \<not> initialized data then Inr (exitError, [])
      else bindR (namesOf iterI cg (Doms data)) (\<lambda>names. Inr (exitSuccess, names)))"

definition domQuery ::
  "(NodeId set \<Rightarrow> NodeId list) \<Rightarrow> TraverseDir \<Rightarrow> Callgraph \<Rightarrow> string \<Rightarrow> string \<Rightarrow> (int \<times> string list) res option" where
  "domQuery iterI dir cg nodeName refName =
     (case bindR (findNode cg nodeName) (\<lambda>t. bindR (findNode cg refName) (\<lambda>r. Inr (t, r))) of
        Inl e \<Rightarrow> Some (Inl e)
      | Inr (Some target, Some ref) \<Rightarrow>
          map_option (\<lambda>r. bindR r (printDoms iterI cg (nid target))) (computeDominators dir cg (nid ref))
      | Inr _ \<Rightarrow> Some (Inr (exitError, [])))"

definition runDom ::
  "'j json_api \<Rightarrow> (string \<Rightarrow> 'j res) \<Rightarrow> (NodeId set \<Rightarrow> NodeId list) \<Rightarrow> TraverseDir \<Rightarrow> DomArgs \<Rightarrow> (int \<times> string list) res option" where
  "runDom J file iterI dir args =
     (if da_help args then Some (Inr (exitSuccess, []))
      else
        case (da_node args, da_ref args) of
          (Some nodeName, Some refName) \<Rightarrow>
            (case da_input args of
               None \<Rightarrow> Some (Inr (exitError, []))
             | Some cg_name \<Rightarrow>
                 (case openGraph J file cg_name of
                    Inl e \<Rightarrow> Some (Inl e)
                  | Inr cg \<Rightarrow> domQuery iterI dir cg nodeName refName))
        | _ \<Rightarrow> Some (Inr (exitSuccess, [])))"

definition DomCommand_run ::
  "'j json_api \<Rightarrow> (string \<Rightarrow> 'j res) \<Rightarrow> (NodeId set \<Rightarrow> NodeId list) \<Rightarrow> DomArgs \<Rightarrow> (int \<times> string list) res option" where
  "DomCommand_run J file iterI = runDom J file iterI Forward"

definition PostDomCommand_run ::
  "'j json_api \<Rightarrow> (string \<Rightarrow> 'j res) \<Rightarrow> (NodeId set \<Rightarrow> NodeId list) \<Rightarrow> DomArgs \<Rightarrow> (int \<times> string list) res option" where
  "PostDomCommand_run J file iterI = runDom J file iterI Backward"

section \<open>Correctness\<close>

lemma findNode_Some:
  assumes "wf_cg cg" and "findNode cg spec = Inr (Some n)"
  shows "hasNode_id cg (nid n)"
proof (cases "isNumber spec")
  case True
  then obtain i where i: "getNode cg i = Inr (Some n)" using assms(2) by (auto simp: findNode_def bindR_eq_Inr_iff)
  then have "i < length (nodes cg)" "nodes cg ! i = Some n" by (auto simp: getNode_def nthR_def split: if_splits)
  moreover from this have "nid n = i" using wf_cgD(1) [OF assms(1)] by (simp add: wf_nodes_def)
  ultimately show ?thesis by (simp add: hasNode_id_def)
next
  case False
  then have "getFirstNode cg spec = Inr (Some n)" using assms(2) by (simp add: findNode_def)
  from getFirstNode_Some(1) [OF assms(1) this] show ?thesis by (simp add: hasNode_id_iff_nameAt)
qed

lemma walk_nodes: "walk E a b ps \<Longrightarrow> set ps \<subseteq> {n. (a, n) \<in> E\<^sup>*}"
proof (induction rule: walk.induct)
  case (walk_step b ps c)
  have "b \<in> set ps" using walk_step.hyps(1) by (simp add: walk_ends)
  then have "(a, b) \<in> E\<^sup>*" using walk_step.IH by blast
  then show ?case using walk_step.IH walk_step.hyps(2) by (auto intro: rtrancl_into_rtrancl)
qed simp

lemma dominators_live:
  assumes wf: "wf_cg cg" and e: "hasNode_id cg e" and n: "(e, n) \<in> (dir_edges dir cg)\<^sup>*"
  shows "finite {d. dominates (dir_edges dir cg) e d n}"
    and "dominates (dir_edges dir cg) e d n \<Longrightarrow> hasNode_id cg d"
proof -
  obtain ps where ps: "walk (dir_edges dir cg) e n ps" using reachable_walk [OF n] by blast
  then have sub: "{d. dominates (dir_edges dir cg) e d n} \<subseteq> set ps" by (auto simp: dominates_def)
  then show "finite {d. dominates (dir_edges dir cg) e d n}" by (rule finite_subset) simp
  have live: "hasNode_id cg m" if "(e, m) \<in> (dir_edges dir cg)\<^sup>*" for m
    using fwd.reach_live [OF wf e, of m] bwd.reach_live [OF wf e, of m] that
    by (cases dir) (simp_all add: dir_edges_def fwd.reach_def bwd.reach_def)
  show "hasNode_id cg d" if "dominates (dir_edges dir cg) e d n"
    using walk_nodes [OF ps] sub that live by blast
qed

lemma namesOf_live:
  assumes wf: "wf_cg cg" and live: "\<And>i. i \<in> set (iterI S) \<Longrightarrow> hasNode_id cg i"
  obtains names where "namesOf iterI cg S = Inr names" "set names = {f. \<exists>i \<in> set (iterI S). nameAt cg i = Some f}"
proof -
  have name: "NameMapping cg i = Inr (the (nameAt cg i)) \<and> nameAt cg i \<noteq> None" if "hasNode_id cg i" for i
  proof -
    obtain n where "nodes cg ! i = Some n" "i < length (nodes cg)" using liveE [OF wf \<open>hasNode_id cg i\<close>] by metis
    then show ?thesis by (simp add: NameMapping_def getNode_less nameAt_def)
  qed
  have "namesOf iterI cg S = Inr (map (\<lambda>i. the (nameAt cg i)) (iterI S))"
    unfolding namesOf_def by (rule mapR_eq_Inr) (use name live in blast)
  moreover have "set (map (\<lambda>i. the (nameAt cg i)) (iterI S)) = {f. \<exists>i \<in> set (iterI S). nameAt cg i = Some f}"
    using name live by force
  ultimately show thesis by (rule that)
qed

text \<open>A written graph, opened again.\<close>

lemma openGraph_written:
  assumes J: "json_laws J" and ok: "writable cg useName" and info: "formatInfo i4 = new_MCGFileFormatInfo 4 0"
  obtains cg' \<pi> where "openGraph J (\<lambda>_. write_V4 J i4 useName srt cg) f = Inr cg'" and "wf_cg cg'" and "sameGraph cg \<pi> cg'"
proof -
  obtain j where j: "write_V4 J i4 useName srt cg = Inr j" using write_V4_file [OF J ok info] by blast
  obtain cg' \<pi> where "read_V4 J 0 j = Inr (cg', [])" "wf_cg cg'" "sameGraph cg \<pi> cg'"
    using v4_write_read [OF J ok info, of srt 0] j by auto
  moreover have "createReader J j = Inr (Some VersionFourMCGReader)" using createReader_V4 [OF J ok info, of srt] j by simp
  ultimately show thesis by (intro that [of cg' \<pi>]) (simp_all add: openGraph_def j readWith_def)
qed

lemma findNode_written:
  assumes "wf_cg cg'" and "sameGraph cg \<pi> cg'" and "nameAt cg i = Some f" and "\<not> isNumber f"
  obtains n where "findNode cg' f = Inr (Some n)"
proof -
  obtain n where n: "nodes cg ! i = Some n" "functionName n = f" "hasNode_id cg i"
    using assms(3) by (auto simp: nameAt_def hasNode_id_def split: if_splits)
  then have "\<pi> i < length (nodes cg')" using assms(2) by (auto simp: sameGraph_def bij_betw_def)
  moreover obtain n' where "nodes cg' ! \<pi> i = Some n'" "functionName n' = f"
    using assms(2) n unfolding sameGraph_def by blast
  ultimately have "nameAt cg' (\<pi> i) = Some f" by (simp add: nameAt_def)
  then have "getFirstNode cg' f \<noteq> Inr None" using getFirstNode_None_iff [OF assms(1)] by blast
  then obtain m where "getFirstNode cg' f = Inr (Some m)" using getFirstNode_wf [OF assms(1)] by (metis not_None_eq)
  then show thesis using assms(4) by (intro that [of m]) (simp add: findNode_def)
qed

text \<open>
  C31: \<open>cgquery reaches\<close> with a source and a target answers reachability by its exit code: 0 iff a path of
  calls leads from the source to the target, 1 iff there is none.
\<close>

theorem reaches_answers:
  assumes "openGraph J file f = Inr cg" and wf: "wf_cg cg" and "findNode cg s = Inr (Some a)" and "findNode cg t = Inr (Some b)"
  shows "ReachesCommand_run J file iterI \<lparr>ra_help = False, ra_source = Some s, ra_to = Some t, ra_input = Some f\<rparr>
     = Inr (if (nid a, nid b) \<in> (edgeSet cg)\<^sup>* then 0 else 1, [])"
  using reachability_exact [OF wf cache_ok_new, of "nid a" True "nid b"] assms by (auto simp: ReachesCommand_run_def)

theorem reaches_answers_witness:
  "\<exists>code. ReachesCommand_run json_model (\<lambda>_. write_V4 json_model (sampleInfo 4) True False sample_cg) sorted_list_of_set
     \<lparr>ra_help = False, ra_source = Some ''main'', ra_to = Some ''f'', ra_input = Some ''x''\<rparr> = Inr (code, [])"
proof -
  obtain cg' \<pi> where cg': "openGraph json_model (\<lambda>_. write_V4 json_model (sampleInfo 4) True False sample_cg) ''x'' = Inr cg'"
    "wf_cg cg'" "sameGraph sample_cg \<pi> cg'"
    using openGraph_written [OF json_model_laws sample_writable sampleInfo_format] by metis
  have names: "nameAt sample_cg 0 = Some ''main''" "nameAt sample_cg 1 = Some ''f''" by (simp_all add: nameAt_def sample_cg_def)
  obtain a where a: "findNode cg' ''main'' = Inr (Some a)"
    using findNode_written [OF cg'(2,3) names(1)] by (auto simp: isNumber_def isdigit_def char_code_def)
  obtain b where b: "findNode cg' ''f'' = Inr (Some b)"
    using findNode_written [OF cg'(2,3) names(2)] by (auto simp: isNumber_def isdigit_def char_code_def)
  from reaches_answers [OF cg'(1,2) a b] show ?thesis by blast
qed

text \<open>
  C32: \<open>cgquery dom\<close> and \<open>cgquery postdom\<close> always end when the reference node has no incoming edge in the direction
  of the search: they print the names of exactly the dominators of the target, or fail with exit code 1 if
  the target is not reachable.
\<close>

theorem dom_query_answers:
  assumes open_cg: "openGraph J file f = Inr cg" and wf: "wf_cg cg" and iter: "\<And>S. finite S \<Longrightarrow> set (iterI S) = S"
    and a: "findNode cg t = Inr (Some a)" and b: "findNode cg r = Inr (Some b)"
    and entry: "\<And>p. (p, nid b) \<notin> dir_edges dir cg"
  shows "\<exists>code names. runDom J file iterI dir \<lparr>da_help = False, da_node = Some t, da_ref = Some r, da_input = Some f\<rparr> = Some (Inr (code, names))
     \<and> (if (nid b, nid a) \<in> (dir_edges dir cg)\<^sup>*
        then code = 0 \<and> set names = {fn. \<exists>d. dominates (dir_edges dir cg) (nid b) d (nid a) \<and> nameAt cg d = Some fn}
        else code = 1 \<and> names = [])"
proof -
  let ?E = "dir_edges dir cg"
  obtain M where M: "computeDominators dir cg (nid b) = Some (Inr M)" "\<And>n. isInit M n \<longleftrightarrow> (nid b, n) \<in> ?E\<^sup>*"
    "\<And>n. (nid b, n) \<in> ?E\<^sup>* \<Longrightarrow> domsOf M n = {d. dominates ?E (nid b) d n}"
    using dominators_exact [OF wf entry] by auto
  have run: "runDom J file iterI dir \<lparr>da_help = False, da_node = Some t, da_ref = Some r, da_input = Some f\<rparr>
      = Some (printDoms iterI cg (nid a) M)"
    by (simp add: runDom_def open_cg domQuery_def a b M(1))
  show ?thesis
  proof (cases "(nid b, nid a) \<in> ?E\<^sup>*")
    case True
    then obtain d where d: "M (nid a) = Some d" "initialized d" using M(2) by (auto simp: isInit_def)
    then have doms: "Doms d = {d. dominates ?E (nid b) d (nid a)}" using M(3) [OF True] by (simp add: domsOf_def)
    note D = dominators_live [OF wf findNode_Some [OF wf b] True]
    have iter': "set (iterI (Doms d)) = {d. dominates ?E (nid b) d (nid a)}" using iter D(1) doms by simp
    obtain names where "namesOf iterI cg (Doms d) = Inr names"
      "set names = {f. \<exists>i \<in> set (iterI (Doms d)). nameAt cg i = Some f}"
      using namesOf_live [OF wf, of iterI "Doms d"] iter' D(2) by blast
    then show ?thesis using True run d iter' by (simp add: printDoms_def ensure_def exitSuccess_def)
  next
    case False
    then have "\<not> isInit M (nid a)" using M(2) by simp
    then have "\<not> initialized (the (ensure (nid a) M (nid a)))"
      by (auto simp: isInit_def ensure_def DomData_default_def split: option.splits)
    then show ?thesis using False run by (simp add: printDoms_def exitError_def)
  qed
qed

theorem dom_query_answers_witness:
  "\<exists>code names. runDom json_model (\<lambda>_. write_V4 json_model (sampleInfo 4) True False sample_cg) sorted_list_of_set Forward
     \<lparr>da_help = False, da_node = Some ''f'', da_ref = Some ''main'', da_input = Some ''x''\<rparr> = Some (Inr (code, names))"
proof -
  obtain cg' \<pi> where cg': "openGraph json_model (\<lambda>_. write_V4 json_model (sampleInfo 4) True False sample_cg) ''x'' = Inr cg'"
    "wf_cg cg'" "sameGraph sample_cg \<pi> cg'"
    using openGraph_written [OF json_model_laws sample_writable sampleInfo_format] by metis
  have names: "nameAt sample_cg 0 = Some ''main''" "nameAt sample_cg 1 = Some ''f''" by (simp_all add: nameAt_def sample_cg_def)
  obtain a where a: "findNode cg' ''f'' = Inr (Some a)"
    using findNode_written [OF cg'(2,3) names(2)] by (auto simp: isNumber_def isdigit_def char_code_def)
  obtain b where b: "findNode cg' ''main'' = Inr (Some b)"
    using findNode_written [OF cg'(2,3) names(1)] by (auto simp: isNumber_def isdigit_def char_code_def)
  have "getFirstNode cg' ''main'' = Inr (Some b)" using b by (simp add: findNode_def isNumber_def isdigit_def char_code_def)
  then have "nameAt cg' (nid b) = Some ''main''" by (rule getFirstNode_Some [OF cg'(2)])
  have "(p, nid b) \<notin> dir_edges Forward cg'" for p
  proof
    assume "(p, nid b) \<in> dir_edges Forward cg'"
    then obtain x y where xy: "(x, y) \<in> edgeSet sample_cg" "nid b = \<pi> y"
      using cg'(3) by (auto simp: sameGraph_def dir_edges_def)
    then have "y = 1 \<or> y = 2" by (auto simp: sample_cg_def edgeSet_def)
    then obtain n where "hasNode_id sample_cg y" "nodes sample_cg ! y = Some n" "functionName n \<noteq> ''main''"
      by (auto simp: sample_cg_def hasNode_id_def)
    moreover from this obtain n' where "nodes cg' ! \<pi> y = Some n'" "functionName n' = functionName n"
      using cg'(3) unfolding sameGraph_def by blast
    ultimately have "nameAt cg' (\<pi> y) \<noteq> Some ''main''" by (simp add: nameAt_def)
    then show False using xy(2) \<open>nameAt cg' (nid b) = Some ''main''\<close> by simp
  qed
  from dom_query_answers [OF cg'(1,2) _ a b this, of sorted_list_of_set] show ?thesis by auto
qed

end
