(* ===== verification/CgTools.thy ===== *)
theory CgTools
  imports CgQuery DotIO_Props
begin

text \<open>
  The small tools: \<open>cgformat\<close>, \<open>cgconvert\<close>, \<open>cgmerge2\<close> and \<open>cgtodot\<close> (\<open>tools\<close>). Each returns its exit status and the JSON or
  text it writes, if any. \<open>gen2\<close> and \<open>gen4\<close> are the generator information the writers of both versions are
  built with (the generated \<open>config.h\<close>), and \<open>file\<close> is the contents of a file.
\<close>

section \<open>Writers\<close>

definition defaultInfo :: "MCGGeneratorVersionInfo \<Rightarrow> MCGFileInfo" where
  "defaultInfo gen4 = \<lparr>formatInfo = new_MCGFileFormatInfo 4 0, generatorInfo = gen4\<rparr>"

definition writeWith ::
  "'j json_api \<Rightarrow> MCGGeneratorVersionInfo \<Rightarrow> MCGGeneratorVersionInfo \<Rightarrow> WriterKind \<Rightarrow> Callgraph \<Rightarrow> 'j res" where
  "writeWith J gen2 gen4 kind cg =
     (case kind of
        VersionTwoMCGWriter \<Rightarrow> write_V2 J (defaultInfo gen4) (getVersionTwoFileInfo gen2) False cg
      | VersionFourMCGWriter \<Rightarrow> write_V4 J (defaultInfo gen4) False False cg)"

text \<open>\<open>std::stoi\<close>: white space, an optional sign, then digits; the rest is ignored.\<close>

definition stoi :: "string \<Rightarrow> int res" where
  "stoi s =
     (let t = dropWhile isspace s;
          u = (case t of c # cs \<Rightarrow> if c = CHR ''-'' \<or> c = CHR ''+'' then cs else t | [] \<Rightarrow> []);
          ds = takeWhile isdigit u;
          n = (if take 1 t = ''-'' then - int (from_digits 0 ds) else int (from_digits 0 ds))
      in if ds = [] then Inl (RuntimeError ''stoi'') else if int32 n then Inr n else Inl OutOfRange)"

definition EXIT_SUCCESS :: int where "EXIT_SUCCESS = 0"
definition EXIT_FAILURE :: int where "EXIT_FAILURE = 1"

section \<open>cgformat\<close>

text \<open>\<open>find_sub p s\<close>: the position of the first occurrence of \<open>p\<close> in \<open>s\<close>.\<close>

fun find_sub :: "string \<Rightarrow> string \<Rightarrow> nat option" where
  "find_sub p [] = (if p = [] then Some 0 else None)"
| "find_sub p (c # cs) = (if take (length p) (c # cs) = p then Some 0 else map_option Suc (find_sub p cs))"

definition replacePathPrefix :: "string \<Rightarrow> string \<Rightarrow> string \<Rightarrow> string option" where
  "replacePathPrefix originalPath targetDir newPrefix =
     (let search = ''/'' @ targetDir in
      case find_sub search originalPath of
        None \<Rightarrow> None
      | Some pos \<Rightarrow> Some (newPrefix @ drop (pos + length search) originalPath))"

record FormatOptions =
  fo_output :: string
  fo_apply :: bool
  fo_abortAfterError :: bool
  fo_originPrefix :: string
  fo_prefixToReplace :: string
  fo_ignoreSystemIncludes :: bool
  fo_discardFailedMetadata :: bool

text \<open>The class of an entry is determined by its key in every graph a reader makes.\<close>

definition isSysInclude :: "FormatOptions \<Rightarrow> CgNode \<Rightarrow> bool" where
  "isSysInclude opts node =
     (fo_ignoreSystemIncludes opts
      \<and> (case map_of (metaFields node) ''fileProperties'' of
           Some (FilePropertiesMD md) \<Rightarrow> fromSystemInclude md
         | _ \<Rightarrow> False))"

definition wrongPrefix :: "FormatOptions \<Rightarrow> CgNode \<Rightarrow> string \<Rightarrow> bool" where
  "wrongPrefix opts node orig =
     (\<not> isSysInclude opts node
      \<and> (length orig < length (fo_originPrefix opts) \<or> take (length (fo_originPrefix opts)) orig \<noteq> fo_originPrefix opts))"

text \<open>One node of the loop: the node afterwards and whether an error was reported for it.\<close>

definition formatNode :: "FormatOptions \<Rightarrow> CgNode \<Rightarrow> CgNode \<times> bool" where
  "formatNode opts node =
     (case origin node of
        None \<Rightarrow> (node, False)
      | Some orig \<Rightarrow>
          (if orig = [] then (if \<not> fo_apply opts then (node, True) else (setOrigin None node, False))
           else if wrongPrefix opts node orig then
             (if \<not> fo_apply opts then (node, True)
              else if fo_prefixToReplace opts \<noteq> [] then
                (case replacePathPrefix orig (fo_prefixToReplace opts) (fo_originPrefix opts) of
                   Some newOrigin \<Rightarrow> (setOrigin (Some newOrigin) node, False)
                 | None \<Rightarrow> (node, False))
              else (node, False))
           else (node, False)))"

text \<open>The loop; \<open>None\<close> in the result is the early return of \<open>abort_after_error\<close>.\<close>

fun formatNodes :: "FormatOptions \<Rightarrow> CgNode option list \<Rightarrow> bool \<Rightarrow> (CgNode option list \<times> bool) option res" where
  "formatNodes opts [] checkSucceeded = Inr (Some ([], checkSucceeded))"
| "formatNodes opts (None # ps) checkSucceeded = Inl UndefinedBehaviour"
| "formatNodes opts (Some node # ps) checkSucceeded =
     (case formatNode opts node of
        (node', err) \<Rightarrow>
          (if err \<and> fo_abortAfterError opts then Inr None
           else
             bindR (formatNodes opts ps (checkSucceeded \<and> \<not> err)) (\<lambda>r.
             Inr (map_option (\<lambda>(ps', ok). (Some node' # ps', ok)) r))))"

definition formatGraph :: "FormatOptions \<Rightarrow> Callgraph \<Rightarrow> (Callgraph \<times> bool) option res" where
  "formatGraph opts cg =
     (if fo_originPrefix opts = [] then Inr (Some (cg, True))
      else
        bindR (formatNodes opts (nodes cg) True) (\<lambda>r.
        Inr (map_option (\<lambda>(ps, ok). (cg\<lparr>nodes := ps\<rparr>, ok)) r)))"

definition cgformat_main ::
  "'j json_api \<Rightarrow> MCGGeneratorVersionInfo \<Rightarrow> MCGGeneratorVersionInfo \<Rightarrow> (string \<Rightarrow> 'j res) \<Rightarrow> FormatOptions \<Rightarrow> string
   \<Rightarrow> (int \<times> (string \<times> 'j) option) res" where
  "cgformat_main J gen2 gen4 file opts inputFile =
     (let outputFile = (if fo_output opts = [] then inputFile else fo_output opts) in
      bindR (file inputFile) (\<lambda>j.
      bindR (createReader J j) (\<lambda>reader.
      bindR (derefR reader) (\<lambda>kind.
      bindR (case kind of VersionTwoMCGReader \<Rightarrow> read_V2 J 0 j | VersionFourMCGReader \<Rightarrow> read_V4 J 0 j) (\<lambda>(graph, failedToRead).
      bindR (formatGraph opts graph) (\<lambda>r.
      case r of
        None \<Rightarrow> Inr (EXIT_FAILURE, None)
      | Some (graph', checkSucceeded) \<Rightarrow>
          (if \<not> fo_apply opts then Inr (if checkSucceeded then EXIT_SUCCESS else EXIT_FAILURE, None)
           else if failedToRead \<noteq> [] \<and> (\<not> fo_discardFailedMetadata opts \<or> inputFile = outputFile) then Inr (EXIT_FAILURE, None)
           else
             bindR (getFormatVersion J j) (\<lambda>v.
             bindR (stoi v) (\<lambda>outputMcgVersion.
             case createWriter outputMcgVersion of
               None \<Rightarrow> Inr (EXIT_FAILURE, None)
             | Some w \<Rightarrow> bindR (writeWith J gen2 gen4 w graph') (\<lambda>out. Inr (EXIT_SUCCESS, Some (outputFile, out))))))))))))"

section \<open>cgconvert\<close>

definition cgconvert_main ::
  "'j json_api \<Rightarrow> MCGGeneratorVersionInfo \<Rightarrow> MCGGeneratorVersionInfo \<Rightarrow> (string \<Rightarrow> 'j res) \<Rightarrow> string list
   \<Rightarrow> (int \<times> (string \<times> 'j) option) res" where
  "cgconvert_main J gen2 gen4 file args =
     (case args of
        inputFile # outputFile # rest \<Rightarrow>
          bindR (case rest of [] \<Rightarrow> Inr 4 | v # _ \<Rightarrow> stoi v) (\<lambda>outputMcgVersion.
          bindR (openGraph J file inputFile) (\<lambda>graph.
          case createWriter outputMcgVersion of
            None \<Rightarrow> Inr (EXIT_FAILURE, None)
          | Some w \<Rightarrow> bindR (writeWith J gen2 gen4 w graph) (\<lambda>out. Inr (EXIT_SUCCESS, Some (outputFile, out)))))
      | _ \<Rightarrow> Inr (EXIT_FAILURE, None))"

section \<open>cgmerge2\<close>

text \<open>Reading one input file into the manager; \<open>None\<close> is the early return on an unsupported version.\<close>

definition addInput ::
  "'j json_api \<Rightarrow> (string \<Rightarrow> 'j res) \<Rightarrow> string \<Rightarrow> MCGManager option \<Rightarrow> MCGManager option res" where
  "addInput J file inFile st =
     (case st of
        None \<Rightarrow> Inr None
      | Some m \<Rightarrow>
          bindR (file inFile) (\<lambda>j.
          if is_null J j then Inr (Some m)
          else
            bindR (getFormatVersion J j) (\<lambda>_.
            bindR (createReader J j) (\<lambda>mcgReader.
            case mcgReader of
              None \<Rightarrow> Inr None
            | Some kind \<Rightarrow>
                bindR (readWith J 0 j (Some kind)) (\<lambda>cg.
                bindR (addToManagedGraphs inFile (Some cg) True m) (\<lambda>(_, m'). Inr (Some m')))))))"

text \<open>\<open>order\<close> is the iteration order of the names of the managed graphs.\<close>

definition cgmerge2_main ::
  "'j json_api \<Rightarrow> MCGGeneratorVersionInfo \<Rightarrow> MCGGeneratorVersionInfo \<Rightarrow> (string set \<Rightarrow> string list) \<Rightarrow> (string \<Rightarrow> 'j res) \<Rightarrow> string list
   \<Rightarrow> MCGManager \<Rightarrow> (int \<times> (string \<times> 'j) option) res" where
  "cgmerge2_main J gen2 gen4 order file args mgr =
     (case args of
        outfile # firstInput # rest \<Rightarrow>
          bindR (file firstInput) (\<lambda>j.
          bindR (getFormatVersion J j) (\<lambda>versionStr.
          bindR (stoi versionStr) (\<lambda>mcgVersion.
          bindR (foldR (addInput J file) (firstInput # rest) (Some (resetManager mgr))) (\<lambda>r.
          case r of
            None \<Rightarrow> Inr (EXIT_FAILURE, None)
          | Some m \<Rightarrow>
              bindR (mergeIntoActiveGraph (order (getAllManagedGraphNames m)) MergeByName_findMatchingNode m) (\<lambda>m'.
              case createWriter mcgVersion of
                None \<Rightarrow> Inr (EXIT_FAILURE, None)
              | Some w \<Rightarrow>
                  bindR (writeActiveGraph (writeWith J gen2 gen4 w) m' (j_null J)) (\<lambda>out.
                  Inr (EXIT_SUCCESS, Some (outfile, out))))))))
      | _ \<Rightarrow> Inr (EXIT_FAILURE, None))"

section \<open>cgtodot\<close>

definition cgtodot_main ::
  "'j json_api \<Rightarrow> (string \<Rightarrow> bool) \<Rightarrow> (string \<Rightarrow> bool) \<Rightarrow> (string \<Rightarrow> 'j res) \<Rightarrow> string option \<Rightarrow> string \<Rightarrow> (int \<times> string option) res" where
  "cgtodot_main J exists_file canOpen file input outputFile =
     (case input of
        None \<Rightarrow> Inr (EXIT_FAILURE, None)
      | Some inputFile \<Rightarrow>
          (if \<not> exists_file inputFile then Inr (EXIT_FAILURE, None)
           else
             bindR (file inputFile) (\<lambda>j.
             bindR (createReader J j) (\<lambda>mcgReader.
             case mcgReader of
               None \<Rightarrow> Inr (EXIT_FAILURE, None)
             | Some kind \<Rightarrow>
                 bindR (readWith J 0 j (Some kind)) (\<lambda>cg.
                 bindR (generate cg True) (\<lambda>dotString.
                 Inr (if \<not> canOpen outputFile then (EXIT_FAILURE, None) else (EXIT_SUCCESS, Some dotString))))))))"

end
