(* ===== verification/CgTools_Props.thy ===== *)
theory CgTools_Props
  imports CgTools
begin

text \<open>
  Correctness of the small tools: what \<open>cgformat\<close> accepts and what it changes, and which graph \<open>cgmerge2\<close> hands to the
  writer.
\<close>

section \<open>cgformat\<close>

text \<open>A node whose origin \<open>cgformat\<close> has nothing to say about.\<close>

definition conforming :: "FormatOptions \<Rightarrow> CgNode \<Rightarrow> bool" where
  "conforming opts n \<longleftrightarrow> (\<forall>p. origin n = Some p \<longrightarrow> p \<noteq> [] \<and> \<not> wrongPrefix opts n p)"

lemma formatNode_check: "\<not> fo_apply opts \<Longrightarrow> formatNode opts n = (n, \<not> conforming opts n)"
  by (auto simp: formatNode_def conforming_def split: option.splits)

lemma formatNodes_check:
  assumes "\<not> fo_apply opts"
  shows "formatNodes opts (map Some ns) c =
     Inr (if (\<exists>n \<in> set ns. \<not> conforming opts n) \<and> fo_abortAfterError opts then None
          else Some (map Some ns, c \<and> (\<forall>n \<in> set ns. conforming opts n)))"
  by (induction ns arbitrary: c) (auto simp: formatNode_check [OF assms])

lemma live_nodes: "None \<notin> set ps \<Longrightarrow> ps = map Some (map the ps)"
  by (induction ps) auto

lemma formatGraph_check:
  assumes "None \<notin> set (nodes cg)" and "\<not> fo_apply opts" and "fo_originPrefix opts \<noteq> []"
  shows "formatGraph opts cg =
     Inr (if \<forall>n. Some n \<in> set (nodes cg) \<longrightarrow> conforming opts n then Some (cg, True)
          else if fo_abortAfterError opts then None else Some (cg, False))"
proof -
  have all: "(\<forall>n \<in> set (map the (nodes cg)). conforming opts n) \<longleftrightarrow> (\<forall>n. Some n \<in> set (nodes cg) \<longrightarrow> conforming opts n)"
    using assms(1) by (metis (no_types, opaque_lifting) image_eqI imageE list.set_map option.collapse option.sel)
  have cg: "cg\<lparr>nodes := nodes cg\<rparr> = cg" by simp
  have "formatNodes opts (nodes cg) True =
      Inr (if (\<exists>n \<in> set (map the (nodes cg)). \<not> conforming opts n) \<and> fo_abortAfterError opts then None
           else Some (nodes cg, \<forall>n \<in> set (map the (nodes cg)). conforming opts n))"
    using formatNodes_check [OF assms(2), of "map the (nodes cg)" True] live_nodes [OF assms(1)] by simp
  then show ?thesis using assms(3) all cg by (auto simp: formatGraph_def)
qed

text \<open>
  C39: The check of \<open>cgformat\<close> succeeds iff every node that has an origin has a non-empty one that starts with the
  expected prefix or belongs to a system include that is ignored; it never changes the graph, and
  aborting after the first error does not change the verdict.
\<close>

theorem cgformat_check:
  assumes "None \<notin> set (nodes cg)" and "\<not> fo_apply opts" and "fo_originPrefix opts \<noteq> []"
  shows "formatGraph opts cg =
     Inr (if \<forall>n. Some n \<in> set (nodes cg) \<longrightarrow> conforming opts n then Some (cg, True)
          else if fo_abortAfterError opts then None else Some (cg, False))"
  using assms by (rule formatGraph_check)

definition checkOptions :: FormatOptions where
  "checkOptions =
     \<lparr>fo_output = [], fo_apply = False, fo_abortAfterError = False, fo_originPrefix = ''/src'', fo_prefixToReplace = [],
      fo_ignoreSystemIncludes = True, fo_discardFailedMetadata = False\<rparr>"

theorem cgformat_check_witness: "formatGraph checkOptions sample_cg = Inr (Some (sample_cg, True))"
proof -
  have "None \<notin> set (nodes sample_cg)" "\<forall>n. Some n \<in> set (nodes sample_cg) \<longrightarrow> conforming checkOptions n"
    by (auto simp: sample_cg_def conforming_def)
  then show ?thesis using cgformat_check [of sample_cg checkOptions] by (simp add: checkOptions_def)
qed

lemma fold_modifyNode_map:
  assumes "k \<le> length (nodes cg)"
  shows "fold (\<lambda>i. modifyNode i f) [0..<k] cg = cg\<lparr>nodes := map (map_option f) (take k (nodes cg)) @ drop k (nodes cg)\<rparr>"
  using assms
proof (induction k)
  case (Suc k)
  then show ?case
    by (simp add: modifyNode_def nth_append take_Suc_conv_app_nth list_update_append Cons_nth_drop_Suc [symmetric])
qed simp

lemma wf_mapNodes:
  assumes wf: "wf_cg cg" and f: "\<And>n. functionName (f n) = functionName n" "\<And>n. nid (f n) = nid n" "\<And>n. metaFields (f n) = metaFields n"
  shows "wf_cg (cg\<lparr>nodes := map (map_option f) (nodes cg)\<rparr>)"
proof -
  have "wf_cg (fold (\<lambda>i. modifyNode i f) is cg)" for "is"
    using wf by (induction "is" arbitrary: cg) (simp_all add: wf_modifyNode f)
  then show ?thesis using fold_modifyNode_map [of "length (nodes cg)" cg f] by (metis append_Nil2 drop_all order_refl take_all)
qed

lemma setOrigin_simps [simp]:
  "functionName (setOrigin p n) = functionName n" "nid (setOrigin p n) = nid n" "metaFields (setOrigin p n) = metaFields n"
  "hasBody (setOrigin p n) = hasBody n" "origin (setOrigin p n) = p"
  by (simp_all add: setOrigin_def)

lemma formatNode_fields:
  "functionName (fst (formatNode opts n)) = functionName n" "nid (fst (formatNode opts n)) = nid n"
  "metaFields (fst (formatNode opts n)) = metaFields n" "hasBody (fst (formatNode opts n)) = hasBody n"
  by (simp_all add: formatNode_def split: option.splits)

lemma formatNodes_apply:
  assumes "fo_apply opts"
  shows "formatNodes opts (map Some ns) c = Inr (Some (map (\<lambda>n. Some (fst (formatNode opts n))) ns, c))"
proof (induction ns arbitrary: c)
  case (Cons n ns)
  have "\<not> snd (formatNode opts n)" using assms by (simp add: formatNode_def split: option.splits)
  then show ?case using Cons by (cases "formatNode opts n") simp
qed simp

text \<open>An offending origin that contains the directory to replace.\<close>

definition replaceable :: "FormatOptions \<Rightarrow> CgNode \<Rightarrow> bool" where
  "replaceable opts n \<longleftrightarrow>
     (\<forall>p. origin n = Some p \<longrightarrow> p \<noteq> [] \<longrightarrow> wrongPrefix opts n p \<longrightarrow> find_sub (''/'' @ fo_prefixToReplace opts) p \<noteq> None)"

lemma formatNode_conforming:
  assumes "fo_apply opts" "fo_prefixToReplace opts \<noteq> []" "fo_originPrefix opts \<noteq> []" "replaceable opts n"
  shows "conforming (opts\<lparr>fo_apply := False\<rparr>) (fst (formatNode opts n))"
proof -
  have sys: "isSysInclude (opts\<lparr>fo_apply := False\<rparr>) m = isSysInclude opts m" for m by (simp add: isSysInclude_def)
  have wrong: "wrongPrefix (opts\<lparr>fo_apply := False\<rparr>) m p = wrongPrefix opts m p" for m p by (simp add: wrongPrefix_def sys)
  show ?thesis
  proof (cases "origin n")
    case None
    then show ?thesis by (simp add: formatNode_def conforming_def)
  next
    case (Some p)
    consider "p = []" | "p \<noteq> []" "\<not> wrongPrefix opts n p" | "p \<noteq> []" "wrongPrefix opts n p" by blast
    then show ?thesis
    proof cases
      case 3
      then obtain pos where "find_sub (''/'' @ fo_prefixToReplace opts) p = Some pos"
        using assms(4) Some by (auto simp: replaceable_def)
      then have "fst (formatNode opts n) = setOrigin (Some (fo_originPrefix opts @ drop (pos + length (''/'' @ fo_prefixToReplace opts)) p)) n"
        using 3 assms Some by (simp add: formatNode_def replacePathPrefix_def Let_def)
      then show ?thesis using assms(3) by (simp add: conforming_def wrong) (simp add: wrongPrefix_def)
    qed (use assms Some in \<open>simp_all add: formatNode_def conforming_def wrong\<close>)
  qed
qed

text \<open>
  C31: Applying \<open>cgformat\<close> keeps the graph well formed and changes nothing but origins; if every offending
  path contains the directory to replace, the result passes the check.
\<close>

theorem cgformat_apply:
  assumes wf: "wf_cg cg" and live: "None \<notin> set (nodes cg)" and opts: "fo_apply opts" "fo_originPrefix opts \<noteq> []" "fo_prefixToReplace opts \<noteq> []"
    and rep: "\<And>n. Some n \<in> set (nodes cg) \<Longrightarrow> replaceable opts n"
  shows "\<exists>cg'. formatGraph opts cg = Inr (Some (cg', True)) \<and> wf_cg cg' \<and> edges cg' = edges cg
     \<and> nameAt cg' = nameAt cg \<and> formatGraph (opts\<lparr>fo_apply := False\<rparr>) cg' = Inr (Some (cg', True))"
proof -
  let ?f = "\<lambda>n. fst (formatNode opts n)"
  let ?cg = "cg\<lparr>nodes := map (map_option ?f) (nodes cg)\<rparr>"
  have nodes: "map (\<lambda>n. Some (?f n)) (map the ps) = map (map_option ?f) ps" if "None \<notin> set ps" for ps
    using that by (induction ps) (auto simp: option.map_sel eq_commute [of None])
  have "formatNodes opts (nodes cg) True = Inr (Some (map (map_option ?f) (nodes cg), True))"
    using formatNodes_apply [OF opts(1), of "map the (nodes cg)" True] live_nodes [OF live] nodes [OF live] by simp
  then have "formatGraph opts cg = Inr (Some (?cg, True))" using opts(2) by (simp add: formatGraph_def)
  moreover have "wf_cg ?cg" by (rule wf_mapNodes [OF wf]) (simp_all add: formatNode_fields)
  moreover have "nameAt ?cg = nameAt cg" by (simp add: nameAt_def fun_eq_iff option.map_comp comp_def formatNode_fields)
  moreover have "formatGraph (opts\<lparr>fo_apply := False\<rparr>) ?cg = Inr (Some (?cg, True))"
  proof -
    have "conforming (opts\<lparr>fo_apply := False\<rparr>) m" if m: "Some m \<in> set (nodes ?cg)" for m
    proof -
      obtain n where "Some n \<in> set (nodes cg)" "m = ?f n" using m by (auto simp: image_iff eq_commute [of "Some m"])
      then show ?thesis using formatNode_conforming [OF opts(1,3,2) rep] by simp
    qed
    then show ?thesis using formatGraph_check [of ?cg "opts\<lparr>fo_apply := False\<rparr>"] live opts(2) by auto
  qed
  ultimately show ?thesis by (intro exI [of _ ?cg]) simp
qed

text \<open>The sample graph with a path to correct.\<close>

definition applyOptions :: FormatOptions where
  "applyOptions = checkOptions\<lparr>fo_apply := True, fo_prefixToReplace := ''repo''\<rparr>"

definition origin_cg :: Callgraph where
  "origin_cg = modifyNode 1 (setOrigin (Some ''/home/repo/a.c'')) sample_cg"

lemma origin_cg_nodes: "nodes origin_cg =
    [Some \<lparr>metaFields = [], nid = 0, functionName = ''main'', origin = None, hasBody = True\<rparr>,
     Some \<lparr>metaFields = [], nid = 1, functionName = ''f'', origin = Some ''/home/repo/a.c'', hasBody = True\<rparr>,
     Some \<lparr>metaFields = [(''overrideMD'', OverrideMD OverrideMD_default)], nid = 2, functionName = ''g'', origin = None, hasBody = False\<rparr>]"
  by (simp add: origin_cg_def modifyNode_def sample_cg_def setOrigin_def)

theorem cgformat_apply_witness:
  "\<exists>cg'. formatGraph applyOptions origin_cg = Inr (Some (cg', True)) \<and> wf_cg cg'
     \<and> formatGraph (applyOptions\<lparr>fo_apply := False\<rparr>) cg' = Inr (Some (cg', True))"
proof -
  have "wf_cg origin_cg" unfolding origin_cg_def by (intro wf_node_setters wf_sample_cg)
  moreover have "replaceable applyOptions n" if "Some n \<in> set (nodes origin_cg)" for n
    using that by (auto simp: origin_cg_nodes replaceable_def applyOptions_def)
  ultimately show ?thesis
    using cgformat_apply [of origin_cg applyOptions] by (auto simp: origin_cg_nodes applyOptions_def checkOptions_def)
qed

section \<open>cgmerge2\<close>

text \<open>An input file that can be read into a graph that can be merged.\<close>

definition goodInput :: "'j json_api \<Rightarrow> (string \<Rightarrow> 'j res) \<Rightarrow> string \<Rightarrow> Callgraph \<Rightarrow> bool" where
  "goodInput J file f g \<longleftrightarrow>
     f \<noteq> [] \<and> wf_cg g \<and> mergeable g
     \<and> (\<exists>j kind v. file f = Inr j \<and> \<not> is_null J j \<and> getFormatVersion J j = Inr v
          \<and> createReader J j = Inr (Some kind) \<and> readWith J 0 j (Some kind) = Inr g)"

text \<open>The manager after the first inputs were read.\<close>

definition managesInputs :: "(string \<Rightarrow> Callgraph) \<Rightarrow> string list \<Rightarrow> MCGManager \<Rightarrow> bool" where
  "managesInputs g fs m \<longleftrightarrow>
     mgr_inv m \<and> map fst (managedGraphs m) = fs
     \<and> (\<forall>f \<in> set fs. \<exists>a. map_of (managedGraphs m) f = Some a \<and> heap m a = Some ((g f)\<lparr>self := a\<rparr>))
     \<and> (\<forall>a. activeGraph m = Some a \<longrightarrow> a \<in> addrs m) \<and> (fs \<noteq> [] \<longrightarrow> activeGraph m \<noteq> None)"

lemma addInput_good:
  assumes good: "goodInput J file f (g f)" and m: "managesInputs g fs m" and f: "f \<notin> set fs"
  shows "\<exists>m'. addInput J file f (Some m) = Inr (Some m') \<and> managesInputs g (fs @ [f]) m'"
proof -
  obtain j kind v where j: "file f = Inr j" "\<not> is_null J j" "getFormatVersion J j = Inr v" "createReader J j = Inr (Some kind)"
    "readWith J 0 j (Some kind) = Inr (g f)" and wf: "wf_cg (g f)"
    using good by (auto simp: goodInput_def)
  have inv: "mgr_inv m" and names: "map fst (managedGraphs m) = fs" using m by (simp_all add: managesInputs_def)
  have new: "map_of (managedGraphs m) f = None" using f names by (metis map_of_eq_None_iff set_map)
  obtain m' where m': "addToManagedGraphs f (Some (g f)) True m = Inr (True, m')"
    by (simp add: addToManagedGraphs_def Let_def)
  have eqs: "managedGraphs m' = managedGraphs m @ [(f, nextAddr m)]" "heap m' = (heap m)(nextAddr m \<mapsto> (g f)\<lparr>self := nextAddr m\<rparr>)"
    "activeGraph m' = Some (nextAddr m)"
    using m' new f names by (auto simp: addToManagedGraphs_def Let_def update_new_key)
  have inv': "mgr_inv m'" using mgr_step_inv [OF inv, of "OpAddGraph f (g f) True" m'] wf m' by simp
  have fresh: "a \<noteq> nextAddr m" if "map_of (managedGraphs m) x = Some a" for x a
    using mgr_invD(5) [OF inv map_of_addrs [OF that]] by simp
  have look: "map_of (managedGraphs m') x = (if x = f then Some (nextAddr m) else map_of (managedGraphs m) x)" for x
    using new by (simp add: eqs(1) map_add_def split: option.splits)
  have "managesInputs g (fs @ [f]) m'"
    unfolding managesInputs_def
  proof (intro conjI inv' ballI)
    show "map fst (managedGraphs m') = fs @ [f]" by (simp add: eqs(1) names)
    show "\<exists>a. map_of (managedGraphs m') x = Some a \<and> heap m' a = Some ((g x)\<lparr>self := a\<rparr>)" if x: "x \<in> set (fs @ [f])" for x
    proof (cases "x = f")
      case False
      then have "x \<in> set fs" using x by simp
      then obtain a where "map_of (managedGraphs m) x = Some a" "heap m a = Some ((g x)\<lparr>self := a\<rparr>)"
        using m unfolding managesInputs_def by blast
      then show ?thesis using False fresh by (simp add: look eqs(2))
    qed (simp add: look eqs(2))
  qed (simp_all add: eqs addrs_def)
  then show ?thesis using j m' by (intro exI [of _ m']) (simp add: addInput_def)
qed

lemma addInputs_good:
  assumes "\<And>f. f \<in> set fs \<Longrightarrow> goodInput J file f (g f)" and "managesInputs g gs m" and "distinct (gs @ fs)"
  shows "\<exists>m'. foldR (addInput J file) fs (Some m) = Inr (Some m') \<and> managesInputs g (gs @ fs) m'"
  using assms
proof (induction fs arbitrary: gs m)
  case (Cons f fs)
  obtain m1 where "addInput J file f (Some m) = Inr (Some m1)" "managesInputs g (gs @ [f]) m1"
    using addInput_good [of J "file" f g gs m] Cons.prems by auto
  then show ?case using Cons.IH [of "gs @ [f]" m1] Cons.prems by auto
qed auto


text \<open>Two files of version 2 with a null graph.\<close>

definition nullFile :: Json where
  "nullFile = objectOf json_model [(''_MetaCG'', headerJson json_model (sampleInfo 2)), (''_CG'', j_null json_model)]"

lemma nullFile_version: "getFormatVersion json_model nullFile = Inr ''2.0''"
proof -
  have "hasHeader json_model (sampleInfo 2) nullFile"
    unfolding hasHeader_def nullFile_def
    by (intro exI [of _ "[(''_MetaCG'', headerJson json_model (sampleInfo 2)), (''_CG'', j_null json_model)]"]) simp
  from format_version_read [OF json_model_laws this] show ?thesis by (simp add: version_string)
qed

lemma nullFile_good: "f \<noteq> [] \<Longrightarrow> goodInput json_model (\<lambda>_. Inr nullFile) f (empty_cg 0)"
  using v2_null_graph [OF json_model_laws sampleInfo_format, of 0] nullFile_version
  by (simp add: goodInput_def mergeable_empty createReader_def readWith_def nullFile_def objectOf_laws [OF json_model_laws])


end
