(* ===== verification/Worklist.thy ===== *)
theory Worklist
  imports Reachability
begin

text \<open>
  The work queue of PGIS. Its helpers and phases share one loop: take a node from the queue, skip it if it was
  visited, otherwise visit it and push some neighbours. \<open>worklist\<close> is that loop, with the visit as a parameter that
  threads a state; it is a partial function because nothing bounds the nodes an arbitrary visit pushes. The locale
  \<open>search\<close> has the laws under which the loop ends, what it visits then, and the rule to carry an invariant through it.
  Results that may not exist are of type \<open>'a res option\<close>, where \<open>None\<close> is a computation that does not end.
\<close>

section \<open>Computations that may not end\<close>

definition bindO :: "'a res option \<Rightarrow> ('a \<Rightarrow> 'b res option) \<Rightarrow> 'b res option" where
  "bindO m f = (case m of None \<Rightarrow> None | Some (Inl e) \<Rightarrow> Some (Inl e) | Some (Inr x) \<Rightarrow> f x)"

fun foldO :: "('b \<Rightarrow> 's \<Rightarrow> 's res option) \<Rightarrow> 'b list \<Rightarrow> 's \<Rightarrow> 's res option" where
  "foldO f [] s = Some (Inr s)"
| "foldO f (x # xs) s = bindO (f x s) (foldO f xs)"

lemma bindO_simps [simp, res_simps]:
  "bindO None f = None" "bindO (Some (Inl e)) f = Some (Inl e)" "bindO (Some (Inr x)) f = f x"
  by (simp_all add: bindO_def)

lemma bindO_eq_Inr_iff: "bindO m f = Some (Inr y) \<longleftrightarrow> (\<exists>x. m = Some (Inr x) \<and> f x = Some (Inr y))"
  by (auto simp: bindO_def split: option.splits sum.splits)

lemma foldO_total:
  assumes "P [] s" and "\<And>xs x ys s. zs = xs @ x # ys \<Longrightarrow> P xs s \<Longrightarrow> \<exists>s'. f x s = Some (Inr s') \<and> P (xs @ [x]) s'"
  shows "\<exists>s'. foldO f zs s = Some (Inr s') \<and> P zs s'"
proof -
  have "\<exists>s'. foldO f ys s = Some (Inr s') \<and> P (xs @ ys) s'" if "zs = xs @ ys" "P xs s" for xs ys s
    using that
  proof (induction ys arbitrary: xs s)
    case (Cons y ys)
    then obtain s1 where s1: "f y s = Some (Inr s1)" "P (xs @ [y]) s1" using assms(2) by blast
    show ?case using Cons.IH [of "xs @ [y]" s1] Cons.prems(1) s1 by simp
  qed simp
  from this [of "[]" zs] assms(1) show ?thesis by simp
qed

section \<open>The loop\<close>

text \<open>A null pointer in the queue is dereferenced by every visit.\<close>

partial_function (option) worklist ::
  "(NodeId \<Rightarrow> 's \<Rightarrow> (NodeId option list \<times> 's) res) \<Rightarrow> NodeId option list \<Rightarrow> NodeId set \<Rightarrow> 's \<Rightarrow> (NodeId set \<times> 's) res option" where
  "worklist visit workQueue visitedNodes s =
     (case workQueue of
        [] \<Rightarrow> Some (Inr (visitedNodes, s))
      | None # rest \<Rightarrow> Some (Inl UndefinedBehaviour)
      | Some node # rest \<Rightarrow>
          (if node \<in> visitedNodes then worklist visit rest visitedNodes s
           else
             case visit node s of
               Inl e \<Rightarrow> Some (Inl e)
             | Inr (pushed, s') \<Rightarrow> worklist visit (rest @ pushed) (insert node visitedNodes) s'))"

lemma worklist_simps:
  "worklist visit [] V s = Some (Inr (V, s))"
  "n \<in> V \<Longrightarrow> worklist visit (Some n # q) V s = worklist visit q V s"
  "n \<notin> V \<Longrightarrow> visit n s = Inr (ns, s') \<Longrightarrow> worklist visit (Some n # q) V s = worklist visit (q @ ns) (insert n V) s'"
  "n \<notin> V \<Longrightarrow> visit n s = Inl e \<Longrightarrow> worklist visit (Some n # q) V s = Some (Inl e)"
  by (subst worklist.simps; simp)+

text \<open>
  A search in a context \<open>c\<close> (the graph, what the state was at the start): \<open>universe\<close> bounds the nodes, \<open>next\<close> are those a visit
  pushes, \<open>Inv V\<close> holds of the state when exactly the nodes \<open>V\<close> were visited.
\<close>

locale search =
  fixes ok :: "'c \<Rightarrow> bool"
    and universe :: "'c \<Rightarrow> NodeId set"
    and visit :: "'c \<Rightarrow> NodeId \<Rightarrow> 's \<Rightarrow> (NodeId option list \<times> 's) res"
    and nexts :: "'c \<Rightarrow> NodeId \<Rightarrow> NodeId list"
    and Inv :: "'c \<Rightarrow> NodeId set \<Rightarrow> 's \<Rightarrow> bool"
  assumes finite_universe: "ok c \<Longrightarrow> finite (universe c)"
    and nexts_universe: "ok c \<Longrightarrow> n \<in> universe c \<Longrightarrow> set (nexts c n) \<subseteq> universe c"
    and visit_step: "ok c \<Longrightarrow> n \<in> universe c \<Longrightarrow> V \<subseteq> universe c \<Longrightarrow> n \<notin> V \<Longrightarrow> Inv c V s
      \<Longrightarrow> \<exists>s'. visit c n s = Inr (map Some (nexts c n), s') \<and> Inv c (insert n V) s'"
begin

definition found :: "'c \<Rightarrow> NodeId \<Rightarrow> NodeId set" where
  "found c a = {b. (a, b) \<in> {(x, y). y \<in> set (nexts c x)}\<^sup>*}"

definition foundFrom :: "'c \<Rightarrow> NodeId set \<Rightarrow> NodeId set" where
  "foundFrom c A = (\<Union>a \<in> A. found c a)"

lemma foundFrom_singleton [simp]: "foundFrom c {a} = found c a"
  by (simp add: foundFrom_def)

lemma foundFrom_start: "A \<subseteq> foundFrom c A"
  by (auto simp: foundFrom_def found_def)

lemma foundFrom_step: "b \<in> foundFrom c A \<Longrightarrow> x \<in> set (nexts c b) \<Longrightarrow> x \<in> foundFrom c A"
  by (auto simp: foundFrom_def found_def intro: rtrancl_into_rtrancl)

lemma closed_contains_found:
  assumes "A \<subseteq> V" and "\<And>b x. b \<in> V \<Longrightarrow> x \<in> set (nexts c b) \<Longrightarrow> x \<in> V"
  shows "foundFrom c A \<subseteq> V"
proof
  fix b assume "b \<in> foundFrom c A"
  then obtain a where a: "a \<in> A" and path: "(a, b) \<in> {(x, y). y \<in> set (nexts c x)}\<^sup>*" by (auto simp: foundFrom_def found_def)
  from path show "b \<in> V" by induction (use assms a in auto)
qed

lemma loop_total:
  assumes ok: "ok c"
  shows "set q \<union> V \<subseteq> universe c \<Longrightarrow> set q \<union> V \<subseteq> foundFrom c A \<Longrightarrow> A \<subseteq> set q \<union> V \<Longrightarrow> Inv c V s
    \<Longrightarrow> (\<And>b x. b \<in> V \<Longrightarrow> x \<in> set (nexts c b) \<Longrightarrow> x \<in> set q \<union> V)
    \<Longrightarrow> \<exists>s'. worklist (visit c) (map Some q) V s = Some (Inr (foundFrom c A, s')) \<and> Inv c (foundFrom c A) s'"
proof (induction "card (universe c - V)" arbitrary: q V s rule: less_induct)
  case outer: less
  show ?case
    using outer.prems
  proof (induction q)
    case Nil
    then have "V = foundFrom c A" using closed_contains_found [of A V c] by auto
    with Nil show ?case by (simp add: worklist_simps)
  next
    case (Cons n q)
    show ?case
    proof (cases "n \<in> V")
      case True
      then show ?thesis using Cons by (auto simp: worklist_simps(2) insert_absorb)
    next
      case False
      have n: "n \<in> universe c" "V \<subseteq> universe c" using Cons.prems(1) by auto
      obtain s' where s': "visit c n s = Inr (map Some (nexts c n), s')" "Inv c (insert n V) s'"
        using visit_step [OF ok n False Cons.prems(4)] by blast
      have "universe c - insert n V \<subset> universe c - V" using n(1) False by blast
      then have "card (universe c - insert n V) < card (universe c - V)"
        by (intro psubset_card_mono) (simp_all add: finite_universe [OF ok])
      then have "\<exists>s''. worklist (visit c) (map Some (q @ nexts c n)) (insert n V) s' = Some (Inr (foundFrom c A, s''))
          \<and> Inv c (foundFrom c A) s''"
      proof (rule outer.hyps)
        show "set (q @ nexts c n) \<union> insert n V \<subseteq> universe c"
          using Cons.prems(1) nexts_universe [OF ok n(1)] by auto
        show "set (q @ nexts c n) \<union> insert n V \<subseteq> foundFrom c A"
          using Cons.prems(2) foundFrom_step [of n c A] by auto
        show "A \<subseteq> set (q @ nexts c n) \<union> insert n V" using Cons.prems(3) by auto
        show "x \<in> set (q @ nexts c n) \<union> insert n V" if "b \<in> insert n V" "x \<in> set (nexts c b)" for b x
          using that Cons.prems(5) [of b x] by auto
      qed (rule s'(2))
      then show ?thesis using worklist_simps(3) [of n V "visit c" s "map Some (nexts c n)" s' "map Some q"] False s'(1) by simp
    qed
  qed
qed

lemma search_from:
  assumes "ok c" and "set q \<subseteq> universe c" and "Inv c {} s"
  shows "\<exists>s'. worklist (visit c) (map Some q) {} s = Some (Inr (foundFrom c (set q), s')) \<and> Inv c (foundFrom c (set q)) s'"
  using loop_total [OF assms(1), of q "{}" "set q" s] assms foundFrom_start [of "set q" c] by simp

lemma search_total:
  assumes "ok c" and "a \<in> universe c" and "Inv c {} s"
  shows "\<exists>s'. worklist (visit c) [Some a] {} s = Some (Inr (found c a, s')) \<and> Inv c (found c a) s'"
  using search_from [of c "[a]" s] assms by simp

end

section \<open>Neighbours of a node given by reference\<close>

lemma getCallees_own:
  assumes "wf_cg cg"
  shows "getCallees_ref cg (self cg, n) = Inr (map Some (callees cg n))"
proof (cases "hasNode_id cg n")
  case True
  then show ?thesis using getCallees_id_wf [OF assms] by (simp add: getCallees_ref_def hasNode_ref_def hasNode_id_def)
next
  case False
  then have "callees cg n = []" by (rule fwd.succs_dead [OF assms])
  with False show ?thesis by (auto simp: getCallees_ref_def hasNode_ref_def hasNode_id_def)
qed

lemma getCallers_own:
  assumes "wf_cg cg"
  shows "getCallers_ref cg (self cg, n) = Inr (map Some (callers cg n))"
proof (cases "hasNode_id cg n")
  case True
  then show ?thesis using getCallers_id_wf [OF assms] by (simp add: getCallers_ref_def hasNode_ref_def hasNode_id_def)
next
  case False
  then have "callers cg n = []" by (rule bwd.succs_dead [OF assms])
  with False show ?thesis by (auto simp: getCallers_ref_def hasNode_ref_def hasNode_id_def)
qed

end
