(* ===== verification/Pgis.thy ===== *)
theory Pgis
  imports Worklist DotIO Complex_Main "HOL-Library.Word"
begin

text \<open>
  The PGIS analyser (\<open>pgis/lib\<close>): the metadata its analyses attach to nodes, the helpers of \<open>CgHelper.cpp\<close> and the estimator
  phases that select functions for instrumentation from statement and operation counts. The metadata classes of PGIS are
  attached to nodes under their own keys; the record \<open>PgisData\<close> holds, for each class, the metadata of every node that has
  it. The records have the members that the modelled code reads or writes. A run time in seconds is a rational number (the models only compare them and take one half). The graph that the
  phases work on is threaded because \<open>getMain\<close> caches in it, as is the reachability analysis with its cache.
\<close>

section \<open>Metadata\<close>

datatype InstrumentationState = StateNone | Instrumented | InstrumentedPath

record PiraOneData =
  wasInPreviousProfile :: bool
  dominantRuntime :: bool
  pod_hasBody :: bool
  numStatements :: int

definition PiraOneData_default :: PiraOneData where
  "PiraOneData_default = \<lparr>wasInPreviousProfile = False, dominantRuntime = False, pod_hasBody = False, numStatements = 0\<rparr>"

datatype FlagType = Irrelevant | Visited | Imbalanced

record LIMetaData =
  inclusiveStatements :: "64 word"
  isVirtualFunction :: bool
  flags :: "FlagType \<Rightarrow> bool"

definition LIMetaData_default :: LIMetaData where
  "LIMetaData_default = \<lparr>inclusiveStatements = 0, isVirtualFunction = False, flags = (\<lambda>_. False)\<rparr>"

record BaseProfileData =
  timeInSeconds :: rat
  inclTimeInSeconds :: rat

record InstrumentationResultMetaData =
  callCount :: "64 word"
  isExclusiveRuntime :: bool
  shouldBeInstrumented :: bool

definition InstrumentationResultMetaData_default :: InstrumentationResultMetaData where
  "InstrumentationResultMetaData_default = \<lparr>callCount = 0, isExclusiveRuntime = False, shouldBeInstrumented = False\<rparr>"

record PgisData =
  instrumentationMd :: "NodeId \<rightharpoonup> InstrumentationState"
  piraOneMd :: "NodeId \<rightharpoonup> PiraOneData"
  liMd :: "NodeId \<rightharpoonup> LIMetaData"
  baseProfileMd :: "NodeId \<rightharpoonup> BaseProfileData"
  instrResultMd :: "NodeId \<rightharpoonup> InstrumentationResultMetaData"

definition getOrCreate :: "'d \<Rightarrow> NodeId \<Rightarrow> (NodeId \<rightharpoonup> 'd) \<Rightarrow> 'd \<times> (NodeId \<rightharpoonup> 'd)" where
  "getOrCreate dflt n m = (case m n of Some d \<Rightarrow> (d, m) | None \<Rightarrow> (dflt, m(n \<mapsto> dflt)))"

definition getOrCreate_PiraOne :: "NodeId \<Rightarrow> PgisData \<Rightarrow> PiraOneData \<times> PgisData" where
  "getOrCreate_PiraOne n st = (case getOrCreate PiraOneData_default n (piraOneMd st) of (d, m) \<Rightarrow> (d, st\<lparr>piraOneMd := m\<rparr>))"

definition getOrCreate_LI :: "NodeId \<Rightarrow> PgisData \<Rightarrow> LIMetaData \<times> PgisData" where
  "getOrCreate_LI n st = (case getOrCreate LIMetaData_default n (liMd st) of (d, m) \<Rightarrow> (d, st\<lparr>liMd := m\<rparr>))"

definition setNumberOfInclusiveStatements :: "64 word \<Rightarrow> NodeId \<Rightarrow> PgisData \<Rightarrow> PgisData" where
  "setNumberOfInclusiveStatements w n st =
     (case getOrCreate_LI n st of (d, st') \<Rightarrow> st'\<lparr>liMd := (liMd st')(n \<mapsto> d\<lparr>inclusiveStatements := w\<rparr>)\<rparr>)"

subsection \<open>The instrumentation state of a node\<close>

definition getOrCreate_Instrumentation :: "NodeId \<Rightarrow> PgisData \<Rightarrow> InstrumentationState \<times> PgisData" where
  "getOrCreate_Instrumentation n st =
     (case getOrCreate StateNone n (instrumentationMd st) of (d, m) \<Rightarrow> (d, st\<lparr>instrumentationMd := m\<rparr>))"

definition setInstrumentation :: "InstrumentationState \<Rightarrow> NodeId \<Rightarrow> PgisData \<Rightarrow> PgisData" where
  "setInstrumentation x n st =
     (case getOrCreate_Instrumentation n st of (d, st') \<Rightarrow> st'\<lparr>instrumentationMd := (instrumentationMd st')(n \<mapsto> x)\<rparr>)"

definition resetInstrumentation :: "NodeId \<Rightarrow> PgisData \<Rightarrow> PgisData" where
  "resetInstrumentation = setInstrumentation StateNone"

definition instrumentNode :: "NodeId \<Rightarrow> PgisData \<Rightarrow> PgisData" where
  "instrumentNode = setInstrumentation Instrumented"

definition instrumentPathNode :: "NodeId \<Rightarrow> PgisData \<Rightarrow> PgisData" where
  "instrumentPathNode = setInstrumentation InstrumentedPath"

definition isInstrumented :: "NodeId \<Rightarrow> PgisData \<Rightarrow> bool \<times> PgisData" where
  "isInstrumented n st = (case getOrCreate_Instrumentation n st of (d, st') \<Rightarrow> (d = Instrumented, st'))"

definition isInstrumentedPath :: "NodeId \<Rightarrow> PgisData \<Rightarrow> bool \<times> PgisData" where
  "isInstrumentedPath n st = (case getOrCreate_Instrumentation n st of (d, st') \<Rightarrow> (d = InstrumentedPath, st'))"

definition isAnyInstrumented :: "NodeId \<Rightarrow> PgisData \<Rightarrow> bool \<times> PgisData" where
  "isAnyInstrumented n st =
     (case getOrCreate_Instrumentation n st of (d, st') \<Rightarrow> (d = Instrumented \<or> d = InstrumentedPath, st'))"

text \<open>What is known of a node without attaching metadata to it.\<close>

definition instrOf :: "PgisData \<Rightarrow> NodeId \<Rightarrow> InstrumentationState" where
  "instrOf st n = (case instrumentationMd st n of None \<Rightarrow> StateNone | Some x \<Rightarrow> x)"

definition stmtsOf :: "PgisData \<Rightarrow> NodeId \<Rightarrow> int" where
  "stmtsOf st n = (case piraOneMd st n of None \<Rightarrow> 0 | Some d \<Rightarrow> numStatements d)"

section \<open>CgHelper\<close>

definition isConjunction :: "Callgraph \<Rightarrow> NodeId \<Rightarrow> bool res" where
  "isConjunction graph node = bindR (getCallers_ref graph (self graph, node)) (\<lambda>ps. Inr (length ps > 1))"

definition visitForPath :: "Callgraph \<Rightarrow> NodeId \<Rightarrow> PgisData \<Rightarrow> (NodeId option list \<times> PgisData) res" where
  "visitForPath graph node st =
     (let (instr, st1) = isInstrumented node st in
      if instr then Inr ([], st1)
      else let (path, st2) = isInstrumentedPath node st1 in
      if path then Inr ([], st2)
      else bindR (getCallers_ref graph (self graph, node)) (\<lambda>ps.
           if ps = [] then Inr ([], st2)
           else bindR (getCallers_ref graph (self graph, node)) (\<lambda>parents. Inr (parents, st2))))"

definition getInstrumentationPath :: "Callgraph \<Rightarrow> NodeId \<Rightarrow> PgisData \<Rightarrow> (NodeId set \<times> PgisData) res option" where
  "getInstrumentationPath graph start st = worklist (visitForPath graph) [Some start] {} st"

text \<open>
  The recursion for the inclusive statements; \<open>depth\<close> bounds the depth of the recursion. The state of the loop over the
  children is the count, the children and the nodes seen so far, and the metadata.
\<close>

definition visitChild ::
  "(NodeId option \<Rightarrow> NodeId set \<times> PgisData \<Rightarrow> (64 word \<times> NodeId set \<times> PgisData) res option) \<Rightarrow> NodeId \<Rightarrow> NodeId option
   \<Rightarrow> 64 word \<times> NodeId option set \<times> NodeId set \<times> PgisData \<Rightarrow> (64 word \<times> NodeId option set \<times> NodeId set \<times> PgisData) res option" where
  "visitChild recur node childNode = (\<lambda>(inclusive, visitedChilds, visitedNodes, st).
     if childNode \<in> visitedChilds then Some (Inr (inclusive, visitedChilds, visitedNodes, st))
     else
       let (li, st1) = getOrCreate_LI node st;
           (pod, st2) = (if isVirtualFunction li then getOrCreate_PiraOne node st1 else (PiraOneData_default, st1));
           useMax = (isVirtualFunction li \<and> numStatements pod = 0)
       in bindO (recur childNode (visitedNodes, st2)) (\<lambda>(child, visitedNodes', st3).
          Some (Inr (if useMax then max inclusive child else inclusive + child, insert childNode visitedChilds, visitedNodes', st3))))"

fun visitNodeForInclusiveStatements ::
  "nat \<Rightarrow> Callgraph \<Rightarrow> NodeId option \<Rightarrow> NodeId set \<times> PgisData \<Rightarrow> (64 word \<times> NodeId set \<times> PgisData) res option" where
  "visitNodeForInclusiveStatements 0 graph node s = None"
| "visitNodeForInclusiveStatements (Suc depth) graph None s = Some (Inl UndefinedBehaviour)"
| "visitNodeForInclusiveStatements (Suc depth) graph (Some node) (visitedNodes, st) =
     (if node \<in> visitedNodes then
        (case getOrCreate_LI node st of (li, st1) \<Rightarrow> Some (Inr (inclusiveStatements li, visitedNodes, st1)))
      else
        (case getOrCreate_PiraOne node st of (pod, st1) \<Rightarrow>
           bindO (Some (getCallees_ref graph (self graph, node))) (\<lambda>children.
           bindO (foldO (visitChild (visitNodeForInclusiveStatements depth graph) node) children
                    (word_of_int (numStatements pod), {}, insert node visitedNodes, st1)) (\<lambda>(inclusive, _, visitedNodes', st2).
           Some (Inr (inclusive, visitedNodes', setNumberOfInclusiveStatements inclusive node st2))))))"

definition calculateInclusiveStatementCounts :: "nat \<Rightarrow> Callgraph \<Rightarrow> NodeId \<Rightarrow> PgisData \<Rightarrow> PgisData res option" where
  "calculateInclusiveStatementCounts depth graph mainMethod st =
     bindO (visitNodeForInclusiveStatements depth graph (Some mainMethod) ({}, st)) (\<lambda>(_, _, st'). Some (Inr st'))"

text \<open>The state of the search is the result so far, the graph and the analysis.\<close>

definition visitToMain ::
  "NodeId \<Rightarrow> NodeId set \<times> Callgraph \<times> ReachabilityAnalysis \<Rightarrow> (NodeId option list \<times> NodeId set \<times> Callgraph \<times> ReachabilityAnalysis) res" where
  "visitToMain node = (\<lambda>(pNodes, graph, ra).
     bindR (isReachableFromMain graph node False ra) (\<lambda>(reachable, graph1, ra1).
     if reachable then
       bindR (getCallers_ref graph1 (self graph1, node)) (\<lambda>pns. Inr (pns, insert node pNodes, graph1, ra1))
     else Inr ([], pNodes, graph1, ra1)))"

definition allNodesToMain ::
  "NodeId \<Rightarrow> NodeId \<Rightarrow> (NodeId \<rightharpoonup> NodeId set) \<Rightarrow> Callgraph \<Rightarrow> ReachabilityAnalysis \<Rightarrow> (NodeId set \<times> Callgraph \<times> ReachabilityAnalysis) res option" where
  "allNodesToMain startNode mainMethod init graph ra =
     (case init startNode of
        Some nodesToMain \<Rightarrow> Some (Inr (nodesToMain, graph, ra))
      | None \<Rightarrow> bindO (worklist visitToMain [Some startNode] {} ({mainMethod}, graph, ra)) (\<lambda>(_, result). Some (Inr result)))"

definition getDescendants :: "Callgraph \<Rightarrow> NodeId \<Rightarrow> NodeId set res option" where
  "getDescendants graph startingNode =
     bindO (worklist (\<lambda>node u. bindR (getCallees_ref graph (self graph, node)) (\<lambda>cs. Inr (cs, u))) [Some startingNode] {} ())
       (\<lambda>(childs, _). Some (Inr childs))"

definition getAncestors :: "Callgraph \<Rightarrow> NodeId \<Rightarrow> NodeId set res option" where
  "getAncestors graph startingNode =
     bindO (worklist (\<lambda>node u. bindR (getCallers_ref graph (self graph, node)) (\<lambda>ps. Inr (ps, u))) [Some startingNode] {} ())
       (\<lambda>(ancestors, _). Some (Inr ancestors))"

definition runtimesOf :: "PgisData \<Rightarrow> CgNode option \<Rightarrow> rat list \<Rightarrow> rat list res" where
  "runtimesOf st elem rt =
     bindR (derefR elem) (\<lambda>n.
     Inr (case baseProfileMd st (nid n) of
            None \<Rightarrow> rt
          | Some bpd \<Rightarrow> if inclTimeInSeconds bpd \<noteq> 0 then rt @ [inclTimeInSeconds bpd] else rt))"

definition calcRuntimeThreshold :: "Callgraph \<Rightarrow> PgisData \<Rightarrow> bool \<Rightarrow> rat res" where
  "calcRuntimeThreshold cg st useLongAsRef =
     bindR (foldR (runtimesOf st) (nodes cg) []) (\<lambda>rt.
     if rt = [] then
       Inl (RuntimeError ''There was no function with runtime data found in profile, so we are unable to compute a runtime threshold.'')
     else
       let srt = sort rt;
           lastIndex = length srt div 2
       in if useLongAsRef then Inr (srt ! (length srt - 1) / 2) else Inr (srt ! lastIndex))"

end
