(* ===== verification/Pgis_Phases.thy ===== *)
theory Pgis_Phases
  imports Pgis
begin

text \<open>
  The estimator phases of PGIS that select by counts (\<open>IPCGEstimatorPhase.cpp\<close>), the base class (\<open>EstimatorPhase.cpp\<close>) and the
  processor that runs them (\<open>PiraMCGProcessor.cpp\<close>). A phase is a record of its members; \<open>modifyGraph\<close> of a phase maps the
  phase, the graph and the metadata to their new values. The options of the global configuration are arguments:
  \<open>useCS\<close> (call-site instrumentation), \<open>onlyEligible\<close>, \<open>cuttoffMode\<close> and the heuristic.
\<close>

section \<open>Shared parts\<close>

definition int64 :: "int \<Rightarrow> bool" where
  "int64 x \<longleftrightarrow> - (2 ^ 63) \<le> x \<and> x < 2 ^ 63"

definition add_int64 :: "int \<Rightarrow> int \<Rightarrow> int res" where
  "add_int64 a b = (if int64 (a + b) then Inr (a + b) else Inl UndefinedBehaviour)"

text \<open>The conversion of a \<open>long\<close> to an \<open>int\<close>.\<close>

definition to_int32 :: "int \<Rightarrow> int" where
  "to_int32 x = (x + 2 ^ 31) mod 2 ^ 32 - 2 ^ 31"

definition derefNode :: "Callgraph \<Rightarrow> NodeId \<Rightarrow> CgNode res" where
  "derefNode graph i = (if i < length (nodes graph) then derefR (nodes graph ! i) else Inl UndefinedBehaviour)"

text \<open>The null pointer is never in the set of reachable nodes; the ID past the last slot stands for it.\<close>

fun pushReachable ::
  "NodeId option list \<Rightarrow> Callgraph \<Rightarrow> ReachabilityAnalysis \<Rightarrow> (NodeId option list \<times> Callgraph \<times> ReachabilityAnalysis) res" where
  "pushReachable [] graph ra = Inr ([], graph, ra)"
| "pushReachable (childNode # children) graph ra =
     bindR (isReachableFromMain graph (case childNode of None \<Rightarrow> length (nodes graph) | Some i \<Rightarrow> i) False ra) (\<lambda>(reachable, graph1, ra1).
     bindR (pushReachable children graph1 ra1) (\<lambda>(pushed, graph2, ra2).
     Inr (if reachable then childNode # pushed else pushed, graph2, ra2)))"

text \<open>One round of the loop over all nodes that skips those that main does not reach.\<close>

definition forReachable ::
  "(CgNode \<Rightarrow> 'p \<times> Callgraph \<times> ReachabilityAnalysis \<times> PgisData \<Rightarrow> ('p \<times> Callgraph \<times> ReachabilityAnalysis \<times> PgisData) res option)
   \<Rightarrow> CgNode option \<Rightarrow> 'p \<times> Callgraph \<times> ReachabilityAnalysis \<times> PgisData \<Rightarrow> ('p \<times> Callgraph \<times> ReachabilityAnalysis \<times> PgisData) res option" where
  "forReachable body elem = (\<lambda>(phase, graph, ra, st).
     bindO (Some (derefR elem)) (\<lambda>node.
     bindO (Some (isReachableFromMain graph (nid node) False ra)) (\<lambda>(reachable, graph1, ra1).
     if \<not> reachable then Some (Inr (phase, graph1, ra1, st)) else body node (phase, graph1, ra1, st))))"

section \<open>Histograms\<close>

type_synonym MapT = "(int \<times> int) list"

datatype CuttoffSelection = CuttoffMAX | CuttoffMEDIAN | CuttoffUNIQUE_MEDIAN

definition hist_inc :: "int \<Rightarrow> MapT \<Rightarrow> MapT" where
  "hist_inc k hist = map_set k ((case map_of hist k of None \<Rightarrow> 0 | Some c \<Rightarrow> c) + 1) hist"

definition keysWithCounts :: "MapT \<Rightarrow> int list" where
  "keysWithCounts hist = concat (map (\<lambda>(k, c). replicate (nat c) k) hist)"

text \<open>\<open>std::nth_element\<close> puts the element of the sorted sequence at the position; reading past the end is undefined.\<close>

definition nthElement :: "int list \<Rightarrow> int res" where
  "nthElement ks = (if ks = [] then Inl UndefinedBehaviour else Inr (sort ks ! (length ks div 2)))"

definition getUniqueMedianFromHist :: "MapT \<Rightarrow> int res" where
  "getUniqueMedianFromHist hist = nthElement (map fst hist)"

definition getMedianFromHist :: "MapT \<Rightarrow> int res" where
  "getMedianFromHist hist = nthElement (keysWithCounts hist)"

definition getHalfMaxFromHist :: "MapT \<Rightarrow> int res" where
  "getHalfMaxFromHist hist =
     (if keysWithCounts hist = [] then Inl UndefinedBehaviour else Inr (Max (set (keysWithCounts hist)) div 2))"

definition getCuttoffValue :: "CuttoffSelection \<Rightarrow> MapT \<Rightarrow> int res" where
  "getCuttoffValue cuttoffMode hist =
     (if hist = [] then Inr 0
      else case cuttoffMode of
        CuttoffMAX \<Rightarrow> getHalfMaxFromHist hist
      | CuttoffMEDIAN \<Rightarrow> getMedianFromHist hist
      | CuttoffUNIQUE_MEDIAN \<Rightarrow> getUniqueMedianFromHist hist)"

record StatisticsEstimatorPhase =
  numFunctions :: int
  numReachableFunctions :: int
  totalStmts :: int
  stmtHist :: MapT
  stmtInclHist :: MapT
  stmtsCoveredWithInstr :: int
  stmtsActuallyCovered :: int
  totalVarDecls :: int
  conditionalBranchesInclHist :: MapT
  reverseConditionalBranchesInclHist :: MapT
  rooflineInclHist :: MapT
  loopDepthInclHist :: MapT
  globalLoopDepthInclHist :: MapT

definition new_StatisticsEstimatorPhase :: StatisticsEstimatorPhase where
  "new_StatisticsEstimatorPhase =
     \<lparr>numFunctions = 0, numReachableFunctions = 0, totalStmts = 0, stmtHist = [], stmtInclHist = [], stmtsCoveredWithInstr = 0,
      stmtsActuallyCovered = 0, totalVarDecls = 0, conditionalBranchesInclHist = [], reverseConditionalBranchesInclHist = [],
      rooflineInclHist = [], loopDepthInclHist = [], globalLoopDepthInclHist = []\<rparr>"

section \<open>Statement counts\<close>

record StatementCountEstimatorPhase =
  numberOfStatementsThreshold :: int
  inclusiveMetric :: bool
  inclStmtCounts :: "NodeId \<rightharpoonup> int"
  pSEP :: "StatisticsEstimatorPhase option"

definition getNumStatements :: "StatementCountEstimatorPhase \<Rightarrow> NodeId \<Rightarrow> int" where
  "getNumStatements phase node = to_int32 (case inclStmtCounts phase node of None \<Rightarrow> 0 | Some c \<Rightarrow> c)"

definition visitForStmts ::
  "NodeId \<Rightarrow> int \<times> Callgraph \<times> ReachabilityAnalysis \<times> PgisData \<Rightarrow> (NodeId option list \<times> int \<times> Callgraph \<times> ReachabilityAnalysis \<times> PgisData) res" where
  "visitForStmts node = (\<lambda>(inclStmtCount, graph, ra, st).
     let (nodePOD, st1) = getOrCreate_PiraOne node st in
     bindR (add_int32 inclStmtCount (numStatements nodePOD)) (\<lambda>inclStmtCount1.
     bindR (getCallees_ref graph (self graph, node)) (\<lambda>children.
     bindR (pushReachable children graph ra) (\<lambda>(pushed, graph1, ra1). Inr (pushed, inclStmtCount1, graph1, ra1, st1)))))"

definition countStmts ::
  "NodeId \<Rightarrow> StatementCountEstimatorPhase \<times> Callgraph \<times> ReachabilityAnalysis \<times> PgisData
   \<Rightarrow> (int \<times> StatementCountEstimatorPhase \<times> Callgraph \<times> ReachabilityAnalysis \<times> PgisData) res option" where
  "countStmts startNode = (\<lambda>(phase, graph, ra, st).
     if inclusiveMetric phase then
       bindO (worklist visitForStmts [Some startNode] {} (0, graph, ra, st)) (\<lambda>(_, inclStmtCount, graph1, ra1, st1).
       Some (Inr (inclStmtCount, phase\<lparr>inclStmtCounts := (inclStmtCounts phase)(startNode \<mapsto> inclStmtCount)\<rparr>, graph1, ra1, st1)))
     else
       (case getOrCreate_PiraOne startNode st of (snPOD, st1) \<Rightarrow> Some (Inr (numStatements snPOD, phase, graph, ra, st1))))"

definition instrumentPathIfUnseen :: "CgNode \<Rightarrow> PgisData \<Rightarrow> PgisData res" where
  "instrumentPathIfUnseen startNode st =
     (if \<not> hasBody startNode then
        bindR (derefR (baseProfileMd st (nid startNode))) (\<lambda>bpd.
        Inr (if timeInSeconds bpd = 0 then instrumentPathNode (nid startNode) st else st))
      else Inr st)"

definition estimateStatementCount ::
  "bool \<Rightarrow> CgNode \<Rightarrow> StatementCountEstimatorPhase \<times> Callgraph \<times> ReachabilityAnalysis \<times> PgisData
   \<Rightarrow> (StatementCountEstimatorPhase \<times> Callgraph \<times> ReachabilityAnalysis \<times> PgisData) res option" where
  "estimateStatementCount useCS startNode s =
     bindO (countStmts (nid startNode) s) (\<lambda>(inclStmtCount, phase, graph, ra, st).
     let st1 = (if inclStmtCount \<ge> numberOfStatementsThreshold phase then instrumentNode (nid startNode) st else st) in
     bindO (Some (if useCS then instrumentPathIfUnseen startNode st1 else Inr st1)) (\<lambda>st2. Some (Inr (phase, graph, ra, st2))))"

definition modifyGraph_StatementCount ::
  "CuttoffSelection \<Rightarrow> bool \<Rightarrow> StatementCountEstimatorPhase \<Rightarrow> Callgraph \<Rightarrow> PgisData
   \<Rightarrow> (StatementCountEstimatorPhase \<times> Callgraph \<times> ReachabilityAnalysis \<times> PgisData) res option" where
  "modifyGraph_StatementCount cuttoffMode useCS phase graph st =
     bindO (Some (case pSEP phase of
                    None \<Rightarrow> Inr phase
                  | Some sep \<Rightarrow> bindR (getCuttoffValue cuttoffMode (stmtInclHist sep)) (\<lambda>c.
                                Inr (phase\<lparr>numberOfStatementsThreshold := to_int32 c\<rparr>)))) (\<lambda>phase1.
     foldO (forReachable (estimateStatementCount useCS)) (nodes graph) (phase1, graph, new_ReachabilityAnalysis, st))"

section \<open>Summing phases\<close>

datatype SummingKind = ConditionalBranches | ConditionalBranchesReverse | FPAndMemOps | LoopDepth | GlobalLoopDepth

record SummingCountPhaseBase =
  sumThreshold :: int
  sumCounts :: "NodeId \<rightharpoonup> int"
  sumMaxBranches :: int

definition inclusiveKind :: "SummingKind \<Rightarrow> bool" where
  "inclusiveKind kind = (case kind of LoopDepth \<Rightarrow> False | GlobalLoopDepth \<Rightarrow> False | _ \<Rightarrow> True)"

definition getPreviousThreshold :: "SummingKind \<Rightarrow> CuttoffSelection \<Rightarrow> StatisticsEstimatorPhase \<Rightarrow> int res" where
  "getPreviousThreshold kind cuttoffMode sep =
     getCuttoffValue cuttoffMode (case kind of
        ConditionalBranches \<Rightarrow> conditionalBranchesInclHist sep
      | ConditionalBranchesReverse \<Rightarrow> reverseConditionalBranchesInclHist sep
      | FPAndMemOps \<Rightarrow> rooflineInclHist sep
      | LoopDepth \<Rightarrow> loopDepthInclHist sep
      | GlobalLoopDepth \<Rightarrow> globalLoopDepthInclHist sep)"

text \<open>Metadata found under the key of a class is cast to the class.\<close>

definition branchesOf :: "CgNode \<Rightarrow> int option res" where
  "branchesOf node =
     (case get_md node ''numConditionalBranches'' of
        None \<Rightarrow> Inr None
      | Some (NumConditionalBranchMD md) \<Rightarrow> Inr (Some (numConditionalBranches md))
      | Some _ \<Rightarrow> Inl UndefinedBehaviour)"

definition getTargetCount :: "SummingKind \<Rightarrow> int \<Rightarrow> CgNode \<Rightarrow> int res" where
  "getTargetCount kind maxBranches node =
     (case kind of
        ConditionalBranches \<Rightarrow> bindR (branchesOf node) (\<lambda>b. Inr (case b of None \<Rightarrow> 0 | Some n \<Rightarrow> n))
      | ConditionalBranchesReverse \<Rightarrow> bindR (branchesOf node) (\<lambda>b. Inr (case b of None \<Rightarrow> maxBranches | Some n \<Rightarrow> maxBranches - n))
      | FPAndMemOps \<Rightarrow>
          (case get_md node ''numOperations'' of
             None \<Rightarrow> Inr 0
           | Some (NumOperationsMD md) \<Rightarrow> add_int32 (numberOfFloatOps md) (numberOfMemoryAccesses md)
           | Some _ \<Rightarrow> Inl UndefinedBehaviour)
      | LoopDepth \<Rightarrow>
          (case get_md node ''loopDepth'' of
             None \<Rightarrow> Inr 0
           | Some (LoopDepthMD md) \<Rightarrow> Inr (loopDepth md)
           | Some _ \<Rightarrow> Inl UndefinedBehaviour)
      | GlobalLoopDepth \<Rightarrow>
          (case get_md node ''globalLoopDepth'' of
             None \<Rightarrow> Inr 0
           | Some (GlobalLoopDepthMD md) \<Rightarrow> Inr (globalLoopDepth md)
           | Some _ \<Rightarrow> Inl UndefinedBehaviour))"

definition maxBranchesStep :: "CgNode option \<Rightarrow> int \<Rightarrow> int res" where
  "maxBranchesStep elem m =
     bindR (derefR elem) (\<lambda>node. bindR (branchesOf node) (\<lambda>b. Inr (case b of None \<Rightarrow> m | Some n \<Rightarrow> max m n)))"

definition runInitialization :: "SummingKind \<Rightarrow> Callgraph \<Rightarrow> SummingCountPhaseBase \<Rightarrow> SummingCountPhaseBase res" where
  "runInitialization kind graph phase =
     (case kind of
        ConditionalBranchesReverse \<Rightarrow>
          bindR (foldR maxBranchesStep (nodes graph) 0) (\<lambda>m. Inr (phase\<lparr>sumMaxBranches := m\<rparr>))
      | _ \<Rightarrow> Inr phase)"

definition visitForCount ::
  "(CgNode \<Rightarrow> int res) \<Rightarrow> NodeId \<Rightarrow> int \<times> Callgraph \<times> ReachabilityAnalysis \<Rightarrow> (NodeId option list \<times> int \<times> Callgraph \<times> ReachabilityAnalysis) res" where
  "visitForCount targetCount node = (\<lambda>(count, graph, ra).
     bindR (derefNode graph node) (\<lambda>n.
     bindR (targetCount n) (\<lambda>t.
     bindR (add_int64 count t) (\<lambda>count1.
     bindR (getCallees_ref graph (self graph, node)) (\<lambda>children.
     bindR (pushReachable children graph ra) (\<lambda>(pushed, graph1, ra1). Inr (pushed, count1, graph1, ra1)))))))"

definition estimateCount ::
  "SummingKind \<Rightarrow> CgNode \<Rightarrow> SummingCountPhaseBase \<times> Callgraph \<times> ReachabilityAnalysis \<times> PgisData
   \<Rightarrow> (SummingCountPhaseBase \<times> Callgraph \<times> ReachabilityAnalysis \<times> PgisData) res option" where
  "estimateCount kind startNode = (\<lambda>(phase, graph, ra, st).
     bindO (if inclusiveKind kind then
              bindO (worklist (visitForCount (getTargetCount kind (sumMaxBranches phase))) [Some (nid startNode)] {} (0, graph, ra))
                (\<lambda>(_, result). Some (Inr result))
            else bindO (Some (getTargetCount kind (sumMaxBranches phase) startNode)) (\<lambda>t. Some (Inr (t, graph, ra)))) (\<lambda>(count, graph1, ra1).
     let phase1 = phase\<lparr>sumCounts := (sumCounts phase)(nid startNode \<mapsto> count)\<rparr>;
         st1 = (if count \<ge> sumThreshold phase1 then instrumentNode (nid startNode) st else st)
     in bindO (Some (instrumentPathIfUnseen startNode st1)) (\<lambda>st2. Some (Inr (phase1, graph1, ra1, st2)))))"

definition modifyGraph_SummingCount ::
  "SummingKind \<Rightarrow> CuttoffSelection \<Rightarrow> StatisticsEstimatorPhase option \<Rightarrow> SummingCountPhaseBase \<Rightarrow> Callgraph \<Rightarrow> PgisData
   \<Rightarrow> (SummingCountPhaseBase \<times> Callgraph \<times> ReachabilityAnalysis \<times> PgisData) res option" where
  "modifyGraph_SummingCount kind cuttoffMode sep phase graph st =
     bindO (Some (case sep of
                    None \<Rightarrow> Inr phase
                  | Some stat \<Rightarrow> bindR (getPreviousThreshold kind cuttoffMode stat) (\<lambda>t. Inr (phase\<lparr>sumThreshold := t\<rparr>)))) (\<lambda>phase1.
     bindO (Some (runInitialization kind graph phase1)) (\<lambda>phase2.
     foldO (forReachable (estimateCount kind)) (nodes graph) (phase2, graph, new_ReachabilityAnalysis, st)))"

section \<open>Statistics\<close>

definition limitThreshold :: int where
  "limitThreshold = 2 ^ 63 - 1"

definition codeVarsOf :: "CgNode \<Rightarrow> int option res" where
  "codeVarsOf node =
     (case get_md node ''codeStatistics'' of
        None \<Rightarrow> Inr None
      | Some (CodeStatisticsMD md) \<Rightarrow> Inr (Some (numVars md))
      | Some _ \<Rightarrow> Inl UndefinedBehaviour)"

text \<open>The totals are sums of 32-bit numbers over the nodes, which a \<open>long\<close> holds.\<close>

definition collectStatistics ::
  "StatementCountEstimatorPhase \<Rightarrow> CgNode \<Rightarrow> StatisticsEstimatorPhase \<times> Callgraph \<times> ReachabilityAnalysis \<times> PgisData
   \<Rightarrow> (StatisticsEstimatorPhase \<times> Callgraph \<times> ReachabilityAnalysis \<times> PgisData) res option" where
  "collectStatistics sce node = (\<lambda>(phase, graph, ra, st).
     let (pod, st1) = getOrCreate_PiraOne (nid node) st;
         stmts = numStatements pod;
         (instr, st2) = isInstrumented (nid node) st1;
         phase1 = phase\<lparr>numReachableFunctions := numReachableFunctions phase + 1,
                        stmtsCoveredWithInstr := stmtsCoveredWithInstr phase + (if instr then stmts else 0),
                        stmtsActuallyCovered := stmtsActuallyCovered phase + (if wasInPreviousProfile pod then stmts else 0),
                        stmtHist := hist_inc stmts (stmtHist phase),
                        totalStmts := totalStmts phase + stmts,
                        stmtInclHist := hist_inc (getNumStatements sce (nid node)) (stmtInclHist phase)\<rparr>
     in bindO (Some (codeVarsOf node)) (\<lambda>vars.
        Some (Inr (case vars of None \<Rightarrow> phase1 | Some v \<Rightarrow> phase1\<lparr>totalVarDecls := totalVarDecls phase1 + v\<rparr>, graph, ra, st2))))"

text \<open>The heuristic \<open>STATEMENTS\<close> is \<open>None\<close>: it needs no other phase.\<close>

definition modifyGraph_Statistics ::
  "CuttoffSelection \<Rightarrow> bool \<Rightarrow> SummingKind option \<Rightarrow> StatisticsEstimatorPhase \<Rightarrow> Callgraph \<Rightarrow> PgisData
   \<Rightarrow> (StatisticsEstimatorPhase \<times> Callgraph \<times> ReachabilityAnalysis \<times> PgisData) res option" where
  "modifyGraph_Statistics cuttoffMode useCS heuristicMode phase graph st =
     (let phase1 = phase\<lparr>numFunctions := int (length (nodes graph))\<rparr>;
          sce0 = \<lparr>numberOfStatementsThreshold = 999999999, inclusiveMetric = True, inclStmtCounts = Map.empty, pSEP = None\<rparr>
      in bindO (modifyGraph_StatementCount cuttoffMode useCS sce0 graph st) (\<lambda>(sce, graph1, _, st1).
         bindO (case heuristicMode of
                  None \<Rightarrow> Some (Inr (graph1, st1))
                | Some kind \<Rightarrow>
                    bindO (modifyGraph_SummingCount kind cuttoffMode None
                             \<lparr>sumThreshold = limitThreshold, sumCounts = Map.empty, sumMaxBranches = 0\<rparr> graph1 st1) (\<lambda>(_, graph2, _, st2).
                    Some (Inr (graph2, st2)))) (\<lambda>(graph2, st2).
         foldO (forReachable (collectStatistics sce)) (nodes graph2) (phase1, graph2, new_ReachabilityAnalysis, st2))))"

section \<open>Filling gaps\<close>

text \<open>\<open>rfind\<close> looks for the last occurrence.\<close>

definition isMPIFunction :: "CgNode \<Rightarrow> bool" where
  "isMPIFunction node =
     (take 4 (functionName node) = ''MPI_''
      \<and> (\<forall>i \<in> set [1..<length (functionName node)]. take 4 (drop i (functionName node)) \<noteq> ''MPI_''))"

fun anyHasBody :: "Callgraph \<Rightarrow> NodeId option list \<Rightarrow> bool res" where
  "anyHasBody graph [] = Inr False"
| "anyHasBody graph (p # ps) =
     bindR (derefR p) (\<lambda>i. bindR (derefNode graph i) (\<lambda>n. if hasBody n then Inr True else anyHasBody graph ps))"

definition isEligibleForPathInstrumentation :: "Callgraph \<Rightarrow> NodeId \<Rightarrow> bool res" where
  "isEligibleForPathInstrumentation graph node = bindR (getCallers_ref graph (self graph, node)) (anyHasBody graph)"

fun anyUninstrumented :: "NodeId option list \<Rightarrow> PgisData \<Rightarrow> (bool \<times> PgisData) res" where
  "anyUninstrumented [] st = Inr (False, st)"
| "anyUninstrumented (p # ps) st =
     bindR (derefR p) (\<lambda>i. case isAnyInstrumented i st of (instr, st1) \<Rightarrow> if \<not> instr then Inr (True, st1) else anyUninstrumented ps st1)"

definition NameComparator :: "Callgraph \<Rightarrow> NodeId \<Rightarrow> NodeId \<Rightarrow> bool" where
  "NameComparator graph lhs rhs = (functionName (the (nodes graph ! lhs)) < functionName (the (nodes graph ! rhs)))"

definition markToFill :: "Callgraph \<Rightarrow> NodeId \<Rightarrow> NodeId list \<times> PgisData \<Rightarrow> NodeId list \<times> PgisData" where
  "markToFill graph ntm = (\<lambda>(nodesToFill, st).
     case isAnyInstrumented ntm st of (instr, st1) \<Rightarrow>
       (if \<not> instr then set_insert (NameComparator graph) ntm nodesToFill else nodesToFill, st1))"

text \<open>\<open>iterI\<close> is the iteration order of a set of nodes.\<close>

definition gapStep ::
  "(NodeId set \<Rightarrow> NodeId list) \<Rightarrow> NodeId \<Rightarrow> CgNode option
   \<Rightarrow> (NodeId \<rightharpoonup> NodeId set) \<times> NodeId list \<times> Callgraph \<times> ReachabilityAnalysis \<times> PgisData
   \<Rightarrow> ((NodeId \<rightharpoonup> NodeId set) \<times> NodeId list \<times> Callgraph \<times> ReachabilityAnalysis \<times> PgisData) res option" where
  "gapStep iterI mainMethod elem = (\<lambda>(pathsToMain, nodesToFill, graph, ra, st).
     bindO (Some (derefR elem)) (\<lambda>node.
     bindO (Some (getCallers_ref graph (self graph, nid node))) (\<lambda>parents.
     case isAnyInstrumented (nid node) st of (instr, st1) \<Rightarrow>
     bindO (Some (if instr then anyUninstrumented parents st1 else Inr (False, st1))) (\<lambda>(gap, st2).
     if \<not> gap then Some (Inr (pathsToMain, nodesToFill, graph, ra, st2))
     else
       bindO (allNodesToMain (nid node) mainMethod pathsToMain graph ra) (\<lambda>(nodesToMain, graph1, ra1).
       case fold (markToFill graph1) (iterI nodesToMain) (nodesToFill, st2) of (nodesToFill1, st3) \<Rightarrow>
         Some (Inr (pathsToMain(nid node \<mapsto> nodesToMain), nodesToFill1, graph1, ra1, st3)))))))"

definition fillStep :: "bool \<Rightarrow> bool \<Rightarrow> Callgraph \<Rightarrow> NodeId \<Rightarrow> PgisData \<Rightarrow> PgisData res" where
  "fillStep useCS onlyEligible graph ntf st =
     (if (case instrResultMd st ntf of None \<Rightarrow> False | Some mtd \<Rightarrow> callCount mtd = 0 \<and> isExclusiveRuntime mtd) then Inr st
      else
        bindR (derefNode graph ntf) (\<lambda>node.
        if hasBody node \<or> isMPIFunction node \<or> \<not> onlyEligible \<and> \<not> useCS then Inr (instrumentNode ntf st)
        else if useCS then
          (if onlyEligible then
             bindR (isEligibleForPathInstrumentation graph ntf) (\<lambda>eligible. Inr (if eligible then instrumentPathNode ntf st else st))
           else Inr (instrumentPathNode ntf st))
        else Inr st))"

definition modifyGraph_FillInstrumentationGaps ::
  "(NodeId set \<Rightarrow> NodeId list) \<Rightarrow> bool \<Rightarrow> bool \<Rightarrow> NodeId \<Rightarrow> NodeId list \<Rightarrow> Callgraph \<Rightarrow> PgisData \<Rightarrow> (NodeId list \<times> Callgraph \<times> PgisData) res option" where
  "modifyGraph_FillInstrumentationGaps iterI useCS onlyEligible mainMethod nodesToFill graph st =
     bindO (foldO (gapStep iterI mainMethod) (nodes graph) (Map.empty, nodesToFill, graph, new_ReachabilityAnalysis, st))
       (\<lambda>(_, nodesToFill1, graph1, _, st1).
     bindO (Some (foldR (fillStep useCS onlyEligible graph1) nodesToFill1 st1)) (\<lambda>st2. Some (Inr (nodesToFill1, graph1, st2))))"

definition storeDecision :: "CgNode option \<Rightarrow> PgisData \<Rightarrow> PgisData res" where
  "storeDecision elem st =
     bindR (derefR elem) (\<lambda>node.
     case isAnyInstrumented (nid node) st of (instr, st1) \<Rightarrow>
       Inr (if instr then
              (case getOrCreate InstrumentationResultMetaData_default (nid node) (instrResultMd st1) of (d, m) \<Rightarrow>
                 st1\<lparr>instrResultMd := m(nid node \<mapsto> d\<lparr>shouldBeInstrumented := True\<rparr>)\<rparr>)
            else
              (case instrResultMd st1 (nid node) of
                 None \<Rightarrow> st1
               | Some md \<Rightarrow> st1\<lparr>instrResultMd := (instrResultMd st1)(nid node \<mapsto> md\<lparr>shouldBeInstrumented := False\<rparr>)\<rparr>)))"

definition modifyGraph_StoreInstrumentationDecisions :: "Callgraph \<Rightarrow> PgisData \<Rightarrow> PgisData res" where
  "modifyGraph_StoreInstrumentationDecisions graph st = foldR storeDecision (nodes graph) st"

section \<open>The processor\<close>

record InstrumentationConfiguration =
  instrumentedNames :: "string set"
  instrumentedNodes :: "NodeId set"
  instrumentedPaths :: "string \<rightharpoonup> NodeId"

definition icStep :: "CgNode option \<Rightarrow> InstrumentationConfiguration \<times> PgisData \<Rightarrow> (InstrumentationConfiguration \<times> PgisData) res" where
  "icStep elem = (\<lambda>(IC, st).
     bindR (derefR elem) (\<lambda>node.
     case isInstrumented (nid node) st of (instr, st1) \<Rightarrow>
       if instr then
         Inr (IC\<lparr>instrumentedNames := insert (functionName node) (instrumentedNames IC),
                 instrumentedNodes := insert (nid node) (instrumentedNodes IC)\<rparr>, st1)
       else
         (case isInstrumentedPath (nid node) st1 of (path, st2) \<Rightarrow>
            Inr (if path \<and> instrumentedPaths IC (functionName node) = None
                 then IC\<lparr>instrumentedPaths := (instrumentedPaths IC)(functionName node \<mapsto> nid node)\<rparr> else IC, st2))))"

definition generateIC :: "Callgraph \<Rightarrow> InstrumentationConfiguration \<times> PgisData \<Rightarrow> (InstrumentationConfiguration \<times> PgisData) res" where
  "generateIC graph = foldR icStep (nodes graph)"

definition NoGraphConstructed :: int where "NoGraphConstructed = 1"
definition NoMainFunctionFound :: int where "NoMainFunctionFound = 2"

definition finalizeGraph :: "Callgraph \<Rightarrow> Callgraph res" where
  "finalizeGraph graph =
     (if isEmpty_cg graph then Inl (ExitCall NoGraphConstructed)
      else if size_cg graph > 0 then
        bindR (getMain graph False) (\<lambda>(mainMethod, graph1).
        if mainMethod = None then Inl (ExitCall NoMainFunctionFound) else Inr graph1)
      else Inr graph)"

definition isNodeListed :: "string list \<Rightarrow> string \<Rightarrow> bool" where
  "isNodeListed whiteNodes node = list_ex (\<lambda>wNode. node = wNode) whiteNodes"

text \<open>\<open>lines\<close> is the contents of the file, if it can be opened.\<close>

definition readWhitelist :: "string list option \<Rightarrow> string list \<Rightarrow> bool \<times> string list" where
  "readWhitelist lines whiteNodes =
     (case lines of None \<Rightarrow> (False, whiteNodes) | Some ls \<Rightarrow> (True, whiteNodes @ filter (\<lambda>str. str \<noteq> []) ls))"

definition scorepPaths :: "Callgraph \<Rightarrow> string \<times> NodeId \<Rightarrow> string list \<Rightarrow> string list res" where
  "scorepPaths graph = (\<lambda>(name, node) out.
     bindR (getCallers_ref graph (self graph, node)) (\<lambda>parents.
     bindR (mapR (\<lambda>p. bindR (derefR p) (derefNode graph)) parents) (\<lambda>ns.
     Inr (out @ map (\<lambda>n. ''INCLUDE '' @ functionName n @ '' -> '' @ name) ns))))"

text \<open>
  The lines of the file, if one is written; \<open>iterS\<close> and \<open>iterP\<close> are the iteration orders of the names and of the paths.
\<close>

definition dumpInstrumentedNames ::
  "(string set \<Rightarrow> string list) \<Rightarrow> ((string \<rightharpoonup> NodeId) \<Rightarrow> (string \<times> NodeId) list) \<Rightarrow> bool \<Rightarrow> bool
   \<Rightarrow> InstrumentationConfiguration \<Rightarrow> Callgraph \<Rightarrow> string list option res" where
  "dumpInstrumentedNames iterS iterP noOutputRequired scorepOutput IC graph =
     (if noOutputRequired then Inr None
      else if \<not> scorepOutput then
        Inr (Some (if instrumentedNodes IC = {} then [''aFunctionThatDoesNotExist''] else iterS (instrumentedNames IC)))
      else
        bindR (foldR (scorepPaths graph) (iterP (instrumentedPaths IC)) []) (\<lambda>paths.
        Inr (Some ([''SCOREP_REGION_NAMES_BEGIN''] @ map (\<lambda>name. ''INCLUDE '' @ name) (iterS (instrumentedNames IC)) @ paths
             @ [''SCOREP_REGION_NAMES_END'']))))"

text \<open>
  A phase in the queue: what \<open>doPrerequisites\<close> and \<open>modifyGraph\<close> do to the graph and the metadata. Each phase has its own
  configuration, empty at the start. The result lists what is written after each phase, to one file whose name does not
  depend on the phase. Reports, timing and the optional dot files are left out.
\<close>

type_synonym EstimatorPhase = "NodeId \<Rightarrow> Callgraph \<times> PgisData \<Rightarrow> (Callgraph \<times> PgisData) res option"

definition emptyIC :: InstrumentationConfiguration where
  "emptyIC = \<lparr>instrumentedNames = {}, instrumentedNodes = {}, instrumentedPaths = Map.empty\<rparr>"

definition runPhase ::
  "(InstrumentationConfiguration \<Rightarrow> Callgraph \<Rightarrow> string list option res) \<Rightarrow> NodeId \<Rightarrow> EstimatorPhase
   \<Rightarrow> string list option list \<times> Callgraph \<times> PgisData \<Rightarrow> (string list option list \<times> Callgraph \<times> PgisData) res option" where
  "runPhase dumpIC mainFunction phase = (\<lambda>(out, graph, st).
     bindO (phase mainFunction (graph, st)) (\<lambda>(graph1, st1).
     bindO (Some (generateIC graph1 (emptyIC, st1))) (\<lambda>(IC, st2).
     bindO (Some (dumpIC IC graph1)) (\<lambda>ls. Some (Inr (out @ [ls], graph1, st2))))))"

definition applyRegisteredPhases ::
  "(InstrumentationConfiguration \<Rightarrow> Callgraph \<Rightarrow> string list option res) \<Rightarrow> EstimatorPhase list \<Rightarrow> Callgraph \<times> PgisData
   \<Rightarrow> (string list option list \<times> Callgraph \<times> PgisData) res option" where
  "applyRegisteredPhases dumpIC phases = (\<lambda>(graph, st).
     bindO (Some (finalizeGraph graph)) (\<lambda>graph1.
     bindO (Some (getMain graph1 False)) (\<lambda>(mainFunction, graph2).
     case mainFunction of
       None \<Rightarrow> Some (Inl (ExitCall NoMainFunctionFound))
     | Some m \<Rightarrow> foldO (runPhase dumpIC m) phases ([], graph2, st))))"

end
