(* ===== verification/Pgis_Props.thy ===== *)
theory Pgis_Props
  imports Pgis
begin

text \<open>
  What the helpers of \<open>CgHelper.cpp\<close> compute: each search is an interpretation of the locale \<open>search\<close>, so it ends on every
  well-formed graph, and the nodes it finds are described by the edges of the graph. The inclusive statement counts
  are characterised on graphs without recursion.
\<close>

section \<open>Metadata that is read\<close>

lemma getOrCreate_md_eq: "getOrCreate d n m = (case m n of None \<Rightarrow> d | Some x \<Rightarrow> x, m(n \<mapsto> case m n of None \<Rightarrow> d | Some x \<Rightarrow> x))"
  by (auto simp: getOrCreate_def split: option.splits)

lemma instr_access:
  "getOrCreate_Instrumentation n st = (instrOf st n, st\<lparr>instrumentationMd := (instrumentationMd st)(n \<mapsto> instrOf st n)\<rparr>)"
  by (simp add: getOrCreate_Instrumentation_def getOrCreate_md_eq instrOf_def)

lemmas instr_read = isInstrumented_def isInstrumentedPath_def isAnyInstrumented_def instr_access

lemma instrOf_touch [simp]: "instrOf (st\<lparr>instrumentationMd := (instrumentationMd st)(n \<mapsto> x)\<rparr>) = (instrOf st)(n := x)"
  by (auto simp: instrOf_def)

lemma setInstrumentation_eq: "setInstrumentation x n st = st\<lparr>instrumentationMd := (instrumentationMd st)(n \<mapsto> x)\<rparr>"
  by (simp add: setInstrumentation_def instr_access)

lemma pod_access:
  "getOrCreate_PiraOne n st = (d, st') \<Longrightarrow> numStatements d = stmtsOf st n \<and> stmtsOf st' = stmtsOf st
     \<and> instrumentationMd st' = instrumentationMd st \<and> liMd st' = liMd st \<and> baseProfileMd st' = baseProfileMd st
     \<and> instrResultMd st' = instrResultMd st"
  by (auto simp: getOrCreate_PiraOne_def getOrCreate_md_eq stmtsOf_def PiraOneData_default_def split: option.splits)

text \<open>Two states that differ at most in metadata that was created by reading it.\<close>

definition sameInstr :: "PgisData \<Rightarrow> PgisData \<Rightarrow> bool" where
  "sameInstr st st' \<longleftrightarrow> instrOf st' = instrOf st \<and> st'\<lparr>instrumentationMd := Map.empty\<rparr> = st\<lparr>instrumentationMd := Map.empty\<rparr>"

lemma sameInstr_refl [simp]: "sameInstr st st"
  by (simp add: sameInstr_def)

lemma sameInstr_touch: "sameInstr st s \<Longrightarrow> sameInstr st (s\<lparr>instrumentationMd := (instrumentationMd s)(n \<mapsto> instrOf s n)\<rparr>)"
  by (simp add: sameInstr_def)

section \<open>Descendants and ancestors\<close>

lemma succ_rel: "wf_cg cg \<Longrightarrow> {(x, y). y \<in> set (callees cg x)} = edgeSet cg"
  using fwd.succs_rel by auto

lemma pred_rel: "wf_cg cg \<Longrightarrow> {(x, y). y \<in> set (callers cg x)} = (edgeSet cg)\<inverse>"
  using bwd.succs_rel by auto

interpretation desc: search wf_cg "\<lambda>cg. {i. hasNode_id cg i}"
  "\<lambda>cg node (u :: unit). bindR (getCallees_ref cg (self cg, node)) (\<lambda>cs. Inr (cs, u))" callees "\<lambda>_ _ _. True"
  by unfold_locales (auto simp: finite_live_ids getCallees_own fwd.succs_rel dest: fwd.rel_live)

interpretation anc: search wf_cg "\<lambda>cg. {i. hasNode_id cg i}"
  "\<lambda>cg node (u :: unit). bindR (getCallers_ref cg (self cg, node)) (\<lambda>ps. Inr (ps, u))" callers "\<lambda>_ _ _. True"
  by unfold_locales (auto simp: finite_live_ids getCallers_own bwd.succs_rel dest: bwd.rel_live)

text \<open>
  C32: \<open>getDescendants\<close> and \<open>getAncestors\<close> end and return exactly the nodes that the start node calls, directly or not,
  and the nodes that call it, the start node included, also in the presence of recursion.
\<close>

theorem descendants_ancestors:
  assumes "wf_cg cg" and "hasNode_id cg n"
  shows "getDescendants cg n = Some (Inr {m. (n, m) \<in> (edgeSet cg)\<^sup>*})
    \<and> getAncestors cg n = Some (Inr {m. (m, n) \<in> (edgeSet cg)\<^sup>*})"
proof
  show "getDescendants cg n = Some (Inr {m. (n, m) \<in> (edgeSet cg)\<^sup>*})"
    using desc.search_total [OF assms(1), of n "()"] assms(2)
    by (simp add: getDescendants_def desc.found_def succ_rel [OF assms(1)])
  show "getAncestors cg n = Some (Inr {m. (m, n) \<in> (edgeSet cg)\<^sup>*})"
    using anc.search_total [OF assms(1), of n "()"] assms(2)
    by (simp add: getAncestors_def anc.found_def pred_rel [OF assms(1)] rtrancl_converse)
qed

theorem descendants_ancestors_witness:
  "getDescendants sample_cg 1 = Some (Inr {m. (1, m) \<in> (edgeSet sample_cg)\<^sup>*})"
  using descendants_ancestors [OF wf_sample_cg, of 1] by (simp add: hasNode_id_def sample_cg_def)

section \<open>Paths to instrumented callers\<close>

interpretation path: search "\<lambda>(cg, st). wf_cg cg" "\<lambda>(cg, st). {i. hasNode_id cg i}" "\<lambda>(cg, st). visitForPath cg"
  "\<lambda>(cg, st) n. if instrOf st n = StateNone then callers cg n else []" "\<lambda>(cg, st) V s. sameInstr st s"
proof (unfold_locales, goal_cases)
  case (1 c)
  then show ?case by (auto simp: finite_live_ids split: prod.splits)
next
  case (2 c n)
  then show ?case using bwd.rel_live bwd.succs_rel by (fastforce split: prod.splits)
next
  case (3 c n V s)
  obtain cg st where c: "c = (cg, st)" by force
  have "instrOf s n = instrOf st n" using 3 c by (simp add: sameInstr_def)
  then show ?case
    using 3 c sameInstr_touch [of st s n]
    by (cases "instrOf st n") (auto simp: visitForPath_def instr_read getCallers_own)
qed

text \<open>
  C33: \<open>getInstrumentationPath\<close> ends and returns the nodes on the paths from the start node upwards to the nearest
  instrumented callers: those from which the start node is reached without passing an instrumented node before it.
  No decision about instrumentation is changed.
\<close>

theorem instrumentation_path:
  assumes "wf_cg cg" and "hasNode_id cg start"
  shows "\<exists>st'. getInstrumentationPath cg start st =
      Some (Inr ({n. (start, n) \<in> {(x, y). (y, x) \<in> edgeSet cg \<and> instrOf st x = StateNone}\<^sup>*}, st')) \<and> sameInstr st st'"
proof -
  have "{(x, y). y \<in> set (if instrOf st x = StateNone then callers cg x else [])}
      = {(x, y). (y, x) \<in> edgeSet cg \<and> instrOf st x = StateNone}"
    using bwd.succs_rel [OF assms(1)] by auto
  then show ?thesis
    using path.search_total [of "(cg, st)" start st] assms by (simp add: getInstrumentationPath_def path.found_def)
qed

definition samplePgis :: PgisData where
  "samplePgis =
     \<lparr>instrumentationMd = [0 \<mapsto> Instrumented],
      piraOneMd = [0 \<mapsto> PiraOneData_default\<lparr>numStatements := 3\<rparr>, 1 \<mapsto> PiraOneData_default\<lparr>numStatements := 5\<rparr>],
      liMd = Map.empty, baseProfileMd = [2 \<mapsto> \<lparr>timeInSeconds = 1, inclTimeInSeconds = 2\<rparr>], instrResultMd = Map.empty\<rparr>"

theorem instrumentation_path_witness:
  "\<exists>st'. getInstrumentationPath sample_cg 2 samplePgis =
      Some (Inr ({n. (2, n) \<in> {(x, y). (y, x) \<in> edgeSet sample_cg \<and> instrOf samplePgis x = StateNone}\<^sup>*}, st'))"
  using instrumentation_path [OF wf_sample_cg, of 2 samplePgis] by (auto simp: hasNode_id_def sample_cg_def)

section \<open>Nodes on the way from main\<close>

definition mainIs :: "NodeId \<Rightarrow> Callgraph \<Rightarrow> bool" where
  "mainIs m cg \<longleftrightarrow> getMain cg False = Inr (Some m, cg\<lparr>mainNode := Some m\<rparr>)"

text \<open>The graph during an analysis: the main node may have been cached in it.\<close>

definition cached :: "NodeId \<Rightarrow> Callgraph \<Rightarrow> Callgraph \<Rightarrow> bool" where
  "cached m cg g \<longleftrightarrow> g = cg \<or> g = cg\<lparr>mainNode := Some m\<rparr>"

lemma cached_mainIs:
  assumes "wf_cg cg" and "mainIs m cg" and "cached m cg g"
  shows "wf_cg g" "mainIs m g" "g\<lparr>mainNode := Some m\<rparr> = cg\<lparr>mainNode := Some m\<rparr>" "hasNode_id cg m"
proof -
  have gm: "getMain cg False = Inr (Some m, cg\<lparr>mainNode := Some m\<rparr>)" using assms(2) by (simp add: mainIs_def)
  note twice = getMain_twice [OF assms(1) gm]
  have *: "wf_cg (cg\<lparr>mainNode := Some m\<rparr>)" "mainIs m (cg\<lparr>mainNode := Some m\<rparr>)" using twice by (simp_all add: mainIs_def)
  then show "wf_cg g" "mainIs m g" "g\<lparr>mainNode := Some m\<rparr> = cg\<lparr>mainNode := Some m\<rparr>"
    using assms by (auto simp: cached_def)
  show "hasNode_id cg m" using wf_cgD(5) [OF *(1)] by (simp add: wf_main_def hasNode_id_def)
qed

lemma cached_view:
  assumes "cached m cg g"
  shows "edgeSet g = edgeSet cg" "callers g = callers cg" "callees g = callees cg" "self g = self cg"
    "nodes g = nodes cg" "hasNode_id g = hasNode_id cg" "cache_ok g = cache_ok cg"
  using assms by (auto simp: cached_def edgeSet_def callers_def callees_def hasNode_id_def fun_eq_iff)

lemma isReachableFromMain_main:
  assumes "wf_cg cg" and "mainIs m cg" and "cache_ok cg ra" and "cached m cg g"
  shows "\<exists>ra'. isReachableFromMain g n False ra = Inr ((m, n) \<in> (edgeSet cg)\<^sup>*, cg\<lparr>mainNode := Some m\<rparr>, ra') \<and> cache_ok cg ra'"
proof -
  note g = cached_mainIs [OF assms(1,2,4)] cached_view [OF assms(4)]
  let ?g = "cg\<lparr>mainNode := Some m\<rparr>"
  have g': "wf_cg ?g" "mainIs m ?g" using cached_mainIs [OF assms(1,2), of ?g] by (simp_all add: cached_def)
  have gm: "getMain g False = Inr (Some m, ?g)" "getMain ?g False = Inr (Some m, ?g)"
    using g(2,3) g'(2) by (simp_all add: mainIs_def)
  show ?thesis
  proof (cases "m \<in> computedFor ra")
    case True
    then have "reachableNodes ra m = Some {b. (m, b) \<in> (edgeSet cg)\<^sup>*}"
      using assms(3) by (simp add: cache_ok_def fwd.reach_def)
    with True gm assms(3) show ?thesis by (simp add: isReachableFromMain_def)
  next
    case False
    let ?ra = "ra\<lparr>computedFor := insert m (computedFor ra), reachableNodes := (reachableNodes ra)(m \<mapsto> fwd.reach cg m)\<rparr>"
    have "runForNode ?g m ra = Inr ?ra" using runForNode_spec [OF g'(1)] by simp
    moreover have "cache_ok cg ?ra" using assms(3) by (simp add: cache_ok_def)
    ultimately show ?thesis
      using False gm by (simp add: isReachableFromMain_def computeReachableFromMain_def fwd.reach_def)
  qed
qed

interpretation toMain: search "\<lambda>(cg, m). wf_cg cg \<and> mainIs m cg" "\<lambda>(cg, m). {i. hasNode_id cg i}" "\<lambda>_. visitToMain"
  "\<lambda>(cg, m) n. if (m, n) \<in> (edgeSet cg)\<^sup>* then callers cg n else []"
  "\<lambda>(cg, m) V (pNodes, g, ra). pNodes = insert m {n \<in> V. (m, n) \<in> (edgeSet cg)\<^sup>*} \<and> cached m cg g \<and> cache_ok cg ra"
proof (unfold_locales, goal_cases)
  case (1 c)
  then show ?case by (auto simp: finite_live_ids split: prod.splits)
next
  case (2 c n)
  then show ?case using bwd.rel_live bwd.succs_rel by (fastforce split: prod.splits)
next
  case (3 c n V s)
  obtain cg m where c: "c = (cg, m)" by force
  obtain P g ra where s: "s = (P, g, ra)" by (cases s)
  have wf: "wf_cg cg" and m: "mainIs m cg" and inv: "P = insert m {n \<in> V. (m, n) \<in> (edgeSet cg)\<^sup>*}" "cached m cg g" "cache_ok cg ra"
    using 3 c s by auto
  let ?g = "cg\<lparr>mainNode := Some m\<rparr>"
  obtain ra' where ra': "isReachableFromMain g n False ra = Inr ((m, n) \<in> (edgeSet cg)\<^sup>*, ?g, ra')" "cache_ok cg ra'"
    using isReachableFromMain_main [OF wf m inv(3,2)] by blast
  have g': "cached m cg ?g" by (simp add: cached_def)
  have "getCallers_ref ?g (self ?g, n) = Inr (map Some (callers cg n))"
    using getCallers_own [OF cached_mainIs(1) [OF wf m g'], of n] cached_view(2) [OF g'] by simp
  then show ?case using c s ra' g' inv(1) by (auto simp: visitToMain_def)
qed

lemma found_toMain:
  assumes "wf_cg cg"
  shows "insert m {n \<in> toMain.found (cg, m) a. (m, n) \<in> (edgeSet cg)\<^sup>*} = insert m {n. (m, n) \<in> (edgeSet cg)\<^sup>* \<and> (n, a) \<in> (edgeSet cg)\<^sup>*}"
proof -
  let ?R = "{(x, y). y \<in> set (if (m, x) \<in> (edgeSet cg)\<^sup>* then callers cg x else [])}"
  have R: "(x, y) \<in> ?R \<longleftrightarrow> (m, x) \<in> (edgeSet cg)\<^sup>* \<and> (y, x) \<in> edgeSet cg" for x y
    using bwd.succs_rel [OF assms] by auto
  have found: "n \<in> toMain.found (cg, m) a \<longleftrightarrow> (a, n) \<in> ?R\<^sup>*" for n by (simp add: toMain.found_def)
  have "(n, a) \<in> (edgeSet cg)\<^sup>*" if "(a, n) \<in> ?R\<^sup>*" for n
    using that by induction (auto simp only: R intro: converse_rtrancl_into_rtrancl)
  moreover have "(a, n) \<in> ?R\<^sup>*" if "(n, a) \<in> (edgeSet cg)\<^sup>*" "(m, n) \<in> (edgeSet cg)\<^sup>*" for n
    using that
  proof (induction rule: converse_rtrancl_induct)
    case (step x y)
    then have "(m, y) \<in> (edgeSet cg)\<^sup>*" by (meson rtrancl.rtrancl_into_rtrancl)
    with step R have "(a, y) \<in> ?R\<^sup>*" "(y, x) \<in> ?R" by blast+
    then show ?case by (rule rtrancl_into_rtrancl)
  qed simp
  ultimately show ?thesis using found by blast
qed

lemma allNodesToMain_exact:
  assumes wf: "wf_cg cg" and m: "mainIs m cg" and ra: "cache_ok cg ra" and g: "cached m cg g" and n: "hasNode_id cg n"
    and init: "\<And>S. init n = Some S \<Longrightarrow> S = insert m {p. (m, p) \<in> (edgeSet cg)\<^sup>* \<and> (p, n) \<in> (edgeSet cg)\<^sup>*}"
  shows "\<exists>g' ra'. allNodesToMain n m init g ra = Some (Inr (insert m {p. (m, p) \<in> (edgeSet cg)\<^sup>* \<and> (p, n) \<in> (edgeSet cg)\<^sup>*}, g', ra'))
    \<and> cached m cg g' \<and> cache_ok cg ra'"
proof (cases "init n")
  case None
  have "\<exists>s'. worklist visitToMain [Some n] {} ({m}, g, ra) = Some (Inr (toMain.found (cg, m) n, s'))
      \<and> (case s' of (P, g', ra') \<Rightarrow> P = insert m {x \<in> toMain.found (cg, m) n. (m, x) \<in> (edgeSet cg)\<^sup>*} \<and> cached m cg g' \<and> cache_ok cg ra')"
    using toMain.search_total [of "(cg, m)" n "({m}, g, ra)"] assms by simp
  with None show ?thesis unfolding found_toMain [OF wf] by (auto simp: allNodesToMain_def)
next
  case (Some S)
  with init [OF Some] show ?thesis using ra g by (auto simp: allNodesToMain_def)
qed

text \<open>
  C32: \<open>allNodesToMain\<close> ends and returns, besides the main node, exactly the nodes on call paths from main to the given
  node, whether the answer is computed or taken from the map of earlier answers; the analysis keeps a correct cache.
\<close>

theorem all_nodes_to_main:
  assumes "wf_cg cg" and "mainIs m cg" and "cache_ok cg ra" and "hasNode_id cg n"
    and "\<And>S. init n = Some S \<Longrightarrow> S = insert m {p. (m, p) \<in> (edgeSet cg)\<^sup>* \<and> (p, n) \<in> (edgeSet cg)\<^sup>*}"
  shows "\<exists>g' ra'. allNodesToMain n m init cg ra = Some (Inr (insert m {p. (m, p) \<in> (edgeSet cg)\<^sup>* \<and> (p, n) \<in> (edgeSet cg)\<^sup>*}, g', ra'))
    \<and> cached m cg g' \<and> cache_ok cg ra'"
  using allNodesToMain_exact [OF assms(1-3) _ assms(4,5)] by (simp add: cached_def)

lemma mainIs_sample: "mainIs 0 sample_cg"
  using getMain_abs [OF wf_sample_cg, of False] abs_main_sample by (simp add: mainIs_def sample_cg_def entryId_def)

theorem all_nodes_to_main_witness:
  "\<exists>g' ra'. allNodesToMain 2 0 Map.empty sample_cg new_ReachabilityAnalysis =
      Some (Inr (insert 0 {p. (0, p) \<in> (edgeSet sample_cg)\<^sup>* \<and> (p, 2) \<in> (edgeSet sample_cg)\<^sup>*}, g', ra'))"
  using all_nodes_to_main [OF wf_sample_cg mainIs_sample cache_ok_new, of 2 Map.empty] by (auto simp: hasNode_id_def sample_cg_def)

section \<open>Inclusive statement counts\<close>

definition inclOf :: "PgisData \<Rightarrow> NodeId \<Rightarrow> 64 word" where
  "inclOf st n = (case liMd st n of None \<Rightarrow> 0 | Some d \<Rightarrow> inclusiveStatements d)"

definition virtOf :: "PgisData \<Rightarrow> NodeId \<Rightarrow> bool" where
  "virtOf st n = (case liMd st n of None \<Rightarrow> False | Some d \<Rightarrow> isVirtualFunction d)"

text \<open>
  What the count of a node is, given the counts of its callees: the largest of them for a virtual function without
  statements of its own, otherwise its statements plus the counts of all callees.
\<close>

definition inclusiveCount :: "PgisData \<Rightarrow> NodeId \<Rightarrow> NodeId set \<Rightarrow> 64 word" where
  "inclusiveCount st n cs =
     (if virtOf st n \<and> stmtsOf st n = 0 then Max (insert 0 (inclOf st ` cs))
      else word_of_int (stmtsOf st n) + (\<Sum>c \<in> cs. inclOf st c))"

definition countsOk :: "Callgraph \<Rightarrow> NodeId set \<Rightarrow> PgisData \<Rightarrow> bool" where
  "countsOk cg D st \<longleftrightarrow> (\<forall>x \<in> D. inclOf st x = inclusiveCount st x (set (callees cg x)) \<and> set (callees cg x) \<subseteq> D)"

text \<open>Two states with the same inputs of the computation, and the same counts for the nodes of a set.\<close>

definition sameInputs :: "NodeId set \<Rightarrow> PgisData \<Rightarrow> PgisData \<Rightarrow> bool" where
  "sameInputs V st st' \<longleftrightarrow> virtOf st' = virtOf st \<and> stmtsOf st' = stmtsOf st \<and> (\<forall>x \<in> V. inclOf st' x = inclOf st x)"

lemma sameInputs_refl [simp]: "sameInputs V st st"
  by (simp add: sameInputs_def)

lemma sameInputs_trans: "sameInputs V st st' \<Longrightarrow> sameInputs W st' st'' \<Longrightarrow> V \<subseteq> W \<Longrightarrow> sameInputs V st st''"
  by (auto simp: sameInputs_def)

lemma sameInputs_mono: "sameInputs W st st' \<Longrightarrow> V \<subseteq> W \<Longrightarrow> sameInputs V st st'"
  by (auto simp: sameInputs_def)

lemma inclusiveCount_cong: "sameInputs cs st st' \<Longrightarrow> inclusiveCount st' n cs = inclusiveCount st n cs"
  by (simp add: inclusiveCount_def sameInputs_def)

lemma countsOk_cong: "countsOk cg D st \<Longrightarrow> sameInputs D st st' \<Longrightarrow> countsOk cg D st'"
  unfolding countsOk_def using inclusiveCount_cong sameInputs_mono by (metis sameInputs_def)

lemma li_access:
  "getOrCreate_LI n st = (d, st') \<Longrightarrow> isVirtualFunction d = virtOf st n \<and> inclusiveStatements d = inclOf st n
     \<and> virtOf st' = virtOf st \<and> stmtsOf st' = stmtsOf st \<and> inclOf st' = inclOf st"
  by (auto simp: getOrCreate_LI_def getOrCreate_md_eq virtOf_def inclOf_def stmtsOf_def LIMetaData_default_def
      fun_eq_iff split: option.splits if_splits)

lemma pod_access_incl: "getOrCreate_PiraOne n st = (d, st') \<Longrightarrow> virtOf st' = virtOf st \<and> inclOf st' = inclOf st"
  using pod_access by (auto simp: virtOf_def inclOf_def)

lemma setIncl:
  "inclOf (setNumberOfInclusiveStatements w n st) = (inclOf st)(n := w)"
  "virtOf (setNumberOfInclusiveStatements w n st) = virtOf st"
  "stmtsOf (setNumberOfInclusiveStatements w n st) = stmtsOf st"
  by (auto simp: setNumberOfInclusiveStatements_def getOrCreate_LI_def getOrCreate_md_eq virtOf_def inclOf_def stmtsOf_def
      LIMetaData_default_def fun_eq_iff split: option.splits)

text \<open>Adding one callee to the count.\<close>

lemma inclusiveCount_insert:
  assumes "finite cs" and "c \<notin> cs"
  shows "inclusiveCount st n (insert c cs) =
    (if virtOf st n \<and> stmtsOf st n = 0 then max (inclusiveCount st n cs) (inclOf st c) else inclusiveCount st n cs + inclOf st c)"
proof -
  have "Max (insert 0 (insert (inclOf st c) (inclOf st ` cs))) = max (Max (insert 0 (inclOf st ` cs))) (inclOf st c)"
    using assms(1) by (simp add: insert_commute [of 0] max.commute)
  then show ?thesis using assms by (simp add: inclusiveCount_def add.assoc add.commute [of "inclOf st c"])
qed

text \<open>
  The recursion. \<open>S\<close> are the nodes whose visit has begun and not ended: they all reach the node to visit, so in a graph
  without cycles that node is none of them, and the counts of the other visited nodes are final.
\<close>

definition visitPre :: "Callgraph \<Rightarrow> NodeId \<Rightarrow> NodeId set \<Rightarrow> NodeId set \<Rightarrow> PgisData \<Rightarrow> bool" where
  "visitPre cg n S V st \<longleftrightarrow> S \<subseteq> V \<and> V \<subseteq> {i. hasNode_id cg i} \<and> (\<forall>s \<in> S. (s, n) \<in> (edgeSet cg)\<^sup>+) \<and> countsOk cg (V - S) st"

definition visitPost :: "Callgraph \<Rightarrow> NodeId \<Rightarrow> NodeId set \<Rightarrow> NodeId set \<Rightarrow> PgisData \<Rightarrow> 64 word \<Rightarrow> NodeId set \<Rightarrow> PgisData \<Rightarrow> bool" where
  "visitPost cg n S V st w V' st' \<longleftrightarrow> w = inclOf st' n \<and> insert n V \<subseteq> V' \<and> V' \<subseteq> {i. hasNode_id cg i} \<and> n \<notin> S
     \<and> countsOk cg (V' - S) st' \<and> sameInputs V st st'"

lemma visitChild_step:
  assumes same: "\<And>st2. virtOf st2 = virtOf st \<Longrightarrow> stmtsOf st2 = stmtsOf st \<Longrightarrow> inclOf st2 = inclOf st
       \<Longrightarrow> \<exists>w V' st'. recur (Some y) (V, st2) = Some (Inr (w, V', st')) \<and> visitPost cg y S V st2 w V' st'"
    and y: "Some y \<notin> C"
  shows "\<exists>w V' st'. visitChild recur n (Some y) (inc, C, V, st) =
      Some (Inr (if virtOf st n \<and> stmtsOf st n = 0 then max inc w else inc + w, insert (Some y) C, V', st'))
    \<and> visitPost cg y S V st w V' st'"
proof -
  obtain li st1 where li: "getOrCreate_LI n st = (li, st1)" by force
  note L = li_access [OF li]
  obtain pod st2 where pod: "(if isVirtualFunction li then getOrCreate_PiraOne n st1 else (PiraOneData_default, st1)) = (pod, st2)"
    by force
  have P: "virtOf st2 = virtOf st" "stmtsOf st2 = stmtsOf st" "inclOf st2 = inclOf st"
      "virtOf st n \<Longrightarrow> numStatements pod = stmtsOf st n"
    using pod L pod_access [of n st1 pod st2] pod_access_incl [of n st1 pod st2] by (auto split: if_splits)
  obtain w V' st' where w: "recur (Some y) (V, st2) = Some (Inr (w, V', st'))" "visitPost cg y S V st2 w V' st'"
    using same [OF P(1-3)] by blast
  have "visitPost cg y S V st w V' st'" using w(2) P(1-3) by (simp add: visitPost_def sameInputs_def)
  with w(1) li pod L P(4) y show ?thesis by (auto simp: visitChild_def Let_def)
qed

lemma visitPre_cong:
  "visitPre cg n S V st \<Longrightarrow> virtOf st2 = virtOf st \<Longrightarrow> stmtsOf st2 = stmtsOf st \<Longrightarrow> inclOf st2 = inclOf st \<Longrightarrow> visitPre cg n S V st2"
  unfolding visitPre_def by (auto intro: countsOk_cong simp: sameInputs_def)

text \<open>The state of the loop over the children of \<open>n\<close> after the children \<open>ys\<close>.\<close>

definition childLoop ::
  "Callgraph \<Rightarrow> NodeId \<Rightarrow> NodeId set \<Rightarrow> NodeId set \<Rightarrow> PgisData \<Rightarrow> NodeId list
   \<Rightarrow> 64 word \<times> NodeId option set \<times> NodeId set \<times> PgisData \<Rightarrow> bool" where
  "childLoop cg n S V st ys = (\<lambda>(inc, C, V', st').
     C = Some ` set ys \<and> insert n V \<union> set ys \<subseteq> V' \<and> V' \<subseteq> {i. hasNode_id cg i} \<and> countsOk cg (V' - insert n S) st'
     \<and> sameInputs (insert n V) st st' \<and> inc = inclusiveCount st' n (set ys))"

lemma childLoop_step:
  assumes inv: "childLoop cg n S V st ys (inc, C, Vk, stk)" and y: "y \<notin> set ys"
    and rec: "\<And>st2. visitPre cg y (insert n S) Vk st2
       \<Longrightarrow> \<exists>w V' st'. recur (Some y) (Vk, st2) = Some (Inr (w, V', st')) \<and> visitPost cg y (insert n S) Vk st2 w V' st'"
    and pre: "visitPre cg y (insert n S) Vk stk"
  shows "\<exists>s'. visitChild recur n (Some y) (inc, C, Vk, stk) = Some (Inr s') \<and> childLoop cg n S V st (ys @ [y]) s'"
proof -
  have C: "Some y \<notin> C" using inv y by (auto simp: childLoop_def)
  obtain w V' st' where w: "visitChild recur n (Some y) (inc, C, Vk, stk) =
        Some (Inr (if virtOf stk n \<and> stmtsOf stk n = 0 then max inc w else inc + w, insert (Some y) C, V', st'))"
      "visitPost cg y (insert n S) Vk stk w V' st'"
    using visitChild_step [OF _ C, of stk recur Vk cg "insert n S" n inc] rec visitPre_cong [OF pre] by blast
  have sub: "set ys \<subseteq> Vk" using inv by (auto simp: childLoop_def)
  have same: "sameInputs Vk stk st'" using w(2) by (simp add: visitPost_def)
  have "inclusiveCount st' n (set ys) = inc"
    using inclusiveCount_cong [OF sameInputs_mono [OF same sub]] inv by (simp add: childLoop_def)
  then have "inclusiveCount st' n (set (ys @ [y])) = (if virtOf stk n \<and> stmtsOf stk n = 0 then max inc w else inc + w)"
    using inclusiveCount_insert [of "set ys" y st' n] y w(2) by (simp add: visitPost_def sameInputs_def)
  moreover have "sameInputs (insert n V) st st'"
    using inv sameInputs_trans [OF _ same, of "insert n V" st] by (auto simp: childLoop_def)
  ultimately show ?thesis using w inv by (auto simp: childLoop_def visitPost_def)
qed

lemma visit_correct:
  assumes wf: "wf_cg cg" and acyc: "acyclic (edgeSet cg)"
  shows "hasNode_id cg n \<Longrightarrow> visitPre cg n S V st \<Longrightarrow> card ({i. hasNode_id cg i} - V) < depth
    \<Longrightarrow> \<exists>w V' st'. visitNodeForInclusiveStatements depth cg (Some n) (V, st) = Some (Inr (w, V', st')) \<and> visitPost cg n S V st w V' st'"
proof (induction depth arbitrary: n S V st)
  case (Suc depth)
  have S: "S \<subseteq> V" "\<forall>s \<in> S. (s, n) \<in> (edgeSet cg)\<^sup>+" and V: "V \<subseteq> {i. hasNode_id cg i}" and ok: "countsOk cg (V - S) st"
    using Suc.prems(2) by (auto simp: visitPre_def)
  have n: "n \<notin> S" using S(2) acyc by (auto simp: acyclic_def)
  show ?case
  proof (cases "n \<in> V")
    case True
    obtain li st1 where li: "getOrCreate_LI n st = (li, st1)" by force
    have same: "sameInputs V st st1" using li_access [OF li] by (simp add: sameInputs_def)
    have "countsOk cg (V - S) st1" using countsOk_cong [OF ok sameInputs_mono [OF same]] by blast
    with True li li_access [OF li] same n V show ?thesis by (auto simp: visitPost_def)
  next
    case False
    obtain pod st1 where pod: "getOrCreate_PiraOne n st = (pod, st1)" by force
    have same1: "sameInputs W st st1" for W
      using pod_access [OF pod] pod_access_incl [OF pod] by (simp add: sameInputs_def)
    let ?L = "{i. hasNode_id cg i}" and ?f = "visitChild (visitNodeForInclusiveStatements depth cg) n" and ?cs = "callees cg n"
    have cs: "distinct ?cs" "set ?cs = {b. (n, b) \<in> edgeSet cg}" using wf_edgesD [OF wf_cgD(3) [OF wf]] by simp_all
    have cS: "set ?cs \<inter> insert n S = {}"
    proof -
      have "(y, y) \<in> (edgeSet cg)\<^sup>+" if "(n, y) \<in> edgeSet cg" "y = n \<or> y \<in> S" for y
        using that S(2) by (auto intro: trancl_into_trancl)
      then show ?thesis using acyc cs(2) by (auto simp: acyclic_def)
    qed
    have start: "childLoop cg n S V st1 [] (word_of_int (numStatements pod), {}, insert n V, st1)"
    proof -
      have "insert n V - insert n S = V - S" using False by blast
      then have "countsOk cg (insert n V - insert n S) st1" using countsOk_cong [OF ok same1] by simp
      then show ?thesis using V Suc.prems(1) pod_access [OF pod] by (auto simp: childLoop_def inclusiveCount_def)
    qed
    have "\<exists>s'. foldO ?f (map Some ?cs) (word_of_int (numStatements pod), {}, insert n V, st1) = Some (Inr s')
        \<and> (\<exists>ys. map Some ?cs = map Some ys \<and> childLoop cg n S V st1 ys s')"
    proof (rule foldO_total)
      show "\<exists>ys. [] = map Some ys \<and> childLoop cg n S V st1 ys (word_of_int (numStatements pod), {}, insert n V, st1)"
        using start by simp
    next
      fix xs x zs s
      assume split: "map Some ?cs = xs @ x # zs" and "\<exists>ys. xs = map Some ys \<and> childLoop cg n S V st1 ys s"
      then obtain ys where ys: "xs = map Some ys" and inv: "childLoop cg n S V st1 ys s" by blast
      obtain inc C Vk stk where s: "s = (inc, C, Vk, stk)" by (cases s)
      obtain y where y: "x = Some y" "y \<in> set ?cs" "y \<notin> set ys"
      proof -
        have "x \<in> set (map Some ?cs)" using split by simp
        then obtain y where y: "x = Some y" "y \<in> set ?cs" by auto
        have "distinct (xs @ x # zs)" using cs(1) split [symmetric] by (simp add: distinct_map)
        then have "y \<notin> set ys" using y ys by auto
        with y that show ?thesis by blast
      qed
      have Vk: "insert n V \<subseteq> Vk" "Vk \<subseteq> ?L" "countsOk cg (Vk - insert n S) stk" using inv s by (auto simp: childLoop_def)
      have ny: "(n, y) \<in> edgeSet cg" using y(2) cs(2) by simp
      have live: "hasNode_id cg y" using fwd.rel_live [OF wf ny] by simp
      have pre: "visitPre cg y (insert n S) Vk stk"
        using Vk S ny by (auto simp: visitPre_def intro: trancl_into_trancl)
      have "card (?L - Vk) < card (?L - V)"
        using Vk(1) False Suc.prems(1) by (intro psubset_card_mono) (auto simp: finite_live_ids)
      then have "card (?L - Vk) < depth" using Suc.prems(3) by simp
      with Suc.IH [OF live] have rec: "visitPre cg y (insert n S) Vk st2 \<Longrightarrow>
          \<exists>w V' st'. visitNodeForInclusiveStatements depth cg (Some y) (Vk, st2) = Some (Inr (w, V', st')) \<and> visitPost cg y (insert n S) Vk st2 w V' st'" for st2
        by blast
      have "\<exists>s'. ?f (Some y) (inc, C, Vk, stk) = Some (Inr s') \<and> childLoop cg n S V st1 (ys @ [y]) s'"
        by (rule childLoop_step [OF inv [unfolded s] y(3) _ pre]) (rule rec)
      then obtain s' where s': "?f x s = Some (Inr s')" "childLoop cg n S V st1 (ys @ [y]) s'" using s y(1) by blast
      then show "\<exists>s'. ?f x s = Some (Inr s') \<and> (\<exists>ys. xs @ [x] = map Some ys \<and> childLoop cg n S V st1 ys s')"
        using ys y(1) by (intro exI [of _ s'] conjI exI [of _ "ys @ [y]"]) simp_all
    qed
    then obtain inc C V' st2 where loop: "foldO ?f (map Some ?cs) (word_of_int (numStatements pod), {}, insert n V, st1) = Some (Inr (inc, C, V', st2))"
        and inv: "childLoop cg n S V st1 ?cs (inc, C, V', st2)"
      by (auto simp: inj_map_eq_map)
    let ?st3 = "setNumberOfInclusiveStatements inc n st2"
    have eq: "visitNodeForInclusiveStatements (Suc depth) cg (Some n) (V, st) = Some (Inr (inc, V', ?st3))"
      using False pod loop getCallees_own [OF wf] by simp
    have frame: "sameInputs W st2 ?st3" if "n \<notin> W" for W using that by (auto simp: sameInputs_def setIncl)
    have "countsOk cg (V' - S) ?st3"
      unfolding countsOk_def
    proof (intro ballI conjI)
      fix x assume x: "x \<in> V' - S"
      have old: "x \<noteq> n \<Longrightarrow> inclOf st2 x = inclusiveCount st2 x (set (callees cg x)) \<and> set (callees cg x) \<subseteq> V' - insert n S"
        using inv x by (auto simp: childLoop_def countsOk_def)
      show "set (callees cg x) \<subseteq> V' - S" using inv x old cS by (cases "x = n") (auto simp: childLoop_def)
      have "n \<notin> set (callees cg x)" using old cS by (cases "x = n") auto
      then have "inclusiveCount ?st3 x (set (callees cg x)) = inclusiveCount st2 x (set (callees cg x))"
        by (intro inclusiveCount_cong frame)
      then show "inclOf ?st3 x = inclusiveCount ?st3 x (set (callees cg x))"
        using old inv by (auto simp: setIncl childLoop_def)
    qed
    moreover have "sameInputs V st ?st3"
      using inv False same1 [of V] by (auto simp: childLoop_def sameInputs_def setIncl)
    ultimately show ?thesis using eq inv n by (auto simp: visitPost_def childLoop_def setIncl)
  qed
qed simp

text \<open>
  C33: On a call graph without recursion \<open>calculateInclusiveStatementCounts\<close> ends, with a recursion no deeper than the
  number of nodes, and gives every node reachable from main the count that its statements and the counts of its
  callees determine (the largest count of a callee for virtual functions without statements), modulo 2^64.
\<close>

theorem inclusive_statements:
  assumes wf: "wf_cg cg" and acyc: "acyclic (edgeSet cg)" and m: "hasNode_id cg m" and depth: "length (nodes cg) < depth"
  shows "\<exists>st'. calculateInclusiveStatementCounts depth cg m st = Some (Inr st')
    \<and> virtOf st' = virtOf st \<and> stmtsOf st' = stmtsOf st
    \<and> (\<forall>n. (m, n) \<in> (edgeSet cg)\<^sup>* \<longrightarrow> inclOf st' n = inclusiveCount st' n {c. (n, c) \<in> edgeSet cg})"
proof -
  have "{i. hasNode_id cg i} \<subseteq> {..<length (nodes cg)}" by (auto simp: hasNode_id_def)
  from card_mono [OF finite_lessThan this] have "card ({i. hasNode_id cg i} - {}) < depth" using depth by simp
  moreover have "visitPre cg m {} {} st" by (simp add: visitPre_def countsOk_def)
  ultimately obtain w V' st' where v: "visitNodeForInclusiveStatements depth cg (Some m) ({}, st) = Some (Inr (w, V', st'))"
      "visitPost cg m {} {} st w V' st'"
    using visit_correct [OF wf acyc m, of "{}" "{}" st depth] by metis
  have ok: "countsOk cg V' st'" "m \<in> V'" using v(2) by (auto simp: visitPost_def)
  have reach: "fwd.reach cg m \<subseteq> V'"
    by (rule fwd.closed_contains_reach [OF wf ok(2)]) (use ok(1) in \<open>auto simp: countsOk_def\<close>)
  have cs: "set (callees cg n) = {c. (n, c) \<in> edgeSet cg}" for n using fwd.succs_rel [OF wf] by auto
  have "inclOf st' n = inclusiveCount st' n {c. (n, c) \<in> edgeSet cg}" if "(m, n) \<in> (edgeSet cg)\<^sup>*" for n
  proof -
    have "n \<in> V'" using reach that by (auto simp: fwd.reach_def)
    then show ?thesis using ok(1) cs by (simp add: countsOk_def)
  qed
  moreover have "virtOf st' = virtOf st" "stmtsOf st' = stmtsOf st" using v(2) by (simp_all add: visitPost_def sameInputs_def)
  moreover have "calculateInclusiveStatementCounts depth cg m st = Some (Inr st')"
    using v(1) by (simp add: calculateInclusiveStatementCounts_def)
  ultimately show ?thesis by blast
qed

lemma acyclic_sample: "acyclic (edgeSet sample_cg)"
proof (rule acyclicI_order [where f = "\<lambda>n. - int n"])
  show "- int b < - int a" if "(a, b) \<in> edgeSet sample_cg" for a b using that by (auto simp: sample_cg_def edgeSet_def)
qed

theorem inclusive_statements_witness:
  "\<exists>st'. calculateInclusiveStatementCounts 10 sample_cg 0 samplePgis = Some (Inr st') \<and> stmtsOf st' = stmtsOf samplePgis
    \<and> (\<forall>n. (0, n) \<in> (edgeSet sample_cg)\<^sup>* \<longrightarrow> inclOf st' n = inclusiveCount st' n {c. (n, c) \<in> edgeSet sample_cg})"
proof -
  have "hasNode_id sample_cg 0" "length (nodes sample_cg) < 10" by (simp_all add: hasNode_id_def sample_cg_def)
  from inclusive_statements [OF wf_sample_cg acyclic_sample this, of samplePgis] show ?thesis by metis
qed

end
