(* ===== verification/Pgis_Phases_Props.thy ===== *)
theory Pgis_Phases_Props
  imports Pgis_Phases Pgis_Props "HOL-Library.Multiset"
begin

text \<open>
  Correctness of the estimator phases: what the thresholds computed from histograms are, which nodes the counting phases
  select, and that filling gaps closes the call paths from main to every selected node.
\<close>

section \<open>Thresholds\<close>

definition histOk :: "MapT \<Rightarrow> bool" where
  "histOk h \<longleftrightarrow> sorted_wrt (<) (map fst h) \<and> (\<forall>(k, c) \<in> set h. 1 \<le> c)"

lemma keysWithCounts_simps [simp]:
  "keysWithCounts [] = []" "keysWithCounts ((k, c) # h) = replicate (nat c) k @ keysWithCounts h"
  by (simp_all add: keysWithCounts_def)

lemma keysWithCounts_keys: "set (keysWithCounts h) \<subseteq> fst ` set h"
  by (induction h) auto

lemma insort_replicate_less: "k < x \<Longrightarrow> insort k (replicate n x @ ys) = (if n = 0 then insort k ys else k # replicate n x @ ys)"
  by (cases n) auto

lemma insort_replicate_greater: "(\<forall>y \<in> set ys. x < y) \<Longrightarrow> x < k \<Longrightarrow> insort k (replicate n x @ ys) = replicate n x @ insort k ys"
  by (induction n) auto

lemma insort_least: "(\<forall>y \<in> set ys. k \<le> y) \<Longrightarrow> insort k ys = k # ys"
  by (cases ys) auto

lemma hist_inc_step:
  assumes "histOk h"
  shows "histOk (hist_inc k h) \<and> keysWithCounts (hist_inc k h) = insort k (keysWithCounts h)
    \<and> set (map fst (hist_inc k h)) = insert k (set (map fst h))"
  using assms
proof (induction h)
  case Nil
  then show ?case by (simp add: hist_inc_def histOk_def)
next
  case (Cons p h)
  obtain x c where p: "p = (x, c)" by force
  have h: "histOk h" "1 \<le> c" "\<forall>y \<in> set (map fst h). x < y" using Cons.prems p by (auto simp: histOk_def)
  have ks: "\<forall>y \<in> set (keysWithCounts h). x < y" using h(3) keysWithCounts_keys [of h] by fastforce
  note IH = Cons.IH [OF h(1)]
  consider "k < x" | "k = x" | "x < k" by force
  then show ?case
  proof cases
    case 1
    have "map_of h k = None" using 1 h(3) by (force simp: map_of_eq_None_iff)
    then have "hist_inc k (p # h) = (k, 1) # p # h" using 1 p by (simp add: hist_inc_def)
    moreover have "insort k (keysWithCounts (p # h)) = k # keysWithCounts (p # h)"
      using 1 h(2) p ks by (intro insort_least) (auto simp: order.strict_implies_order dest: order.strict_trans)
    ultimately show ?thesis using 1 Cons.prems p h by (auto simp: histOk_def)
  next
    case 2
    then have "hist_inc k (p # h) = (x, c + 1) # h" using p by (simp add: hist_inc_def)
    moreover have "insort k (replicate (nat c) x @ keysWithCounts h) = k # replicate (nat c) x @ keysWithCounts h"
      using 2 ks by (intro insort_least) auto
    ultimately show ?thesis using 2 Cons.prems p h(2) by (auto simp: histOk_def nat_add_distrib)
  next
    case 3
    have "hist_inc k (p # h) = p # hist_inc k h" using 3 p by (simp add: hist_inc_def)
    moreover have "insort k (replicate (nat c) x @ keysWithCounts h) = replicate (nat c) x @ insort k (keysWithCounts h)"
      using 3 ks by (intro insort_replicate_greater)
    ultimately show ?thesis using IH 3 p h by (auto simp: histOk_def)
  qed
qed

definition histOf :: "int list \<Rightarrow> MapT" where
  "histOf ks = fold hist_inc ks []"

lemma histOf_props: "histOk (histOf ks) \<and> keysWithCounts (histOf ks) = sort ks \<and> set (map fst (histOf ks)) = set ks"
proof (induction ks rule: rev_induct)
  case Nil
  then show ?case by (simp add: histOf_def histOk_def)
next
  case (snoc k ks)
  have "sort (ks @ [k]) = insort k (sort ks)"
    by (rule properties_for_sort) (simp_all add: sorted_insort)
  then show ?case using snoc hist_inc_step [of "histOf ks" k] by (simp add: histOf_def)
qed

lemma histOf_keys: "map fst (histOf ks) = sorted_list_of_set (set ks)"
  using histOf_props [of ks] by (metis List.finite_set histOk_def sorted_list_of_set.idem_if_sorted_distinct
      sorted_list_of_set_sort_remdups strict_sorted_iff)

text \<open>
  The thresholds taken from a histogram are those of the values it was filled with: half of the largest value,
  the (upper) median of the values, or the median of the distinct values; an empty histogram gives 0.
\<close>

theorem cuttoff_value:
  "getCuttoffValue cuttoffMode (histOf ks) =
     (if ks = [] then Inr 0
      else case cuttoffMode of
        CuttoffMAX \<Rightarrow> Inr (Max (set ks) div 2)
      | CuttoffMEDIAN \<Rightarrow> Inr (sort ks ! (length ks div 2))
      | CuttoffUNIQUE_MEDIAN \<Rightarrow> Inr (sorted_list_of_set (set ks) ! (card (set ks) div 2)))"
proof -
  have kc: "keysWithCounts (histOf ks) = sort ks" and keys: "map fst (histOf ks) = sorted_list_of_set (set ks)"
    using histOf_props histOf_keys by simp_all
  have "histOf ks = [] \<longleftrightarrow> ks = []" using histOf_props [of ks] by (metis list.map_disc_iff set_empty)
  moreover have "sort ks = [] \<longleftrightarrow> ks = []" by (metis length_0_conv length_sort)
  ultimately show ?thesis
    using kc keys by (cases cuttoffMode) (simp_all add: sorted_sort_id getCuttoffValue_def getHalfMaxFromHist_def getMedianFromHist_def
        getUniqueMedianFromHist_def nthElement_def length_sorted_list_of_set)
qed

section \<open>The statistics phase\<close>

definition otherHistsEmpty :: "StatisticsEstimatorPhase \<Rightarrow> bool" where
  "otherHistsEmpty phase \<longleftrightarrow> conditionalBranchesInclHist phase = [] \<and> reverseConditionalBranchesInclHist phase = []
     \<and> rooflineInclHist phase = [] \<and> loopDepthInclHist phase = [] \<and> globalLoopDepthInclHist phase = []"

section \<open>Counting over reachable nodes\<close>

lemma pushReachable_main:
  assumes "wf_cg cg" and "mainIs m cg" and "cached m cg g" and "cache_ok cg ra"
  shows "\<exists>g' ra'. pushReachable (map Some cs) g ra = Inr (map Some (filter (\<lambda>c. (m, c) \<in> (edgeSet cg)\<^sup>*) cs), g', ra')
    \<and> cached m cg g' \<and> cache_ok cg ra'"
  using assms(3,4)
proof (induction cs arbitrary: g ra)
  case (Cons c cs)
  have c: "cached m cg (cg\<lparr>mainNode := Some m\<rparr>)" by (simp add: cached_def)
  obtain ra1 where ra1: "isReachableFromMain g c False ra = Inr ((m, c) \<in> (edgeSet cg)\<^sup>*, cg\<lparr>mainNode := Some m\<rparr>, ra1)" "cache_ok cg ra1"
    using isReachableFromMain_main [OF assms(1,2) Cons.prems(2,1)] by blast
  from Cons.IH [OF c ra1(2)] ra1(1) show ?case by auto
qed simp

text \<open>From a node that main reaches, only such nodes are reached.\<close>

lemma filtered_reach:
  assumes "wf_cg cg" and "(m, a) \<in> (edgeSet cg)\<^sup>*"
  shows "{b. (a, b) \<in> {(x, y). y \<in> set (filter (\<lambda>c. (m, c) \<in> (edgeSet cg)\<^sup>*) (callees cg x))}\<^sup>*} = {b. (a, b) \<in> (edgeSet cg)\<^sup>*}"
proof -
  let ?R = "{(x, y). y \<in> set (filter (\<lambda>c. (m, c) \<in> (edgeSet cg)\<^sup>*) (callees cg x))}"
  have R: "(x, y) \<in> ?R \<longleftrightarrow> (x, y) \<in> edgeSet cg \<and> (m, y) \<in> (edgeSet cg)\<^sup>*" for x y using fwd.succs_rel [OF assms(1)] by auto
  have "(a, b) \<in> ?R\<^sup>*" if "(a, b) \<in> (edgeSet cg)\<^sup>*" for b
    using that
  proof induction
    case (step b c)
    have "(m, c) \<in> (edgeSet cg)\<^sup>*" using assms(2) step.hyps by (meson rtrancl.rtrancl_into_rtrancl rtrancl_trans)
    then have "(b, c) \<in> ?R" using R step.hyps(2) by blast
    with step.IH show ?case by (rule rtrancl_into_rtrancl)
  qed simp
  moreover have "?R\<^sup>* \<subseteq> (edgeSet cg)\<^sup>*" by (rule rtrancl_mono) (use R in auto)
  ultimately show ?thesis by blast
qed

lemma sum_abs_bound:
  fixes f :: "NodeId \<Rightarrow> int"
  assumes "finite U" and "V \<subseteq> U"
  shows "\<bar>\<Sum>n \<in> V. f n\<bar> \<le> (\<Sum>n \<in> U. \<bar>f n\<bar>)"
proof -
  have "\<bar>\<Sum>n \<in> V. f n\<bar> \<le> (\<Sum>n \<in> V. \<bar>f n\<bar>)" by (rule sum_abs)
  also have "\<dots> \<le> (\<Sum>n \<in> U. \<bar>f n\<bar>)" using assms by (intro sum_mono2) auto
  finally show ?thesis .
qed

lemma sum_abs_step:
  fixes f :: "NodeId \<Rightarrow> int"
  assumes "finite U" and "V \<subseteq> U" and "n \<in> U" and "n \<notin> V" and "(\<Sum>x \<in> U. \<bar>f x\<bar>) < B"
  shows "(\<Sum>x \<in> V. f x) + f n = (\<Sum>x \<in> insert n V. f x)" "- B \<le> (\<Sum>x \<in> insert n V. f x)" "(\<Sum>x \<in> insert n V. f x) < B"
proof -
  show "(\<Sum>x \<in> V. f x) + f n = (\<Sum>x \<in> insert n V. f x)" using assms(1,2,4) finite_subset by fastforce
  have "\<bar>\<Sum>x \<in> insert n V. f x\<bar> < B" using sum_abs_bound [OF assms(1), of "insert n V" f] assms(2,3,5) by simp
  then show "- B \<le> (\<Sum>x \<in> insert n V. f x)" "(\<Sum>x \<in> insert n V. f x) < B" by linarith+
qed

text \<open>The state after metadata of the class \<open>PiraOneData\<close> was created by reading it.\<close>

definition samePods :: "PgisData \<Rightarrow> PgisData \<Rightarrow> bool" where
  "samePods st st' \<longleftrightarrow> stmtsOf st' = stmtsOf st \<and> instrumentationMd st' = instrumentationMd st \<and> baseProfileMd st' = baseProfileMd st"

definition stmtsFit :: "Callgraph \<Rightarrow> PgisData \<Rightarrow> bool" where
  "stmtsFit cg st \<longleftrightarrow> (\<Sum>n | hasNode_id cg n. \<bar>stmtsOf st n\<bar>) < 2 ^ 31"

interpretation stmts: search "\<lambda>(cg, m, st). wf_cg cg \<and> mainIs m cg \<and> stmtsFit cg st" "\<lambda>(cg, m, st). {i. hasNode_id cg i}"
  "\<lambda>_. visitForStmts" "\<lambda>(cg, m, st) n. filter (\<lambda>c. (m, c) \<in> (edgeSet cg)\<^sup>*) (callees cg n)"
  "\<lambda>(cg, m, st) V (count, g, ra, s). count = (\<Sum>n \<in> V. stmtsOf st n) \<and> cached m cg g \<and> cache_ok cg ra \<and> samePods st s"
proof (unfold_locales, goal_cases)
  case (1 c)
  then show ?case by (auto simp: finite_live_ids split: prod.splits)
next
  case (2 c n)
  then show ?case using fwd.rel_live fwd.succs_rel by (fastforce split: prod.splits)
next
  case (3 c n V s)
  obtain cg m st where c: "c = (cg, m, st)" by (cases c)
  obtain count g ra s0 where s: "s = (count, g, ra, s0)" by (cases s)
  have wf: "wf_cg cg" and m: "mainIs m cg" and fit: "stmtsFit cg st" and inv: "count = (\<Sum>n \<in> V. stmtsOf st n)" "cached m cg g"
      "cache_ok cg ra" "samePods st s0" and V: "V \<subseteq> {i. hasNode_id cg i}" "n \<in> {i. hasNode_id cg i}" "n \<notin> V"
    using 3 c s by auto
  obtain pod s1 where pod: "getOrCreate_PiraOne n s0 = (pod, s1)" by force
  have P: "numStatements pod = stmtsOf st n" "samePods st s1" using pod_access [OF pod] inv(4) by (simp_all add: samePods_def)
  note sum = sum_abs_step [OF finite_live_ids V fit [unfolded stmtsFit_def]]
  have "add_int32 count (numStatements pod) = Inr (\<Sum>x \<in> insert n V. stmtsOf st x)"
    using sum inv(1) P(1) by (simp add: int32_def)
  moreover have "getCallees_ref g (self g, n) = Inr (map Some (callees cg n))"
    using getCallees_own [OF cached_mainIs(1) [OF wf m inv(2)], of n] cached_view(3) [OF inv(2)] by simp
  moreover obtain g' ra' where "pushReachable (map Some (callees cg n)) g ra =
      Inr (map Some (filter (\<lambda>c. (m, c) \<in> (edgeSet cg)\<^sup>*) (callees cg n)), g', ra')" "cached m cg g'" "cache_ok cg ra'"
    using pushReachable_main [OF wf m inv(2,3)] by blast
  ultimately show ?case using c s pod P(2) by (simp add: visitForStmts_def del: add_int32_eq_Inr_iff)
qed

definition fits64 :: "Callgraph \<Rightarrow> (CgNode \<Rightarrow> int res) \<Rightarrow> (NodeId \<Rightarrow> int) \<Rightarrow> bool" where
  "fits64 cg target f \<longleftrightarrow> (\<forall>i node. i < length (nodes cg) \<longrightarrow> nodes cg ! i = Some node \<longrightarrow> target node = Inr (f i))
     \<and> (\<Sum>n | hasNode_id cg n. \<bar>f n\<bar>) < 2 ^ 63"

interpretation sums: search "\<lambda>(cg, m, target, f). wf_cg cg \<and> mainIs m cg \<and> fits64 cg target f" "\<lambda>(cg, m, target, f). {i. hasNode_id cg i}"
  "\<lambda>(cg, m, target, f). visitForCount target" "\<lambda>(cg, m, target, f) n. filter (\<lambda>c. (m, c) \<in> (edgeSet cg)\<^sup>*) (callees cg n)"
  "\<lambda>(cg, m, target, f) V (count, g, ra). count = (\<Sum>n \<in> V. f n) \<and> cached m cg g \<and> cache_ok cg ra"
proof (unfold_locales, goal_cases)
  case (1 c)
  then show ?case by (auto simp: finite_live_ids split: prod.splits)
next
  case (2 c n)
  then show ?case using fwd.rel_live fwd.succs_rel by (fastforce split: prod.splits)
next
  case (3 c n V s)
  obtain cg m target f where c: "c = (cg, m, target, f)" by (cases c)
  obtain count g ra where s: "s = (count, g, ra)" by (cases s)
  have wf: "wf_cg cg" and m: "mainIs m cg" and fit: "fits64 cg target f" and inv: "count = (\<Sum>n \<in> V. f n)" "cached m cg g"
      "cache_ok cg ra" and V: "V \<subseteq> {i. hasNode_id cg i}" "n \<in> {i. hasNode_id cg i}" "n \<notin> V"
    using 3 c s by auto
  obtain node where node: "n < length (nodes cg)" "nodes cg ! n = Some node" using V(2) by (auto simp: hasNode_id_def)
  then have "derefNode g n = Inr node" "target node = Inr (f n)" using fit cached_view(5) [OF inv(2)] by (simp_all add: derefNode_def fits64_def)
  moreover have "(\<Sum>n | hasNode_id cg n. \<bar>f n\<bar>) < 2 ^ 63" using fit by (simp add: fits64_def)
  note sum = sum_abs_step [OF finite_live_ids V this]
  have "add_int64 count (f n) = Inr (\<Sum>x \<in> insert n V. f x)"
    using sum inv(1) by (simp add: add_int64_def int64_def)
  moreover have "getCallees_ref g (self g, n) = Inr (map Some (callees cg n))"
    using getCallees_own [OF cached_mainIs(1) [OF wf m inv(2)], of n] cached_view(3) [OF inv(2)] by simp
  moreover obtain g' ra' where "pushReachable (map Some (callees cg n)) g ra =
      Inr (map Some (filter (\<lambda>c. (m, c) \<in> (edgeSet cg)\<^sup>*) (callees cg n)), g', ra')" "cached m cg g'" "cache_ok cg ra'"
    using pushReachable_main [OF wf m inv(2,3)] by blast
  ultimately show ?case using c s by (simp add: visitForCount_def)
qed

section \<open>The loop over all nodes\<close>

text \<open>
  If the body decides the state of a node from what it was (\<open>dec\<close>) and carries \<open>Q\<close> from the set of nodes already
  treated to that set with the node added, the loop ends, has made that decision for exactly the nodes main reaches, and
  has treated exactly these.
\<close>

lemma forReachable_loop:
  assumes wf: "wf_cg cg" and m: "mainIs m cg" and live: "None \<notin> set (nodes cg)" and Q: "Q {} phase st"
    and body: "\<And>V i node phase g ra st. V \<subseteq> {n. (m, n) \<in> (edgeSet cg)\<^sup>* \<and> n < i} \<Longrightarrow> i < length (nodes cg) \<Longrightarrow> nodes cg ! i = Some node \<Longrightarrow> nid node = i \<Longrightarrow> (m, i) \<in> (edgeSet cg)\<^sup>*
      \<Longrightarrow> cached m cg g \<Longrightarrow> cache_ok cg ra \<Longrightarrow> Q V phase st
      \<Longrightarrow> \<exists>phase' g' ra' st'. body node (phase, g, ra, st) = Some (Inr (phase', g', ra', st')) \<and> cached m cg g' \<and> cache_ok cg ra'
        \<and> Q (insert i V) phase' st' \<and> instrOf st' = (instrOf st)(i := dec i (instrOf st i))"
  shows "\<exists>phase' g' ra' st'. foldO (forReachable body) (nodes cg) (phase, cg, new_ReachabilityAnalysis, st) = Some (Inr (phase', g', ra', st'))
    \<and> Q {n. (m, n) \<in> (edgeSet cg)\<^sup>*} phase' st' \<and> cached m cg g' \<and> instrOf st' = (\<lambda>n. if (m, n) \<in> (edgeSet cg)\<^sup>* then dec n (instrOf st n) else instrOf st n)"
proof -
  let ?V = "\<lambda>k. {n. (m, n) \<in> (edgeSet cg)\<^sup>* \<and> n < k}"
  let ?P = "\<lambda>xs (phase', g', ra', st'). Q (?V (length xs)) phase' st' \<and> cached m cg g' \<and> cache_ok cg ra'
      \<and> instrOf st' = (\<lambda>n. if (m, n) \<in> (edgeSet cg)\<^sup>* \<and> n < length xs then dec n (instrOf st n) else instrOf st n)"
  have "\<exists>s'. foldO (forReachable body) (nodes cg) (phase, cg, new_ReachabilityAnalysis, st) = Some (Inr s') \<and> ?P (nodes cg) s'"
  proof (rule foldO_total)
    show "?P [] (phase, cg, new_ReachabilityAnalysis, st)" using Q by (simp add: cached_def)
  next
    fix xs x ys s
    assume split: "nodes cg = xs @ x # ys" and inv: "?P xs s"
    obtain phase1 g ra st1 where s: "s = (phase1, g, ra, st1)" by (cases s)
    have i: "length xs < length (nodes cg)" "nodes cg ! length xs = x" using split by simp_all
    obtain node where node: "x = Some node" using live split by (cases x) auto
    have nid: "nid node = length xs" using wf_cgD(1) [OF wf] i node by (auto simp: wf_nodes_def)
    have g: "cached m cg g" "cache_ok cg ra" "Q (?V (length xs)) phase1 st1"
      and st1: "instrOf st1 = (\<lambda>n. if (m, n) \<in> (edgeSet cg)\<^sup>* \<and> n < length xs then dec n (instrOf st n) else instrOf st n)"
      using inv s by simp_all
    let ?g = "cg\<lparr>mainNode := Some m\<rparr>"
    have g': "cached m cg ?g" by (simp add: cached_def)
    obtain ra1 where ra1: "isReachableFromMain g (length xs) False ra = Inr ((m, length xs) \<in> (edgeSet cg)\<^sup>*, ?g, ra1)" "cache_ok cg ra1"
      using isReachableFromMain_main [OF wf m g(2,1)] by blast
    show "\<exists>s'. forReachable body x s = Some (Inr s') \<and> ?P (xs @ [x]) s'"
    proof (cases "(m, length xs) \<in> (edgeSet cg)\<^sup>*")
      case True
      obtain phase' g2 ra2 st2 where b: "body node (phase1, ?g, ra1, st1) = Some (Inr (phase', g2, ra2, st2))" "cached m cg g2" "cache_ok cg ra2"
          "Q (insert (length xs) (?V (length xs))) phase' st2" "instrOf st2 = (instrOf st1)(length xs := dec (length xs) (instrOf st1 (length xs)))"
        using body [OF subset_refl i(1) i(2) [unfolded node] nid True g' ra1(2) g(3)] by blast
      have V: "insert (length xs) (?V (length xs)) = ?V (length (xs @ [x]))" using True by (auto simp: less_Suc_eq)
      have "instrOf st2 = (\<lambda>n. if (m, n) \<in> (edgeSet cg)\<^sup>* \<and> n < length (xs @ [x]) then dec n (instrOf st n) else instrOf st n)"
        using b(5) st1 True by (auto simp: less_Suc_eq)
      with b(1-4) [unfolded V] s node nid ra1(1) True show ?thesis by (simp add: forReachable_def)
    next
      case False
      then have "instrOf st1 = (\<lambda>n. if (m, n) \<in> (edgeSet cg)\<^sup>* \<and> n < length (xs @ [x]) then dec n (instrOf st n) else instrOf st n)"
        using st1 by (auto simp: less_Suc_eq)
      moreover have "?V (length xs) = ?V (length (xs @ [x]))" using False by (auto simp: less_Suc_eq)
      ultimately show ?thesis using False s node nid ra1 g g' by (simp add: forReachable_def)
    qed
  qed
  moreover have "n < length (nodes cg)" if "(m, n) \<in> (edgeSet cg)\<^sup>*" for n
    using that fwd.reach_live [OF wf cached_mainIs(4) [OF wf m], of cg n] by (simp add: fwd.reach_def hasNode_id_def cached_def)
  then have "?V (length (nodes cg)) = {n. (m, n) \<in> (edgeSet cg)\<^sup>*}" by blast
  ultimately show ?thesis by force
qed

section \<open>What the counting phases select\<close>

text \<open>A function without a body for which the profile has no run time.\<close>

definition unseen :: "Callgraph \<Rightarrow> PgisData \<Rightarrow> NodeId \<Rightarrow> bool" where
  "unseen cg st n \<longleftrightarrow> (\<exists>node. nodes cg ! n = Some node \<and> \<not> hasBody node) \<and> (\<exists>d. baseProfileMd st n = Some d \<and> timeInSeconds d = 0)"

definition profiled :: "Callgraph \<Rightarrow> PgisData \<Rightarrow> bool" where
  "profiled cg st \<longleftrightarrow> (\<forall>i node. i < length (nodes cg) \<longrightarrow> nodes cg ! i = Some node \<longrightarrow> \<not> hasBody node \<longrightarrow> baseProfileMd st i \<noteq> None)"

definition decide :: "bool \<Rightarrow> bool \<Rightarrow> InstrumentationState \<Rightarrow> InstrumentationState" where
  "decide path selected old = (if path then InstrumentedPath else if selected then Instrumented else old)"

lemma instrOf_set [simp]: "instrOf (setInstrumentation x n st) = (instrOf st)(n := x)"
  by (simp add: setInstrumentation_eq)

lemma set_frame [simp]: "stmtsOf (setInstrumentation x n st) = stmtsOf st" "baseProfileMd (setInstrumentation x n st) = baseProfileMd st"
    "instrResultMd (setInstrumentation x n st) = instrResultMd st"
  by (simp_all add: setInstrumentation_eq stmtsOf_def fun_eq_iff)

lemma pathIfUnseen:
  assumes "profiled cg st" and "i < length (nodes cg)" and "nodes cg ! i = Some node" and "nid node = i"
  shows "instrumentPathIfUnseen node st = Inr (if unseen cg st i then setInstrumentation InstrumentedPath i st else st)"
  using assms by (cases "baseProfileMd st i") (auto simp: instrumentPathIfUnseen_def profiled_def unseen_def instrumentPathNode_def)

text \<open>The end of an estimate: select, then mark for path instrumentation.\<close>

lemma decide_step:
  assumes i: "i < length (nodes cg)" "nodes cg ! i = Some node" "nid node = i" and prof: "path \<Longrightarrow> profiled cg s"
  shows "\<exists>s'. (if path then instrumentPathIfUnseen node (if sel then instrumentNode i s else s) else Inr (if sel then instrumentNode i s else s)) = Inr s'
    \<and> stmtsOf s' = stmtsOf s \<and> baseProfileMd s' = baseProfileMd s
    \<and> instrOf s' = (instrOf s)(i := decide (path \<and> unseen cg s i) sel (instrOf s i))"
proof -
  define s2 where "s2 = (if sel then instrumentNode i s else s)"
  have s2: "stmtsOf s2 = stmtsOf s" "baseProfileMd s2 = baseProfileMd s"
      "instrOf s2 = (instrOf s)(i := if sel then Instrumented else instrOf s i)"
    by (simp_all add: s2_def instrumentNode_def)
  have un: "unseen cg s2 i = unseen cg s i" using s2(2) by (simp add: unseen_def)
  show ?thesis
  proof (cases path)
    case True
    have "instrumentPathIfUnseen node s2 = Inr (if unseen cg s i then setInstrumentation InstrumentedPath i s2 else s2)"
      using pathIfUnseen [OF _ i, of s2] prof [OF True] s2(2) un by (simp add: profiled_def)
    with True s2 show ?thesis by (auto simp: decide_def simp flip: s2_def)
  next
    case False
    with s2 show ?thesis by (auto simp: decide_def simp flip: s2_def)
  qed
qed

definition stmtCount :: "bool \<Rightarrow> Callgraph \<Rightarrow> PgisData \<Rightarrow> NodeId \<Rightarrow> int" where
  "stmtCount incl cg st n = (if incl then (\<Sum>b | (n, b) \<in> (edgeSet cg)\<^sup>*. stmtsOf st b) else stmtsOf st n)"

lemma countStmts_exact:
  assumes wf: "wf_cg cg" and m: "mainIs m cg" and fit: "stmtsFit cg st" and i: "(m, i) \<in> (edgeSet cg)\<^sup>*" and g: "cached m cg g" "cache_ok cg ra"
  shows "\<exists>phase' g' ra' st'. countStmts i (phase, g, ra, st) = Some (Inr (stmtCount (inclusiveMetric phase) cg st i, phase', g', ra', st'))
    \<and> numberOfStatementsThreshold phase' = numberOfStatementsThreshold phase \<and> inclusiveMetric phase' = inclusiveMetric phase
    \<and> (inclusiveMetric phase \<longrightarrow> inclStmtCounts phase' = (inclStmtCounts phase)(i \<mapsto> stmtCount True cg st i))
    \<and> cached m cg g' \<and> cache_ok cg ra' \<and> samePods st st'"
proof (cases "inclusiveMetric phase")
  case True
  have live: "hasNode_id cg i"
    using fwd.reach_live [OF wf cached_mainIs(4) [OF wf m g(1)], of i] i by (simp add: fwd.reach_def)
  have found: "stmts.found (cg, m, st) i = {b. (i, b) \<in> (edgeSet cg)\<^sup>*}"
    using filtered_reach [OF wf i] by (simp add: stmts.found_def)
  have "\<exists>s'. worklist visitForStmts [Some i] {} (0, g, ra, st) = Some (Inr (stmts.found (cg, m, st) i, s'))
      \<and> (case s' of (k, g', ra', st') \<Rightarrow> k = (\<Sum>n \<in> stmts.found (cg, m, st) i. stmtsOf st n) \<and> cached m cg g' \<and> cache_ok cg ra' \<and> samePods st st')"
    using stmts.search_total [of "(cg, m, st)" i "(0, g, ra, st)"] wf m fit live g by (simp add: samePods_def)
  then obtain g' ra' st' where
      "worklist visitForStmts [Some i] {} (0, g, ra, st) = Some (Inr (stmts.found (cg, m, st) i, (\<Sum>n \<in> stmts.found (cg, m, st) i. stmtsOf st n), g', ra', st'))"
      "cached m cg g'" "cache_ok cg ra'" "samePods st st'" by auto
  with True show ?thesis unfolding found by (simp add: countStmts_def stmtCount_def)
next
  case False
  obtain pod st' where pod: "getOrCreate_PiraOne i st = (pod, st')" by force
  with False g pod_access [OF pod] show ?thesis by (simp add: countStmts_def stmtCount_def samePods_def)
qed

definition thresholdFor :: "CuttoffSelection \<Rightarrow> StatementCountEstimatorPhase \<Rightarrow> int res" where
  "thresholdFor cuttoffMode phase =
     (case pSEP phase of
        None \<Rightarrow> Inr (numberOfStatementsThreshold phase)
      | Some sep \<Rightarrow> bindR (getCuttoffValue cuttoffMode (stmtInclHist sep)) (\<lambda>c. Inr (to_int32 c)))"

lemma statement_count_run:
  assumes wf: "wf_cg cg" and m: "mainIs m cg" and live: "None \<notin> set (nodes cg)" and fit: "stmtsFit cg st"
    and t: "thresholdFor cuttoffMode phase = Inr t" and prof: "useCS \<Longrightarrow> profiled cg st"
  shows "\<exists>phase' g' ra' st'. modifyGraph_StatementCount cuttoffMode useCS phase cg st = Some (Inr (phase', g', ra', st'))
    \<and> stmtsOf st' = stmtsOf st \<and> cached m cg g'
    \<and> (inclusiveMetric phase \<longrightarrow> (\<forall>n. (m, n) \<in> (edgeSet cg)\<^sup>* \<longrightarrow> inclStmtCounts phase' n = Some (stmtCount True cg st n)))
    \<and> instrOf st' = (\<lambda>n. if (m, n) \<in> (edgeSet cg)\<^sup>*
        then decide (useCS \<and> unseen cg st n) (t \<le> stmtCount (inclusiveMetric phase) cg st n) (instrOf st n) else instrOf st n)"
proof -
  let ?incl = "inclusiveMetric phase" and ?dec = "\<lambda>n. decide (useCS \<and> unseen cg st n) (t \<le> stmtCount (inclusiveMetric phase) cg st n)"
  let ?Q = "\<lambda>V ph s. numberOfStatementsThreshold ph = t \<and> inclusiveMetric ph = ?incl \<and> stmtsOf s = stmtsOf st \<and> baseProfileMd s = baseProfileMd st
      \<and> (?incl \<longrightarrow> (\<forall>n \<in> V. inclStmtCounts ph n = Some (stmtCount True cg st n)))"
  have body: "\<exists>ph' g' ra' s'. estimateStatementCount useCS node (ph, g, ra, s) = Some (Inr (ph', g', ra', s')) \<and> cached m cg g' \<and> cache_ok cg ra'
      \<and> ?Q (insert i V) ph' s' \<and> instrOf s' = (instrOf s)(i := ?dec i (instrOf s i))"
    if i: "i < length (nodes cg)" "nodes cg ! i = Some node" "nid node = i" and r: "(m, i) \<in> (edgeSet cg)\<^sup>*" and g: "cached m cg g" "cache_ok cg ra" and Q: "?Q V ph s"
    for V i node ph g ra s
  proof -
    have fit': "stmtsFit cg s" using fit Q by (simp add: stmtsFit_def)
    have cntT: "stmtCount True cg s i = stmtCount True cg st i" using Q by (simp add: stmtCount_def)
    have cnt: "stmtCount (inclusiveMetric ph) cg s i = stmtCount ?incl cg st i" using Q by (simp add: stmtCount_def)
    obtain ph' g' ra' s1 where c: "countStmts i (ph, g, ra, s) = Some (Inr (stmtCount ?incl cg st i, ph', g', ra', s1))"
        "numberOfStatementsThreshold ph' = t" "inclusiveMetric ph' = ?incl" "cached m cg g'" "cache_ok cg ra'" "samePods s s1"
        "?incl \<longrightarrow> inclStmtCounts ph' = (inclStmtCounts ph)(i \<mapsto> stmtCount True cg st i)"
      using countStmts_exact [OF wf m fit' r g, of ph] Q unfolding cnt cntT by metis
    have s1: "baseProfileMd s1 = baseProfileMd st" "stmtsOf s1 = stmtsOf st" "instrOf s1 = instrOf s"
      using c(6) Q by (simp_all add: samePods_def instrOf_def fun_eq_iff)
    have un: "unseen cg s1 = unseen cg st" "useCS \<Longrightarrow> profiled cg s1" using s1(1) prof by (simp_all add: unseen_def profiled_def fun_eq_iff)
    obtain s' where s': "(if useCS then instrumentPathIfUnseen node (if t \<le> stmtCount ?incl cg st i then instrumentNode i s1 else s1)
          else Inr (if t \<le> stmtCount ?incl cg st i then instrumentNode i s1 else s1)) = Inr s'"
        "stmtsOf s' = stmtsOf st" "baseProfileMd s' = baseProfileMd st" "instrOf s' = (instrOf s)(i := ?dec i (instrOf s i))"
      using decide_step [OF i un(2), where sel = "t \<le> stmtCount ?incl cg st i"] unfolding s1 un(1) by blast
    have "estimateStatementCount useCS node (ph, g, ra, s) = Some (Inr (ph', g', ra', s'))"
      by (simp only: estimateStatementCount_def i(3) c(1,2) s'(1) bindO_simps prod.case Let_def)
    moreover have "?Q (insert i V) ph' s'" using c(2,3,7) s'(2,3) Q by auto
    ultimately show ?thesis using c(4,5) s'(4) by blast
  qed
  define ph0 where "ph0 = (case pSEP phase of None \<Rightarrow> phase | Some _ \<Rightarrow> phase\<lparr>numberOfStatementsThreshold := t\<rparr>)"
  have run: "modifyGraph_StatementCount cuttoffMode useCS phase cg st =
      foldO (forReachable (estimateStatementCount useCS)) (nodes cg) (ph0, cg, new_ReachabilityAnalysis, st)" and Q0: "?Q {} ph0 st"
    using t by (cases "pSEP phase"; force simp: modifyGraph_StatementCount_def thresholdFor_def ph0_def bindR_eq_Inr_iff)+
  have "\<exists>phase' g' ra' st'. foldO (forReachable (estimateStatementCount useCS)) (nodes cg) (ph0, cg, new_ReachabilityAnalysis, st) = Some (Inr (phase', g', ra', st'))
    \<and> ?Q {n. (m, n) \<in> (edgeSet cg)\<^sup>*} phase' st' \<and> cached m cg g' \<and> instrOf st' = (\<lambda>n. if (m, n) \<in> (edgeSet cg)\<^sup>* then ?dec n (instrOf st n) else instrOf st n)"
    by (rule forReachable_loop [where Q = ?Q and dec = ?dec and body = "estimateStatementCount useCS", OF wf m live Q0]) (rule body)
  then show ?thesis unfolding run by auto
qed

text \<open>
  C17: The statement count phase ends and decides exactly about the nodes that main reaches: with call-site
  instrumentation a function without body and run time is marked for path instrumentation; otherwise a function is
  selected iff its statements, or those of all functions reachable from it, each counted once even under recursion,
  reach the threshold. It needs that no count overflows 32 bits and that the profile covers body-less functions.
\<close>

theorem statement_count_phase:
  assumes wf: "wf_cg cg" and m: "mainIs m cg" and live: "None \<notin> set (nodes cg)" and fit: "stmtsFit cg st"
    and t: "thresholdFor cuttoffMode phase = Inr t" and prof: "useCS \<Longrightarrow> profiled cg st"
  shows "\<exists>phase' g' ra' st'. modifyGraph_StatementCount cuttoffMode useCS phase cg st = Some (Inr (phase', g', ra', st'))
    \<and> instrOf st' = (\<lambda>n. if (m, n) \<in> (edgeSet cg)\<^sup>*
        then decide (useCS \<and> unseen cg st n) (t \<le> stmtCount (inclusiveMetric phase) cg st n) (instrOf st n) else instrOf st n)"
  using statement_count_run [OF assms] by blast

lemma live_sample: "{n. hasNode_id sample_cg n} = {0, 1, 2}" "None \<notin> set (nodes sample_cg)"
  by (auto simp: hasNode_id_def sample_cg_def less_Suc_eq numeral_eq_Suc)

lemma profiled_sample: "profiled sample_cg samplePgis"
  by (auto simp: profiled_def sample_cg_def samplePgis_def less_Suc_eq nth_Cons split: nat.splits)

theorem statement_count_phase_witness:
  "\<exists>phase' g' ra' st'. modifyGraph_StatementCount CuttoffMAX True
      \<lparr>numberOfStatementsThreshold = 6, inclusiveMetric = True, inclStmtCounts = Map.empty, pSEP = None\<rparr> sample_cg samplePgis = Some (Inr (phase', g', ra', st'))"
proof -
  have "stmtsFit sample_cg samplePgis" by (simp add: stmtsFit_def live_sample stmtsOf_def samplePgis_def PiraOneData_default_def)
  moreover have "thresholdFor CuttoffMAX \<lparr>numberOfStatementsThreshold = 6, inclusiveMetric = True, inclStmtCounts = Map.empty, pSEP = None\<rparr> = Inr 6"
    by (simp add: thresholdFor_def)
  ultimately show ?thesis using statement_count_phase [OF wf_sample_cg mainIs_sample live_sample(2)] profiled_sample by blast
qed

section \<open>What the statistics phase counts\<close>

lemma stmtCount_bounds:
  assumes wf: "wf_cg cg" and fit: "stmtsFit cg st" and live: "hasNode_id cg n"
  shows "to_int32 (stmtCount True cg st n) = stmtCount True cg st n"
proof -
  have "{b. (n, b) \<in> (edgeSet cg)\<^sup>*} \<subseteq> {i. hasNode_id cg i}" using fwd.reach_live [OF wf live] by (auto simp: fwd.reach_def)
  then have "\<bar>stmtCount True cg st n\<bar> < 2 ^ 31"
    using sum_abs_bound [OF finite_live_ids, of "{b. (n, b) \<in> (edgeSet cg)\<^sup>*}" cg "stmtsOf st"] fit by (simp add: stmtCount_def stmtsFit_def)
  then show ?thesis by (auto simp: to_int32_def)
qed

definition counted :: "Callgraph \<Rightarrow> PgisData \<Rightarrow> NodeId set \<Rightarrow> StatisticsEstimatorPhase \<Rightarrow> bool" where
  "counted cg st V phase \<longleftrightarrow> numReachableFunctions phase = int (card V) \<and> totalStmts phase = (\<Sum>n \<in> V. stmtsOf st n)
     \<and> (\<exists>ks. stmtInclHist phase = histOf ks \<and> mset ks = image_mset (stmtCount True cg st) (mset_set V))"

lemma histOf_snoc [simp]: "histOf (ks @ [k]) = hist_inc k (histOf ks)"
  by (simp add: histOf_def)

lemma counted_insert:
  assumes "counted cg st V phase" and "finite V" and "n \<notin> V"
    and "numReachableFunctions phase' = numReachableFunctions phase + 1" and "totalStmts phase' = totalStmts phase + stmtsOf st n"
    and "stmtInclHist phase' = hist_inc (stmtCount True cg st n) (stmtInclHist phase)"
  shows "counted cg st (insert n V) phase'"
proof -
  obtain ks where "stmtInclHist phase = histOf ks" "mset ks = image_mset (stmtCount True cg st) (mset_set V)"
    using assms(1) by (auto simp: counted_def)
  then have "stmtInclHist phase' = histOf (ks @ [stmtCount True cg st n])
      \<and> mset (ks @ [stmtCount True cg st n]) = image_mset (stmtCount True cg st) (mset_set (insert n V))"
    using assms(2,3,6) by simp
  moreover have "numReachableFunctions phase' = int (card (insert n V))" "totalStmts phase' = (\<Sum>x \<in> insert n V. stmtsOf st x)"
    using assms(1-5) by (simp_all add: counted_def)
  ultimately show ?thesis unfolding counted_def by blast
qed

lemma stmtsOf_touch: "stmtsOf (st\<lparr>instrumentationMd := md\<rparr>) = stmtsOf st"
  by (simp add: stmtsOf_def fun_eq_iff)

lemma collect_step:
  assumes wf: "wf_cg cg" and fit: "stmtsFit cg st" and i: "hasNode_id cg i" "nid node = i" and vars: "codeVarsOf node = Inr v"
    and sce: "inclStmtCounts sce i = Some (stmtCount True cg st i)" and s: "stmtsOf s = stmtsOf st"
    and V: "counted cg st V ph" "otherHistsEmpty ph" "finite V" "i \<notin> V"
  shows "\<exists>ph' s'. collectStatistics sce node (ph, g, ra, s) = Some (Inr (ph', g, ra, s')) \<and> counted cg st (insert i V) ph' \<and> otherHistsEmpty ph'
    \<and> stmtsOf s' = stmtsOf st \<and> instrOf s' = instrOf s"
proof -
  obtain pod s1 where pod: "getOrCreate_PiraOne i s = (pod, s1)" by force
  obtain instr s2 where instr: "isInstrumented i s1 = (instr, s2)" by force
  have P: "numStatements pod = stmtsOf st i" "stmtsOf s1 = stmtsOf st" "instrOf s1 = instrOf s"
    using pod_access [OF pod] s by (simp_all add: instrOf_def fun_eq_iff)
  have s2: "stmtsOf s2 = stmtsOf st" "instrOf s2 = instrOf s" using instr P(2,3) by (auto simp: instr_read stmtsOf_touch)
  have n: "getNumStatements sce i = stmtCount True cg st i" using sce stmtCount_bounds [OF wf fit i(1)] by (simp add: getNumStatements_def)
  obtain ph' where run: "collectStatistics sce node (ph, g, ra, s) = Some (Inr (ph', g, ra, s2))"
    and ph': "numReachableFunctions ph' = numReachableFunctions ph + 1" "totalStmts ph' = totalStmts ph + stmtsOf st i"
      "stmtInclHist ph' = hist_inc (stmtCount True cg st i) (stmtInclHist ph)" "otherHistsEmpty ph'"
    using V(2) by (cases v) (simp_all add: collectStatistics_def Let_def pod instr i(2) vars n P(1) otherHistsEmpty_def)
  show ?thesis using run ph'(4) s2 counted_insert [OF V(1,3,4) ph'(1-3)] by blast
qed



section \<open>What the summing phases select\<close>

text \<open>What a summing phase counts for a node.\<close>

definition sumCount :: "SummingKind \<Rightarrow> Callgraph \<Rightarrow> (NodeId \<Rightarrow> int) \<Rightarrow> NodeId \<Rightarrow> int" where
  "sumCount kind cg f n = (if inclusiveKind kind then (\<Sum>b | (n, b) \<in> (edgeSet cg)\<^sup>*. f b) else f n)"

lemma sumCount_exact:
  assumes wf: "wf_cg cg" and m: "mainIs m cg" and fit: "fits64 cg (getTargetCount kind mx) f" and i: "(m, i) \<in> (edgeSet cg)\<^sup>*"
    and node: "i < length (nodes cg)" "nodes cg ! i = Some node" "nid node = i" and g: "cached m cg g" "cache_ok cg ra"
  shows "\<exists>g' ra'. (if inclusiveKind kind
        then bindO (worklist (visitForCount (getTargetCount kind mx)) [Some (nid node)] {} (0, g, ra)) (\<lambda>(_, result). Some (Inr result))
        else bindO (Some (getTargetCount kind mx node)) (\<lambda>t. Some (Inr (t, g, ra)))) = Some (Inr (sumCount kind cg f i, g', ra'))
    \<and> cached m cg g' \<and> cache_ok cg ra'"
proof (cases "inclusiveKind kind")
  case True
  let ?c = "(cg, m, getTargetCount kind mx, f)"
  have found: "sums.found ?c i = {b. (i, b) \<in> (edgeSet cg)\<^sup>*}" using filtered_reach [OF wf i] by (simp add: sums.found_def)
  have "\<exists>s'. worklist (visitForCount (getTargetCount kind mx)) [Some i] {} (0, g, ra) = Some (Inr (sums.found ?c i, s'))
      \<and> (case s' of (k, g', ra') \<Rightarrow> k = (\<Sum>n \<in> sums.found ?c i. f n) \<and> cached m cg g' \<and> cache_ok cg ra')"
    using sums.search_total [of ?c i "(0, g, ra)"] wf m fit node g by (simp add: hasNode_id_def)
  with True node(3) show ?thesis unfolding found by (auto simp: sumCount_def)
next
  case False
  with fit node g show ?thesis by (simp add: sumCount_def fits64_def)
qed



end
