(* ===== verification/Pgis_Gaps.thy ===== *)
theory Pgis_Gaps
  imports Pgis_Phases_Props
begin

text \<open>
  The phase that closes the call paths of a selection (\<^verbatim>\<open>FillInstrumentationGapsPhase\<close> of
  \<^verbatim>\<open>pgis/lib/src/IPCGEstimatorPhase.cpp\<close>): which nodes its first loop collects and what its second
  loop instruments.
\<close>

section \<open>Filling gaps\<close>

lemma set_set_insert:
  assumes "\<And>y. y \<in> set ys \<Longrightarrow> \<not> lt x y \<Longrightarrow> \<not> lt y x \<Longrightarrow> x = y"
  shows "set (set_insert lt x ys) = insert x (set ys)"
  using assms by (induction ys) auto

definition distinctNames :: "Callgraph \<Rightarrow> bool" where
  "distinctNames cg \<longleftrightarrow> (\<forall>i j. hasNode_id cg i \<longrightarrow> nameAt cg i = nameAt cg j \<longrightarrow> i = j)"

lemma NameComparator_distinct:
  assumes "distinctNames cg" and "hasNode_id cg x" and "hasNode_id cg y" and "\<not> NameComparator cg x y" and "\<not> NameComparator cg y x"
  shows "x = y"
proof -
  have "functionName (the (nodes cg ! x)) = functionName (the (nodes cg ! y))" using assms(4,5) by (simp add: NameComparator_def)
  then have "nameAt cg x = nameAt cg y" using assms(2,3) by (auto simp: nameAt_def hasNode_id_def)
  then show ?thesis using assms(1,2) by (simp add: distinctNames_def)
qed

lemma anyUninstrumented_iff:
  assumes "sameInstr st s"
  shows "\<exists>s'. anyUninstrumented (map Some ps) s = Inr (\<exists>p \<in> set ps. instrOf st p = StateNone, s') \<and> sameInstr st s'"
  using assms
proof (induction ps arbitrary: s)
  case (Cons p ps)
  let ?s = "s\<lparr>instrumentationMd := (instrumentationMd s)(p \<mapsto> instrOf s p)\<rparr>"
  have s: "sameInstr st ?s" "instrOf s p = instrOf st p" using Cons.prems sameInstr_touch by (simp_all add: sameInstr_def)
  show ?case
  proof (cases "instrOf st p")
    case StateNone
    with s show ?thesis by (simp add: instr_read)
  qed (use Cons.IH [OF s(1)] s(2) in \<open>simp_all add: instr_read\<close>)
qed simp

lemma fold_markToFill:
  assumes "sameInstr st s" and names: "distinctNames cg" and g: "nodes g = nodes cg" and "set xs \<union> set fill \<subseteq> {x. hasNode_id cg x}"
  shows "\<exists>fill' s'. fold (markToFill g) xs (fill, s) = (fill', s') \<and> sameInstr st s' \<and> set fill' = set fill \<union> {x \<in> set xs. instrOf st x = StateNone}"
  using assms(1,4)
proof (induction xs arbitrary: s fill)
  case (Cons x xs)
  let ?s = "s\<lparr>instrumentationMd := (instrumentationMd s)(x \<mapsto> instrOf s x)\<rparr>"
  let ?fill = "if instrOf st x = StateNone then set_insert (NameComparator g) x fill else fill"
  have s: "sameInstr st ?s" "instrOf s x = instrOf st x" using Cons.prems(1) sameInstr_touch by (simp_all add: sameInstr_def)
  have "NameComparator g = NameComparator cg" using g by (simp add: NameComparator_def fun_eq_iff)
  then have ins: "set (set_insert (NameComparator g) x fill) = insert x (set fill)"
    using NameComparator_distinct [OF names] Cons.prems(2) by (intro set_set_insert) auto
  have "markToFill g x (fill, s) = (?fill, ?s)" using s(2) by (cases "instrOf st x") (simp_all add: markToFill_def instr_read)
  moreover have "set xs \<union> set ?fill \<subseteq> {y. hasNode_id cg y}" using Cons.prems(2) ins by (auto split: if_splits)
  moreover have "set ?fill = set fill \<union> {y \<in> {x}. instrOf st y = StateNone}" using ins by auto
  ultimately show ?case using Cons.IH [OF s(1), of ?fill] by auto
qed simp

text \<open>The nodes from main to \<open>n\<close>, and the nodes at which the phase looks for them.\<close>

definition wayTo :: "Callgraph \<Rightarrow> NodeId \<Rightarrow> NodeId \<Rightarrow> NodeId set" where
  "wayTo cg m n = insert m {p. (m, p) \<in> (edgeSet cg)\<^sup>* \<and> (p, n) \<in> (edgeSet cg)\<^sup>*}"

definition gapAt :: "Callgraph \<Rightarrow> PgisData \<Rightarrow> NodeId \<Rightarrow> bool" where
  "gapAt cg st n \<longleftrightarrow> instrOf st n \<noteq> StateNone \<and> (\<exists>p. (p, n) \<in> edgeSet cg \<and> instrOf st p = StateNone)"

lemma wayTo_live:
  assumes wf: "wf_cg cg" and m: "mainIs m cg"
  shows "wayTo cg m n \<subseteq> {i. hasNode_id cg i}"
proof
  fix p
  assume p: "p \<in> wayTo cg m n"
  have live: "hasNode_id cg m" using cached_mainIs(4) [OF wf m, of cg] by (simp add: cached_def)
  from p have "p = m \<or> p \<in> fwd.reach cg m" by (simp add: wayTo_def fwd.reach_def disj_commute) blast
  then show "p \<in> {i. hasNode_id cg i}" using live fwd.reach_live [OF wf live] by blast
qed

lemma gapStep_exact:
  assumes wf: "wf_cg cg" and m: "mainIs m cg" and names: "distinctNames cg" and iter: "\<forall>S. finite S \<longrightarrow> set (iterI S) = S"
    and node: "i < length (nodes cg)" "nodes cg ! i = Some node" "nid node = i"
    and g: "cached m cg g" "cache_ok cg ra" and s: "sameInstr st s" and fill: "set fill \<subseteq> {i. hasNode_id cg i}"
    and paths: "\<forall>n S. paths n = Some S \<longrightarrow> S = wayTo cg m n"
  shows "\<exists>paths' fill' g' ra' s'. gapStep iterI m (Some node) (paths, fill, g, ra, s) = Some (Inr (paths', fill', g', ra', s'))
    \<and> cached m cg g' \<and> cache_ok cg ra' \<and> sameInstr st s' \<and> (\<forall>n S. paths' n = Some S \<longrightarrow> S = wayTo cg m n)
    \<and> set fill' = set fill \<union> (if gapAt cg st i then {p \<in> wayTo cg m i. instrOf st p = StateNone} else {})"
proof -
  let ?s = "s\<lparr>instrumentationMd := (instrumentationMd s)(i \<mapsto> instrOf s i)\<rparr>"
  have s1: "sameInstr st ?s" "instrOf s i = instrOf st i" using s sameInstr_touch by (simp_all add: sameInstr_def)
  have parents: "getCallers_ref g (self g, i) = Inr (map Some (callers cg i))"
    using getCallers_own [OF cached_mainIs(1) [OF wf m g(1)], of i] cached_view(2) [OF g(1)] by simp
  obtain s2 where s2: "anyUninstrumented (map Some (callers cg i)) ?s = Inr (\<exists>p \<in> set (callers cg i). instrOf st p = StateNone, s2)" "sameInstr st s2"
    using anyUninstrumented_iff [OF s1(1)] by blast
  have any: "isAnyInstrumented i s = (instrOf st i \<noteq> StateNone, ?s)" using s1(2) by (cases "instrOf st i") (simp_all add: instr_read)
  have gap: "gapAt cg st i \<longleftrightarrow> instrOf st i \<noteq> StateNone \<and> (\<exists>p \<in> set (callers cg i). instrOf st p = StateNone)"
    using bwd.succs_rel [OF wf] by (auto simp: gapAt_def)
  show ?thesis
  proof (cases "gapAt cg st i")
    case False
    then show ?thesis
      using gap any parents node(3) s1(1) s2 g paths by (cases "instrOf st i = StateNone") (auto simp: gapStep_def)
  next
    case True
    have live: "hasNode_id cg i" using node by (simp add: hasNode_id_def)
    obtain g' ra' where w: "allNodesToMain i m paths g ra = Some (Inr (wayTo cg m i, g', ra'))" "cached m cg g'" "cache_ok cg ra'"
      using allNodesToMain_exact [OF wf m g(2,1) live, of paths] paths by (auto simp: wayTo_def)
    have fin: "finite (wayTo cg m i)" using wayTo_live [OF wf m] finite_live_ids finite_subset by blast
    have nodes': "nodes g' = nodes cg" using cached_view(5) [OF w(2)] .
    have live': "set (iterI (wayTo cg m i)) \<union> set fill \<subseteq> {x. hasNode_id cg x}"
      using iter fin wayTo_live [OF wf m, of i] fill by blast
    obtain fill' s3 where f: "fold (markToFill g') (iterI (wayTo cg m i)) (fill, s2) = (fill', s3)" "sameInstr st s3"
        "set fill' = set fill \<union> {x \<in> wayTo cg m i. instrOf st x = StateNone}"
      using fold_markToFill [OF s2(2) names nodes' live'] fin iter
      by auto
    have "gapStep iterI m (Some node) (paths, fill, g, ra, s) = Some (Inr (paths(i \<mapsto> wayTo cg m i), fill', g', ra', s3))"
      using True gap any parents node(3) s2(1) w(1) f(1) by (simp add: gapStep_def)
    moreover have "\<forall>n S. (paths(i \<mapsto> wayTo cg m i)) n = Some S \<longrightarrow> S = wayTo cg m n" using paths by simp
    moreover have "set fill' = set fill \<union> (if gapAt cg st i then {p \<in> wayTo cg m i. instrOf st p = StateNone} else {})"
      using f(3) True by simp
    ultimately show ?thesis using w(2,3) f(2) by blast
  qed
qed

lemma fillStep_exact:
  assumes "\<And>d. instrResultMd s p = Some d \<Longrightarrow> \<not> (callCount d = 0 \<and> isExclusiveRuntime d)"
    and "p < length (nodes g)" and "nodes g ! p = Some node" and "hasBody node \<or> isMPIFunction node \<or> \<not> onlyEligible \<and> \<not> useCS"
  shows "fillStep useCS onlyEligible g p s = Inr (instrumentNode p s)"
  using assms by (auto simp: fillStep_def derefNode_def split: option.splits)

lemma fold_fillStep:
  assumes "\<And>p d. instrResultMd s p = Some d \<Longrightarrow> \<not> (callCount d = 0 \<and> isExclusiveRuntime d)"
    and "\<And>p. p \<in> set fill \<Longrightarrow> \<exists>node. p < length (nodes g) \<and> nodes g ! p = Some node \<and> (hasBody node \<or> isMPIFunction node \<or> \<not> onlyEligible \<and> \<not> useCS)"
  shows "\<exists>s'. foldR (fillStep useCS onlyEligible g) fill s = Inr s' \<and> instrOf s' = (\<lambda>p. if p \<in> set fill then Instrumented else instrOf s p)"
  using assms
proof (induction fill arbitrary: s)
  case (Cons p fill)
  obtain node where "p < length (nodes g)" "nodes g ! p = Some node" "hasBody node \<or> isMPIFunction node \<or> \<not> onlyEligible \<and> \<not> useCS"
    using Cons.prems(2) [of p] by auto
  then have step: "fillStep useCS onlyEligible g p s = Inr (instrumentNode p s)"
    using Cons.prems(1) by (intro fillStep_exact) blast+
  have "\<exists>s'. foldR (fillStep useCS onlyEligible g) fill (instrumentNode p s) = Inr s'
      \<and> instrOf s' = (\<lambda>q. if q \<in> set fill then Instrumented else instrOf (instrumentNode p s) q)"
    by (rule Cons.IH) (use Cons.prems in \<open>auto simp: instrumentNode_def\<close>)
  with step show ?case by (auto simp: instrumentNode_def fun_eq_iff)
qed simp

text \<open>Above an uninstrumented node that leads to an instrumented one there is a gap further down.\<close>

lemma gap_below:
  assumes "(p, n) \<in> (edgeSet cg)\<^sup>*" and "instrOf st n \<noteq> StateNone" and "instrOf st p = StateNone"
  shows "\<exists>n'. gapAt cg st n' \<and> (p, n') \<in> (edgeSet cg)\<^sup>*"
  using assms
proof (induction rule: converse_rtrancl_induct)
  case (step p q)
  show ?case
  proof (cases "instrOf st q = StateNone")
    case True
    with step show ?thesis by (meson converse_rtrancl_into_rtrancl)
  next
    case False
    with step show ?thesis by (auto simp: gapAt_def)
  qed
qed simp

text \<open>The first loop collects the uninstrumented nodes on the way to the nodes with gaps.\<close>

lemma gaps_collected:
  assumes wf: "wf_cg cg" and m: "mainIs m cg" and live: "None \<notin> set (nodes cg)" and names: "distinctNames cg"
    and iter: "\<And>S. finite S \<Longrightarrow> set (iterI S) = S"
  shows "\<exists>paths fill g ra s. foldO (gapStep iterI m) (nodes cg) (Map.empty, [], cg, new_ReachabilityAnalysis, st) = Some (Inr (paths, fill, g, ra, s))
    \<and> cached m cg g \<and> sameInstr st s
    \<and> set fill = {p. instrOf st p = StateNone \<and> (\<exists>n < length (nodes cg). gapAt cg st n \<and> p \<in> wayTo cg m n)}"
proof -
  have iter': "\<forall>S. finite S \<longrightarrow> set (iterI S) = S" using iter by blast
  let ?F = "\<lambda>k. {p. instrOf st p = StateNone \<and> (\<exists>n < k. gapAt cg st n \<and> p \<in> wayTo cg m n)}"
  let ?P = "\<lambda>xs (paths, fill, g, ra, s). cached m cg g \<and> cache_ok cg ra \<and> sameInstr st s \<and> (\<forall>n S. paths n = Some S \<longrightarrow> S = wayTo cg m n)
      \<and> set fill = ?F (length xs)"
  have "\<exists>s'. foldO (gapStep iterI m) (nodes cg) (Map.empty, [], cg, new_ReachabilityAnalysis, st) = Some (Inr s') \<and> ?P (nodes cg) s'"
  proof (rule foldO_total)
    show "?P [] (Map.empty, [], cg, new_ReachabilityAnalysis, st)" by (simp add: cached_def)
  next
    fix xs x ys s
    assume split: "nodes cg = xs @ x # ys" and inv: "?P xs s"
    obtain paths fill g ra s1 where s: "s = (paths, fill, g, ra, s1)" by (cases s)
    have i: "length xs < length (nodes cg)" "nodes cg ! length xs = x" using split by simp_all
    obtain node where node: "x = Some node" using live split by (cases x) auto
    have nid: "nid node = length xs" using wf_cgD(1) [OF wf] i node by (auto simp: wf_nodes_def)
    have fill: "set fill \<subseteq> {i. hasNode_id cg i}" using inv s wayTo_live [OF wf m] by auto
    have g: "cached m cg g" "cache_ok cg ra" "sameInstr st s1" "\<forall>n S. paths n = Some S \<longrightarrow> S = wayTo cg m n" "set fill = ?F (length xs)"
      using inv s by auto
    obtain paths' fill' g' ra' s' where st: "gapStep iterI m x s = Some (Inr (paths', fill', g', ra', s'))" "cached m cg g'" "cache_ok cg ra'"
        "sameInstr st s'" "\<forall>n S. paths' n = Some S \<longrightarrow> S = wayTo cg m n"
        "set fill' = set fill \<union> (if gapAt cg st (length xs) then {p \<in> wayTo cg m (length xs). instrOf st p = StateNone} else {})"
      using gapStep_exact [where node = node and paths = paths, OF wf m names iter' i(1) i(2) [unfolded node] nid g(1-3) fill g(4), folded node s]
      by (elim exE conjE)
    have "set fill' = ?F (length (xs @ [x]))" using st(6) g(5) by (auto simp: less_Suc_eq)
    with st show "\<exists>s'. gapStep iterI m x s = Some (Inr s') \<and> ?P (xs @ [x]) s'" by auto
  qed
  then show ?thesis by auto
qed



end
