(* ===== verification/Pgis_Processor.thy ===== *)
theory Pgis_Processor
  imports Pgis_Gaps
begin

text \<open>
  What PGIS writes: the stored decisions, the instrumentation configuration of a phase
  (\<^verbatim>\<open>pgis/lib/src/EstimatorPhase.cpp\<close>) and the run of the processor that writes the list of functions to instrument
  (\<^verbatim>\<open>pgis/lib/src/PiraMCGProcessor.cpp\<close>).
\<close>

section \<open>Stored decisions\<close>

lemma nodeAt:
  assumes "wf_cg cg" and "None \<notin> set (nodes cg)" and "k < length (nodes cg)"
  obtains node where "nodes cg ! k = Some node" "nid node = k" "hasNode_id cg k"
proof -
  obtain node where node: "nodes cg ! k = Some node" using assms(2,3) nth_mem [OF assms(3)] by (cases "nodes cg ! k") auto
  moreover have "nid node = k" using wf_cgD(1) [OF assms(1)] assms(3) node by (auto simp: wf_nodes_def)
  moreover have "hasNode_id cg k" using assms(3) node by (simp add: hasNode_id_def)
  ultimately show thesis by (rule that)
qed

definition decision :: "PgisData \<Rightarrow> NodeId \<Rightarrow> InstrumentationResultMetaData option" where
  "decision st n =
     (if instrOf st n \<noteq> StateNone
      then Some ((case instrResultMd st n of None \<Rightarrow> InstrumentationResultMetaData_default | Some d \<Rightarrow> d)\<lparr>shouldBeInstrumented := True\<rparr>)
      else map_option (\<lambda>d. d\<lparr>shouldBeInstrumented := False\<rparr>) (instrResultMd st n))"

lemma instrOf_instrResultMd [simp]: "instrOf (st\<lparr>instrResultMd := x\<rparr>) = instrOf st"
  by (simp add: instrOf_def fun_eq_iff)

lemma storeDecision_exact:
  assumes "nid node = i"
  shows "\<exists>st'. storeDecision (Some node) st = Inr st' \<and> instrOf st' = instrOf st \<and> instrResultMd st' = (instrResultMd st)(i := decision st i)"
  using assms
  by (cases "instrOf st i"; cases "instrResultMd st i") (auto simp: storeDecision_def instr_read decision_def getOrCreate_md_eq fun_eq_iff)

text \<open>
  Storing the decisions records for every function of the graph whether it is instrumented now: a function that is gets
  its record created if needed, a record of one that is not is set to false, and nothing else of the records changes.
\<close>

theorem decisions_stored:
  assumes wf: "wf_cg cg" and live: "None \<notin> set (nodes cg)"
  shows "\<exists>st'. modifyGraph_StoreInstrumentationDecisions cg st = Inr st' \<and> instrOf st' = instrOf st
    \<and> instrResultMd st' = (\<lambda>n. if hasNode_id cg n then decision st n else instrResultMd st n)"
proof -
  let ?P = "\<lambda>k s. instrOf s = instrOf st \<and> instrResultMd s = (\<lambda>n. if n < k then decision st n else instrResultMd st n)"
  have "\<exists>s'. foldR storeDecision (nodes cg) st = Inr s' \<and> ?P (length (nodes cg)) s'"
  proof (rule foldR_index_total)
    fix k s
    assume k: "k < length (nodes cg)" and P: "?P k s"
    obtain node where node: "nodes cg ! k = Some node" "nid node = k" using nodeAt [OF wf live k] by blast
    obtain s' where s': "storeDecision (Some node) s = Inr s'" "instrOf s' = instrOf s" "instrResultMd s' = (instrResultMd s)(k := decision s k)"
      using storeDecision_exact [OF node(2)] by blast
    have "decision s k = decision st k" using P by (simp add: decision_def)
    then have "instrResultMd s' = (\<lambda>n. if n < Suc k then decision st n else instrResultMd st n)" using s'(3) P by (auto simp: fun_eq_iff less_Suc_eq)
    then show "\<exists>s'. storeDecision (nodes cg ! k) s = Inr s' \<and> ?P (Suc k) s'" using node(1) s'(1,2) P by auto
  qed simp
  moreover have "hasNode_id cg n \<longleftrightarrow> n < length (nodes cg)" for n
    using nodeAt [OF wf live, of n] hasNode_idD [of cg n] by blast
  ultimately show ?thesis by (auto simp: modifyGraph_StoreInstrumentationDecisions_def)
qed

theorem decisions_stored_witness:
  "\<exists>st'. modifyGraph_StoreInstrumentationDecisions sample_cg samplePgis = Inr st'
    \<and> map_option shouldBeInstrumented (instrResultMd st' 0) = Some True \<and> instrResultMd st' 1 = None"
proof -
  obtain st' where run: "modifyGraph_StoreInstrumentationDecisions sample_cg samplePgis = Inr st'"
    and st': "instrResultMd st' = (\<lambda>n. if hasNode_id sample_cg n then decision samplePgis n else instrResultMd samplePgis n)"
    using decisions_stored [OF wf_sample_cg live_sample(2)] by blast
  have "hasNode_id sample_cg 0" "hasNode_id sample_cg 1" using live_sample(1) by blast+
  then show ?thesis using run by (auto simp: st' decision_def instrOf_def samplePgis_def)
qed

section \<open>The instrumentation configuration\<close>

definition icOf :: "Callgraph \<Rightarrow> PgisData \<Rightarrow> nat \<Rightarrow> InstrumentationConfiguration \<Rightarrow> bool" where
  "icOf cg st k IC \<longleftrightarrow> instrumentedNodes IC = {n. n < k \<and> instrOf st n = Instrumented}
     \<and> instrumentedNames IC = {name. \<exists>n < k. instrOf st n = Instrumented \<and> nameAt cg n = Some name}
     \<and> dom (instrumentedPaths IC) = {name. \<exists>n < k. instrOf st n = InstrumentedPath \<and> nameAt cg n = Some name}
     \<and> (\<forall>name n. instrumentedPaths IC name = Some n \<longrightarrow> n < k \<and> instrOf st n = InstrumentedPath \<and> nameAt cg n = Some name)"

lemma icStep_exact:
  assumes IC: "icOf cg st k IC" and k: "k < length (nodes cg)" and node: "nodes cg ! k = Some node" "nid node = k" and s: "sameInstr st s"
  shows "\<exists>IC' s'. icStep (Some node) (IC, s) = Inr (IC', s') \<and> icOf cg st (Suc k) IC' \<and> sameInstr st s'"
proof -
  let ?s = "s\<lparr>instrumentationMd := (instrumentationMd s)(k \<mapsto> instrOf s k)\<rparr>"
  have s1: "sameInstr st ?s" "instrOf s k = instrOf st k" using s sameInstr_touch by (simp_all add: sameInstr_def)
  have name: "nameAt cg k = Some (functionName node)" using k node(1) by (simp add: nameAt_def)
  note mems = IC [unfolded icOf_def] name
  show ?thesis
  proof (cases "instrOf st k")
    case StateNone
    have "icStep (Some node) (IC, s) = Inr (IC, ?s)" using StateNone s1(2) node(2) by (simp add: icStep_def instr_read)
    moreover have "icOf cg st (Suc k) IC" using mems StateNone unfolding icOf_def by (auto simp: less_Suc_eq)
    ultimately show ?thesis using s1(1) by blast
  next
    case Instrumented
    let ?IC = "IC\<lparr>instrumentedNames := insert (functionName node) (instrumentedNames IC), instrumentedNodes := insert k (instrumentedNodes IC)\<rparr>"
    have "icStep (Some node) (IC, s) = Inr (?IC, ?s)" using Instrumented s1(2) node(2) by (simp add: icStep_def instr_read)
    moreover have "icOf cg st (Suc k) ?IC" using mems Instrumented unfolding icOf_def by (auto simp: less_Suc_eq)
    ultimately show ?thesis using s1(1) by blast
  next
    case InstrumentedPath
    let ?IC = "if instrumentedPaths IC (functionName node) = None
      then IC\<lparr>instrumentedPaths := (instrumentedPaths IC)(functionName node \<mapsto> k)\<rparr> else IC"
    have "icStep (Some node) (IC, s) = Inr (?IC, ?s)" using InstrumentedPath s1(2) node(2) by (simp add: icStep_def instr_read)
    moreover have "icOf cg st (Suc k) ?IC" using mems InstrumentedPath unfolding icOf_def by (auto simp: less_Suc_eq)
    ultimately show ?thesis using s1(1) by blast
  qed
qed

lemma generateIC_exact:
  assumes wf: "wf_cg cg" and live: "None \<notin> set (nodes cg)"
  shows "\<exists>IC st'. generateIC cg (emptyIC, st) = Inr (IC, st') \<and> icOf cg st (length (nodes cg)) IC \<and> sameInstr st st'"
proof -
  have "\<exists>s'. foldR icStep (nodes cg) (emptyIC, st) = Inr s' \<and> icOf cg st (length (nodes cg)) (fst s') \<and> sameInstr st (snd s')"
  proof (rule foldR_index_total)
    show "icOf cg st 0 (fst (emptyIC, st)) \<and> sameInstr st (snd (emptyIC, st))" by (simp add: icOf_def emptyIC_def)
  next
    fix k s
    assume k: "k < length (nodes cg)" and P: "icOf cg st k (fst s) \<and> sameInstr st (snd s)"
    obtain node where node: "nodes cg ! k = Some node" "nid node = k" using nodeAt [OF wf live k] by blast
    then show "\<exists>s'. icStep (nodes cg ! k) s = Inr s' \<and> icOf cg st (Suc k) (fst s') \<and> sameInstr st (snd s')"
      using icStep_exact [OF conjunct1 [OF P] k node conjunct2 [OF P]] by auto
  qed
  then show ?thesis by (auto simp: generateIC_def)
qed

text \<open>
  The configuration of a phase names exactly the instrumented functions, and its paths are keyed by exactly the names of the
  functions marked for path instrumentation, each key leading to such a function of that name; collecting it changes no state.
\<close>

theorem instrumentation_configuration:
  assumes "wf_cg cg" and "None \<notin> set (nodes cg)"
  shows "\<exists>IC st'. generateIC cg (emptyIC, st) = Inr (IC, st') \<and> instrOf st' = instrOf st
    \<and> instrumentedNodes IC = {n. hasNode_id cg n \<and> instrOf st n = Instrumented}
    \<and> instrumentedNames IC = {name. \<exists>n. nameAt cg n = Some name \<and> instrOf st n = Instrumented}
    \<and> dom (instrumentedPaths IC) = {name. \<exists>n. nameAt cg n = Some name \<and> instrOf st n = InstrumentedPath}
    \<and> (\<forall>name n. instrumentedPaths IC name = Some n \<longrightarrow> nameAt cg n = Some name \<and> instrOf st n = InstrumentedPath)"
proof -
  obtain IC st' where run: "generateIC cg (emptyIC, st) = Inr (IC, st')" "icOf cg st (length (nodes cg)) IC" "sameInstr st st'"
    using generateIC_exact [OF assms] by blast
  have "hasNode_id cg n \<longleftrightarrow> n < length (nodes cg)" for n
    using nodeAt [OF assms, of n] hasNode_idD [of cg n] by blast
  moreover have "nameAt cg n = Some name \<Longrightarrow> n < length (nodes cg)" for n name by (simp add: nameAt_def split: if_splits)
  ultimately show ?thesis using run unfolding icOf_def sameInstr_def by (intro exI [of _ IC] exI [of _ st']) auto
qed

theorem instrumentation_configuration_witness:
  "\<exists>IC st'. generateIC sample_cg (emptyIC, samplePgis) = Inr (IC, st') \<and> 0 \<in> instrumentedNodes IC"
proof -
  obtain IC st' where "generateIC sample_cg (emptyIC, samplePgis) = Inr (IC, st')"
      "instrumentedNodes IC = {n. hasNode_id sample_cg n \<and> instrOf samplePgis n = Instrumented}"
    using instrumentation_configuration [OF wf_sample_cg live_sample(2), of samplePgis] by blast
  moreover have "hasNode_id sample_cg 0" using live_sample(1) by blast
  ultimately show ?thesis by (auto simp: instrOf_def samplePgis_def)
qed

section \<open>A run of the processor\<close>

text \<open>The statement count phase as a phase of the queue.\<close>

definition statementPhase :: "CuttoffSelection \<Rightarrow> bool \<Rightarrow> StatementCountEstimatorPhase \<Rightarrow> EstimatorPhase" where
  "statementPhase cuttoffMode useCS phase = (\<lambda>_ (graph, st).
     bindO (modifyGraph_StatementCount cuttoffMode useCS phase graph st) (\<lambda>(_, graph1, _, st1). Some (Inr (graph1, st1))))"

lemma finalizeGraph_main:
  assumes wf: "wf_cg cg" and m: "mainIs m cg" and live: "None \<notin> set (nodes cg)"
  shows "finalizeGraph cg = Inr (cg\<lparr>mainNode := Some m\<rparr>)"
proof -
  have "hasNode_id cg m" using cached_mainIs(4) [OF wf m, of cg] by (simp add: cached_def)
  then have "nodes cg \<noteq> []" by (auto simp: hasNode_id_def)
  moreover have "numErased cg = 0" using wf_cgD(4) [OF wf] live unfolding wf_count_def
    by (metis (mono_tags, lifting) filter_False list.size(3))
  ultimately show ?thesis using m by (simp add: finalizeGraph_def isEmpty_cg_def getNodeCount_def size_cg_def mainIs_def)
qed

definition selectedNames :: "Callgraph \<Rightarrow> PgisData \<Rightarrow> bool \<Rightarrow> NodeId \<Rightarrow> int \<Rightarrow> string set" where
  "selectedNames cg st incl m t = {name. \<exists>n. nameAt cg n = Some name \<and> (m, n) \<in> (edgeSet cg)\<^sup>* \<and> t \<le> stmtCount incl cg st n}"

text \<open>
  C16: Running the processor with the statement count phase on a graph where nothing is instrumented yet ends and writes one
  whitelist: the names of exactly the functions that main reaches and whose statement count is at least the threshold, or
  the placeholder if there are none.
\<close>

theorem whitelist_of_statement_phase:
  assumes wf: "wf_cg cg" and m: "mainIs m cg" and live: "None \<notin> set (nodes cg)" and fit: "stmtsFit cg st"
    and t: "thresholdFor cuttoffMode phase = Inr t" and none: "\<And>n. instrOf st n = StateNone"
    and iterS: "set (iterS (selectedNames cg st (inclusiveMetric phase) m t)) = selectedNames cg st (inclusiveMetric phase) m t"
  shows "\<exists>ls g st'. applyRegisteredPhases (dumpInstrumentedNames iterS iterP False False) [statementPhase cuttoffMode False phase] (cg, st)
      = Some (Inr ([Some ls], g, st'))
    \<and> set ls = (if selectedNames cg st (inclusiveMetric phase) m t = {} then {''aFunctionThatDoesNotExist''}
        else selectedNames cg st (inclusiveMetric phase) m t)"
proof -
  let ?g = "cg\<lparr>mainNode := Some m\<rparr>" and ?N = "selectedNames cg st (inclusiveMetric phase) m t"
  have c: "cached m cg ?g" by (simp add: cached_def)
  note g = cached_mainIs(1,2) [OF wf m c] and view = cached_view [OF c]
  have fin: "finalizeGraph cg = Inr ?g" "getMain ?g False = Inr (Some m, ?g)"
    using finalizeGraph_main [OF wf m live] g(2) by (simp_all add: mainIs_def)
  have live': "None \<notin> set (nodes ?g)" and fit': "stmtsFit ?g st" using live fit view(6) by (simp_all add: stmtsFit_def)
  obtain ph g1 ra s1 where sc: "modifyGraph_StatementCount cuttoffMode False phase ?g st = Some (Inr (ph, g1, ra, s1))" "cached m ?g g1"
      "instrOf s1 = (\<lambda>n. if (m, n) \<in> (edgeSet cg)\<^sup>* 
        then decide (False \<and> unseen ?g st n) (t \<le> stmtCount (inclusiveMetric phase) ?g st n) (instrOf st n) else instrOf st n)"
    using statement_count_run [where useCS = False and phase = phase, OF g live' fit' t] unfolding view(1) by blast
  have s1: "instrOf s1 n = Instrumented \<longleftrightarrow> (m, n) \<in> (edgeSet cg)\<^sup>* \<and> t \<le> stmtCount (inclusiveMetric phase) cg st n" for n
    using sc(3) view(1) none [of n] by (simp add: decide_def stmtCount_def)
  have g1: "wf_cg g1" "None \<notin> set (nodes g1)" and names: "nameAt g1 = nameAt cg" and len: "length (nodes g1) = length (nodes cg)"
    using cached_mainIs(1) [OF g sc(2)] cached_view(5) [OF sc(2)] live by (simp_all add: nameAt_def fun_eq_iff)
  obtain IC s2 where ic: "generateIC g1 (emptyIC, s1) = Inr (IC, s2)" "icOf g1 s1 (length (nodes g1)) IC"
    using generateIC_exact [OF g1] by blast
  have nm: "nameAt cg n = Some name \<Longrightarrow> n < length (nodes cg)" for n name by (simp add: nameAt_def split: if_splits)
  have icN: "instrumentedNames IC = ?N" using ic(2) nm unfolding icOf_def names len selectedNames_def s1 by auto
  have "\<exists>name. nameAt cg n = Some name" if "n < length (nodes cg)" for n
    using nodeAt [OF wf live that] hasNode_id_iff_nameAt by blast
  moreover have "instrumentedNodes IC = {n. n < length (nodes cg) \<and> (m, n) \<in> (edgeSet cg)\<^sup>* \<and> t \<le> stmtCount (inclusiveMetric phase) cg st n}"
    using ic(2) unfolding icOf_def len s1 by blast
  ultimately have icE: "instrumentedNodes IC = {} \<longleftrightarrow> ?N = {}" using nm unfolding selectedNames_def by blast
  show ?thesis
    using fin sc(1) ic(1) iterS by (auto simp: applyRegisteredPhases_def runPhase_def statementPhase_def dumpInstrumentedNames_def icE icN)
qed

theorem whitelist_of_statement_phase_witness:
  "\<exists>ls g st'. applyRegisteredPhases (dumpInstrumentedNames (\<lambda>S. filter (\<lambda>s. s \<in> S) [''main'', ''f'', ''g'']) (\<lambda>_. []) False False)
      [statementPhase CuttoffMAX False \<lparr>numberOfStatementsThreshold = 4, inclusiveMetric = False, inclStmtCounts = Map.empty, pSEP = None\<rparr>]
      (sample_cg, samplePgis\<lparr>instrumentationMd := Map.empty\<rparr>) = Some (Inr ([Some ls], g, st')) \<and> set ls = {''f''}"
proof -
  let ?st = "samplePgis\<lparr>instrumentationMd := Map.empty\<rparr>" and ?iter = "\<lambda>S. filter (\<lambda>s. s \<in> S) [''main'', ''f'', ''g'']"
  let ?ph = "\<lparr>numberOfStatementsThreshold = 4, inclusiveMetric = False, inclStmtCounts = Map.empty, pSEP = None\<rparr> :: StatementCountEstimatorPhase"
  have edge: "(0, 1) \<in> edgeSet sample_cg" by (simp add: sample_cg_def edgeSet_def)
  have stmts: "stmtsOf ?st = (\<lambda>_. 0)(0 := 3, 1 := 5)" by (auto simp: stmtsOf_def samplePgis_def PiraOneData_default_def)
  have N: "selectedNames sample_cg ?st False 0 4 = {''f''}"
    using edge unfolding selectedNames_def stmtCount_def stmts by (auto simp: nameAt_def sample_cg_def split: if_splits)
  have "stmtsFit sample_cg ?st" by (simp add: stmtsFit_def live_sample stmts)
  moreover have "thresholdFor CuttoffMAX ?ph = Inr 4" by (simp add: thresholdFor_def)
  moreover have "instrOf ?st n = StateNone" for n by (simp add: instrOf_def)
  moreover have "set (?iter {''f''}) = {''f''}" by auto
  ultimately show ?thesis
    using whitelist_of_statement_phase [where phase = ?ph and iterS = ?iter and st = ?st and iterP = "\<lambda>_. []" and t = 4,
        OF wf_sample_cg mainIs_sample live_sample(2)] N by simp
qed

end
