(* ===== verification/Pgis_LI.thy ===== *)
theory Pgis_LI
  imports Pgis_Phases
begin

text \<open>
  The load imbalance phase of PGIS (\<^verbatim>\<open>pgis/lib/src/loadImbalance/LIEstimatorPhase.cpp\<close>): which children of a relevant function
  it instruments, and how it instruments the context of a function it found imbalanced. The decision which functions are
  relevant and imbalanced compares quotients of floating-point run times and is not modelled.
\<close>

section \<open>Configuration and flags\<close>

datatype ContextStrategy = AllPathsToMain | MajorPathsToMain | MajorParentSteps | ContextNone | FindSynchronizationPoints

record LIConfig =
  contextStrategy :: ContextStrategy
  contextStepCount :: "32 word"

definition flag :: "FlagType \<Rightarrow> NodeId \<Rightarrow> PgisData \<Rightarrow> PgisData" where
  "flag type n st =
     (case getOrCreate_LI n st of (d, st') \<Rightarrow> st'\<lparr>liMd := (liMd st')(n \<mapsto> d\<lparr>flags := (flags d)(type := True)\<rparr>)\<rparr>)"

definition isFlagged :: "FlagType \<Rightarrow> NodeId \<Rightarrow> PgisData \<Rightarrow> bool \<times> PgisData" where
  "isFlagged type n st = (case getOrCreate_LI n st of (d, st') \<Rightarrow> (flags d type, st'))"

section \<open>Relevant children\<close>

definition visitRelevantChild :: "Callgraph \<Rightarrow> 64 word \<Rightarrow> NodeId \<Rightarrow> PgisData \<Rightarrow> (NodeId option list \<times> PgisData) res" where
  "visitRelevantChild graph statementThreshold child st =
     (case getOrCreate_LI child st of (d, st1) \<Rightarrow>
      bindR (if isVirtualFunction d then getCallees_ref graph (self graph, child) else Inr []) (\<lambda>grandchildren.
      case isFlagged Irrelevant child st1 of (irrelevant, st2) \<Rightarrow>
      Inr (grandchildren, if statementThreshold \<le> inclusiveStatements d \<and> \<not> irrelevant then instrumentNode child st2 else st2)))"

definition instrumentRelevantChildren :: "Callgraph \<Rightarrow> NodeId \<Rightarrow> 64 word \<Rightarrow> PgisData \<Rightarrow> PgisData res option" where
  "instrumentRelevantChildren graph node statementThreshold st =
     bindO (Some (getCallees_ref graph (self graph, node))) (\<lambda>children.
     bindO (worklist (visitRelevantChild graph statementThreshold) children {} st) (\<lambda>(_, st'). Some (Inr st')))"

section \<open>Steps\<close>

text \<open>
  The queue of tasks: a node and the steps that remain. A null pointer is only dereferenced when there are steps left.
\<close>

partial_function (option) stepsLoop ::
  "Callgraph \<Rightarrow> NodeId \<Rightarrow> (NodeId option \<times> int) list \<Rightarrow> NodeId option set \<Rightarrow> bool res option" where
  "stepsLoop graph goal taskQueue visitedSet =
     (case taskQueue of
        [] \<Rightarrow> Some (Inr False)
      | (node, remainingSteps) # rest \<Rightarrow>
          (if node \<in> visitedSet then stepsLoop graph goal rest visitedSet
           else if node = Some goal then Some (Inr True)
           else if remainingSteps > 0 then
             (case bindR (derefR node) (\<lambda>n. getCallees_ref graph (self graph, n)) of
                Inl e \<Rightarrow> Some (Inl e)
              | Inr children \<Rightarrow>
                  stepsLoop graph goal (rest @ map (\<lambda>child. (child, remainingSteps - 1)) children) (insert node visitedSet))
           else stepsLoop graph goal rest (insert node visitedSet)))"

definition reachableInNSteps :: "Callgraph \<Rightarrow> NodeId \<Rightarrow> NodeId \<Rightarrow> int \<Rightarrow> bool res option" where
  "reachableInNSteps graph start goal steps = stepsLoop graph goal [(Some start, steps)] {}"

section \<open>The context of an imbalanced function\<close>

text \<open>The pattern only produces debug output; the names of all descendants are read.\<close>

definition visitByPattern :: "Callgraph \<Rightarrow> NodeId \<Rightarrow> unit \<Rightarrow> (NodeId option list \<times> unit) res" where
  "visitByPattern graph node u =
     bindR (getCallees_ref graph (self graph, node)) (\<lambda>children.
     bindR (mapR (\<lambda>child. bindR (derefR child) (derefNode graph)) children) (\<lambda>_. Inr (children, u)))"

definition instrumentByPattern :: "Callgraph \<Rightarrow> NodeId \<Rightarrow> unit res option" where
  "instrumentByPattern graph startNode = bindO (worklist (visitByPattern graph) [Some startNode] {} ()) (\<lambda>_. Some (Inr ()))"

definition syncParent :: "Callgraph \<Rightarrow> NodeId option \<Rightarrow> PgisData \<Rightarrow> PgisData res option" where
  "syncParent graph elem st =
     bindO (Some (derefR elem)) (\<lambda>parent.
     case isFlagged Imbalanced parent st of (imbalanced, st1) \<Rightarrow>
     if imbalanced then Some (Inr st1)
     else case isFlagged Visited parent st1 of (visited, st2) \<Rightarrow>
       if visited then bindO (instrumentByPattern graph parent) (\<lambda>_. Some (Inr st2)) else Some (Inr st2))"

definition findSyncPoints :: "Callgraph \<Rightarrow> NodeId \<Rightarrow> PgisData \<Rightarrow> PgisData res option" where
  "findSyncPoints graph node st =
     bindO (Some (getCallers_ref graph (self graph, node))) (\<lambda>parents. foldO (syncParent graph) parents st)"

text \<open>The loops that erase nodes from the copied set; \<open>iterI\<close> is the iteration order of a set of nodes.\<close>

definition eraseUnvisited :: "NodeId \<Rightarrow> NodeId set \<times> PgisData \<Rightarrow> NodeId set \<times> PgisData" where
  "eraseUnvisited x = (\<lambda>(relevantPaths, st).
     case isFlagged Visited x st of (visited, st1) \<Rightarrow> (if visited then relevantPaths else relevantPaths - {x}, st1))"

definition eraseDistant :: "Callgraph \<Rightarrow> NodeId \<Rightarrow> int \<Rightarrow> NodeId \<Rightarrow> NodeId set \<Rightarrow> NodeId set res option" where
  "eraseDistant graph n steps x toInstrument =
     bindO (reachableInNSteps graph x n steps) (\<lambda>near. Some (Inr (if near then toInstrument else toInstrument - {x})))"

definition contextHandling ::
  "(NodeId set \<Rightarrow> NodeId list) \<Rightarrow> LIConfig \<Rightarrow> NodeId \<Rightarrow> NodeId \<Rightarrow> Callgraph \<Rightarrow> ReachabilityAnalysis \<Rightarrow> PgisData
   \<Rightarrow> (Callgraph \<times> ReachabilityAnalysis \<times> PgisData) res option" where
  "contextHandling iterI c n mainMethod graph ra st =
     (if contextStrategy c = ContextNone then Some (Inr (graph, ra, st))
      else if contextStrategy c = FindSynchronizationPoints then
        bindO (findSyncPoints graph n st) (\<lambda>st1. Some (Inr (graph, ra, st1)))
      else
        bindO (allNodesToMain n mainMethod Map.empty graph ra) (\<lambda>(nodesOnPathToMain, graph1, ra1).
        case (if contextStrategy c = MajorPathsToMain \<or> contextStrategy c = MajorParentSteps
              then fold eraseUnvisited (iterI nodesOnPathToMain) (nodesOnPathToMain, st)
              else (nodesOnPathToMain, st)) of (relevantPaths, st1) \<Rightarrow>
        bindO (if contextStrategy c = MajorParentSteps
               then foldO (eraseDistant graph1 n (sint (contextStepCount c))) (iterI relevantPaths) relevantPaths
               else Some (Inr relevantPaths)) (\<lambda>toInstrument.
        Some (Inr (graph1, ra1, fold instrumentNode (iterI toInstrument) st1)))))"

section \<open>The phase that instruments main only\<close>

definition modifyGraph_OnlyMain :: "NodeId \<Rightarrow> PgisData \<Rightarrow> PgisData" where
  "modifyGraph_OnlyMain mainMethod st = instrumentNode mainMethod st"

end
