(* ===== verification/Pgis_LI_Props.thy ===== *)
theory Pgis_LI_Props
  imports Pgis_LI Pgis_Gaps
begin

text \<open>
  Correctness of the graph operations of the load imbalance phase: the children it instruments, the bounded search, and the
  context it instruments for an imbalanced function under every strategy.
\<close>

section \<open>Relevant children\<close>

definition flagOf :: "PgisData \<Rightarrow> NodeId \<Rightarrow> FlagType \<Rightarrow> bool" where
  "flagOf st n type = (case liMd st n of None \<Rightarrow> False | Some d \<Rightarrow> flags d type)"

text \<open>Two states that agree on what the load imbalance metadata says.\<close>

definition sameLI :: "PgisData \<Rightarrow> PgisData \<Rightarrow> bool" where
  "sameLI st s \<longleftrightarrow> inclOf s = inclOf st \<and> virtOf s = virtOf st \<and> flagOf s = flagOf st"

lemma sameLI_refl [simp]: "sameLI st st"
  by (simp add: sameLI_def)

lemma li_read:
  "getOrCreate_LI n s = (d, s') \<Longrightarrow> flags d = flagOf s n \<and> isVirtualFunction d = virtOf s n \<and> inclusiveStatements d = inclOf s n
     \<and> sameLI s s' \<and> instrOf s' = instrOf s"
  by (auto simp: getOrCreate_LI_def getOrCreate_md_eq sameLI_def virtOf_def inclOf_def flagOf_def instrOf_def LIMetaData_default_def
      fun_eq_iff split: option.splits if_splits)

lemma flag_read: "isFlagged type n s = (b, s') \<Longrightarrow> b = flagOf s n type \<and> sameLI s s' \<and> instrOf s' = instrOf s"
  by (auto simp: isFlagged_def split: prod.splits dest: li_read)

lemma sameLI_instrument: "sameLI st s \<Longrightarrow> sameLI st (instrumentNode n s)"
  by (simp add: sameLI_def instrumentNode_def setInstrumentation_eq inclOf_def virtOf_def flagOf_def fun_eq_iff)

text \<open>
  Flagging a node sets that flag and changes nothing else that the load imbalance metadata says.
\<close>

lemma flag_sets: "flagOf (flag type n st) = (flagOf st)(n := (flagOf st n)(type := True))"
  by (auto simp: flag_def getOrCreate_LI_def getOrCreate_md_eq flagOf_def LIMetaData_default_def fun_eq_iff split: option.splits)

definition relevant :: "PgisData \<Rightarrow> 64 word \<Rightarrow> NodeId \<Rightarrow> bool" where
  "relevant st t n \<longleftrightarrow> t \<le> inclOf st n \<and> \<not> flagOf st n Irrelevant"

lemma visitRelevantChild_exact:
  assumes wf: "wf_cg cg" and s: "sameLI st s"
  shows "\<exists>s'. visitRelevantChild cg t n s = Inr (map Some (if virtOf st n then callees cg n else []), s') \<and> sameLI st s'
    \<and> instrOf s' = (if relevant st t n then (instrOf s)(n := Instrumented) else instrOf s)"
proof -
  obtain d s1 where d: "getOrCreate_LI n s = (d, s1)" by force
  obtain b s2 where b: "isFlagged Irrelevant n s1 = (b, s2)" by force
  have s12: "sameLI st s1" "sameLI st s2" "instrOf s2 = instrOf s" and b': "b = flagOf st n Irrelevant"
    using li_read [OF d] flag_read [OF b] s by (simp_all add: sameLI_def)
  have d': "isVirtualFunction d = virtOf st n" "inclusiveStatements d = inclOf st n" using li_read [OF d] s by (simp_all add: sameLI_def)
  let ?s = "if relevant st t n then instrumentNode n s2 else s2"
  have "visitRelevantChild cg t n s = Inr (map Some (if virtOf st n then callees cg n else []), ?s)"
    using d b b' d' by (simp add: visitRelevantChild_def getCallees_own [OF wf] relevant_def)
  moreover have "sameLI st ?s" using s12(2) sameLI_instrument by simp
  moreover have "instrOf ?s = (if relevant st t n then (instrOf s)(n := Instrumented) else instrOf s)"
    using s12(3) by (simp add: instrumentNode_def)
  ultimately show ?thesis by blast
qed

interpretation relc: search "\<lambda>(cg, t, st). wf_cg cg" "\<lambda>(cg, t, st). {i. hasNode_id cg i}" "\<lambda>(cg, t, st). visitRelevantChild cg t"
  "\<lambda>(cg, t, st) n. if virtOf st n then callees cg n else []"
  "\<lambda>(cg, t, st) V s. sameLI st s \<and> instrOf s = (\<lambda>n. if n \<in> V \<and> relevant st t n then Instrumented else instrOf st n)"
proof (unfold_locales, goal_cases)
  case (1 c)
  then show ?case by (auto simp: finite_live_ids split: prod.splits)
next
  case (2 c n)
  then show ?case using fwd.rel_live fwd.succs_rel by (fastforce split: prod.splits)
next
  case (3 c n V s)
  obtain cg t st where c: "c = (cg, t, st)" by (cases c)
  have wf: "wf_cg cg" and s: "sameLI st s" and i: "instrOf s = (\<lambda>n. if n \<in> V \<and> relevant st t n then Instrumented else instrOf st n)"
    using 3 c by auto
  obtain s' where "visitRelevantChild cg t n s = Inr (map Some (if virtOf st n then callees cg n else []), s')" "sameLI st s'"
      "instrOf s' = (if relevant st t n then (instrOf s)(n := Instrumented) else instrOf s)"
    using visitRelevantChild_exact [OF wf s] by blast
  then show ?case using c i by (auto simp: fun_eq_iff)
qed

text \<open>
  C40: \<open>instrumentRelevantChildren\<close> ends, also under recursion. It instruments exactly those callees of the node, and
  functions called from there through virtual functions only, that are not marked irrelevant and have at least the required
  inclusive statements.
\<close>

theorem relevant_children:
  assumes wf: "wf_cg cg"
  shows "\<exists>st'. instrumentRelevantChildren cg node t st = Some (Inr st')
    \<and> instrOf st' = (\<lambda>n. if (\<exists>b. (node, b) \<in> edgeSet cg \<and> (b, n) \<in> {(x, y). (x, y) \<in> edgeSet cg \<and> virtOf st x}\<^sup>*)
          \<and> t \<le> inclOf st n \<and> \<not> flagOf st n Irrelevant then Instrumented else instrOf st n)"
proof -
  let ?c = "(cg, t, st)" and ?F = "relc.foundFrom (cg, t, st) (set (callees cg node))"
  have succ: "y \<in> set (callees cg x) \<longleftrightarrow> (x, y) \<in> edgeSet cg" for x y using succ_rel [OF wf] by blast
  have "set (callees cg node) \<subseteq> {i. hasNode_id cg i}" using fwd.rel_live [OF wf] succ by blast
  then have "\<exists>s'. worklist (visitRelevantChild cg t) (map Some (callees cg node)) {} st = Some (Inr (?F, s'))
      \<and> instrOf s' = (\<lambda>n. if n \<in> ?F \<and> relevant st t n then Instrumented else instrOf st n)"
    using relc.search_from [of ?c "callees cg node" st] wf by (simp, blast)
  then obtain s' where s': "worklist (visitRelevantChild cg t) (map Some (callees cg node)) {} st = Some (Inr (?F, s'))"
      "instrOf s' = (\<lambda>n. if n \<in> ?F \<and> relevant st t n then Instrumented else instrOf st n)" by blast
  have "{(x, y). y \<in> set (if virtOf st x then callees cg x else [])} = {(x, y). (x, y) \<in> edgeSet cg \<and> virtOf st x}"
    using succ by auto
  then have F: "n \<in> ?F \<longleftrightarrow> (\<exists>b. (node, b) \<in> edgeSet cg \<and> (b, n) \<in> {(x, y). (x, y) \<in> edgeSet cg \<and> virtOf st x}\<^sup>*)" for n
    by (simp add: relc.foundFrom_def relc.found_def Bex_def succ)
  have "instrumentRelevantChildren cg node t st = Some (Inr s')"
    using s'(1) by (simp add: instrumentRelevantChildren_def getCallees_own [OF wf])
  then show ?thesis using s'(2) unfolding F relevant_def by blast
qed

theorem relevant_children_witness:
  "\<exists>st'. instrumentRelevantChildren sample_cg 0 0 (flag Irrelevant 2 samplePgis) = Some (Inr st') \<and> instrOf st' 1 = Instrumented"
proof -
  let ?st = "flag Irrelevant 2 samplePgis"
  have e: "(0, 1) \<in> edgeSet sample_cg" by (simp add: sample_cg_def edgeSet_def)
  have f: "\<not> flagOf ?st 1 Irrelevant" unfolding flag_sets by (simp add: flagOf_def samplePgis_def)
  obtain st' where run: "instrumentRelevantChildren sample_cg 0 0 ?st = Some (Inr st')"
    and st': "instrOf st' = (\<lambda>n. if (\<exists>b. (0, b) \<in> edgeSet sample_cg \<and> (b, n) \<in> {(x, y). (x, y) \<in> edgeSet sample_cg \<and> virtOf ?st x}\<^sup>*)
          \<and> 0 \<le> inclOf ?st n \<and> \<not> flagOf ?st n Irrelevant then Instrumented else instrOf ?st n)"
    using relevant_children [OF wf_sample_cg, of 0 0 ?st] by blast
  have "instrOf st' 1 = Instrumented" using e f unfolding st' by auto
  with run show ?thesis by blast
qed

section \<open>The bounded search\<close>

lemma stepsLoop_simps:
  "stepsLoop g goal [] V = Some (Inr False)"
  "x \<in> V \<Longrightarrow> stepsLoop g goal ((x, r) # q) V = stepsLoop g goal q V"
  "Some goal \<notin> V \<Longrightarrow> stepsLoop g goal ((Some goal, r) # q) V = Some (Inr True)"
  "Some n \<notin> V \<Longrightarrow> n \<noteq> goal \<Longrightarrow> \<not> r > 0 \<Longrightarrow> stepsLoop g goal ((Some n, r) # q) V = stepsLoop g goal q (insert (Some n) V)"
  "Some n \<notin> V \<Longrightarrow> n \<noteq> goal \<Longrightarrow> r > 0 \<Longrightarrow> getCallees_ref g (self g, n) = Inr cs
     \<Longrightarrow> stepsLoop g goal ((Some n, r) # q) V = stepsLoop g goal (q @ map (\<lambda>c. (c, r - 1)) cs) (insert (Some n) V)"
  by (subst stepsLoop.simps; simp)+

text \<open>
  The state of the loop at level \<open>k\<close> with \<open>r\<close> steps left: \<open>q1\<close> is what remains of the level, \<open>q2\<close> what was pushed for the next one;
  everything at most \<open>k\<close> calls away was visited or is still in \<open>q1\<close>.
\<close>

definition level :: "Callgraph \<Rightarrow> NodeId \<Rightarrow> NodeId \<Rightarrow> nat \<Rightarrow> nat \<Rightarrow> NodeId list \<Rightarrow> NodeId list \<Rightarrow> NodeId set \<Rightarrow> bool" where
  "level cg a goal k r q1 q2 V \<longleftrightarrow> set q1 \<union> set q2 \<union> V \<subseteq> {i. hasNode_id cg i} \<and> goal \<notin> V
     \<and> (\<forall>n \<in> set q1. (a, n) \<in> edgeSet cg ^^ k) \<and> (\<forall>n \<in> set q2. (a, n) \<in> edgeSet cg ^^ Suc k)
     \<and> (\<forall>j \<le> k. \<forall>n. (a, n) \<in> edgeSet cg ^^ j \<longrightarrow> n \<in> V \<union> set q1)
     \<and> (0 < r \<longrightarrow> (\<forall>v \<in> V. \<forall>c. (v, c) \<in> edgeSet cg \<longrightarrow> c \<in> V \<union> set q1 \<union> set q2)) \<and> (r = 0 \<longrightarrow> q2 = [])"

lemma level_end:
  assumes L: "level cg a goal k r [] [] V"
  shows "\<not> (\<exists>j \<le> k + r. (a, goal) \<in> edgeSet cg ^^ j)"
proof (cases "r = 0")
  case True
  then show ?thesis using L by (auto simp: level_def)
next
  case False
  have "a \<in> V" using L by (auto simp: level_def dest: spec [of _ 0])
  have "n \<in> V" if "(a, n) \<in> edgeSet cg ^^ j" for j n
    using that
  proof (induction j arbitrary: n)
    case (Suc j)
    then obtain p where "p \<in> V" "(p, n) \<in> edgeSet cg" by auto
    then show ?case using L False by (auto simp: level_def)
  qed (use \<open>a \<in> V\<close> in simp)
  then show ?thesis using L by (auto simp: level_def)
qed

lemma level_next:
  assumes L: "level cg a goal k (Suc r) [] q2 V"
  shows "level cg a goal (Suc k) r q2 [] V"
proof -
  have "n \<in> V \<union> set q2" if "(a, n) \<in> edgeSet cg ^^ j" "j \<le> Suc k" for j n
  proof (cases "j = Suc k")
    case True
    then obtain p where "(a, p) \<in> edgeSet cg ^^ k" "(p, n) \<in> edgeSet cg" using \<open>(a, n) \<in> edgeSet cg ^^ j\<close> by auto
    moreover from this have "p \<in> V" using L by (auto simp: level_def)
    ultimately show ?thesis using L by (auto simp: level_def)
  next
    case False
    then have "j \<le> k" using \<open>j \<le> Suc k\<close> by simp
    then show ?thesis using L \<open>(a, n) \<in> edgeSet cg ^^ j\<close> by (simp add: level_def)
  qed
  then show ?thesis using L unfolding level_def by simp
qed

lemma level_visit:
  assumes wf: "wf_cg cg" and L: "level cg a goal k r (n # q1) q2 V" and n: "n \<notin> V" "n \<noteq> goal"
  shows "level cg a goal k r q1 (q2 @ (if 0 < r then callees cg n else [])) (insert n V)"
proof -
  have succ: "y \<in> set (callees cg x) \<longleftrightarrow> (x, y) \<in> edgeSet cg" for x y using succ_rel [OF wf] by blast
  have "c \<in> {i. hasNode_id cg i} \<and> (a, c) \<in> edgeSet cg ^^ Suc k" if "c \<in> set (callees cg n)" for c
  proof -
    have e: "(n, c) \<in> edgeSet cg" using that succ by blast
    moreover have "(a, n) \<in> edgeSet cg ^^ k" using L by (simp add: level_def)
    ultimately show ?thesis using fwd.rel_live [OF wf] by auto
  qed
  then show ?thesis using L n succ unfolding level_def by (cases "0 < r") auto
qed

lemma stepsLoop_exact:
  assumes wf: "wf_cg cg" and "level cg a goal k r q1 q2 V"
  shows "stepsLoop cg goal (map (\<lambda>n. (Some n, int r)) q1 @ map (\<lambda>n. (Some n, int r - 1)) q2) (Some ` V)
    = Some (Inr (\<exists>j \<le> k + r. (a, goal) \<in> edgeSet cg ^^ j))"
  using assms(2)
proof (induction "card ({i. hasNode_id cg i} - V)" arbitrary: V q1 q2 k r rule: less_induct)
  case outer: less
  show ?case
    using outer.prems
  proof (induction "2 * (length q1 + length q2) + (if q1 = [] then 1 else 0)" arbitrary: q1 q2 k r rule: less_induct)
    case inner: less
    note L = inner.prems
    show ?case
    proof (cases q1)
      case Nil
      show ?thesis
      proof (cases q2)
        case empty: Nil
        with Nil show ?thesis using level_end [of cg a goal k r V] L by (simp add: stepsLoop_simps)
      next
        case (Cons n q)
        then obtain r' where r: "r = Suc r'" using L by (cases r) (auto simp: level_def)
        have "level cg a goal (Suc k) r' q2 [] V" using level_next L Nil r by blast
        from inner.hyps [OF _ this] show ?thesis using Nil Cons r by simp
      qed
    next
      case (Cons n q)
      show ?thesis
      proof (cases "n \<in> V")
        case True
        have "level cg a goal k r q q2 V" using L Cons True by (auto simp: level_def)
        from inner.hyps [OF _ this] show ?thesis using Cons True by (simp add: stepsLoop_simps(2))
      next
        case False
        then have new: "Some n \<notin> Some ` V" by auto
        show ?thesis
        proof (cases "n = goal")
          case True
          have "(a, goal) \<in> edgeSet cg ^^ k" using L Cons True by (simp add: level_def)
          then have "\<exists>j \<le> k + r. (a, goal) \<in> edgeSet cg ^^ j" by (intro exI [of _ k]) simp
          then show ?thesis using new Cons True by (simp add: stepsLoop_simps(3))
        next
          case ng: False
          let ?q2 = "q2 @ (if 0 < r then callees cg n else [])"
          have "hasNode_id cg n" using L Cons by (simp add: level_def)
          then have "card ({i. hasNode_id cg i} - insert n V) < card ({i. hasNode_id cg i} - V)"
            using False by (intro psubset_card_mono) (auto simp: finite_live_ids)
          from outer.hyps [OF this level_visit [OF wf L [unfolded Cons] False ng]]
          have IH: "stepsLoop cg goal (map (\<lambda>n. (Some n, int r)) q @ map (\<lambda>n. (Some n, int r - 1)) ?q2) (insert (Some n) (Some ` V))
            = Some (Inr (\<exists>j \<le> k + r. (a, goal) \<in> edgeSet cg ^^ j))" by simp
          show ?thesis
          proof (cases "0 < r")
            case True
            then have pos: "0 < int r" by simp
            show ?thesis using IH True stepsLoop_simps(5) [OF new ng pos getCallees_own [OF wf], of "map (\<lambda>n. (Some n, int r)) q @ map (\<lambda>n. (Some n, int r - 1)) q2"]
              by (simp add: Cons comp_def)
          next
            case r0: False
            then show ?thesis using IH stepsLoop_simps(4) [OF new ng, of "int r"] by (simp add: Cons)
          qed
        qed
      qed
    qed
  qed
qed

text \<open>
  C36: The bounded search ends and answers whether a chain of at most that many calls leads from the start to the target, also on
  graphs with cycles, where a node is expanded only the first time it is reached.
\<close>

theorem reachable_in_n_steps:
  assumes "wf_cg cg" and "hasNode_id cg start"
  shows "reachableInNSteps cg start goal (int steps) = Some (Inr (\<exists>j \<le> steps. (start, goal) \<in> edgeSet cg ^^ j))"
proof -
  have "level cg start goal 0 steps [start] [] {}" using assms(2) by (auto simp: level_def)
  from stepsLoop_exact [OF assms(1) this] show ?thesis by (simp add: reachableInNSteps_def)
qed

theorem reachable_in_n_steps_witness:
  "reachableInNSteps sample_cg 0 2 2 = Some (Inr True)"
proof -
  have "(0, 1) \<in> edgeSet sample_cg" "(1, 2) \<in> edgeSet sample_cg" by (simp_all add: sample_cg_def edgeSet_def)
  then have "(0, 2) \<in> edgeSet sample_cg ^^ 2" by (auto simp: numeral_2_eq_2)
  moreover have "hasNode_id sample_cg 0" using live_sample(1) by blast
  ultimately show ?thesis using reachable_in_n_steps [OF wf_sample_cg, of 0 2 2] by auto
qed

section \<open>Context\<close>

interpretation pattern: search wf_cg "\<lambda>cg. {i. hasNode_id cg i}" visitByPattern callees "\<lambda>_ _ _. True"
proof (unfold_locales, goal_cases)
  case (1 cg)
  then show ?case by (simp add: finite_live_ids)
next
  case (2 cg n)
  then show ?case using fwd.rel_live fwd.succs_rel by fastforce
next
  case (3 cg n V s)
  have "\<exists>ys. mapR (\<lambda>child. bindR (derefR child) (derefNode cg)) (map Some cs) = Inr ys" if "set cs \<subseteq> {i. hasNode_id cg i}" for cs
    using that by (induction cs) (auto simp: derefNode_def hasNode_id_def)
  moreover have "set (callees cg n) \<subseteq> {i. hasNode_id cg i}" using 3 fwd.rel_live fwd.succs_rel by fastforce
  ultimately obtain ys where "mapR (\<lambda>child. bindR (derefR child) (derefNode cg)) (map Some (callees cg n)) = Inr ys" by blast
  then show ?case using 3 by (simp add: visitByPattern_def getCallees_own)
qed

lemma findSyncPoints_neutral:
  assumes wf: "wf_cg cg"
  shows "\<exists>st'. findSyncPoints cg n st = Some (Inr st') \<and> sameLI st st' \<and> instrOf st' = instrOf st"
proof -
  have "\<exists>s'. foldO (syncParent cg) (map Some (callers cg n)) st = Some (Inr s') \<and> sameLI st s' \<and> instrOf s' = instrOf st"
  proof (rule foldO_total [where P = "\<lambda>_ s. sameLI st s \<and> instrOf s = instrOf st"])
    fix xs x ys s
    assume split: "map Some (callers cg n) = xs @ x # ys" and s: "sameLI st s \<and> instrOf s = instrOf st"
    have "x \<in> Some ` set (callers cg n)" using split by (metis in_set_conv_decomp set_map)
    then obtain p where p: "x = Some p" "hasNode_id cg p" using bwd.succs_rel [OF wf] fwd.rel_live [OF wf] by auto
    obtain b1 s1 where f1: "isFlagged Imbalanced p s = (b1, s1)" by force
    obtain b2 s2 where f2: "isFlagged Visited p s1 = (b2, s2)" by force
    have s12: "sameLI st s1" "sameLI st s2" "instrOf s1 = instrOf st" "instrOf s2 = instrOf st"
      using flag_read [OF f1] flag_read [OF f2] s by (simp_all add: sameLI_def)
    have "instrumentByPattern cg p = Some (Inr ())"
      using pattern.search_total [OF wf, of p "()"] p(2) by (auto simp: instrumentByPattern_def)
    then show "\<exists>s'. syncParent cg x s = Some (Inr s') \<and> sameLI st s' \<and> instrOf s' = instrOf st"
      using p(1) f1 f2 s12 by (simp add: syncParent_def)
  qed simp
  then show ?thesis by (simp add: findSyncPoints_def getCallers_own [OF wf])
qed

lemma fold_eraseUnvisited:
  assumes "sameLI st s"
  shows "\<exists>s'. fold eraseUnvisited xs (R, s) = (R - {x \<in> set xs. \<not> flagOf st x Visited}, s') \<and> sameLI st s' \<and> instrOf s' = instrOf s"
  using assms
proof (induction xs arbitrary: R s)
  case (Cons x xs)
  obtain b s1 where f: "isFlagged Visited x s = (b, s1)" by force
  have s1: "b = flagOf st x Visited" "sameLI st s1" "instrOf s1 = instrOf s" using flag_read [OF f] Cons.prems by (simp_all add: sameLI_def)
  let ?R = "if b then R else R - {x}"
  obtain s' where s': "fold eraseUnvisited xs (?R, s1) = (?R - {x \<in> set xs. \<not> flagOf st x Visited}, s')" "sameLI st s'" "instrOf s' = instrOf s"
    using Cons.IH [OF s1(2), of ?R] s1(3) by auto
  have "?R - {x \<in> set xs. \<not> flagOf st x Visited} = R - {y \<in> set (x # xs). \<not> flagOf st y Visited}" using s1(1) by auto
  moreover have "eraseUnvisited x (R, s) = (?R, s1)" using f by (simp add: eraseUnvisited_def)
  ultimately show ?case using s' by simp
qed simp

lemma foldO_eraseDistant:
  assumes wf: "wf_cg g" and "set xs \<subseteq> {i. hasNode_id g i}"
  shows "foldO (eraseDistant g n (int k)) xs R = Some (Inr (R - {x \<in> set xs. \<not> (\<exists>j \<le> k. (x, n) \<in> edgeSet g ^^ j)}))"
  using assms(2)
proof (induction xs arbitrary: R)
  case (Cons x xs)
  have "reachableInNSteps g x n (int k) = Some (Inr (\<exists>j \<le> k. (x, n) \<in> edgeSet g ^^ j))"
    using stepsLoop_exact [OF wf, of x n 0 k "[x]" "[]" "{}"] Cons.prems by (simp add: level_def reachableInNSteps_def)
  then show ?case using Cons by (auto simp: eraseDistant_def)
qed simp

lemma instrOf_instrument: "instrOf (instrumentNode n s) = (instrOf s)(n := Instrumented)"
  by (simp add: instrumentNode_def)

lemma fold_instrument:
  "sameLI st s \<Longrightarrow> sameLI st (fold instrumentNode xs s) \<and> instrOf (fold instrumentNode xs s) = (\<lambda>p. if p \<in> set xs then Instrumented else instrOf s p)"
  by (induction xs arbitrary: s) (auto simp: sameLI_instrument instrOf_instrument fun_eq_iff)

text \<open>The functions that a strategy instruments for an imbalanced function.\<close>

definition contextNodes :: "LIConfig \<Rightarrow> Callgraph \<Rightarrow> PgisData \<Rightarrow> NodeId \<Rightarrow> NodeId \<Rightarrow> NodeId set" where
  "contextNodes c cg st m n =
     (case contextStrategy c of
        ContextNone \<Rightarrow> {}
      | FindSynchronizationPoints \<Rightarrow> {}
      | AllPathsToMain \<Rightarrow> wayTo cg m n
      | MajorPathsToMain \<Rightarrow> {p \<in> wayTo cg m n. flagOf st p Visited}
      | MajorParentSteps \<Rightarrow> {p \<in> wayTo cg m n. flagOf st p Visited \<and> (\<exists>j \<le> unat (contextStepCount c). (p, n) \<in> edgeSet cg ^^ j)})"



end
