(* ===== verification/Alias.thy ===== *)
theory Alias
  imports Worklist
begin

text \<open>
  The alias analysis of \<^verbatim>\<open>cgcollector\<close> after the syntax tree has been visited
  (\<^verbatim>\<open>cgcollector/lib/src/AliasAnalysis.cpp\<close>, \<^verbatim>\<open>include/AliasAnalysis.h\<close>): object names, prefixes, the container of
  equivalence classes, and the merging of classes and of function calls.

  A \<open>std::list\<close> whose iterators are kept is a list of pairs of an address and an element: an iterator is an address. The
  maps that are only searched are partial maps, those that are iterated are association lists sorted by key. An iterator
  into \<open>CallInfoMap\<close> is its key.
\<close>

section \<open>Object names\<close>

record ObjectName =
  Object :: string
  Function :: bool

text \<open>
  A dereference has an object name or a member as its base; the constructors assert that it has one. Levels are small, so
  the \<open>int\<close> of the code is unbounded here.
\<close>

datatype ObjectNameDereference = DerefOb ObjectName int | DerefMb ObjectNameMember int
  and ObjectNameMember = MemberOf ObjectNameDereference string

fun derefLevel :: "ObjectNameDereference \<Rightarrow> int" where
  "derefLevel (DerefOb ob l) = l"
| "derefLevel (DerefMb mb l) = l"

fun setLevel :: "int \<Rightarrow> ObjectNameDereference \<Rightarrow> ObjectNameDereference" where
  "setLevel l (DerefOb ob _) = DerefOb ob l"
| "setLevel l (DerefMb mb _) = DerefMb mb l"

definition levelString :: "int \<Rightarrow> string" where
  "levelString l = replicate (nat (- l)) CHR ''&'' @ replicate (nat l) CHR ''*''"

fun GetStringRepr :: "ObjectNameDereference \<Rightarrow> string" and GetStringRepr_Member :: "ObjectNameMember \<Rightarrow> string" where
  "GetStringRepr (DerefOb ob l) = levelString l @ Object ob"
| "GetStringRepr (DerefMb mb l) = levelString l @ GetStringRepr_Member mb"
| "GetStringRepr_Member (MemberOf db member) = ''('' @ GetStringRepr db @ '').'' @ member"

text \<open>Equality ignores the flag of an object name.\<close>

fun eqDereference :: "ObjectNameDereference \<Rightarrow> ObjectNameDereference \<Rightarrow> bool"
  and eqMember :: "ObjectNameMember \<Rightarrow> ObjectNameMember \<Rightarrow> bool" where
  "eqDereference (DerefOb a l) (DerefOb b k) = (Object a = Object b \<and> l = k)"
| "eqDereference (DerefMb a l) (DerefMb b k) = (eqMember a b \<and> l = k)"
| "eqDereference _ _ = False"
| "eqMember (MemberOf a m) (MemberOf b n) = (eqDereference a b \<and> m = n)"

text \<open>Dereferences of different kinds compare the pointers to their bases, of which one is null, the smallest address.\<close>

function (sequential) lessDereference :: "ObjectNameDereference \<Rightarrow> ObjectNameDereference \<Rightarrow> bool"
  and lessMember :: "ObjectNameMember \<Rightarrow> ObjectNameMember \<Rightarrow> bool" where
  "lessDereference (DerefOb a l) (DerefOb b k) = (if Object a < Object b then True else if Object b < Object a then False else l < k)"
| "lessDereference (DerefMb a l) (DerefMb b k) = (if lessMember a b then True else if lessMember b a then False else l < k)"
| "lessDereference (DerefOb a l) (DerefMb b k) = False"
| "lessDereference (DerefMb a l) (DerefOb b k) = True"
| "lessMember (MemberOf a m) (MemberOf b n) = (if lessDereference a b then True else if lessDereference b a then False else m < n)"
  by pat_completeness auto
termination
  by (relation "measure (case_sum (\<lambda>(a, b). size a + size b) (\<lambda>(a, b). size a + size b))") auto

fun GetFunctionName :: "ObjectNameDereference \<Rightarrow> string option" where
  "GetFunctionName (DerefOb ob l) = (if l \<noteq> 0 \<and> l \<noteq> -1 then None else if Function ob then Some (Object ob) else None)"
| "GetFunctionName (DerefMb mb l) = None"

section \<open>Prefixes\<close>

text \<open>An empty member means the operator \<open>*\<close>.\<close>

datatype Prefix = Prefix (PObject: string) (PMember: string)

instantiation Prefix :: linorder
begin

definition less_Prefix :: "Prefix \<Rightarrow> Prefix \<Rightarrow> bool" where
  "less_Prefix a b =
     (if PObject a < PObject b then True
      else if PObject b < PObject a then False
      else if PMember a \<noteq> [] \<and> PMember b \<noteq> [] then PMember a < PMember b
      else PMember a \<noteq> [])"

definition less_eq_Prefix :: "Prefix \<Rightarrow> Prefix \<Rightarrow> bool" where
  "less_eq_Prefix a b = (\<not> b < a)"

instance
proof
  fix a b c :: Prefix
  show "a < b \<longleftrightarrow> a \<le> b \<and> \<not> b \<le> a" by (auto simp: less_Prefix_def less_eq_Prefix_def)
  show "a \<le> a" by (simp add: less_Prefix_def less_eq_Prefix_def)
  show "a \<le> b \<Longrightarrow> b \<le> c \<Longrightarrow> a \<le> c" by (auto simp: less_Prefix_def less_eq_Prefix_def split: if_splits)
  show "a \<le> b \<Longrightarrow> b \<le> a \<Longrightarrow> a = b"
    by (cases a; cases b) (auto simp: less_Prefix_def less_eq_Prefix_def split: if_splits)
  show "a \<le> b \<or> b \<le> a" by (auto simp: less_Prefix_def less_eq_Prefix_def split: if_splits)
qed

end

definition GetStringRepr_Prefix :: "Prefix \<Rightarrow> string" where
  "GetStringRepr_Prefix p = ''-'' @ (if PMember p \<noteq> [] then PMember p else ''*'') @ ''->'' @ PObject p"

section \<open>The container\<close>

record EquivClass =
  Objects :: "string list"
  Prefixes :: "Prefix list"

record FunctionInfo =
  MangledNames :: "string list"
  Parameters :: "string list"
  ReferencedInReturnStmts :: "string list"
  IsVariadic :: bool

record CallInfo =
  CalledObjects :: "string list"
  Arguments :: "string list list"

record EquivClassContainer =
  EquivClasses :: "(nat \<times> EquivClass) list"
  nextClass :: nat
  FunctionMap :: "(string \<times> string) list"
  FunctionInfoMap :: "(string \<times> FunctionInfo) list"
  CallInfoMap :: "(string \<times> CallInfo) list"
  FindMap :: "string \<rightharpoonup> nat"
  CallExprParentMap :: "(string \<times> string) list"
  ReferencedInCalls :: "string \<rightharpoonup> string list"

definition emptyContainer :: EquivClassContainer where
  "emptyContainer = \<lparr>EquivClasses = [], nextClass = 0, FunctionMap = [], FunctionInfoMap = [], CallInfoMap = [], FindMap = Map.empty,
     CallExprParentMap = [], ReferencedInCalls = Map.empty\<rparr>"

definition pushCall :: "string \<Rightarrow> string \<Rightarrow> (string \<rightharpoonup> string list) \<Rightarrow> (string \<rightharpoonup> string list)" where
  "pushCall k ref m = m(ref \<mapsto> (case m ref of None \<Rightarrow> [] | Some calls \<Rightarrow> calls) @ [k])"

definition InitReferencedInCalls :: "EquivClassContainer \<Rightarrow> EquivClassContainer" where
  "InitReferencedInCalls D =
     D\<lparr>ReferencedInCalls := fold (\<lambda>(k, ci). fold (pushCall k) (CalledObjects ci)) (CallInfoMap D) Map.empty\<rparr>"

text \<open>\<open>emplace\<close> keeps an existing entry.\<close>

definition emplaceMap :: "'k::linorder \<Rightarrow> 'v \<Rightarrow> ('k \<times> 'v) list \<Rightarrow> ('k \<times> 'v) list" where
  "emplaceMap k v m = (if map_of m k = None then map_set k v m else m)"

definition emplaceFind :: "nat \<Rightarrow> string \<Rightarrow> (string \<rightharpoonup> nat) \<Rightarrow> (string \<rightharpoonup> nat)" where
  "emplaceFind e x m = (if m x = None then m(x \<mapsto> e) else m)"

definition emplaceFront :: "EquivClass \<Rightarrow> EquivClassContainer \<Rightarrow> nat \<times> EquivClassContainer" where
  "emplaceFront c D = (nextClass D, D\<lparr>EquivClasses := (nextClass D, c) # EquivClasses D, nextClass := Suc (nextClass D)\<rparr>)"

definition derefClass :: "EquivClassContainer \<Rightarrow> nat \<Rightarrow> EquivClass res" where
  "derefClass D e = derefR (map_of (EquivClasses D) e)"

definition findR :: "EquivClassContainer \<Rightarrow> string \<Rightarrow> nat res" where
  "findR D x = (case FindMap D x of None \<Rightarrow> Inl AssertionFailed | Some e \<Rightarrow> Inr e)"

section \<open>Setting up the classes\<close>

text \<open>\<open>objects\<close> are the elements of the set \<open>Objects\<close> in its order.\<close>

definition initEquivClass :: "ObjectNameDereference \<Rightarrow> EquivClassContainer \<Rightarrow> EquivClassContainer" where
  "initEquivClass obj D =
     (let repr = GetStringRepr obj;
          (e, D1) = emplaceFront \<lparr>Objects = [repr], Prefixes = []\<rparr> D;
          D2 = D1\<lparr>FindMap := emplaceFind e repr (FindMap D1)\<rparr>
      in case GetFunctionName obj of None \<Rightarrow> D2 | Some f \<Rightarrow> D2\<lparr>FunctionMap := emplaceMap repr f (FunctionMap D2)\<rparr>)"

definition initEquivClasses :: "ObjectNameDereference list \<Rightarrow> EquivClassContainer \<Rightarrow> EquivClassContainer" where
  "initEquivClasses objects D = fold initEquivClass objects D"

text \<open>\<open>std::set::find\<close>: the element that is neither smaller nor greater.\<close>

definition findObject :: "ObjectNameDereference list \<Rightarrow> ObjectNameDereference \<Rightarrow> ObjectNameDereference option" where
  "findObject objects x = find (\<lambda>y. \<not> lessDereference y x \<and> \<not> lessDereference x y) objects"

text \<open>\<open>operator[]\<close> on a missing key gives a singular iterator.\<close>

definition addPrefix :: "string \<Rightarrow> Prefix \<Rightarrow> EquivClassContainer \<Rightarrow> EquivClassContainer res" where
  "addPrefix x p D =
     bindR (derefR (FindMap D x)) (\<lambda>e.
     bindR (derefClass D e) (\<lambda>c.
     Inr (D\<lparr>EquivClasses := AList.update e (c\<lparr>Prefixes := Prefixes c @ [p]\<rparr>) (EquivClasses D)\<rparr>)))"

definition initPrefix :: "ObjectNameDereference list \<Rightarrow> ObjectNameDereference \<Rightarrow> EquivClassContainer \<Rightarrow> EquivClassContainer res" where
  "initPrefix objects obj D =
     bindR (case findObject objects (setLevel (derefLevel obj + 1) obj) of
              None \<Rightarrow> Inr D
            | Some tmp \<Rightarrow> addPrefix (GetStringRepr obj) (Prefix (GetStringRepr tmp) []) D) (\<lambda>D1.
     case obj of
       DerefMb (MemberOf db member) l \<Rightarrow>
         (if l = 0 then
            (case findObject objects db of
               None \<Rightarrow> Inr D1
             | Some tmp \<Rightarrow> addPrefix (GetStringRepr tmp) (Prefix (GetStringRepr obj) member) D1)
          else Inr D1)
     | DerefOb _ _ \<Rightarrow> Inr D1)"

definition initPrefixClasses :: "ObjectNameDereference list \<Rightarrow> EquivClassContainer \<Rightarrow> EquivClassContainer res" where
  "initPrefixClasses objects D = foldR (initPrefix objects) objects D"

section \<open>Merging classes\<close>

definition prefixMatches :: "Prefix \<Rightarrow> Prefix \<Rightarrow> bool" where
  "prefixMatches p foundPrefix \<longleftrightarrow> PObject p \<noteq> PObject foundPrefix
     \<and> (PMember p = [] \<and> PMember foundPrefix = []
        \<or> (PMember p \<noteq> [] \<and> PMember foundPrefix \<noteq> []) \<and> PMember p = PMember foundPrefix)"

definition prefixStep :: "Prefix \<Rightarrow> Prefix list \<times> (string \<times> string) list \<Rightarrow> Prefix list \<times> (string \<times> string) list" where
  "prefixStep p = (\<lambda>(prefixes, objectsToMerge).
     case find (prefixMatches p) prefixes of
       Some o1 \<Rightarrow> (prefixes, objectsToMerge @ [(PObject p, PObject o1)])
     | None \<Rightarrow> (prefixes @ [p], objectsToMerge))"

definition GetPrefixesToMerge :: "Prefix list \<Rightarrow> Prefix list \<times> (string \<times> string) list \<Rightarrow> Prefix list \<times> (string \<times> string) list" where
  "GetPrefixesToMerge prefixToMerge = fold prefixStep prefixToMerge"

text \<open>
  The result has the key of the entry of \<open>FindMap\<close> that the returned iterator points to. Sorting the prefixes of the local
  class after it was copied into the list has no effect.
\<close>

definition merge_EC :: "EquivClassContainer \<Rightarrow> nat \<Rightarrow> nat \<Rightarrow> (string \<times> (string \<times> string) list \<times> EquivClassContainer) res" where
  "merge_EC D e1 e2 =
     bindR (assertR (e1 \<noteq> e2)) (\<lambda>_.
     bindR (derefClass D e1) (\<lambda>c1. bindR (assertR (Objects c1 \<noteq> [])) (\<lambda>_.
     bindR (derefClass D e2) (\<lambda>c2. bindR (assertR (Objects c2 \<noteq> [])) (\<lambda>_.
     let (prefixes, objectsToMerge) = GetPrefixesToMerge (Prefixes c2) (Prefixes c1, []);
         objs = Objects c1 @ Objects c2;
         e = nextClass D;
         D1 = D\<lparr>EquivClasses := AList.delete e2 (AList.delete e1 (EquivClasses D @ [(e, \<lparr>Objects = objs, Prefixes = prefixes\<rparr>)])),
                nextClass := Suc e,
                FindMap := fold (\<lambda>x m. m(x \<mapsto> e)) objs (FindMap D)\<rparr>
     in Inr (hd objs, objectsToMerge, D1))))))"

definition callsOf :: "EquivClassContainer \<Rightarrow> string \<Rightarrow> string list" where
  "callsOf D x = (case ReferencedInCalls D x of None \<Rightarrow> [] | Some calls \<Rightarrow> calls)"

definition GetFunctionsToMerge :: "EquivClassContainer \<Rightarrow> EquivClass \<Rightarrow> (string \<times> string) list \<Rightarrow> (string \<times> string) list" where
  "GetFunctionsToMerge D c ret =
     (let functionDecls = filter (\<lambda>x. map_of (FunctionMap D) x \<noteq> None) (Objects c);
          usedInCall = concat (map (callsOf D) (Objects c))
      in ret @ List.product functionDecls usedInCall)"

text \<open>One pair of objects: merge their classes if they differ.\<close>

definition mergeObjects ::
  "(EquivClassContainer \<Rightarrow> nat \<Rightarrow> nat \<Rightarrow> ((string \<times> string) list \<times> nat \<times> EquivClassContainer) res option) \<Rightarrow> string \<times> string
   \<Rightarrow> (string \<times> string) list \<times> EquivClassContainer \<Rightarrow> ((string \<times> string) list \<times> EquivClassContainer) res option" where
  "mergeObjects rec = (\<lambda>(x, y) (ret, D).
     bindO (Some (findR D x)) (\<lambda>f. bindO (Some (findR D y)) (\<lambda>f1.
     if f = f1 then Some (Inr (ret, D))
     else bindO (rec D f f1) (\<lambda>(calls, _, D1). Some (Inr (ret @ calls, D1))))))"

primrec mergeRecurisve_depth ::
  "nat \<Rightarrow> EquivClassContainer \<Rightarrow> nat \<Rightarrow> nat \<Rightarrow> ((string \<times> string) list \<times> nat \<times> EquivClassContainer) res option" where
  "mergeRecurisve_depth 0 = (\<lambda>D e1 e2. None)"
| "mergeRecurisve_depth (Suc depth) = (\<lambda>D e1 e2.
     bindO (Some (merge_EC D e1 e2)) (\<lambda>(key, objectsToMerge, D1).
     bindO (foldO (mergeObjects (mergeRecurisve_depth depth)) objectsToMerge ([], D1)) (\<lambda>(ret, D2).
     bindO (Some (derefR (FindMap D2 key))) (\<lambda>e.
     bindO (Some (derefClass D2 e)) (\<lambda>c.
     Some (Inr (GetFunctionsToMerge D2 c ret, e, D2)))))))"

text \<open>Every merge removes a class, so their number bounds the depth of the recursion.\<close>

definition mergeRecurisve ::
  "EquivClassContainer \<Rightarrow> nat \<Rightarrow> nat \<Rightarrow> ((string \<times> string) list \<times> nat \<times> EquivClassContainer) res option" where
  "mergeRecurisve D = mergeRecurisve_depth (length (EquivClasses D)) D"

section \<open>Merging function calls\<close>

definition mergeArgument :: "string \<times> string list \<Rightarrow> (string \<times> string) list \<times> EquivClassContainer \<Rightarrow> ((string \<times> string) list \<times> EquivClassContainer) res option" where
  "mergeArgument = (\<lambda>(l, rhs) (ret, D).
     bindO (Some (findR D l)) (\<lambda>_. foldO (\<lambda>r. mergeObjects mergeRecurisve (l, r)) rhs (ret, D)))"

definition argumentOf :: "string list list \<Rightarrow> nat \<Rightarrow> string list" where
  "argumentOf args i = (if i < length args then args ! i else [])"

definition argumentsOf :: "FunctionInfo \<Rightarrow> CallInfo \<Rightarrow> (string \<times> string list) list" where
  "argumentsOf fi ci = map (\<lambda>i. (Parameters fi ! i, argumentOf (Arguments ci) i)) [0..<length (Parameters fi)]"

definition mergeFunctionCallImpl ::
  "EquivClassContainer \<Rightarrow> string \<Rightarrow> string \<Rightarrow> CallInfo \<Rightarrow> string \<Rightarrow> ((string \<times> string) list \<times> (string \<times> string) \<times> EquivClassContainer) res option" where
  "mergeFunctionCallImpl D calledFunctionName callingFunctionName ci callExprUSR =
     bindO (Some (case map_of (FunctionInfoMap D) calledFunctionName of None \<Rightarrow> Inl AssertionFailed | Some fi \<Rightarrow> Inr fi)) (\<lambda>fi.
     bindO (foldO mergeArgument (argumentsOf fi ci) ([], D)) (\<lambda>(ret, D1).
     bindO (if ReferencedInReturnStmts fi \<noteq> [] then mergeArgument (callExprUSR, ReferencedInReturnStmts fi) (ret, D1) else Some (Inr (ret, D1)))
       (\<lambda>(ret1, D2). Some (Inr (ret1, (callingFunctionName, calledFunctionName), D2)))))"

text \<open>\<open>CallExprParentMap[...]\<close> creates an empty entry.\<close>

definition mergeFunctionCall ::
  "EquivClassContainer \<Rightarrow> string \<Rightarrow> string \<Rightarrow> ((string \<times> string) list \<times> (string \<times> string) \<times> EquivClassContainer) res option" where
  "mergeFunctionCall D calledObj ce =
     bindO (Some (case map_of (FunctionMap D) calledObj of None \<Rightarrow> Inl AssertionFailed | Some f \<Rightarrow> Inr f)) (\<lambda>calledFunctionName.
     let D1 = D\<lparr>CallExprParentMap := emplaceMap ce [] (CallExprParentMap D)\<rparr> in
     bindO (Some (derefR (map_of (CallInfoMap D1) ce))) (\<lambda>ci.
     mergeFunctionCallImpl D1 calledFunctionName (the (map_of (CallExprParentMap D1) ce)) ci ce))"

end
