(* ===== verification/Alias_Props.thy ===== *)
theory Alias_Props
  imports Alias
begin

text \<open>
  What merging classes does. \<open>classesOk\<close> is the invariant of the container, \<open>sameClass\<close> the relation it stores and
  \<open>storedPrefixes\<close> its prefixes. \<open>aliased\<close> is the specification: the least equivalence that contains the given pairs and with
  two objects also their prefixes of the same member. The locale \<open>class_merging\<close> is the contract of a function that
  merges two classes; \<open>mergeRecurisve\<close> satisfies it because the number of classes bounds its depth.
\<close>

section \<open>The relation and the invariant\<close>

definition sameClass :: "EquivClassContainer \<Rightarrow> (string \<times> string) set" where
  "sameClass D = {(x, y). \<exists>e. FindMap D x = Some e \<and> FindMap D y = Some e}"

definition storedPrefixes :: "EquivClassContainer \<Rightarrow> (string \<times> Prefix) set" where
  "storedPrefixes D = {(x, P). \<exists>e c. FindMap D x = Some e \<and> (e, c) \<in> set (EquivClasses D) \<and> P \<in> set (Prefixes c)}"

definition classesOk :: "EquivClassContainer \<Rightarrow> bool" where
  "classesOk D \<longleftrightarrow> distinct (map fst (EquivClasses D))
     \<and> (\<forall>(e, c) \<in> set (EquivClasses D). e < nextClass D \<and> Objects c \<noteq> [])
     \<and> (\<forall>x e. FindMap D x = Some e \<longleftrightarrow> (\<exists>c. (e, c) \<in> set (EquivClasses D) \<and> x \<in> set (Objects c)))"

definition prefixesFound :: "EquivClassContainer \<Rightarrow> bool" where
  "prefixesFound D \<longleftrightarrow> (\<forall>(x, P) \<in> storedPrefixes D. PObject P \<in> dom (FindMap D))"

definition callPairs :: "EquivClassContainer \<Rightarrow> (string \<times> string) set" where
  "callPairs D = {(f, k). map_of (FunctionMap D) f \<noteq> None \<and> (\<exists>x. (f, x) \<in> sameClass D \<and> k \<in> set (callsOf D x))}"

text \<open>The same fields apart from the classes.\<close>

definition sameTables :: "EquivClassContainer \<Rightarrow> EquivClassContainer \<Rightarrow> bool" where
  "sameTables D D' \<longleftrightarrow> FunctionMap D' = FunctionMap D \<and> FunctionInfoMap D' = FunctionInfoMap D \<and> CallInfoMap D' = CallInfoMap D
     \<and> CallExprParentMap D' = CallExprParentMap D \<and> ReferencedInCalls D' = ReferencedInCalls D
     \<and> dom (FindMap D') = dom (FindMap D)"

text \<open>The specification.\<close>

inductive_set aliased :: "(string \<times> Prefix) set \<Rightarrow> (string \<times> string) set \<Rightarrow> (string \<times> string) set"
  for orig :: "(string \<times> Prefix) set" and r :: "(string \<times> string) set" where
  base: "(x, y) \<in> r \<Longrightarrow> (x, y) \<in> aliased orig r"
| symm: "(x, y) \<in> aliased orig r \<Longrightarrow> (y, x) \<in> aliased orig r"
| tran: "(x, y) \<in> aliased orig r \<Longrightarrow> (y, z) \<in> aliased orig r \<Longrightarrow> (x, z) \<in> aliased orig r"
| pref: "(x, y) \<in> aliased orig r \<Longrightarrow> (x, P) \<in> orig \<Longrightarrow> (y, Q) \<in> orig \<Longrightarrow> PMember P = PMember Q
    \<Longrightarrow> (PObject P, PObject Q) \<in> aliased orig r"

definition congruence :: "(string \<times> Prefix) set \<Rightarrow> (string \<times> string) set \<Rightarrow> bool" where
  "congruence orig R \<longleftrightarrow> sym R \<and> trans R
     \<and> (\<forall>x y P Q. (x, y) \<in> R \<longrightarrow> (x, P) \<in> orig \<longrightarrow> (y, Q) \<in> orig \<longrightarrow> PMember P = PMember Q \<longrightarrow> (PObject P, PObject Q) \<in> R)"

text \<open>Prefixes of one object agree up to the pairs in \<open>r\<close>.\<close>

definition joined :: "(string \<times> string) set \<Rightarrow> (string \<times> string) set" where
  "joined r = (r \<union> r\<inverse>)\<^sup>*"

definition consistentUpTo :: "(string \<times> string) set \<Rightarrow> EquivClassContainer \<Rightarrow> bool" where
  "consistentUpTo r D \<longleftrightarrow> (\<forall>x P Q. (x, P) \<in> storedPrefixes D \<longrightarrow> (x, Q) \<in> storedPrefixes D \<longrightarrow> PMember P = PMember Q
     \<longrightarrow> (PObject P, PObject Q) \<in> joined r)"

text \<open>
  The invariant of merging, with the pairs \<open>p\<close> that are still to be merged: every original prefix is still represented,
  and nothing was merged or stored that a congruence \<open>R\<close> does not have.
\<close>

definition represented :: "(string \<times> Prefix) set \<Rightarrow> (string \<times> string) set \<Rightarrow> EquivClassContainer \<Rightarrow> bool" where
  "represented orig r D \<longleftrightarrow> (\<forall>(x, P) \<in> orig. \<exists>Q. (x, Q) \<in> storedPrefixes D \<and> PMember Q = PMember P \<and> (PObject P, PObject Q) \<in> joined r)"

definition within :: "(string \<times> Prefix) set \<Rightarrow> (string \<times> string) set \<Rightarrow> EquivClassContainer \<Rightarrow> bool" where
  "within orig R D \<longleftrightarrow> sameClass D \<subseteq> R \<and> (\<forall>(x, P) \<in> storedPrefixes D. \<exists>y. (x, y) \<in> R \<and> (y, P) \<in> orig)"

definition mergeInv :: "(string \<times> Prefix) set \<Rightarrow> (string \<times> string) set \<Rightarrow> (string \<times> string) set \<Rightarrow> EquivClassContainer \<Rightarrow> bool" where
  "mergeInv orig R p D \<longleftrightarrow> represented orig (sameClass D \<union> p) D \<and> consistentUpTo (sameClass D \<union> p) D \<and> within orig R D \<and> p \<subseteq> R"

section \<open>Lemmas on the relations\<close>

lemma joined_mono: "r \<subseteq> s \<Longrightarrow> joined r \<subseteq> joined s"
  unfolding joined_def by (intro rtrancl_mono) auto

lemma joined_refl [simp, intro]: "(x, x) \<in> joined r"
  by (simp add: joined_def)

lemma joined_base [intro]: "(x, y) \<in> r \<Longrightarrow> (x, y) \<in> joined r"
  by (auto simp: joined_def)

lemma joined_sym: "(x, y) \<in> joined r \<Longrightarrow> (y, x) \<in> joined r"
  unfolding joined_def using sym_rtrancl [of "r \<union> r\<inverse>"] by (auto simp: sym_def)

lemma joined_trans [trans]: "(x, y) \<in> joined r \<Longrightarrow> (y, z) \<in> joined r \<Longrightarrow> (x, z) \<in> joined r"
  unfolding joined_def by auto

lemma joined_sameClass:
  assumes "(x, y) \<in> joined (sameClass D)" "x \<in> dom (FindMap D)"
  shows "(x, y) \<in> sameClass D"
  using assms unfolding joined_def by (induction rule: rtrancl_induct) (auto simp: sameClass_def)

lemma sameClass_sym: "(x, y) \<in> sameClass D \<Longrightarrow> (y, x) \<in> sameClass D"
  by (auto simp: sameClass_def)

lemma sameClass_trans: "(x, y) \<in> sameClass D \<Longrightarrow> (y, z) \<in> sameClass D \<Longrightarrow> (x, z) \<in> sameClass D"
  by (auto simp: sameClass_def)

lemma storedPrefixes_sameClass: "(x, y) \<in> sameClass D \<Longrightarrow> (x, P) \<in> storedPrefixes D \<Longrightarrow> (y, P) \<in> storedPrefixes D"
  by (auto simp: sameClass_def storedPrefixes_def)

lemma congruence_aliased: "congruence orig (aliased orig r)"
  unfolding congruence_def sym_def trans_def by (blast intro: aliased.intros)

lemma aliased_least:
  assumes "congruence orig R" "r \<subseteq> R" "(x, y) \<in> aliased orig r"
  shows "(x, y) \<in> R"
  using assms(3)
proof (induction rule: aliased.induct)
  case (pref x y P Q)
  then show ?case using assms(1) unfolding congruence_def by blast
qed (use assms in \<open>unfold congruence_def sym_def trans_def, blast+\<close>)

lemma classesOkD:
  assumes "classesOk D" "(e, c) \<in> set (EquivClasses D)"
  shows "e < nextClass D" "Objects c \<noteq> []" "FindMap D x = Some e \<longleftrightarrow> x \<in> set (Objects c)"
proof -
  show "e < nextClass D" "Objects c \<noteq> []" using assms unfolding classesOk_def by blast+
  have "c' = c" if "(e, c') \<in> set (EquivClasses D)" for c'
    using that assms eq_key_imp_eq_value unfolding classesOk_def by fast
  then show "FindMap D x = Some e \<longleftrightarrow> x \<in> set (Objects c)" using assms unfolding classesOk_def by blast
qed

lemma classOf:
  assumes "classesOk D" "FindMap D x = Some e"
  obtains c where "(e, c) \<in> set (EquivClasses D)" "map_of (EquivClasses D) e = Some c"
    "set (Objects c) = {y. (x, y) \<in> sameClass D}" "set (Prefixes c) = {P. (x, P) \<in> storedPrefixes D}"
proof -
  obtain c where c: "(e, c) \<in> set (EquivClasses D)" "x \<in> set (Objects c)" using assms unfolding classesOk_def by blast
  have dist: "distinct (map fst (EquivClasses D))" using assms(1) unfolding classesOk_def by blast
  have u: "(e, c') \<in> set (EquivClasses D) \<longleftrightarrow> c' = c" for c' using c(1) dist eq_key_imp_eq_value by fast
  show ?thesis
  proof
    show "(e, c) \<in> set (EquivClasses D)" by (fact c(1))
    show "map_of (EquivClasses D) e = Some c" using c(1) dist by simp
    show "set (Objects c) = {y. (x, y) \<in> sameClass D}"
      unfolding sameClass_def by (auto simp: assms(2) classesOkD(3) [OF assms(1) c(1), symmetric])
    show "set (Prefixes c) = {P. (x, P) \<in> storedPrefixes D}"
      unfolding storedPrefixes_def by (simp add: u assms(2))
  qed
qed

section \<open>One merge\<close>

lemma prefixMatches_iff: "prefixMatches p q \<longleftrightarrow> PObject p \<noteq> PObject q \<and> PMember p = PMember q"
  by (auto simp: prefixMatches_def)

lemma GetPrefixesToMerge_Nil: "GetPrefixesToMerge [] (ps, new) = (ps, new)"
  by (simp add: GetPrefixesToMerge_def)

lemma GetPrefixesToMerge_Cons:
  "\<exists>ps1 new1. GetPrefixesToMerge (q # qs) (ps, new) = GetPrefixesToMerge qs (ps1, new1) \<and>
     (ps1 = ps @ [q] \<and> new1 = new \<and> (\<forall>q' \<in> set ps. PMember q' = PMember q \<longrightarrow> PObject q' = PObject q)
      \<or> ps1 = ps \<and> (\<exists>q' \<in> set ps. PMember q' = PMember q \<and> new1 = new @ [(PObject q, PObject q')]))"
proof (cases "find (prefixMatches q) ps")
  case None
  then have "\<forall>q' \<in> set ps. PMember q' = PMember q \<longrightarrow> PObject q' = PObject q" by (auto simp: find_None_iff prefixMatches_iff)
  moreover have "GetPrefixesToMerge (q # qs) (ps, new) = GetPrefixesToMerge qs (ps @ [q], new)"
    using None by (simp add: GetPrefixesToMerge_def prefixStep_def)
  ultimately show ?thesis by blast
next
  case (Some q')
  then have "q' \<in> set ps" "PMember q' = PMember q" by (auto simp: find_Some_iff prefixMatches_iff)
  moreover have "GetPrefixesToMerge (q # qs) (ps, new) = GetPrefixesToMerge qs (ps, new @ [(PObject q, PObject q')])"
    using Some by (simp add: GetPrefixesToMerge_def prefixStep_def)
  ultimately show ?thesis by blast
qed

lemma GetPrefixesToMerge_mono:
  "GetPrefixesToMerge qs (ps, new) = (ps', new') \<Longrightarrow> set ps \<subseteq> set ps' \<and> set ps' \<subseteq> set ps \<union> set qs \<and> set new \<subseteq> set new'"
proof (induction qs arbitrary: ps new)
  case (Cons q qs)
  obtain ps1 new1 where 1: "GetPrefixesToMerge qs (ps1, new1) = (ps', new')" "set ps \<subseteq> set ps1" "set ps1 \<subseteq> insert q (set ps)" "set new \<subseteq> set new1"
    using GetPrefixesToMerge_Cons [of q qs ps new] Cons.prems by fastforce
  from Cons.IH [OF 1(1)] 1(2-) show ?case by auto
qed (simp add: GetPrefixesToMerge_Nil)

lemma GetPrefixesToMerge_represented:
  "GetPrefixesToMerge qs (ps, new) = (ps', new') \<Longrightarrow> q \<in> set qs
    \<Longrightarrow> \<exists>q' \<in> set ps'. PMember q' = PMember q \<and> (PObject q = PObject q' \<or> (PObject q, PObject q') \<in> set new')"
proof (induction qs arbitrary: ps new)
  case (Cons r qs)
  obtain ps1 new1 where 1: "GetPrefixesToMerge qs (ps1, new1) = (ps', new')"
    and r: "\<exists>q' \<in> set ps1. PMember q' = PMember r \<and> (PObject r = PObject q' \<or> (PObject r, PObject q') \<in> set new1)"
    using GetPrefixesToMerge_Cons [of r qs ps new] Cons.prems(1) by fastforce
  show ?case
  proof (cases "q \<in> set qs")
    case True
    then show ?thesis using Cons.IH [OF 1] by blast
  next
    case False
    then have "q = r" using Cons.prems(2) by simp
    then show ?thesis using r GetPrefixesToMerge_mono [OF 1] by blast
  qed
qed simp

lemma GetPrefixesToMerge_new:
  "GetPrefixesToMerge qs (ps, new) = (ps', new') \<Longrightarrow> (a, b) \<in> set new'
    \<Longrightarrow> (a, b) \<in> set new \<or> (\<exists>q \<in> set qs. \<exists>q' \<in> set ps'. PMember q' = PMember q \<and> a = PObject q \<and> b = PObject q')"
proof (induction qs arbitrary: ps new)
  case (Cons r qs)
  obtain ps1 new1 where 1: "GetPrefixesToMerge qs (ps1, new1) = (ps', new')"
    and r: "(a, b) \<in> set new1 \<Longrightarrow> (a, b) \<in> set new \<or> (\<exists>q' \<in> set ps1. PMember q' = PMember r \<and> a = PObject r \<and> b = PObject q')"
    using GetPrefixesToMerge_Cons [of r qs ps new] Cons.prems(1) by fastforce
  from Cons.IH [OF 1 Cons.prems(2)] r GetPrefixesToMerge_mono [OF 1] show ?case by (meson list.set_intros subsetD)
qed (simp add: GetPrefixesToMerge_Nil)

lemma GetPrefixesToMerge_added:
  "GetPrefixesToMerge qs (ps, new) = (ps', new') \<Longrightarrow> q \<in> set ps' \<Longrightarrow> q' \<in> set ps \<Longrightarrow> PMember q' = PMember q
    \<Longrightarrow> q \<in> set ps \<or> PObject q' = PObject q"
proof (induction qs arbitrary: ps new)
  case (Cons r qs)
  obtain ps1 new1 where 1: "GetPrefixesToMerge qs (ps1, new1) = (ps', new')" "set ps \<subseteq> set ps1"
    and r: "q \<in> set ps1 \<Longrightarrow> q \<in> set ps \<or> q = r \<and> (\<forall>q' \<in> set ps. PMember q' = PMember r \<longrightarrow> PObject q' = PObject r)"
    using GetPrefixesToMerge_Cons [of r qs ps new] Cons.prems(1) by fastforce
  from Cons.IH [OF 1(1) Cons.prems(2) _ Cons.prems(4)] Cons.prems(3,4) 1(2) r show ?case by blast
qed (simp add: GetPrefixesToMerge_Nil)

lemma fold_update_all: "fold (\<lambda>x m. m(x \<mapsto> e)) xs m = (\<lambda>x. if x \<in> set xs then Some e else m x)"
  by (induction xs arbitrary: m) auto

lemma length_delete:
  assumes "distinct (map fst al)" "k \<in> fst ` set al"
  shows "Suc (length (AList.delete k al)) = length al"
proof -
  have "length (AList.delete k al) = length (removeAll k (map fst al))" by (metis delete_keys length_map)
  also have "\<dots> = length al - 1" using assms by (simp add: distinct_remove1_removeAll [symmetric] length_remove1)
  finally show ?thesis using assms(2) by (cases al) auto
qed

lemma storedPrefixes_iff:
  "(x, P) \<in> storedPrefixes D \<longleftrightarrow> (\<exists>e. FindMap D x = Some e \<and> (\<exists>c. (e, c) \<in> set (EquivClasses D) \<and> P \<in> set (Prefixes c)))"
  by (auto simp: storedPrefixes_def)

lemma merge_EC_ok:
  assumes ok: "classesOk D" and x1: "FindMap D x1 = Some e1" and x2: "FindMap D x2 = Some e2" and ne: "e1 \<noteq> e2"
    and C: "C = {x. (x1, x) \<in> sameClass D \<or> (x2, x) \<in> sameClass D}"
  obtains key new D1 ps1 ps2 ps' where "merge_EC D e1 e2 = Inr (key, new, D1)"
    "key \<in> C" "Suc (length (EquivClasses D1)) = length (EquivClasses D)" "classesOk D1" "sameTables D D1"
    "sameClass D1 = sameClass D \<union> C \<times> C"
    "GetPrefixesToMerge ps2 (ps1, []) = (ps', new)"
    "set ps1 = {P. (x1, P) \<in> storedPrefixes D}" "set ps2 = {P. (x2, P) \<in> storedPrefixes D}"
    "storedPrefixes D1 = {(x, P). if x \<in> C then P \<in> set ps' else (x, P) \<in> storedPrefixes D}"
proof -
  obtain c1 where c1: "(e1, c1) \<in> set (EquivClasses D)" "map_of (EquivClasses D) e1 = Some c1"
    "set (Objects c1) = {y. (x1, y) \<in> sameClass D}" "set (Prefixes c1) = {P. (x1, P) \<in> storedPrefixes D}"
    using classOf [OF ok x1] by metis
  obtain c2 where c2: "(e2, c2) \<in> set (EquivClasses D)" "map_of (EquivClasses D) e2 = Some c2"
    "set (Objects c2) = {y. (x2, y) \<in> sameClass D}" "set (Prefixes c2) = {P. (x2, P) \<in> storedPrefixes D}"
    using classOf [OF ok x2] by metis
  obtain ps' new where g: "GetPrefixesToMerge (Prefixes c2) (Prefixes c1, []) = (ps', new)" by fastforce
  let ?e = "nextClass D"
  let ?objs = "Objects c1 @ Objects c2"
  let ?cs = "AList.delete e2 (AList.delete e1 (EquivClasses D @ [(?e, \<lparr>Objects = ?objs, Prefixes = ps'\<rparr>)]))"
  define D1 where "D1 = D\<lparr>EquivClasses := ?cs, nextClass := Suc ?e, FindMap := fold (\<lambda>x m. m(x \<mapsto> ?e)) ?objs (FindMap D)\<rparr>"
  have dist: "distinct (map fst (EquivClasses D))" using ok unfolding classesOk_def by blast
  have bd: "e < ?e" if "(e, c) \<in> set (EquivClasses D)" for e c using classesOkD(1) [OF ok that] .
  have lt: "e1 < ?e" "e2 < ?e" using bd c1(1) c2(1) by blast+
  have objs: "set ?objs = C" using c1(3) c2(3) C by auto
  have n1: "Objects c1 \<noteq> []" "Objects c2 \<noteq> []" using classesOkD(2) [OF ok] c1(1) c2(1) by blast+
  have inC: "x \<in> C \<longleftrightarrow> FindMap D x = Some e1 \<or> FindMap D x = Some e2" for x
    using x1 x2 C by (auto simp: sameClass_def)
  have fresh: "FindMap D x \<noteq> Some ?e" for x using bd ok unfolding classesOk_def by blast
  have f: "FindMap D1 x = (if x \<in> C then Some ?e else FindMap D x)" for x
    unfolding objs [symmetric] by (simp add: D1_def fold_update_all)
  have set_cs: "set (EquivClasses D1) = {(e, c) \<in> set (EquivClasses D). e \<noteq> e1 \<and> e \<noteq> e2} \<union> {(?e, \<lparr>Objects = ?objs, Prefixes = ps'\<rparr>)}"
    using lt by (auto simp: D1_def AList.delete_eq)
  have look: "(\<exists>c. (e, c) \<in> set (EquivClasses D1) \<and> Q c) \<longleftrightarrow>
      e \<noteq> e1 \<and> e \<noteq> e2 \<and> (\<exists>c. (e, c) \<in> set (EquivClasses D) \<and> Q c) \<or> e = ?e \<and> Q \<lparr>Objects = ?objs, Prefixes = ps'\<rparr>" for e Q
    unfolding set_cs by blast
  have same: "(a, b) \<in> sameClass D1 \<longleftrightarrow> (a, b) \<in> sameClass D \<or> a \<in> C \<and> b \<in> C" for a b
    by (cases "a \<in> C") (use f fresh inC [of a] inC [of b] in \<open>auto simp: sameClass_def\<close>)
  have stored: "(x, P) \<in> storedPrefixes D1 \<longleftrightarrow> (if x \<in> C then P \<in> set ps' else (x, P) \<in> storedPrefixes D)" for x P
    by (cases "x \<in> C") (use f fresh inC [of x] bd in \<open>auto simp: storedPrefixes_iff look\<close>)
  have finds: "FindMap D1 x = Some e \<longleftrightarrow> (\<exists>c. (e, c) \<in> set (EquivClasses D1) \<and> x \<in> set (Objects c))" for x e
  proof -
    have "FindMap D x = Some e \<longleftrightarrow> (\<exists>c. (e, c) \<in> set (EquivClasses D) \<and> x \<in> set (Objects c))" for e
      using ok unfolding classesOk_def by blast
    note old = this [symmetric]
    show ?thesis unfolding look old f EquivClass.select_convs objs using inC [of x] fresh by auto
  qed
  have new: "distinct (map fst (EquivClasses D @ [(?e, \<lparr>Objects = ?objs, Prefixes = ps'\<rparr>)]))" using dist bd [of ?e] by auto
  show ?thesis
  proof
    show "merge_EC D e1 e2 = Inr (hd ?objs, new, D1)"
      using ne c1(2) c2(2) g n1 by (simp add: merge_EC_def derefClass_def derefR_def Let_def D1_def)
    show "hd ?objs \<in> C" using n1 objs by (metis append_is_Nil_conv hd_in_set)
    show "sameTables D D1" using f inC by (auto simp: sameTables_def dom_def D1_def split: if_splits)
    show "sameClass D1 = sameClass D \<union> C \<times> C" using same by auto
    show "storedPrefixes D1 = {(x, P). if x \<in> C then P \<in> set ps' else (x, P) \<in> storedPrefixes D}" using stored by auto
    show "GetPrefixesToMerge (Prefixes c2) (Prefixes c1, []) = (ps', new)" by (fact g)
    show "set (Prefixes c1) = {P. (x1, P) \<in> storedPrefixes D}" "set (Prefixes c2) = {P. (x2, P) \<in> storedPrefixes D}"
      by (fact c1(4), fact c2(4))
    show "classesOk D1"
      unfolding classesOk_def
    proof (intro conjI allI ballI)
      show "distinct (map fst (EquivClasses D1))" using new by (simp only: D1_def) (simp add: distinct_delete)
      show "case z of (e, c) \<Rightarrow> e < nextClass D1 \<and> Objects c \<noteq> []" if "z \<in> set (EquivClasses D1)" for z
        using that n1 classesOkD(1,2) [OF ok] unfolding set_cs by (auto simp: less_Suc_eq D1_def)
    qed (rule finds)
    show "Suc (length (EquivClasses D1)) = length (EquivClasses D)"
      using length_delete [OF new, of e1] length_delete [OF distinct_delete [OF new], of e2 e1] c1(1) c2(1) ne
      by (force simp: D1_def AList.delete_eq)
  qed
qed

text \<open>The effect of one merge on the relation and the prefixes, and what it does to the invariant.\<close>

definition mergedInto :: "EquivClassContainer \<Rightarrow> string \<Rightarrow> string \<Rightarrow> string set \<Rightarrow> Prefix list \<Rightarrow> (string \<times> string) list \<Rightarrow> EquivClassContainer \<Rightarrow> bool" where
  "mergedInto D x1 x2 C ps' new D1 \<longleftrightarrow> x1 \<in> C \<and> x2 \<in> C \<and> C = {x. (x1, x) \<in> sameClass D \<or> (x2, x) \<in> sameClass D}
     \<and> sameClass D1 = sameClass D \<union> C \<times> C
     \<and> (\<exists>ps1 ps2. GetPrefixesToMerge ps2 (ps1, []) = (ps', new)
          \<and> set ps1 = {P. (x1, P) \<in> storedPrefixes D} \<and> set ps2 = {P. (x2, P) \<in> storedPrefixes D})
     \<and> storedPrefixes D1 = {(x, P). if x \<in> C then P \<in> set ps' else (x, P) \<in> storedPrefixes D}"

lemma mergedInto_joined:
  assumes "mergedInto D x1 x2 C ps' new D1"
  shows "joined (sameClass D \<union> insert (x1, x2) p) \<subseteq> joined (sameClass D1 \<union> (set new \<union> p))"
  using assms by (intro joined_mono) (auto simp: mergedInto_def)

lemma mergedInto_stored:
  assumes "mergedInto D x1 x2 C ps' new D1" "P \<in> set ps'"
  shows "(x1, P) \<in> storedPrefixes D \<or> (x2, P) \<in> storedPrefixes D"
  using assms GetPrefixesToMerge_mono unfolding mergedInto_def by blast

lemma mergedInto_storedIff:
  assumes "mergedInto D x1 x2 C ps' new D1"
  shows "(x, P) \<in> storedPrefixes D1 \<longleftrightarrow> (if x \<in> C then P \<in> set ps' else (x, P) \<in> storedPrefixes D)"
  using assms by (simp add: mergedInto_def)

lemma mergedInto_kept:
  assumes "mergedInto D x1 x2 C ps' new D1" "(x1, Q) \<in> storedPrefixes D \<or> (x2, Q) \<in> storedPrefixes D"
  shows "\<exists>Q' \<in> set ps'. PMember Q' = PMember Q \<and> (PObject Q = PObject Q' \<or> (PObject Q, PObject Q') \<in> set new)"
proof -
  obtain ps1 ps2 where g: "GetPrefixesToMerge ps2 (ps1, []) = (ps', new)"
    and ps: "set ps1 = {P. (x1, P) \<in> storedPrefixes D}" "set ps2 = {P. (x2, P) \<in> storedPrefixes D}"
    using assms(1) unfolding mergedInto_def by blast
  have "Q \<in> set ps1 \<or> Q \<in> set ps2" using assms(2) ps by simp
  then show ?thesis using GetPrefixesToMerge_mono [OF g] GetPrefixesToMerge_represented [OF g] by blast
qed

lemma mergedInto_new:
  assumes "mergedInto D x1 x2 C ps' new D1" "(a, b) \<in> set new"
  obtains P Q where "(x2, P) \<in> storedPrefixes D" "Q \<in> set ps'" "PMember Q = PMember P" "a = PObject P" "b = PObject Q"
proof -
  obtain ps1 ps2 where g: "GetPrefixesToMerge ps2 (ps1, []) = (ps', new)" and ps: "set ps2 = {P. (x2, P) \<in> storedPrefixes D}"
    using assms(1) unfolding mergedInto_def by blast
  from GetPrefixesToMerge_new [OF g assms(2)] ps that show ?thesis by auto
qed

lemma mergedInto_represented:
  assumes m: "mergedInto D x1 x2 C ps' new D1" and rep: "represented orig (sameClass D \<union> insert (x1, x2) p) D"
  shows "represented orig (sameClass D1 \<union> (set new \<union> p)) D1"
  unfolding represented_def
proof (clarify)
  fix x P assume "(x, P) \<in> orig"
  then obtain Q where Q: "(x, Q) \<in> storedPrefixes D" "PMember Q = PMember P" "(PObject P, PObject Q) \<in> joined (sameClass D1 \<union> (set new \<union> p))"
    using rep mergedInto_joined [OF m] unfolding represented_def by blast
  show "\<exists>Q. (x, Q) \<in> storedPrefixes D1 \<and> PMember Q = PMember P \<and> (PObject P, PObject Q) \<in> joined (sameClass D1 \<union> (set new \<union> p))"
  proof (cases "x \<in> C")
    case True
    have "(x1, Q) \<in> storedPrefixes D \<or> (x2, Q) \<in> storedPrefixes D"
      using True m Q(1) storedPrefixes_sameClass sameClass_sym unfolding mergedInto_def by blast
    then obtain Q' where "Q' \<in> set ps'" "PMember Q' = PMember Q" "PObject Q = PObject Q' \<or> (PObject Q, PObject Q') \<in> set new"
      using mergedInto_kept [OF m] by blast
    moreover from this have "(PObject Q, PObject Q') \<in> joined (sameClass D1 \<union> (set new \<union> p))"
      using joined_base by (metis Un_iff joined_refl)
    ultimately show ?thesis using True Q(2,3) mergedInto_storedIff [OF m] by (metis joined_trans)
  next
    case False
    then show ?thesis using Q mergedInto_storedIff [OF m] by metis
  qed
qed

lemma mergedInto_consistent:
  assumes m: "mergedInto D x1 x2 C ps' new D1" and con: "consistentUpTo (sameClass D \<union> insert (x1, x2) p) D"
  shows "consistentUpTo (sameClass D1 \<union> (set new \<union> p)) D1"
proof -
  let ?s = "sameClass D1 \<union> (set new \<union> p)"
  have old: "(PObject P, PObject Q) \<in> joined ?s" if "(x, P) \<in> storedPrefixes D" "(x, Q) \<in> storedPrefixes D" "PMember P = PMember Q" for x P Q
    using that con mergedInto_joined [OF m] unfolding consistentUpTo_def by blast
  have left: "(PObject P, PObject Q) \<in> joined ?s"
    if PQ: "(x1, P) \<in> storedPrefixes D" "Q \<in> set ps'" "PMember P = PMember Q" for P Q
  proof -
    have "(x1, Q) \<in> storedPrefixes D \<or> PObject P = PObject Q"
      using m PQ GetPrefixesToMerge_added [of _ _ "[]" ps' new Q P] unfolding mergedInto_def by blast
    then show ?thesis using old [OF PQ(1) _ PQ(3)] by auto
  qed
  have agree: "(PObject P, PObject Q) \<in> joined ?s" if PQ: "P \<in> set ps'" "Q \<in> set ps'" "PMember P = PMember Q" for P Q
    using mergedInto_stored [OF m PQ(1)] mergedInto_stored [OF m PQ(2)] left [OF _ PQ(2,3)] left [OF _ PQ(1) PQ(3) [symmetric]]
      old [OF _ _ PQ(3)] joined_sym by metis
  show ?thesis
    unfolding consistentUpTo_def
  proof (intro allI impI)
    fix x P Q assume "(x, P) \<in> storedPrefixes D1" "(x, Q) \<in> storedPrefixes D1" "PMember P = PMember Q"
    then show "(PObject P, PObject Q) \<in> joined ?s"
      using agree old unfolding mergedInto_storedIff [OF m] by (cases "x \<in> C") simp_all
  qed
qed

lemma mergedInto_within:
  assumes m: "mergedInto D x1 x2 C ps' new D1" and R: "congruence orig R" and wit: "within orig R D" and xx: "(x1, x2) \<in> R"
  shows "within orig R D1" and "set new \<subseteq> R"
proof -
  have sR: "sym R" "trans R" using R by (auto simp: congruence_def)
  have CR: "(x, x1) \<in> R" if "x \<in> C" for x
  proof -
    have "(x1, x) \<in> R \<or> (x2, x) \<in> R" using that m wit unfolding within_def mergedInto_def by blast
    then show ?thesis using xx sR by (meson symD transD)
  qed
  have origin: "\<exists>y. (x1, y) \<in> R \<and> (y, P) \<in> orig" if "(x1, P) \<in> storedPrefixes D \<or> (x2, P) \<in> storedPrefixes D" for P
    using that wit xx sR(2) unfolding within_def by (blast dest: transD)
  show "within orig R D1"
    unfolding within_def
  proof (intro conjI)
    have "C \<times> C \<subseteq> R" using CR sR by (auto, meson symD transD)
    then show "sameClass D1 \<subseteq> R" using m wit unfolding within_def mergedInto_def by blast
    show "\<forall>(x, P) \<in> storedPrefixes D1. \<exists>y. (x, y) \<in> R \<and> (y, P) \<in> orig"
    proof (clarify)
      fix x P assume xP: "(x, P) \<in> storedPrefixes D1"
      show "\<exists>y. (x, y) \<in> R \<and> (y, P) \<in> orig"
      proof (cases "x \<in> C")
        case True
        then have "P \<in> set ps'" using xP unfolding mergedInto_storedIff [OF m] by simp
        then show ?thesis using origin [OF mergedInto_stored [OF m]] CR [OF True] sR(2) by (meson transD)
      next
        case False
        then have "(x, P) \<in> storedPrefixes D" using xP unfolding mergedInto_storedIff [OF m] by simp
        then show ?thesis using wit unfolding within_def by blast
      qed
    qed
  qed
  show "set new \<subseteq> R"
  proof (clarify)
    fix a b assume "(a, b) \<in> set new"
    from mergedInto_new [OF m this] obtain P Q where PQ: "(x2, P) \<in> storedPrefixes D" "Q \<in> set ps'" "PMember Q = PMember P" "a = PObject P" "b = PObject Q"
      by metis
    obtain y z where "(x1, y) \<in> R" "(y, P) \<in> orig" "(x1, z) \<in> R" "(z, Q) \<in> orig"
      using origin [of P] origin [OF mergedInto_stored [OF m PQ(2)]] PQ(1) by blast
    moreover from this have "(y, z) \<in> R" using sR by (meson symD transD)
    ultimately show "(a, b) \<in> R" using R PQ(3-5) unfolding congruence_def by metis
  qed
qed

lemma mergedInto_inv:
  assumes "mergedInto D x1 x2 C ps' new D1" "congruence orig R" "mergeInv orig R (insert (x1, x2) p) D"
  shows "mergeInv orig R (set new \<union> p) D1"
  using assms mergedInto_represented [OF assms(1)] mergedInto_consistent [OF assms(1)] mergedInto_within [OF assms(1,2)]
  unfolding mergeInv_def by auto

lemma merge_EC_merged:
  assumes "classesOk D" "FindMap D x1 = Some e1" "FindMap D x2 = Some e2" "e1 \<noteq> e2"
  obtains key new D1 C ps' where "merge_EC D e1 e2 = Inr (key, new, D1)" "key \<in> C"
    "Suc (length (EquivClasses D1)) = length (EquivClasses D)" "classesOk D1" "sameTables D D1" "mergedInto D x1 x2 C ps' new D1"
proof -
  define C where C: "C = {x. (x1, x) \<in> sameClass D \<or> (x2, x) \<in> sameClass D}"
  have x: "x1 \<in> C" "x2 \<in> C" using assms(2,3) by (simp_all add: C sameClass_def)
  show ?thesis
  proof (rule merge_EC_ok [OF assms C])
    fix key new D1 ps1 ps2 ps'
    assume "merge_EC D e1 e2 = Inr (key, new, D1)" "key \<in> C" "Suc (length (EquivClasses D1)) = length (EquivClasses D)" "classesOk D1"
      "sameTables D D1" "sameClass D1 = sameClass D \<union> C \<times> C" "GetPrefixesToMerge ps2 (ps1, []) = (ps', new)"
      "set ps1 = {P. (x1, P) \<in> storedPrefixes D}" "set ps2 = {P. (x2, P) \<in> storedPrefixes D}"
      "storedPrefixes D1 = {(x, P). if x \<in> C then P \<in> set ps' else (x, P) \<in> storedPrefixes D}"
    with x C show ?thesis using assms by (intro that [of key new D1 C ps']) (unfold mergedInto_def, blast+)
  qed
qed

lemma mergedInto_found:
  assumes m: "mergedInto D x1 x2 C ps' new D1" and t: "sameTables D D1" and found: "prefixesFound D"
  shows "prefixesFound D1" and "(a, b) \<in> set new \<Longrightarrow> a \<in> dom (FindMap D1) \<and> b \<in> dom (FindMap D1)"
proof -
  have old: "PObject P \<in> dom (FindMap D1)" if "(x, P) \<in> storedPrefixes D" for x P
    using that found t unfolding prefixesFound_def sameTables_def by blast
  have ps': "PObject P \<in> dom (FindMap D1)" if "P \<in> set ps'" for P using mergedInto_stored [OF m that] old by blast
  have "PObject P \<in> dom (FindMap D1)" if "(x, P) \<in> storedPrefixes D1" for x P
    using that old ps' unfolding mergedInto_storedIff [OF m] by (cases "x \<in> C") simp_all
  then show "prefixesFound D1" unfolding prefixesFound_def by blast
  show "a \<in> dom (FindMap D1) \<and> b \<in> dom (FindMap D1)" if "(a, b) \<in> set new"
  proof -
    from mergedInto_new [OF m that] obtain P Q where "(x2, P) \<in> storedPrefixes D" "Q \<in> set ps'" "a = PObject P" "b = PObject Q"
      by metis
    then show ?thesis using old ps' by blast
  qed
qed

lemma set_GetFunctionsToMerge:
  "set (GetFunctionsToMerge D c ret) = set ret \<union>
     {(f, k). f \<in> set (Objects c) \<and> map_of (FunctionMap D) f \<noteq> None \<and> (\<exists>x \<in> set (Objects c). k \<in> set (callsOf D x))}"
  by (auto simp: GetFunctionsToMerge_def)

lemma sameTables_calls: "sameTables D D' \<Longrightarrow> callsOf D' = callsOf D"
  by (simp add: sameTables_def callsOf_def fun_eq_iff)

lemma callPairs_mono: "sameTables D D' \<Longrightarrow> sameClass D \<subseteq> sameClass D' \<Longrightarrow> callPairs D \<subseteq> callPairs D'"
  using sameTables_calls [of D D'] unfolding callPairs_def sameTables_def by auto

section \<open>The contract of merging\<close>

text \<open>
  \<open>merges D todo ret D'\<close>: the pairs \<open>todo\<close> were merged, \<open>ret\<close> has the new pairs of a function and a call in one class.
\<close>

definition merges :: "EquivClassContainer \<Rightarrow> (string \<times> string) list \<Rightarrow> (string \<times> string) list \<Rightarrow> EquivClassContainer \<Rightarrow> bool" where
  "merges D todo ret D' \<longleftrightarrow> classesOk D' \<and> prefixesFound D' \<and> sameTables D D' \<and> length (EquivClasses D') \<le> length (EquivClasses D)
     \<and> sameClass D \<subseteq> sameClass D' \<and> set todo \<subseteq> sameClass D' \<and> callPairs D' \<subseteq> callPairs D \<union> set ret \<and> set ret \<subseteq> callPairs D'
     \<and> (\<forall>orig R p. congruence orig R \<longrightarrow> mergeInv orig R (set todo \<union> p) D \<longrightarrow> mergeInv orig R p D')"

lemma merges_refl:
  assumes "classesOk D" "prefixesFound D" "set todo \<subseteq> sameClass D"
  shows "merges D todo [] D"
proof -
  have "mergeInv orig R p D" if "mergeInv orig R (set todo \<union> p) D" for orig R p
  proof -
    have "sameClass D \<union> (set todo \<union> p) = sameClass D \<union> p" using assms(3) by blast
    then show ?thesis using that unfolding mergeInv_def by simp
  qed
  then show ?thesis using assms by (auto simp: merges_def sameTables_def)
qed

lemma merges_trans:
  assumes 1: "merges D todo ret D1" and 2: "merges D1 todo' ret' D2"
  shows "merges D (todo @ todo') (ret @ ret') D2"
proof -
  have t: "sameTables D D2" using 1 2 by (auto simp: merges_def sameTables_def)
  have c: "callPairs D1 \<subseteq> callPairs D2" using 2 callPairs_mono by (simp add: merges_def)
  have inv: "mergeInv orig R p D2" if "congruence orig R" "mergeInv orig R (set (todo @ todo') \<union> p) D" for orig R p
    using 1 2 that unfolding merges_def by (metis set_append sup_assoc)
  show ?thesis
    unfolding merges_def
  proof (intro conjI allI impI)
    show "callPairs D2 \<subseteq> callPairs D \<union> set (ret @ ret')" using 1 2 unfolding merges_def by auto
    show "set (ret @ ret') \<subseteq> callPairs D2" using 1 2 c unfolding merges_def by auto
    show "mergeInv orig R p D2" if "congruence orig R" "mergeInv orig R (set (todo @ todo') \<union> p) D" for orig R p by (fact inv [OF that])
  qed (use 1 2 t in \<open>auto simp: merges_def\<close>)
qed

locale class_merging =
  fixes rec :: "EquivClassContainer \<Rightarrow> nat \<Rightarrow> nat \<Rightarrow> ((string \<times> string) list \<times> nat \<times> EquivClassContainer) res option"
    and handles :: "EquivClassContainer \<Rightarrow> bool"
  assumes rec_merges: "handles D \<Longrightarrow> classesOk D \<Longrightarrow> prefixesFound D \<Longrightarrow> FindMap D x = Some e1 \<Longrightarrow> FindMap D y = Some e2 \<Longrightarrow> e1 \<noteq> e2
      \<Longrightarrow> \<exists>ret e D'. rec D e1 e2 = Some (Inr (ret, e, D')) \<and> merges D [(x, y)] ret D' \<and> length (EquivClasses D') < length (EquivClasses D)
        \<and> FindMap D' x = Some e"
    and handles_fewer: "handles D \<Longrightarrow> length (EquivClasses D') \<le> length (EquivClasses D) \<Longrightarrow> handles D'"
begin

lemma object_merges:
  assumes "handles D" "classesOk D" "prefixesFound D" "x \<in> dom (FindMap D)" "y \<in> dom (FindMap D)"
  shows "\<exists>ret' D'. mergeObjects rec (x, y) (ret, D) = Some (Inr (ret @ ret', D')) \<and> merges D [(x, y)] ret' D'
    \<and> (ret' \<noteq> [] \<longrightarrow> length (EquivClasses D') < length (EquivClasses D))"
proof -
  obtain e1 e2 where e: "FindMap D x = Some e1" "FindMap D y = Some e2" using assms(4,5) by blast
  show ?thesis
  proof (cases "e1 = e2")
    case True
    then have "merges D [(x, y)] [] D" using e assms by (intro merges_refl) (auto simp: sameClass_def)
    moreover have "mergeObjects rec (x, y) (ret, D) = Some (Inr (ret @ [], D))" using e True by (simp add: mergeObjects_def findR_def)
    ultimately show ?thesis by blast
  next
    case False
    then obtain ret' e D' where r: "rec D e1 e2 = Some (Inr (ret', e, D'))" "merges D [(x, y)] ret' D'"
      "length (EquivClasses D') < length (EquivClasses D)"
      using rec_merges [OF assms(1-3) e] by blast
    then have "mergeObjects rec (x, y) (ret, D) = Some (Inr (ret @ ret', D'))" using e False by (simp add: mergeObjects_def findR_def)
    then show ?thesis using r(2,3) by blast
  qed
qed

lemma objects_merge:
  assumes "handles D" "classesOk D" "prefixesFound D" "\<forall>(x, y) \<in> set todo. x \<in> dom (FindMap D) \<and> y \<in> dom (FindMap D)"
  shows "\<exists>ret' D'. foldO (mergeObjects rec) todo (ret, D) = Some (Inr (ret @ ret', D')) \<and> merges D todo ret' D'
    \<and> (ret' \<noteq> [] \<longrightarrow> length (EquivClasses D') < length (EquivClasses D))"
  using assms
proof (induction todo arbitrary: ret D)
  case Nil
  then show ?case using merges_refl [of D "[]"] by (intro exI [of _ "[]"] exI [of _ D]) simp
next
  case (Cons xy todo)
  obtain x y where xy: "xy = (x, y)" by fastforce
  obtain ret1 D1 where 1: "mergeObjects rec (x, y) (ret, D) = Some (Inr (ret @ ret1, D1))" "merges D [(x, y)] ret1 D1"
    "ret1 \<noteq> [] \<longrightarrow> length (EquivClasses D1) < length (EquivClasses D)"
    using object_merges [OF Cons.prems(1-3), of x y ret] Cons.prems(4) xy by auto
  have le: "length (EquivClasses D1) \<le> length (EquivClasses D)" and dom: "dom (FindMap D1) = dom (FindMap D)"
    and ok1: "classesOk D1" "prefixesFound D1"
    using 1(2) by (simp_all add: merges_def sameTables_def)
  obtain ret2 D2 where 2: "foldO (mergeObjects rec) todo (ret @ ret1, D1) = Some (Inr (ret @ ret1 @ ret2, D2))" "merges D1 todo ret2 D2"
    "ret2 \<noteq> [] \<longrightarrow> length (EquivClasses D2) < length (EquivClasses D1)"
    using Cons.IH [OF handles_fewer [OF Cons.prems(1) le] ok1, of "ret @ ret1"] Cons.prems(4) dom by auto
  have "length (EquivClasses D2) \<le> length (EquivClasses D1)" using 2(2) by (simp add: merges_def)
  then have "ret1 @ ret2 \<noteq> [] \<longrightarrow> length (EquivClasses D2) < length (EquivClasses D)" using 1(3) 2(3) le by fastforce
  then show ?case using 1(1) 2(1) merges_trans [OF 1(2) 2(2)] xy by auto
qed

end

lemma merges_collect:
  assumes m: "mergedInto D x y C ps' new D1" and t: "sameTables D D1" and len: "Suc (length (EquivClasses D1)) = length (EquivClasses D)"
    and 2: "merges D1 new ret D2" and key: "key \<in> C" "FindMap D2 key = Some e" "(e, c) \<in> set (EquivClasses D2)"
  shows "merges D [(x, y)] (GetFunctionsToMerge D2 c ret) D2"
proof -
  have ok2: "classesOk D2" and t2: "sameTables D1 D2" and s2: "sameClass D1 \<subseteq> sameClass D2" using 2 by (simp_all add: merges_def)
  have t': "sameTables D D2" using t t2 by (simp add: sameTables_def)
  have calls: "callsOf D1 = callsOf D" "callsOf D2 = callsOf D" "FunctionMap D1 = FunctionMap D" "FunctionMap D2 = FunctionMap D"
    using sameTables_calls [OF t] sameTables_calls [OF t'] t t' unfolding sameTables_def by blast+
  have C1: "sameClass D1 = sameClass D \<union> C \<times> C" and xy: "x \<in> C" "y \<in> C" using m unfolding mergedInto_def by blast+
  have objs: "z \<in> set (Objects c) \<longleftrightarrow> (key, z) \<in> sameClass D2" for z
    using classesOkD(3) [OF ok2 key(3), of z] key(2) by (auto simp: sameClass_def)
  have Cobjs: "C \<subseteq> set (Objects c)" using objs key(1) C1 s2 by blast
  let ?ret = "GetFunctionsToMerge D2 c ret"
  show ?thesis
    unfolding merges_def
  proof (intro conjI allI impI)
    show "set [(x, y)] \<subseteq> sameClass D2" using C1 s2 xy by auto
    show "sameClass D \<subseteq> sameClass D2" using C1 s2 by blast
    show "callPairs D2 \<subseteq> callPairs D \<union> set ?ret"
    proof -
      have "callPairs D1 \<subseteq> callPairs D \<union> {(f, k). f \<in> C \<and> map_of (FunctionMap D) f \<noteq> None \<and> (\<exists>x \<in> C. k \<in> set (callsOf D x))}"
        unfolding callPairs_def calls C1 by blast
      also have "\<dots> \<subseteq> callPairs D \<union> set ?ret" unfolding set_GetFunctionsToMerge calls using Cobjs by blast
      finally show ?thesis using 2 unfolding merges_def set_GetFunctionsToMerge by blast
    qed
    show "set ?ret \<subseteq> callPairs D2"
    proof -
      have "(f, z) \<in> sameClass D2" if "f \<in> set (Objects c)" "z \<in> set (Objects c)" for f z
        using that objs sameClass_sym sameClass_trans by blast
      then show ?thesis using 2 unfolding merges_def set_GetFunctionsToMerge callPairs_def by blast
    qed
    show "mergeInv orig R p D2" if "congruence orig R" "mergeInv orig R (set [(x, y)] \<union> p) D" for orig R p
      using that 2 mergedInto_inv [OF m, of orig R p] unfolding merges_def by simp
  qed (use 2 t' len in \<open>auto simp: merges_def\<close>)
qed

lemma mergeRecurisve_depth_merging: "class_merging (mergeRecurisve_depth n) (\<lambda>D. length (EquivClasses D) \<le> n)"
proof (induction n)
  case 0
  have "FindMap D x \<noteq> Some e" if "classesOk D" "length (EquivClasses D) \<le> 0" for D x e
    using that classOf [OF that(1), of x e] by auto
  then show ?case by unfold_locales (blast, simp)
next
  case (Suc n)
  show ?case
  proof
    fix D x y e1 e2
    assume "length (EquivClasses D) \<le> Suc n" and ok: "classesOk D" "prefixesFound D" and e: "FindMap D x = Some e1" "FindMap D y = Some e2" "e1 \<noteq> e2"
    obtain key new D1 C ps' where 1: "merge_EC D e1 e2 = Inr (key, new, D1)" "key \<in> C"
      "Suc (length (EquivClasses D1)) = length (EquivClasses D)" "classesOk D1" "sameTables D D1" "mergedInto D x y C ps' new D1"
      using merge_EC_merged [OF ok(1) e] by metis
    have found: "prefixesFound D1" "\<forall>(a, b) \<in> set new. a \<in> dom (FindMap D1) \<and> b \<in> dom (FindMap D1)"
      using mergedInto_found [OF 1(6,5) ok(2)] by blast+
    obtain ret D2 where 2: "foldO (mergeObjects (mergeRecurisve_depth n)) new ([], D1) = Some (Inr (ret, D2))" "merges D1 new ret D2"
      using class_merging.objects_merge [OF Suc _ 1(4) found, of "[]"] 1(3) \<open>length (EquivClasses D) \<le> Suc n\<close> by auto
    have ok2: "classesOk D2" using 2(2) by (simp add: merges_def)
    have "(key, x) \<in> sameClass D1" using 1(2,6) unfolding mergedInto_def by blast
    then have "(key, x) \<in> sameClass D2" using 2(2) unfolding merges_def by blast
    then obtain e where key: "FindMap D2 key = Some e" and x: "FindMap D2 x = Some e" by (auto simp: sameClass_def)
    obtain c where c: "(e, c) \<in> set (EquivClasses D2)" "map_of (EquivClasses D2) e = Some c" using classOf [OF ok2 key] by metis
    have "mergeRecurisve_depth (Suc n) D e1 e2 = Some (Inr (GetFunctionsToMerge D2 c ret, e, D2))"
      using 1(1) 2(1) key c(2) by (simp add: derefR_def derefClass_def)
    moreover have "length (EquivClasses D2) < length (EquivClasses D)" using 1(3) 2(2) unfolding merges_def by linarith
    ultimately show "\<exists>ret e D'. mergeRecurisve_depth (Suc n) D e1 e2 = Some (Inr (ret, e, D')) \<and> merges D [(x, y)] ret D'
        \<and> length (EquivClasses D') < length (EquivClasses D) \<and> FindMap D' x = Some e"
      using merges_collect [OF 1(6,5,3) 2(2) 1(2) key c(1)] x by blast
  qed simp
qed

interpretation recursion: class_merging mergeRecurisve "\<lambda>D. True"
proof
  fix D x y e1 e2
  assume "classesOk D" "prefixesFound D" "FindMap D x = Some e1" "FindMap D y = Some e2" "e1 \<noteq> e2"
  then show "\<exists>ret e D'. mergeRecurisve D e1 e2 = Some (Inr (ret, e, D')) \<and> merges D [(x, y)] ret D' \<and> length (EquivClasses D') < length (EquivClasses D)
      \<and> FindMap D' x = Some e"
    using class_merging.rec_merges [OF mergeRecurisve_depth_merging] unfolding mergeRecurisve_def by blast
qed simp

section \<open>What merging computes\<close>

lemma mergeInv_start:
  assumes "consistentUpTo (sameClass D) D" "orig = storedPrefixes D" "R = aliased orig (sameClass D \<union> p)"
  shows "mergeInv orig R p D"
  unfolding mergeInv_def
proof (intro conjI)
  show "represented orig (sameClass D \<union> p) D" unfolding represented_def assms(2) by blast
  show "consistentUpTo (sameClass D \<union> p) D" using assms(1) joined_mono [of "sameClass D" "sameClass D \<union> p"] unfolding consistentUpTo_def by blast
  have "(x, x) \<in> R" if "(x, P) \<in> storedPrefixes D" for x P
    using that unfolding assms(3) by (intro aliased.base) (auto simp: storedPrefixes_def sameClass_def)
  then show "within orig R D" unfolding within_def assms(2,3) by (auto intro: aliased.base)
  show "p \<subseteq> R" unfolding assms(3) by (auto intro: aliased.base)
qed

lemma mergeInv_congruence:
  assumes inv: "mergeInv orig R {} D" and found: "\<forall>(x, P) \<in> orig. PObject P \<in> dom (FindMap D)"
  shows "congruence orig (sameClass D)"
proof -
  have rep: "represented orig (sameClass D) D" and con: "consistentUpTo (sameClass D) D" using inv by (simp_all add: mergeInv_def)
  have "(PObject P, PObject Q) \<in> sameClass D"
    if xy: "(x, y) \<in> sameClass D" "(x, P) \<in> orig" "(y, Q) \<in> orig" "PMember P = PMember Q" for x y P Q
  proof -
    obtain P' where P': "(x, P') \<in> storedPrefixes D" "PMember P' = PMember P" "(PObject P, PObject P') \<in> joined (sameClass D)"
      using rep xy(2) unfolding represented_def by blast
    obtain Q' where Q': "(y, Q') \<in> storedPrefixes D" "PMember Q' = PMember Q" "(PObject Q, PObject Q') \<in> joined (sameClass D)"
      using rep xy(3) unfolding represented_def by blast
    have "(y, P') \<in> storedPrefixes D" using storedPrefixes_sameClass [OF xy(1) P'(1)] .
    then have "(PObject P', PObject Q') \<in> joined (sameClass D)" using con Q'(1,2) P'(2) xy(4) unfolding consistentUpTo_def by metis
    then have "(PObject P, PObject Q) \<in> joined (sameClass D)" using P'(3) Q'(3) joined_trans joined_sym by metis
    then show ?thesis using joined_sameClass found xy(2) by blast
  qed
  then show ?thesis
    unfolding congruence_def sym_def trans_def using sameClass_sym sameClass_trans by blast
qed

lemma merges_aliased:
  assumes m: "merges D todo ret D'" and con: "consistentUpTo (sameClass D) D" and found: "prefixesFound D"
  shows "sameClass D' = aliased (storedPrefixes D) (sameClass D \<union> set todo)" and "consistentUpTo (sameClass D') D'"
proof -
  let ?R = "aliased (storedPrefixes D) (sameClass D \<union> set todo)"
  have inv: "mergeInv (storedPrefixes D) ?R {} D'"
    using m mergeInv_start [OF con refl refl, of "set todo"] congruence_aliased unfolding merges_def by (metis sup_bot_right)
  have "dom (FindMap D') = dom (FindMap D)" using m by (simp add: merges_def sameTables_def)
  then have "\<forall>(x, P) \<in> storedPrefixes D. PObject P \<in> dom (FindMap D')" using found unfolding prefixesFound_def by simp
  then have cong: "congruence (storedPrefixes D) (sameClass D')" by (rule mergeInv_congruence [OF inv])
  have "sameClass D \<union> set todo \<subseteq> sameClass D'" using m by (simp add: merges_def)
  from aliased_least [OF cong this] have "?R \<subseteq> sameClass D'" by (rule subrelI)
  moreover have "sameClass D' \<subseteq> ?R" using inv unfolding mergeInv_def within_def by blast
  ultimately show "sameClass D' = ?R" by blast
  show "consistentUpTo (sameClass D') D'" using inv by (simp add: mergeInv_def)
qed

end
