(* ===== verification/Alias_Init.thy ===== *)
theory Alias_Init
  imports Alias_Props
begin

text \<open>
  The classes the alias analysis starts with: the order of the object names has equality as its equivalence, and the
  container \<open>initEquivClasses\<close> and \<open>initPrefixClasses\<close> build has the invariants that merging relies on.
\<close>

section \<open>The order of object names\<close>

lemma lessDereference_incomparable:
  "(\<not> lessDereference a b \<and> \<not> lessDereference b a) = eqDereference a b"
  "(\<not> lessMember m n \<and> \<not> lessMember n m) = eqMember m n"
  by (induction a b and m n rule: eqDereference_eqMember.induct) auto

lemma findObject_eq: "findObject objects x = find (\<lambda>y. eqDereference y x) objects"
  by (simp add: findObject_def lessDereference_incomparable)

lemma eqDereference_repr:
  "eqDereference a b \<Longrightarrow> GetStringRepr a = GetStringRepr b"
  "eqMember m n \<Longrightarrow> GetStringRepr_Member m = GetStringRepr_Member n"
  by (induction a b and m n rule: eqDereference_eqMember.induct) auto

lemma eqDereference_sym:
  "eqDereference a b \<Longrightarrow> eqDereference b a"
  "eqMember m n \<Longrightarrow> eqMember n m"
  by (induction a b and m n rule: eqDereference_eqMember.induct) auto

lemma eqDereference_trans:
  "eqDereference a b \<Longrightarrow> eqDereference b c \<Longrightarrow> eqDereference a c"
  "eqMember m n \<Longrightarrow> eqMember n k \<Longrightarrow> eqMember m k"
  by (induction a b and m n arbitrary: c and k rule: eqDereference_eqMember.induct)
    (auto elim: eqDereference.elims eqMember.elims)

lemma findObject_iff:
  assumes "distinct (map GetStringRepr objects)"
  shows "findObject objects x = Some t \<longleftrightarrow> t \<in> set objects \<and> eqDereference t x"
proof
  show "findObject objects x = Some t \<Longrightarrow> t \<in> set objects \<and> eqDereference t x"
    unfolding findObject_eq find_Some_iff by auto
  assume t: "t \<in> set objects \<and> eqDereference t x"
  then obtain u where u: "findObject objects x = Some u"
    unfolding findObject_eq by (cases "find (\<lambda>y. eqDereference y x) objects") (auto simp: find_None_iff)
  then have "u \<in> set objects" "eqDereference u x" unfolding findObject_eq find_Some_iff by auto
  then have "u = t" using t assms eqDereference_repr(1) by (metis distinct_map inj_onD)
  then show "findObject objects x = Some t" using u by simp
qed

section \<open>The classes of single objects\<close>

definition reprs :: "ObjectNameDereference list \<Rightarrow> string set" where
  "reprs objects = GetStringRepr ` set objects"

text \<open>Every object has a class of its own, without prefixes.\<close>

definition singles :: "string set \<Rightarrow> EquivClassContainer \<Rightarrow> bool" where
  "singles X D \<longleftrightarrow> classesOk D \<and> sameClass D = Id_on X \<and> storedPrefixes D = {}"

lemma dom_sameClass: "dom (FindMap D) = Domain (sameClass D)"
  by (auto simp: sameClass_def)

lemma classesOk_add:
  assumes ok: "classesOk D" and x: "x \<notin> dom (FindMap D)"
    and D': "EquivClasses D' = (nextClass D, \<lparr>Objects = [x], Prefixes = []\<rparr>) # EquivClasses D" "nextClass D' = Suc (nextClass D)"
      "FindMap D' = (FindMap D)(x \<mapsto> nextClass D)"
  shows "classesOk D'" "sameClass D' = insert (x, x) (sameClass D)" "storedPrefixes D' = storedPrefixes D"
proof -
  have bd: "e < nextClass D" if "(e, c) \<in> set (EquivClasses D)" for e c using classesOkD(1) [OF ok that] .
  have fresh: "FindMap D y \<noteq> Some (nextClass D)" for y using bd ok unfolding classesOk_def by blast
  have dist: "distinct (map fst (EquivClasses D))" using ok unfolding classesOk_def by blast
  have f: "FindMap D y = Some e \<longleftrightarrow> (\<exists>c. (e, c) \<in> set (EquivClasses D) \<and> y \<in> set (Objects c))" for y e
    using ok unfolding classesOk_def by blast
  show "classesOk D'"
    unfolding classesOk_def
  proof (intro conjI ballI allI)
    show "distinct (map fst (EquivClasses D'))" using D'(1) dist bd [of "nextClass D"] by auto
    show "case z of (e, c) \<Rightarrow> e < nextClass D' \<and> Objects c \<noteq> []" if "z \<in> set (EquivClasses D')" for z
      using that classesOkD(1,2) [OF ok] unfolding D' by (auto simp: less_Suc_eq)
    show "FindMap D' y = Some e \<longleftrightarrow> (\<exists>c. (e, c) \<in> set (EquivClasses D') \<and> y \<in> set (Objects c))" for y e
      using f [of y e] bd [of "nextClass D"] x by (auto simp: D')
  qed
  show "sameClass D' = insert (x, x) (sameClass D)" using x fresh by (auto simp: sameClass_def D' split: if_splits)
  have "(nextClass D, c) \<notin> set (EquivClasses D)" for c using bd [of "nextClass D" c] by blast
  then have "(y, P) \<in> storedPrefixes D' \<longleftrightarrow> (y, P) \<in> storedPrefixes D" for y P
    using x fresh [of y] unfolding storedPrefixes_iff D' by (cases "y = x") auto
  then show "storedPrefixes D' = storedPrefixes D" by auto
qed

lemma initEquivClass_singles:
  assumes "singles X D" "GetStringRepr obj \<notin> X"
  shows "singles (insert (GetStringRepr obj) X) (initEquivClass obj D)"
proof -
  have x: "GetStringRepr obj \<notin> dom (FindMap D)" using assms unfolding singles_def dom_sameClass by auto
  have "EquivClasses (initEquivClass obj D) = (nextClass D, \<lparr>Objects = [GetStringRepr obj], Prefixes = []\<rparr>) # EquivClasses D"
    "nextClass (initEquivClass obj D) = Suc (nextClass D)"
    "FindMap (initEquivClass obj D) = (FindMap D)(GetStringRepr obj \<mapsto> nextClass D)"
    using x by (auto simp: initEquivClass_def emplaceFront_def emplaceFind_def Let_def dom_def split: option.splits)
  from classesOk_add [OF _ x this] assms(1) show ?thesis by (auto simp: singles_def)
qed

lemma initEquivClasses_singles:
  "distinct (map GetStringRepr objects) \<Longrightarrow> reprs objects \<inter> X = {} \<Longrightarrow> singles X D
    \<Longrightarrow> singles (X \<union> reprs objects) (initEquivClasses objects D)"
proof (induction objects arbitrary: X D)
  case (Cons obj objects)
  have "singles (insert (GetStringRepr obj) X) (initEquivClass obj D)"
    using Cons.prems by (intro initEquivClass_singles) (auto simp: reprs_def)
  from Cons.IH [OF _ _ this] Cons.prems show ?case by (auto simp: reprs_def initEquivClasses_def)
qed (simp add: reprs_def initEquivClasses_def)

section \<open>The prefixes\<close>

lemma addPrefix_ok:
  assumes ok: "classesOk D" and x: "x \<in> dom (FindMap D)"
  shows "\<exists>D'. addPrefix x p D = Inr D' \<and> classesOk D' \<and> FindMap D' = FindMap D
    \<and> storedPrefixes D' = storedPrefixes D \<union> {(y, p) |y. (x, y) \<in> sameClass D}"
proof -
  obtain e where e: "FindMap D x = Some e" using x by blast
  obtain c where c: "(e, c) \<in> set (EquivClasses D)" "map_of (EquivClasses D) e = Some c" using classOf [OF ok e] by metis
  have dist: "distinct (map fst (EquivClasses D))" using ok unfolding classesOk_def by blast
  define D' where "D' = D\<lparr>EquivClasses := AList.update e (c\<lparr>Prefixes := Prefixes c @ [p]\<rparr>) (EquivClasses D)\<rparr>"
  have dist': "distinct (map fst (EquivClasses D'))" using dist by (simp add: D'_def distinct_update)
  have "(e', c') \<in> set (EquivClasses D') \<longleftrightarrow> map_of (EquivClasses D') e' = Some c'" for e' c' using dist' by simp
  then have el: "(e', c') \<in> set (EquivClasses D') \<longleftrightarrow>
      (if e' = e then c' = c\<lparr>Prefixes := Prefixes c @ [p]\<rparr> else (e', c') \<in> set (EquivClasses D))" for e' c'
    using dist by (auto simp: D'_def update_conv')
  have old: "(e, c') \<in> set (EquivClasses D) \<longleftrightarrow> c' = c" for c' using c(1) dist eq_key_imp_eq_value by fast
  have F: "FindMap D' = FindMap D" "nextClass D' = nextClass D" by (simp_all add: D'_def)
  have bd: "e' < nextClass D \<and> Objects c' \<noteq> []" if "(e', c') \<in> set (EquivClasses D')" for e' c'
    using that classesOkD(1,2) [OF ok] c(1) unfolding el by (cases "e' = e") auto
  have "classesOk D'"
    unfolding classesOk_def F
  proof (intro conjI ballI allI dist')
    show "case z of (e', c') \<Rightarrow> e' < nextClass D \<and> Objects c' \<noteq> []" if "z \<in> set (EquivClasses D')" for z
      using that bd by blast
    show "FindMap D y = Some e' \<longleftrightarrow> (\<exists>c'. (e', c') \<in> set (EquivClasses D') \<and> y \<in> set (Objects c'))" for y e'
    proof -
      have "FindMap D y = Some e' \<longleftrightarrow> (\<exists>c'. (e', c') \<in> set (EquivClasses D) \<and> y \<in> set (Objects c'))"
        using ok unfolding classesOk_def by blast
      then show ?thesis using el old by (cases "e' = e") simp_all
    qed
  qed
  moreover have "(y, q) \<in> storedPrefixes D' \<longleftrightarrow> (y, q) \<in> storedPrefixes D \<or> q = p \<and> (x, y) \<in> sameClass D" for y q
    using e el old unfolding storedPrefixes_iff F by (cases "FindMap D y = Some e") (auto simp: sameClass_def)
  moreover have "addPrefix x p D = Inr D'" using e c(2) by (simp add: addPrefix_def derefR_def derefClass_def D'_def)
  ultimately show ?thesis using F by (intro exI [of _ D']) auto
qed

text \<open>The prefixes an object gives: what it dereferences to, and it itself as a member of its base.\<close>

definition prefixesOf :: "ObjectNameDereference list \<Rightarrow> ObjectNameDereference \<Rightarrow> (string \<times> Prefix) set" where
  "prefixesOf objects obj =
     {(GetStringRepr obj, Prefix (GetStringRepr t) []) |t. t \<in> set objects \<and> eqDereference t (setLevel (derefLevel obj + 1) obj)}
     \<union> {(GetStringRepr t, Prefix (GetStringRepr obj) m) |t db m. obj = DerefMb (MemberOf db m) 0 \<and> t \<in> set objects \<and> eqDereference t db}"

text \<open>What adding prefixes keeps, when every object is in a class of its own.\<close>

definition addedPrefixes :: "EquivClassContainer \<Rightarrow> (string \<times> Prefix) set \<Rightarrow> EquivClassContainer res \<Rightarrow> bool" where
  "addedPrefixes D new r \<longleftrightarrow> (\<exists>D'. r = Inr D' \<and> classesOk D' \<and> FindMap D' = FindMap D \<and> storedPrefixes D' = storedPrefixes D \<union> new)"

lemma addedPrefixes_none: "classesOk D \<Longrightarrow> addedPrefixes D {} (Inr D)"
  by (simp add: addedPrefixes_def)

lemma addedPrefixes_bind:
  assumes "addedPrefixes D A r" "\<And>D1. classesOk D1 \<Longrightarrow> FindMap D1 = FindMap D \<Longrightarrow> addedPrefixes D1 B (f D1)"
  shows "addedPrefixes D (A \<union> B) (bindR r f)"
proof -
  obtain D1 where 1: "r = Inr D1" "classesOk D1" "FindMap D1 = FindMap D" "storedPrefixes D1 = storedPrefixes D \<union> A"
    using assms(1) unfolding addedPrefixes_def by blast
  from assms(2) [OF 1(2,3)] obtain D2 where "f D1 = Inr D2" "classesOk D2" "FindMap D2 = FindMap D1" "storedPrefixes D2 = storedPrefixes D1 \<union> B"
    unfolding addedPrefixes_def by blast
  with 1 show ?thesis unfolding addedPrefixes_def by (intro exI [of _ D2]) auto
qed

lemma addPrefix_added:
  assumes "classesOk D" "sameClass D = Id_on X" "x \<in> X"
  shows "addedPrefixes D {(x, p)} (addPrefix x p D)"
proof -
  have "x \<in> dom (FindMap D)" using assms(2,3) unfolding dom_sameClass by auto
  from addPrefix_ok [OF assms(1) this, of p] show ?thesis using assms(2,3) unfolding addedPrefixes_def by auto
qed

lemma initPrefix_added:
  assumes ok: "classesOk D" and same: "sameClass D = Id_on (reprs objects)" and dist: "distinct (map GetStringRepr objects)" and obj: "obj \<in> set objects"
  shows "addedPrefixes D (prefixesOf objects obj) (initPrefix objects obj D)"
proof -
  let ?A = "{(GetStringRepr obj, Prefix (GetStringRepr t) []) |t. t \<in> set objects \<and> eqDereference t (setLevel (derefLevel obj + 1) obj)}"
  let ?B = "{(GetStringRepr t, Prefix (GetStringRepr obj) m) |t db m. obj = DerefMb (MemberOf db m) 0 \<and> t \<in> set objects \<and> eqDereference t db}"
  have in_reprs: "GetStringRepr t \<in> reprs objects" if "t \<in> set objects" for t using that by (simp add: reprs_def)
  have found: "t \<in> set objects \<and> eqDereference t x \<longleftrightarrow> findObject objects x = Some t" for t x using findObject_iff [OF dist] by blast
  have first: "addedPrefixes D ?A (case findObject objects (setLevel (derefLevel obj + 1) obj) of
      None \<Rightarrow> Inr D | Some tmp \<Rightarrow> addPrefix (GetStringRepr obj) (Prefix (GetStringRepr tmp) []) D)"
    unfolding found
    by (cases "findObject objects (setLevel (derefLevel obj + 1) obj)")
      (simp_all add: addPrefix_added [OF ok same in_reprs [OF obj]] addedPrefixes_none [OF ok])
  have second: "addedPrefixes D1 ?B (case obj of
       DerefMb (MemberOf db member) l \<Rightarrow>
         (if l = 0 then
            (case findObject objects db of
               None \<Rightarrow> Inr D1
             | Some tmp \<Rightarrow> addPrefix (GetStringRepr tmp) (Prefix (GetStringRepr obj) member) D1)
          else Inr D1)
     | DerefOb _ _ \<Rightarrow> Inr D1)" if D1: "classesOk D1" "FindMap D1 = FindMap D" for D1
  proof -
    have same1: "sameClass D1 = Id_on (reprs objects)" using same D1(2) by (simp add: sameClass_def)
    show ?thesis
    proof (cases "\<exists>db m t. obj = DerefMb (MemberOf db m) 0 \<and> findObject objects db = Some t")
      case True
      then obtain db m t where o: "obj = DerefMb (MemberOf db m) 0" and t: "findObject objects db = Some t" by blast
      have "t \<in> set objects" using t found by blast
      note added = addPrefix_added [OF D1(1) same1 in_reprs [OF this]]
      have "?B = {(GetStringRepr t, Prefix (GetStringRepr obj) m)}" unfolding found using o t by auto
      then show ?thesis using t added by (simp add: o)
    next
      case False
      then have none: "?B = {}" unfolding found by blast
      show ?thesis unfolding none using False addedPrefixes_none [OF D1(1)]
        by (auto split: ObjectNameDereference.splits ObjectNameMember.splits option.splits)
    qed
  qed
  show ?thesis unfolding initPrefix_def prefixesOf_def by (rule addedPrefixes_bind [OF first second])
qed

lemma initPrefixes_added:
  assumes dist: "distinct (map GetStringRepr objects)"
  shows "set objs \<subseteq> set objects \<Longrightarrow> classesOk D \<Longrightarrow> sameClass D = Id_on (reprs objects)
    \<Longrightarrow> addedPrefixes D (\<Union>obj \<in> set objs. prefixesOf objects obj) (foldR (initPrefix objects) objs D)"
proof (induction objs arbitrary: D)
  case Nil
  then show ?case using addedPrefixes_none by simp
next
  case (Cons obj objs)
  have "addedPrefixes D1 (\<Union>obj \<in> set objs. prefixesOf objects obj) (foldR (initPrefix objects) objs D1)"
    if "classesOk D1" "FindMap D1 = FindMap D" for D1
    using Cons.IH [OF _ that(1)] Cons.prems that(2) by (simp add: sameClass_def)
  from addedPrefixes_bind [OF initPrefix_added [OF Cons.prems(2,3) dist, of obj] this] Cons.prems(1) show ?case by simp
qed

lemma prefixesOf_deref:
  assumes "(x, P) \<in> prefixesOf objects obj" "PMember P = []" "\<forall>db l. obj \<noteq> DerefMb (MemberOf db []) l"
  shows "\<exists>t \<in> set objects. x = GetStringRepr obj \<and> PObject P = GetStringRepr t \<and> eqDereference t (setLevel (derefLevel obj + 1) obj)"
  using assms unfolding prefixesOf_def by fastforce

lemma prefixesOf_member:
  assumes "(x, P) \<in> prefixesOf objects obj" "PMember P \<noteq> []"
  shows "\<exists>t \<in> set objects. \<exists>db. x = GetStringRepr t \<and> PObject P = GetStringRepr obj \<and> obj = DerefMb (MemberOf db (PMember P)) 0 \<and> eqDereference t db"
  using assms by (auto simp: prefixesOf_def)

text \<open>An object has at most one prefix for each member.\<close>

lemma prefixesOf_functional:
  assumes dist: "distinct (map GetStringRepr objects)" and named: "\<forall>db l. DerefMb (MemberOf db []) l \<notin> set objects"
    and o: "o1 \<in> set objects" "o2 \<in> set objects"
    and P: "(x, P) \<in> prefixesOf objects o1" "(x, Q) \<in> prefixesOf objects o2" "PMember P = PMember Q"
  shows "PObject P = PObject Q"
proof -
  have inj: "a = b" if "a \<in> set objects" "b \<in> set objects" "GetStringRepr a = GetStringRepr b" for a b
    using dist that by (metis distinct_map inj_onD)
  show ?thesis
  proof (cases "PMember P = []")
    case True
    obtain t where t: "t \<in> set objects" "x = GetStringRepr o1" "PObject P = GetStringRepr t" "eqDereference t (setLevel (derefLevel o1 + 1) o1)"
      using prefixesOf_deref [OF P(1) True] named o(1) by metis
    obtain u where u: "u \<in> set objects" "x = GetStringRepr o2" "PObject Q = GetStringRepr u" "eqDereference u (setLevel (derefLevel o2 + 1) o2)"
      using prefixesOf_deref [OF P(2)] True P(3) named o(2) by metis
    have "o1 = o2" using inj o t(2) u(2) by simp
    then have "eqDereference t u" using t(4) u(4) eqDereference_sym(1) eqDereference_trans(1) by metis
    then show ?thesis using t(3) u(3) eqDereference_repr(1) by simp
  next
    case False
    obtain t d where t: "t \<in> set objects" "x = GetStringRepr t" "PObject P = GetStringRepr o1" "o1 = DerefMb (MemberOf d (PMember P)) 0" "eqDereference t d"
      using prefixesOf_member [OF P(1) False] by blast
    obtain u e where u: "u \<in> set objects" "x = GetStringRepr u" "PObject Q = GetStringRepr o2" "o2 = DerefMb (MemberOf e (PMember Q)) 0" "eqDereference u e"
      using prefixesOf_member [OF P(2)] False P(3) by auto
    have "t = u" using inj t(1,2) u(1,2) by simp
    then have "eqDereference d e" using t(5) u(5) eqDereference_sym(1) eqDereference_trans(1) by metis
    then have "eqDereference o1 o2" using t(4) u(4) P(3) by simp
    then show ?thesis using t(3) u(3) eqDereference_repr(1) by simp
  qed
qed

lemma singles_empty: "singles {} emptyContainer"
  by (simp add: singles_def emptyContainer_def classesOk_def sameClass_def storedPrefixes_def)

lemma prefixesOf_found:
  assumes "obj \<in> set objects" "(x, P) \<in> prefixesOf objects obj"
  shows "PObject P \<in> reprs objects"
proof -
  have "\<exists>t \<in> set objects. PObject P = GetStringRepr t"
    using assms unfolding prefixesOf_def by (elim UnE) (clarsimp simp del: GetStringRepr.simps, blast)+
  then show ?thesis by (auto simp: reprs_def)
qed

lemma initClasses_ok:
  assumes dist: "distinct (map GetStringRepr objects)" and named: "\<forall>db l. DerefMb (MemberOf db []) l \<notin> set objects"
  shows "\<exists>D. initPrefixClasses objects (initEquivClasses objects emptyContainer) = Inr D
    \<and> sameClass D = Id_on (reprs objects) \<and> storedPrefixes D = (\<Union>obj \<in> set objects. prefixesOf objects obj)
    \<and> classesOk D \<and> prefixesFound D \<and> consistentUpTo (sameClass D) D"
proof -
  have "singles (reprs objects) (initEquivClasses objects emptyContainer)"
    using initEquivClasses_singles [OF dist _ singles_empty] by simp
  then have 0: "classesOk (initEquivClasses objects emptyContainer)" "storedPrefixes (initEquivClasses objects emptyContainer) = {}"
    "sameClass (initEquivClasses objects emptyContainer) = Id_on (reprs objects)"
    by (auto simp: singles_def)
  from initPrefixes_added [OF dist order_refl 0(1,3)] obtain D where D: "initPrefixClasses objects (initEquivClasses objects emptyContainer) = Inr D"
    "classesOk D" "FindMap D = FindMap (initEquivClasses objects emptyContainer)"
    "storedPrefixes D = (\<Union>obj \<in> set objects. prefixesOf objects obj)"
    unfolding addedPrefixes_def initPrefixClasses_def 0(2) by auto
  have same: "sameClass D = Id_on (reprs objects)" using 0(3) D(3) by (simp add: sameClass_def)
  have "dom (FindMap D) = reprs objects" unfolding dom_sameClass same by auto
  then have found: "prefixesFound D" using prefixesOf_found unfolding prefixesFound_def D(4) by fast
  have "(PObject P, PObject Q) \<in> joined (sameClass D)"
    if "(x, P) \<in> storedPrefixes D" "(x, Q) \<in> storedPrefixes D" "PMember P = PMember Q" for x P Q
    using that prefixesOf_functional [OF dist named] unfolding D(4) by (metis UN_E joined_refl)
  then have "consistentUpTo (sameClass D) D" unfolding consistentUpTo_def by blast
  then show ?thesis using D same found by blast
qed

section \<open>An example\<close>

text \<open>
  The pointers \<open>a\<close> and \<open>b\<close> with what they point to, a function \<open>f\<close> with a parameter \<open>x\<close>, and a call \<open>k\<close> of \<open>f\<close> with the argument \<open>a\<close> in
  the function \<open>m\<close>.
\<close>

definition plainObject :: "string \<Rightarrow> int \<Rightarrow> ObjectNameDereference" where
  "plainObject name l = DerefOb \<lparr>Object = name, Function = False\<rparr> l"

definition functionObject :: "string \<Rightarrow> ObjectNameDereference" where
  "functionObject name = DerefOb \<lparr>Object = name, Function = True\<rparr> 0"

definition sampleObjects :: "ObjectNameDereference list" where
  "sampleObjects = [plainObject ''a'' 0, plainObject ''a'' 1, plainObject ''b'' 0, plainObject ''b'' 1, functionObject ''f'',
     plainObject ''k'' 0, functionObject ''m'', plainObject ''x'' 0]"

definition sampleClasses :: EquivClassContainer where
  "sampleClasses = (case initPrefixClasses sampleObjects (initEquivClasses sampleObjects emptyContainer) of Inr D \<Rightarrow> D | Inl _ \<Rightarrow> emptyContainer)"

lemmas sampleObjects_eval = sampleObjects_def plainObject_def functionObject_def levelString_def

lemma sampleObjects_ok:
  "distinct (map GetStringRepr sampleObjects)" "\<forall>db l. DerefMb (MemberOf db []) l \<notin> set sampleObjects"
  "reprs sampleObjects = {''a'', ''*a'', ''b'', ''*b'', ''f'', ''k'', ''m'', ''x''}"
  by (simp_all add: sampleObjects_eval reprs_def)

lemma sampleClasses_ok:
  "sameClass sampleClasses = Id_on (reprs sampleObjects)" "classesOk sampleClasses" "prefixesFound sampleClasses"
  "consistentUpTo (sameClass sampleClasses) sampleClasses"
  using initClasses_ok [OF sampleObjects_ok(1,2)] by (auto simp: sampleClasses_def)

lemma sample_prefixes:
  assumes "n \<in> {''a'', ''b''}"
  shows "(n, Prefix (CHR ''*'' # n) []) \<in> (\<Union>obj \<in> set sampleObjects. prefixesOf sampleObjects obj)"
proof
  show "plainObject n 0 \<in> set sampleObjects" using assms by (auto simp: sampleObjects_def)
  have "plainObject n 1 \<in> set sampleObjects" using assms by (auto simp: sampleObjects_def)
  moreover have "eqDereference (plainObject n 1) (setLevel (derefLevel (plainObject n 0) + 1) (plainObject n 0))" by (simp add: plainObject_def)
  moreover have "GetStringRepr (plainObject n 0) = n" "GetStringRepr (plainObject n 1) = CHR ''*'' # n" by (simp_all add: plainObject_def levelString_def)
  ultimately show "(n, Prefix (CHR ''*'' # n) []) \<in> prefixesOf sampleObjects (plainObject n 0)" unfolding prefixesOf_def by fastforce
qed

lemma sampleClasses_prefixes: "storedPrefixes sampleClasses = (\<Union>obj \<in> set sampleObjects. prefixesOf sampleObjects obj)"
  using initClasses_ok [OF sampleObjects_ok(1,2)] by (auto simp: sampleClasses_def)

lemma sampleClasses_found: "x \<in> reprs sampleObjects \<Longrightarrow> \<exists>e. FindMap sampleClasses x = Some e"
proof -
  assume "x \<in> reprs sampleObjects"
  then have "x \<in> dom (FindMap sampleClasses)" unfolding dom_sameClass sampleClasses_ok(1) by simp
  then show ?thesis by blast
qed

lemma sampleClasses_differ:
  assumes "FindMap sampleClasses x = Some e1" "FindMap sampleClasses y = Some e2" "x \<noteq> y"
  shows "e1 \<noteq> e2"
proof
  assume "e1 = e2"
  then have "(x, y) \<in> sameClass sampleClasses" using assms by (simp add: sameClass_def)
  then show False using assms(3) unfolding sampleClasses_ok(1) by auto
qed

text \<open>
  C38: for objects with different representations, setting up the classes and prefixes ends in a container in which every
  object is alone in its class, with the objects it dereferences to and its members as prefixes, and which has the
  invariants that merging needs.
\<close>

theorem initClasses_establish:
  assumes "distinct (map GetStringRepr objects)" and "\<forall>db l. DerefMb (MemberOf db []) l \<notin> set objects"
  shows "\<exists>D. initPrefixClasses objects (initEquivClasses objects emptyContainer) = Inr D
    \<and> sameClass D = Id_on (reprs objects) \<and> storedPrefixes D = (\<Union>obj \<in> set objects. prefixesOf objects obj)
    \<and> classesOk D \<and> prefixesFound D \<and> consistentUpTo (sameClass D) D"
  using initClasses_ok [OF assms] .

theorem initClasses_establish_witness:
  "\<exists>D. initPrefixClasses sampleObjects (initEquivClasses sampleObjects emptyContainer) = Inr D
    \<and> (''a'', Prefix ''*a'' []) \<in> storedPrefixes D \<and> (''a'', ''b'') \<notin> sameClass D"
proof -
  obtain D where D: "initPrefixClasses sampleObjects (initEquivClasses sampleObjects emptyContainer) = Inr D"
    "sameClass D = Id_on (reprs sampleObjects)" "storedPrefixes D = (\<Union>obj \<in> set sampleObjects. prefixesOf sampleObjects obj)"
    using initClasses_establish [OF sampleObjects_ok(1,2)] by blast
  moreover have "(''a'', ''b'') \<notin> Id_on (reprs sampleObjects)" by auto
  ultimately show ?thesis using sample_prefixes [of "''a''"] by auto
qed

text \<open>
  C4: merging two classes ends without an assertion, keeps the container's invariant, and leaves in one class exactly the
  objects that the least congruence relates which contains the old classes and the pair of merged objects.
\<close>

theorem mergeRecurisve_least_congruence:
  assumes "classesOk D" and "prefixesFound D" and "consistentUpTo (sameClass D) D"
    and "FindMap D x = Some e1" and "FindMap D y = Some e2" and "e1 \<noteq> e2"
  shows "\<exists>ret e D'. mergeRecurisve D e1 e2 = Some (Inr (ret, e, D')) \<and> FindMap D' x = Some e
    \<and> sameClass D' = aliased (storedPrefixes D) (sameClass D \<union> {(x, y)})
    \<and> classesOk D' \<and> prefixesFound D' \<and> consistentUpTo (sameClass D') D'"
proof -
  obtain ret e D' where r: "mergeRecurisve D e1 e2 = Some (Inr (ret, e, D'))" "merges D [(x, y)] ret D'" "FindMap D' x = Some e"
    using recursion.rec_merges [OF TrueI assms(1,2,4-6)] by blast
  moreover have "classesOk D'" "prefixesFound D'" using r(2) by (simp_all add: merges_def)
  moreover have "sameClass D' = aliased (storedPrefixes D) (sameClass D \<union> {(x, y)})" "consistentUpTo (sameClass D') D'"
    using merges_aliased [OF r(2) assms(3,2)] by simp_all
  ultimately show ?thesis by blast
qed

theorem mergeRecurisve_least_congruence_witness:
  "\<exists>e1 e2 ret e D'. mergeRecurisve sampleClasses e1 e2 = Some (Inr (ret, e, D'))
    \<and> (''a'', ''b'') \<in> sameClass D' \<and> (''*a'', ''*b'') \<in> sameClass D'"
proof -
  obtain e1 e2 where e: "FindMap sampleClasses ''a'' = Some e1" "FindMap sampleClasses ''b'' = Some e2"
    using sampleClasses_found sampleObjects_ok(3) by fastforce
  have "e1 \<noteq> e2" using sampleClasses_differ [OF e] by simp
  from mergeRecurisve_least_congruence [OF sampleClasses_ok(2-4) e this] obtain ret e D' where
    r: "mergeRecurisve sampleClasses e1 e2 = Some (Inr (ret, e, D'))"
      "sameClass D' = aliased (storedPrefixes sampleClasses) (sameClass sampleClasses \<union> {(''a'', ''b'')})"
    by blast
  have ab: "(''a'', ''b'') \<in> sameClass D'" unfolding r(2) by (rule aliased.base) simp
  have "(''a'', Prefix ''*a'' []) \<in> storedPrefixes sampleClasses" "(''b'', Prefix ''*b'' []) \<in> storedPrefixes sampleClasses"
    using sample_prefixes [of "''a''"] sample_prefixes [of "''b''"] unfolding sampleClasses_prefixes by simp_all
  from aliased.pref [OF ab [unfolded r(2)] this] have "(''*a'', ''*b'') \<in> sameClass D'" unfolding r(2) by simp
  then show ?thesis using r(1) ab by blast
qed

text \<open>
  Merging two classes leaves fewer classes, and the pairs of a function and a call that are in one class afterwards
  are the old ones and those it returns.
\<close>

theorem mergeRecurisve_call_pairs:
  assumes "classesOk D" and "prefixesFound D" and "FindMap D x = Some e1" and "FindMap D y = Some e2" and "e1 \<noteq> e2"
  shows "\<exists>ret e D'. mergeRecurisve D e1 e2 = Some (Inr (ret, e, D'))
    \<and> callPairs D' = callPairs D \<union> set ret \<and> length (EquivClasses D') < length (EquivClasses D)"
proof -
  obtain ret e D' where r: "mergeRecurisve D e1 e2 = Some (Inr (ret, e, D'))" "merges D [(x, y)] ret D'"
    "length (EquivClasses D') < length (EquivClasses D)"
    using recursion.rec_merges [OF TrueI assms] by blast
  have "callPairs D \<subseteq> callPairs D'" using r(2) by (intro callPairs_mono) (simp_all add: merges_def)
  then show ?thesis using r unfolding merges_def by blast
qed

theorem mergeRecurisve_call_pairs_witness:
  "\<exists>e1 e2 ret e D'. mergeRecurisve sampleClasses e1 e2 = Some (Inr (ret, e, D'))
    \<and> callPairs D' = callPairs sampleClasses \<union> set ret \<and> length (EquivClasses D') < length (EquivClasses sampleClasses)"
proof -
  obtain e1 e2 where e: "FindMap sampleClasses ''a'' = Some e1" "FindMap sampleClasses ''b'' = Some e2"
    using sampleClasses_found sampleObjects_ok(3) by fastforce
  have "e1 \<noteq> e2" using sampleClasses_differ [OF e] by simp
  from mergeRecurisve_call_pairs [OF sampleClasses_ok(2,3) e this] show ?thesis by blast
qed

end
