(* ===== verification/Alias_Calls.thy ===== *)
theory Alias_Calls
  imports Alias_Init
begin

text \<open>
  Merging the objects of a call: \<open>mergeFunctionCall\<close> binds the arguments of a call to the parameters of a function and its
  return values to the call. With complete tables it always returns, and it merges exactly these bindings.
\<close>

definition bindings :: "FunctionInfo \<Rightarrow> CallInfo \<Rightarrow> string \<Rightarrow> (string \<times> string) list" where
  "bindings fi ci callExprUSR =
     concat (map (\<lambda>(l, rs). map (Pair l) rs) (argumentsOf fi ci)) @ map (Pair callExprUSR) (ReferencedInReturnStmts fi)"

text \<open>The tables are complete: what the code asserts of them, and that the objects of functions and calls have classes.\<close>

definition functionKnown :: "EquivClassContainer \<Rightarrow> string \<Rightarrow> bool" where
  "functionKnown D g \<longleftrightarrow> (\<exists>fi. map_of (FunctionInfoMap D) g = Some fi
     \<and> set (Parameters fi) \<subseteq> dom (FindMap D) \<and> set (ReferencedInReturnStmts fi) \<subseteq> dom (FindMap D))"

definition callKnown :: "EquivClassContainer \<Rightarrow> string \<Rightarrow> bool" where
  "callKnown D k \<longleftrightarrow> k \<in> dom (FindMap D) \<and> (\<exists>ci. map_of (CallInfoMap D) k = Some ci \<and> (\<forall>arg \<in> set (Arguments ci). set arg \<subseteq> dom (FindMap D)))
     \<and> (\<exists>p. map_of (CallExprParentMap D) k = Some p \<and> functionKnown D p)"

definition tablesOk :: "EquivClassContainer \<Rightarrow> bool" where
  "tablesOk D \<longleftrightarrow> (\<forall>(x, g) \<in> set (FunctionMap D). functionKnown D g) \<and> (\<forall>x. \<forall>k \<in> set (callsOf D x). callKnown D k)"

lemma sameTables_known:
  assumes "sameTables D D'"
  shows "functionKnown D' = functionKnown D" "callKnown D' = callKnown D" "tablesOk D' = tablesOk D"
proof -
  show f: "functionKnown D' = functionKnown D" using assms by (simp add: fun_eq_iff functionKnown_def sameTables_def)
  show c: "callKnown D' = callKnown D" using assms f by (simp add: fun_eq_iff callKnown_def sameTables_def)
  show "tablesOk D' = tablesOk D" unfolding tablesOk_def f c sameTables_calls [OF assms] using assms by (simp add: sameTables_def)
qed

text \<open>A result that extends what was collected before.\<close>

definition mergesTo ::
  "(string \<times> string) list \<times> EquivClassContainer \<Rightarrow> (string \<times> string) list \<Rightarrow> ((string \<times> string) list \<times> EquivClassContainer) res option \<Rightarrow> bool" where
  "mergesTo s todo r \<longleftrightarrow> (\<exists>ret' D'. r = Some (Inr (fst s @ ret', D')) \<and> merges (snd s) todo ret' D'
     \<and> (ret' \<noteq> [] \<longrightarrow> length (EquivClasses D') < length (EquivClasses (snd s))))"

lemma mergesTo_none: "classesOk D \<Longrightarrow> prefixesFound D \<Longrightarrow> mergesTo (ret, D) [] (Some (Inr (ret, D)))"
  using merges_refl [of D "[]"] by (auto simp: mergesTo_def)

lemma mergesTo_bind:
  assumes 1: "mergesTo s todo r"
    and 2: "\<And>s1. classesOk (snd s1) \<Longrightarrow> prefixesFound (snd s1) \<Longrightarrow> sameTables (snd s) (snd s1) \<Longrightarrow> mergesTo s1 todo' (f s1)"
  shows "mergesTo s (todo @ todo') (bindO r f)"
proof -
  obtain ret1 D1 where r: "r = Some (Inr (fst s @ ret1, D1))" "merges (snd s) todo ret1 D1"
    "ret1 \<noteq> [] \<longrightarrow> length (EquivClasses D1) < length (EquivClasses (snd s))"
    using 1 unfolding mergesTo_def by blast
  have "classesOk D1" "prefixesFound D1" "sameTables (snd s) D1" and le1: "length (EquivClasses D1) \<le> length (EquivClasses (snd s))"
    using r(2) by (simp_all add: merges_def)
  with 2 [of "(fst s @ ret1, D1)"] obtain ret2 D2 where f: "f (fst s @ ret1, D1) = Some (Inr (fst s @ ret1 @ ret2, D2))" "merges D1 todo' ret2 D2"
    "ret2 \<noteq> [] \<longrightarrow> length (EquivClasses D2) < length (EquivClasses D1)"
    unfolding mergesTo_def by auto
  have "length (EquivClasses D2) \<le> length (EquivClasses D1)" using f(2) by (simp add: merges_def)
  then have "ret1 @ ret2 \<noteq> [] \<longrightarrow> length (EquivClasses D2) < length (EquivClasses (snd s))" using r(3) f(3) le1 by fastforce
  then show ?thesis using r(1) f(1) merges_trans [OF r(2) f(2)] unfolding mergesTo_def by auto
qed

lemma foldO_map: "foldO f (map g xs) s = foldO (\<lambda>x. f (g x)) xs s"
  by (induction xs arbitrary: s) (auto simp: bindO_def split: option.splits sum.splits)

lemma mergeArgument_merges:
  assumes "classesOk (snd s)" "prefixesFound (snd s)" "l \<in> dom (FindMap (snd s))" "set rhs \<subseteq> dom (FindMap (snd s))"
  shows "mergesTo s (map (Pair l) rhs) (mergeArgument (l, rhs) s)"
proof -
  obtain ret D where s: "s = (ret, D)" by fastforce
  have "mergeArgument (l, rhs) (ret, D) = foldO (mergeObjects mergeRecurisve) (map (Pair l) rhs) (ret, D)"
    using assms(3) s by (auto simp: mergeArgument_def findR_def foldO_map)
  then show ?thesis
    using recursion.objects_merge [OF TrueI, of D "map (Pair l) rhs" ret] assms s by (auto simp: mergesTo_def)
qed

lemma mergeArguments_merge:
  "classesOk (snd s) \<Longrightarrow> prefixesFound (snd s) \<Longrightarrow> \<forall>(l, rs) \<in> set args. insert l (set rs) \<subseteq> dom (FindMap (snd s))
    \<Longrightarrow> mergesTo s (concat (map (\<lambda>(l, rs). map (Pair l) rs) args)) (foldO mergeArgument args s)"
proof (induction args arbitrary: s)
  case Nil
  then show ?case using mergesTo_none [of "snd s" "fst s"] by simp
next
  case (Cons a args)
  obtain l rs where a: "a = (l, rs)" by fastforce
  have "mergesTo s (map (Pair l) rs) (mergeArgument (l, rs) s)" using Cons.prems a by (intro mergeArgument_merges) auto
  moreover have "mergesTo s1 (concat (map (\<lambda>(l, rs). map (Pair l) rs) args)) (foldO mergeArgument args s1)"
    if "classesOk (snd s1)" "prefixesFound (snd s1)" "sameTables (snd s) (snd s1)" for s1
    using Cons.IH [OF that(1,2)] Cons.prems(3) that(3) unfolding sameTables_def by auto
  ultimately show ?case using mergesTo_bind [of s _ "mergeArgument a s" _ "foldO mergeArgument args"] a by simp
qed

lemma argumentsOf_found:
  assumes "set (Parameters fi) \<subseteq> X" "\<forall>arg \<in> set (Arguments ci). set arg \<subseteq> X"
  shows "\<forall>(l, rs) \<in> set (argumentsOf fi ci). insert l (set rs) \<subseteq> X"
  using assms by (auto simp: argumentsOf_def argumentOf_def dest: nth_mem split: if_splits)

lemma mergeFunctionCallImpl_merges:
  assumes ok: "classesOk D" "prefixesFound D" and g: "map_of (FunctionInfoMap D) g = Some fi" "functionKnown D g"
    and args: "\<forall>arg \<in> set (Arguments ci). set arg \<subseteq> dom (FindMap D)" and k: "k \<in> dom (FindMap D)"
  obtains ret D' where "mergeFunctionCallImpl D g p ci k = Some (Inr (ret, (p, g), D'))" "merges D (bindings fi ci k) ret D'"
    "ret \<noteq> [] \<longrightarrow> length (EquivClasses D') < length (EquivClasses D)"
proof -
  let ?returns = "\<lambda>s. if ReferencedInReturnStmts fi \<noteq> [] then mergeArgument (k, ReferencedInReturnStmts fi) s else Some (Inr s)"
  have fi: "set (Parameters fi) \<subseteq> dom (FindMap D)" "set (ReferencedInReturnStmts fi) \<subseteq> dom (FindMap D)"
    using g by (auto simp: functionKnown_def)
  have "mergesTo ([], D) (concat (map (\<lambda>(l, rs). map (Pair l) rs) (argumentsOf fi ci))) (foldO mergeArgument (argumentsOf fi ci) ([], D))"
    using ok argumentsOf_found [OF fi(1) args] by (intro mergeArguments_merge) auto
  moreover have "mergesTo s1 (map (Pair k) (ReferencedInReturnStmts fi)) (?returns s1)"
    if "classesOk (snd s1)" "prefixesFound (snd s1)" "sameTables (snd ([], D)) (snd s1)" for s1
    using that k fi(2) mergeArgument_merges [of s1 k] mergesTo_none [of "snd s1" "fst s1"] by (auto simp: sameTables_def)
  ultimately have "mergesTo ([], D) (bindings fi ci k) (bindO (foldO mergeArgument (argumentsOf fi ci) ([], D)) ?returns)"
    unfolding bindings_def by (rule mergesTo_bind)
  then obtain ret D' where r: "bindO (foldO mergeArgument (argumentsOf fi ci) ([], D)) ?returns = Some (Inr (ret, D'))"
    "merges D (bindings fi ci k) ret D'" "ret \<noteq> [] \<longrightarrow> length (EquivClasses D') < length (EquivClasses D)"
    by (auto simp: mergesTo_def)
  from r(1) have "mergeFunctionCallImpl D g p ci k = Some (Inr (ret, (p, g), D'))"
    using g(1) by (auto simp: mergeFunctionCallImpl_def bindO_eq_Inr_iff split: if_splits)
  then show ?thesis using r that by blast
qed

lemma mergeFunctionCall_merges:
  assumes ok: "classesOk D" "prefixesFound D" "tablesOk D" and f: "map_of (FunctionMap D) f = Some g" and k: "callKnown D k"
  obtains fi ci p ret D' where "map_of (FunctionInfoMap D) g = Some fi" "map_of (CallInfoMap D) k = Some ci" "map_of (CallExprParentMap D) k = Some p"
    "mergeFunctionCall D f k = Some (Inr (ret, (p, g), D'))" "merges D (bindings fi ci k) ret D'"
    "ret \<noteq> [] \<longrightarrow> length (EquivClasses D') < length (EquivClasses D)"
proof -
  obtain ci p where c: "k \<in> dom (FindMap D)" "map_of (CallInfoMap D) k = Some ci" "\<forall>arg \<in> set (Arguments ci). set arg \<subseteq> dom (FindMap D)"
    "map_of (CallExprParentMap D) k = Some p"
    using k unfolding callKnown_def by blast
  have g: "functionKnown D g" using ok(3) map_of_SomeD [OF f] unfolding tablesOk_def by blast
  then obtain fi where fi: "map_of (FunctionInfoMap D) g = Some fi" unfolding functionKnown_def by blast
  have "D\<lparr>CallExprParentMap := emplaceMap k [] (CallExprParentMap D)\<rparr> = D" using c(4) by (simp add: emplaceMap_def)
  then have "mergeFunctionCall D f k = mergeFunctionCallImpl D g p ci k" using f c(2,4) by (simp add: mergeFunctionCall_def)
  with mergeFunctionCallImpl_merges [OF ok(1,2) fi g c(3,1)] show ?thesis using that fi c by metis
qed

section \<open>The example with its tables\<close>

definition sampleContainer :: EquivClassContainer where
  "sampleContainer = InitReferencedInCalls (sampleClasses\<lparr>
     FunctionMap := [(''f'', ''f''), (''m'', ''m'')],
     FunctionInfoMap := [(''f'', \<lparr>MangledNames = [''f''], Parameters = [''x''], ReferencedInReturnStmts = [], IsVariadic = False\<rparr>),
       (''m'', \<lparr>MangledNames = [''m''], Parameters = [], ReferencedInReturnStmts = [], IsVariadic = False\<rparr>)],
     CallInfoMap := [(''k'', \<lparr>CalledObjects = [''f''], Arguments = [[''a'']]\<rparr>)],
     CallExprParentMap := [(''k'', ''m'')]\<rparr>)"

lemma sampleContainer_same:
  "EquivClasses sampleContainer = EquivClasses sampleClasses" "nextClass sampleContainer = nextClass sampleClasses"
  "FindMap sampleContainer = FindMap sampleClasses"
  by (simp_all add: sampleContainer_def InitReferencedInCalls_def)

lemma sampleContainer_ok:
  "sameClass sampleContainer = Id_on (reprs sampleObjects)" "storedPrefixes sampleContainer = storedPrefixes sampleClasses"
  "classesOk sampleContainer" "prefixesFound sampleContainer" "consistentUpTo (sameClass sampleContainer) sampleContainer"
proof -
  show s: "sameClass sampleContainer = Id_on (reprs sampleObjects)" using sampleClasses_ok(1) by (simp add: sameClass_def sampleContainer_same)
  show p: "storedPrefixes sampleContainer = storedPrefixes sampleClasses" by (simp add: storedPrefixes_def sampleContainer_same)
  show "classesOk sampleContainer" using sampleClasses_ok(2) by (simp add: classesOk_def sampleContainer_same)
  show "prefixesFound sampleContainer" using sampleClasses_ok(3) by (simp add: prefixesFound_def p sampleContainer_same)
  show "consistentUpTo (sameClass sampleContainer) sampleContainer"
    using sampleClasses_ok(4) by (simp add: consistentUpTo_def p s sampleClasses_ok(1))
qed

lemma sampleContainer_calls: "callsOf sampleContainer x = (if x = ''f'' then [''k''] else [])"
  by (simp add: callsOf_def sampleContainer_def InitReferencedInCalls_def pushCall_def)

lemma sampleContainer_known: "functionKnown sampleContainer ''f''" "functionKnown sampleContainer ''m''" "callKnown sampleContainer ''k''"
proof -
  have x: "x \<in> dom (FindMap sampleContainer)" if "x \<in> {''x'', ''k'', ''a''}" for x
    using that sampleClasses_found [of x] sampleObjects_ok(3) unfolding sampleContainer_same by auto
  show "functionKnown sampleContainer ''f''" "functionKnown sampleContainer ''m''"
    using x [of "''x''"] unfolding functionKnown_def by (simp_all add: sampleContainer_def InitReferencedInCalls_def)
  then show "callKnown sampleContainer ''k''"
    using x [of "''k''"] x [of "''a''"] unfolding callKnown_def by (auto simp: sampleContainer_def InitReferencedInCalls_def)
qed

lemma sampleContainer_functions: "FunctionMap sampleContainer = [(''f'', ''f''), (''m'', ''m'')]"
  by (simp add: sampleContainer_def InitReferencedInCalls_def)

lemma sampleContainer_tables: "tablesOk sampleContainer"
  using sampleContainer_known unfolding tablesOk_def by (simp add: sampleContainer_calls sampleContainer_functions)

lemma sampleContainer_pairs: "callPairs sampleContainer = {(''f'', ''k'')}"
  unfolding callPairs_def sampleContainer_ok(1) sampleContainer_calls sampleContainer_functions sampleObjects_ok(3) by auto

text \<open>
  C39: with complete tables, merging a function with a call that may call it returns the calling and the called function, and
  afterwards an object is in one class with another exactly if the least congruence relates them that has the old classes
  and the bindings of parameters to arguments and of the call to what the function returns.
\<close>

theorem mergeFunctionCall_binds:
  assumes "classesOk D" and "prefixesFound D" and "consistentUpTo (sameClass D) D" and "tablesOk D"
    and "map_of (FunctionMap D) f = Some g" and "callKnown D k"
  shows "\<exists>fi ci p ret D'. map_of (FunctionInfoMap D) g = Some fi \<and> map_of (CallInfoMap D) k = Some ci \<and> map_of (CallExprParentMap D) k = Some p
    \<and> mergeFunctionCall D f k = Some (Inr (ret, (p, g), D'))
    \<and> sameClass D' = aliased (storedPrefixes D) (sameClass D \<union> set (bindings fi ci k))
    \<and> callPairs D' = callPairs D \<union> set ret"
proof -
  obtain fi ci p ret D' where r: "map_of (FunctionInfoMap D) g = Some fi" "map_of (CallInfoMap D) k = Some ci"
    "map_of (CallExprParentMap D) k = Some p" "mergeFunctionCall D f k = Some (Inr (ret, (p, g), D'))" "merges D (bindings fi ci k) ret D'"
    using mergeFunctionCall_merges [OF assms(1,2,4-6)] by metis
  have "callPairs D \<subseteq> callPairs D'" using r(5) by (intro callPairs_mono) (simp_all add: merges_def)
  then have "callPairs D' = callPairs D \<union> set ret" using r(5) unfolding merges_def by blast
  then show ?thesis using r(1-4) merges_aliased(1) [OF r(5) assms(3,2)] by blast
qed

theorem mergeFunctionCall_binds_witness:
  "\<exists>ret D'. mergeFunctionCall sampleContainer ''f'' ''k'' = Some (Inr (ret, (''m'', ''f''), D')) \<and> (''x'', ''a'') \<in> sameClass D'"
proof -
  have f: "map_of (FunctionMap sampleContainer) ''f'' = Some ''f''" by (simp add: sampleContainer_functions)
  obtain fi ci p ret D' where r: "map_of (FunctionInfoMap sampleContainer) ''f'' = Some fi" "map_of (CallInfoMap sampleContainer) ''k'' = Some ci"
    "map_of (CallExprParentMap sampleContainer) ''k'' = Some p" "mergeFunctionCall sampleContainer ''f'' ''k'' = Some (Inr (ret, (p, ''f''), D'))"
    "sameClass D' = aliased (storedPrefixes sampleContainer) (sameClass sampleContainer \<union> set (bindings fi ci ''k''))"
    using mergeFunctionCall_binds [OF sampleContainer_ok(3-5) sampleContainer_tables f sampleContainer_known(3)] by blast
  have "p = ''m''" "(''x'', ''a'') \<in> set (bindings fi ci ''k'')"
    using r(1-3) by (auto simp: sampleContainer_def InitReferencedInCalls_def bindings_def argumentsOf_def argumentOf_def)
  then have "p = ''m''" "(''x'', ''a'') \<in> sameClass D'" unfolding r(5) by (auto intro: aliased.base)
  then show ?thesis using r(4) by blast
qed

end
