(* ===== verification/CgMergeAlias.thy ===== *)
theory CgMergeAlias
  imports Alias_Calls Metadata_Json
begin

text \<open>
  The part of \<^verbatim>\<open>cgmerge\<close> (\<^verbatim>\<open>cgcollector/tools/CGMerge.cpp\<close>) that merges the alias information of two files: new call edges in
  the JSON call graph, the resolution of function calls, and \<open>mergeEquivalenceClasses\<close>. The container of the second file is
  given as it was read.
\<close>

section \<open>Calls in the JSON call graph\<close>

definition getStringSet :: "'j json_api \<Rightarrow> 'j \<Rightarrow> string set res" where
  "getStringSet J j = bindR (getStrings J j) (\<lambda>ss. Inr (set ss))"

definition stringSetJson :: "'j json_api \<Rightarrow> string set \<Rightarrow> 'j" where
  "stringSetJson J S = j_array J (map (j_str J) (sorted_list_of_set S))"

text \<open>\<open>Json[a][key] = S\<close>\<close>

definition setStrings :: "'j json_api \<Rightarrow> string \<Rightarrow> string \<Rightarrow> string set \<Rightarrow> 'j \<Rightarrow> 'j res" where
  "setStrings J a key S json =
     bindR (j_sub J json a) (\<lambda>v. bindR (j_set J key (stringSetJson J S) v) (\<lambda>v'. j_set J a v' json))"

definition addCallerName :: "'j json_api \<Rightarrow> string \<Rightarrow> string \<Rightarrow> 'j \<Rightarrow> 'j res" where
  "addCallerName J callingFunctionNameMangled calledFunctionNameMangled json =
     (case member J json calledFunctionNameMangled of
        None \<Rightarrow> Inr json
      | Some it \<Rightarrow>
          bindR (j_at J it ''callers'') (\<lambda>ps. bindR (getStringSet J ps) (\<lambda>parents.
          setStrings J calledFunctionNameMangled ''callers'' (insert callingFunctionNameMangled parents) json)))"

definition addCallsFrom :: "'j json_api \<Rightarrow> string list \<Rightarrow> string \<Rightarrow> 'j \<Rightarrow> 'j res" where
  "addCallsFrom J calledFunctionNamesMangled callingFunctionNameMangled json =
     bindR (j_at J json callingFunctionNameMangled) (\<lambda>v.
     bindR (j_at J v ''callees'') (\<lambda>cs.
     bindR (getStringSet J cs) (\<lambda>callees.
     bindR (setStrings J callingFunctionNameMangled ''callees'' (callees \<union> set calledFunctionNamesMangled) json) (\<lambda>json1.
     foldR (addCallerName J callingFunctionNameMangled) calledFunctionNamesMangled json1))))"

definition infoR :: "EquivClassContainer \<Rightarrow> string \<Rightarrow> FunctionInfo res" where
  "infoR D f = (case map_of (FunctionInfoMap D) f of None \<Rightarrow> Inl AssertionFailed | Some fi \<Rightarrow> Inr fi)"

definition addCallToCallGraph :: "'j json_api \<Rightarrow> EquivClassContainer \<Rightarrow> string \<Rightarrow> string \<Rightarrow> 'j \<Rightarrow> 'j res" where
  "addCallToCallGraph J D callingFunctionName calledFunctionName json =
     bindR (infoR D callingFunctionName) (\<lambda>calling.
     bindR (infoR D calledFunctionName) (\<lambda>called.
     foldR (addCallsFrom J (MangledNames called)) (MangledNames calling) json))"

section \<open>Resolving function calls\<close>

primrec mergeFunctionCall_depth ::
  "'j json_api \<Rightarrow> nat \<Rightarrow> string \<times> string \<Rightarrow> EquivClassContainer \<times> 'j \<Rightarrow> (EquivClassContainer \<times> 'j) res option" where
  "mergeFunctionCall_depth J 0 = (\<lambda>toMerge s. None)"
| "mergeFunctionCall_depth J (Suc depth) = (\<lambda>(calledObj, ce) (D, json).
     bindO (mergeFunctionCall D calledObj ce) (\<lambda>(toMerge, (calling, called), D1).
     bindO (Some (addCallToCallGraph J D1 calling called json)) (\<lambda>json1.
     foldO (mergeFunctionCall_depth J depth) toMerge (D1, json1))))"

text \<open>A call that gives more calls has merged classes, so their number bounds the depth of the recursion.\<close>

definition mergeFunctionCall_CG ::
  "'j json_api \<Rightarrow> string \<times> string \<Rightarrow> EquivClassContainer \<times> 'j \<Rightarrow> (EquivClassContainer \<times> 'j) res option" where
  "mergeFunctionCall_CG J toMerge s = mergeFunctionCall_depth J (Suc (length (EquivClasses (fst s)))) toMerge s"

section \<open>Merging the containers of two files\<close>

text \<open>\<open>ParamsToMerge\<close> gets the parameters with different names.\<close>

definition mergeFunctionInfo ::
  "string \<times> FunctionInfo \<Rightarrow> (string \<times> FunctionInfo) list \<times> (string \<times> string) list \<Rightarrow> ((string \<times> FunctionInfo) list \<times> (string \<times> string) list) res" where
  "mergeFunctionInfo = (\<lambda>(name, fi2) (m, paramsToMerge).
     case map_of m name of
       None \<Rightarrow> Inr (map_set name fi2 m, paramsToMerge)
     | Some fi \<Rightarrow>
         bindR (assertR (length (Parameters fi) = length (Parameters fi2))) (\<lambda>_.
         bindR (assertR (IsVariadic fi = IsVariadic fi2)) (\<lambda>_.
         bindR (assertR (MangledNames fi = MangledNames fi2)) (\<lambda>_.
         let params = filter (\<lambda>(name1, name2). name1 \<noteq> name2) (zip (Parameters fi) (Parameters fi2));
             fi' = (if ReferencedInReturnStmts fi = [] then fi\<lparr>ReferencedInReturnStmts := ReferencedInReturnStmts fi2\<rparr> else fi)
         in Inr (map_set name fi' m, paramsToMerge @ params)))))"

definition mergeTables :: "EquivClassContainer \<Rightarrow> EquivClassContainer \<Rightarrow> (EquivClassContainer \<times> (string \<times> string) list) res" where
  "mergeTables D D2 =
     bindR (foldR mergeFunctionInfo (FunctionInfoMap D2) (FunctionInfoMap D, [])) (\<lambda>(infos, paramsToMerge).
     let D1 = InitReferencedInCalls
           (D\<lparr>FunctionMap := fold (\<lambda>(k, v). emplaceMap k v) (FunctionMap D2) (FunctionMap D), FunctionInfoMap := infos,
              CallInfoMap := fold (\<lambda>(k, v). emplaceMap k v) (CallInfoMap D2) (CallInfoMap D)\<rparr>)
     in Inr (D1\<lparr>CallExprParentMap := fold (\<lambda>(k, v). emplaceMap k v) (CallExprParentMap D2) (CallExprParentMap D1)\<rparr>, paramsToMerge))"

text \<open>\<open>std::sort\<close> followed by \<open>std::unique\<close>.\<close>

definition sortUnique :: "'a::linorder list \<Rightarrow> 'a list" where
  "sortUnique xs = remdups (sort xs)"

definition addPrefixes :: "nat \<Rightarrow> Prefix list \<Rightarrow> EquivClassContainer \<times> (string \<times> string) list \<Rightarrow> (EquivClassContainer \<times> (string \<times> string) list) res" where
  "addPrefixes e prefixToMerge = (\<lambda>(D, objectsToMerge).
     bindR (derefClass D e) (\<lambda>c.
     let (prefixes, objectsToMerge1) = GetPrefixesToMerge prefixToMerge (Prefixes c, objectsToMerge)
     in Inr (D\<lparr>EquivClasses := AList.update e (c\<lparr>Prefixes := sortUnique prefixes\<rparr>) (EquivClasses D)\<rparr>, objectsToMerge1)))"

definition copyClass :: "EquivClass \<Rightarrow> EquivClassContainer \<Rightarrow> EquivClassContainer" where
  "copyClass c D = (let (e, D1) = emplaceFront c D in D1\<lparr>FindMap := fold (emplaceFind e) (Objects c) (FindMap D1)\<rparr>)"

text \<open>
  The class that the objects of the second file join: \<open>None\<close> while all of them are new. The returned iterator of \<open>merge\<close> is
  that of its first object.
\<close>

definition joinObject ::
  "string \<Rightarrow> nat option \<times> EquivClassContainer \<times> (string \<times> string) list \<Rightarrow> (nat option \<times> EquivClassContainer \<times> (string \<times> string) list) res" where
  "joinObject x = (\<lambda>(first, D, objectsToMerge).
     case (first, FindMap D x) of
       (None, second) \<Rightarrow> Inr (second, D, objectsToMerge)
     | (Some e1, None) \<Rightarrow> Inr (first, D, objectsToMerge)
     | (Some e1, Some e2) \<Rightarrow>
         (if e2 \<noteq> e1 then
            bindR (merge_EC D e1 e2) (\<lambda>(key, toMerge, D1).
            bindR (derefR (FindMap D1 key)) (\<lambda>e.
            Inr (Some e, D1, objectsToMerge @ toMerge)))
          else Inr (first, D, objectsToMerge)))"

definition addObjects :: "nat \<Rightarrow> string list \<Rightarrow> EquivClassContainer \<Rightarrow> EquivClassContainer res" where
  "addObjects e objects D =
     bindR (derefClass D e) (\<lambda>c.
     Inr (D\<lparr>EquivClasses := AList.update e (c\<lparr>Objects := sortUnique (Objects c @ objects)\<rparr>) (EquivClasses D)\<rparr>))"

definition emplaceObjects :: "nat \<Rightarrow> string list \<Rightarrow> EquivClassContainer \<Rightarrow> EquivClassContainer" where
  "emplaceObjects e objects D = D\<lparr>FindMap := fold (emplaceFind e) objects (FindMap D)\<rparr>"

definition mergeEquivClass ::
  "nat \<times> EquivClass \<Rightarrow> EquivClassContainer \<times> (string \<times> string) list \<Rightarrow> (EquivClassContainer \<times> (string \<times> string) list) res" where
  "mergeEquivClass = (\<lambda>(_, c) (D, objectsToMerge).
     case Objects c of
       [] \<Rightarrow> Inl UndefinedBehaviour
     | [x] \<Rightarrow>
         (case FindMap D x of
            Some e \<Rightarrow> addPrefixes e (Prefixes c) (D, objectsToMerge)
          | None \<Rightarrow> Inr (copyClass c D, objectsToMerge))
     | x # objects \<Rightarrow>
         bindR (foldR joinObject objects (FindMap D x, D, objectsToMerge)) (\<lambda>(first, D1, objectsToMerge1).
         case first of
           None \<Rightarrow> Inr (copyClass c D1, objectsToMerge1)
         | Some e \<Rightarrow>
             bindR (addObjects e (Objects c) D1) (\<lambda>D2.
             bindR (addPrefixes e (Prefixes c) (D2, objectsToMerge1)) (\<lambda>(D3, objectsToMerge2).
             Inr (emplaceObjects e (Objects c) D3, objectsToMerge2)))))"

text \<open>Objects that are not found are dereferenced here.\<close>

definition mergePair :: "string \<times> string \<Rightarrow> (string \<times> string) list \<times> EquivClassContainer \<Rightarrow> ((string \<times> string) list \<times> EquivClassContainer) res option" where
  "mergePair = (\<lambda>(x, y) (ret, D).
     bindO (Some (derefR (FindMap D x))) (\<lambda>e1. bindO (Some (derefR (FindMap D y))) (\<lambda>e2.
     if e1 \<noteq> e2 then bindO (mergeRecurisve D e1 e2) (\<lambda>(calls, _, D1). Some (Inr (ret @ calls, D1)))
     else Some (Inr (ret, D)))))"

text \<open>The calls that merging the prefixes gives are dropped: all classes are searched for calls afterwards.\<close>

definition mergeEquivalenceClasses ::
  "'j json_api \<Rightarrow> EquivClassContainer \<Rightarrow> EquivClassContainer \<Rightarrow> 'j \<Rightarrow> (EquivClassContainer \<times> 'j) res option" where
  "mergeEquivalenceClasses J file1Data file2Data wholeCG =
     bindO (Some (mergeTables file1Data file2Data)) (\<lambda>(D1, paramsToMerge).
     bindO (Some (foldR mergeEquivClass (EquivClasses file2Data) (D1, []))) (\<lambda>(D2, objectsToMerge).
     bindO (foldO mergePair objectsToMerge ([], D2)) (\<lambda>(_, D3).
     bindO (foldO mergePair paramsToMerge ([], D3)) (\<lambda>(functionsToMerge, D4).
     foldO (mergeFunctionCall_CG J) (fold (\<lambda>(_, c). GetFunctionsToMerge D4 c) (EquivClasses D4) functionsToMerge) (D4, wholeCG)))))"

end
