(* ===== verification/CgMergeAlias_Props.thy ===== *)
theory CgMergeAlias_Props
  imports CgMergeAlias
begin

text \<open>
  What resolving function calls computes. The JSON call graph is abstracted to a map from names to callees and callers, and
  adding a call refines an operation on that map. Resolving calls ends because each round merges classes, and leaves the
  least congruence that is also closed under the bindings of the calls it resolves, with all these calls in the graph.
\<close>

section \<open>The call graph as a map\<close>

type_synonym call_doc = "string \<rightharpoonup> string set \<times> string set"

definition nodeIs :: "'j json_api \<Rightarrow> 'j \<Rightarrow> string set \<Rightarrow> string set \<Rightarrow> bool" where
  "nodeIs J v cs ps \<longleftrightarrow> (\<exists>vs xs ys. v = j_object J vs \<and> ordered_members vs
     \<and> map_of vs ''callees'' = Some (j_array J (map (j_str J) xs)) \<and> set xs = cs
     \<and> map_of vs ''callers'' = Some (j_array J (map (j_str J) ys)) \<and> set ys = ps)"

definition docIs :: "'j json_api \<Rightarrow> 'j \<Rightarrow> call_doc \<Rightarrow> bool" where
  "docIs J json m \<longleftrightarrow> (\<exists>ms. json = j_object J ms \<and> ordered_members ms \<and> dom (map_of ms) = dom m
     \<and> (\<forall>a v cs ps. map_of ms a = Some v \<longrightarrow> m a = Some (cs, ps) \<longrightarrow> nodeIs J v cs ps))"

definition linkCalls :: "string set \<Rightarrow> string set \<Rightarrow> call_doc \<Rightarrow> call_doc" where
  "linkCalls A B m = (\<lambda>n. case m n of None \<Rightarrow> None
     | Some (cs, ps) \<Rightarrow> Some (if n \<in> A then cs \<union> B else cs, if n \<in> B then ps \<union> A else ps))"

lemma nodeIsI:
  "ordered_members vs \<Longrightarrow> map_of vs ''callees'' = Some (j_array J (map (j_str J) xs)) \<Longrightarrow> map_of vs ''callers'' = Some (j_array J (map (j_str J) ys))
    \<Longrightarrow> nodeIs J (j_object J vs) (set xs) (set ys)"
  unfolding nodeIs_def by blast

lemma nodeIs_finite: "nodeIs J v cs ps \<Longrightarrow> finite cs \<and> finite ps"
  by (auto simp: nodeIs_def)

lemma nodeIs_read:
  assumes J: "json_laws J" and v: "nodeIs J v cs ps"
  shows "bindR (j_at J v ''callees'') (getStringSet J) = Inr cs" "bindR (j_at J v ''callers'') (getStringSet J) = Inr ps"
  using v getStrings_array [OF J] json_containerD(4,15) [OF J]
  by (auto simp: nodeIs_def j_at_def getStringSet_def)

lemma nodeIs_write:
  assumes J: "json_laws J" and v: "nodeIs J v cs ps" and S: "finite S"
  shows "\<exists>v'. j_set J ''callees'' (stringSetJson J S) v = Inr v' \<and> nodeIs J v' S ps"
    "\<exists>v'. j_set J ''callers'' (stringSetJson J S) v = Inr v' \<and> nodeIs J v' cs S"
proof -
  obtain vs xs ys where vs: "v = j_object J vs" "ordered_members vs"
    "map_of vs ''callees'' = Some (j_array J (map (j_str J) xs))" "set xs = cs"
    "map_of vs ''callers'' = Some (j_array J (map (j_str J) ys))" "set ys = ps"
    using v unfolding nodeIs_def by blast
  have set: "j_set J k w v = Inr (j_object J (map_set k w vs))" for k w
    using vs(1,2) json_containerD(16) [OF J] by (simp add: j_set_def)
  show "\<exists>v'. j_set J ''callees'' (stringSetJson J S) v = Inr v' \<and> nodeIs J v' S ps"
    using vs S nodeIsI [of "map_set ''callees'' (stringSetJson J S) vs" J "sorted_list_of_set S" ys] unfolding set
    by (auto simp: map_of_map_set stringSetJson_def)
  show "\<exists>v'. j_set J ''callers'' (stringSetJson J S) v = Inr v' \<and> nodeIs J v' cs S"
    using vs S nodeIsI [of "map_set ''callers'' (stringSetJson J S) vs" J xs "sorted_list_of_set S"] unfolding set
    by (auto simp: map_of_map_set stringSetJson_def)
qed

lemma docIs_lookup:
  assumes J: "json_laws J" and d: "docIs J json m"
  shows "m a = Some (cs, ps) \<Longrightarrow> \<exists>v. member J json a = Some v \<and> nodeIs J v cs ps \<and> j_at J json a = Inr v \<and> j_sub J json a = Inr v"
    "m a = None \<Longrightarrow> member J json a = None"
proof -
  obtain ms where ms: "json = j_object J ms" "ordered_members ms" "dom (map_of ms) = dom m"
    "\<forall>a v cs ps. map_of ms a = Some v \<longrightarrow> m a = Some (cs, ps) \<longrightarrow> nodeIs J v cs ps"
    using d unfolding docIs_def by blast
  have mem: "member J json a = map_of ms a" "is_object J json" "\<not> is_null J json"
    using ms(1,2) json_containerD(4,15) [OF J] json_scalarD(6) [OF J] by simp_all
  show "m a = Some (cs, ps) \<Longrightarrow> \<exists>v. member J json a = Some v \<and> nodeIs J v cs ps \<and> j_at J json a = Inr v \<and> j_sub J json a = Inr v"
  proof -
    assume a: "m a = Some (cs, ps)"
    then have "a \<in> dom (map_of ms)" using ms(3) by blast
    then obtain v where "map_of ms a = Some v" by blast
    then show ?thesis using a ms(4) mem by (auto simp: j_at_def j_sub_def)
  qed
  show "member J json a = None" if "m a = None" using that ms(3) mem(1) by (metis domIff)
qed

lemma docIs_update:
  assumes J: "json_laws J" and d: "docIs J json m" and v: "nodeIs J v cs ps"
  shows "\<exists>json'. j_set J a v json = Inr json' \<and> docIs J json' (m(a \<mapsto> (cs, ps)))"
proof -
  obtain ms where ms: "json = j_object J ms" "ordered_members ms" "dom (map_of ms) = dom m"
    "\<forall>a v cs ps. map_of ms a = Some v \<longrightarrow> m a = Some (cs, ps) \<longrightarrow> nodeIs J v cs ps"
    using d unfolding docIs_def by blast
  have "j_set J a v json = Inr (j_object J (map_set a v ms))" using ms(1,2) json_containerD(16) [OF J] by (simp add: j_set_def)
  moreover have "docIs J (j_object J (map_set a v ms)) (m(a \<mapsto> (cs, ps)))"
    unfolding docIs_def using ms v by (intro exI [of _ "map_set a v ms"]) (auto simp: map_of_map_set)
  ultimately show ?thesis by blast
qed

lemma setStrings_doc:
  assumes J: "json_laws J" and d: "docIs J json m" and a: "m a = Some (cs, ps)" and S: "finite S"
  shows "\<exists>json'. setStrings J a ''callees'' S json = Inr json' \<and> docIs J json' (m(a \<mapsto> (S, ps)))"
    "\<exists>json'. setStrings J a ''callers'' S json = Inr json' \<and> docIs J json' (m(a \<mapsto> (cs, S)))"
proof -
  obtain v where v: "nodeIs J v cs ps" "j_sub J json a = Inr v" using docIs_lookup(1) [OF J d a] by blast
  obtain v1 where v1: "j_set J ''callees'' (stringSetJson J S) v = Inr v1" "nodeIs J v1 S ps" using nodeIs_write(1) [OF J v(1) S] by blast
  obtain v2 where v2: "j_set J ''callers'' (stringSetJson J S) v = Inr v2" "nodeIs J v2 cs S" using nodeIs_write(2) [OF J v(1) S] by blast
  show "\<exists>json'. setStrings J a ''callees'' S json = Inr json' \<and> docIs J json' (m(a \<mapsto> (S, ps)))"
    using docIs_update [OF J d v1(2), of a] v(2) v1(1) by (simp add: setStrings_def)
  show "\<exists>json'. setStrings J a ''callers'' S json = Inr json' \<and> docIs J json' (m(a \<mapsto> (cs, S)))"
    using docIs_update [OF J d v2(2), of a] v(2) v2(1) by (simp add: setStrings_def)
qed

text \<open>The callers and callees are added one after the other; \<open>linkCalls\<close> is their joint effect.\<close>

definition withCaller :: "string \<Rightarrow> string set \<Rightarrow> call_doc \<Rightarrow> call_doc" where
  "withCaller a B m = (\<lambda>n. case m n of None \<Rightarrow> None | Some (cs, ps) \<Rightarrow> Some (cs, if n \<in> B then insert a ps else ps))"

lemma withCaller_eqs:
  "withCaller a {} m = m" "withCaller a C (withCaller a B m) = withCaller a (B \<union> C) m"
  "m b = None \<Longrightarrow> withCaller a {b} m = m" "m b = Some (cs, ps) \<Longrightarrow> withCaller a {b} m = m(b \<mapsto> (cs, insert a ps))"
  by (auto simp: withCaller_def fun_eq_iff split: option.splits prod.splits)

lemma linkCalls_eqs:
  "linkCalls {} B m = m" "linkCalls A2 B (linkCalls A1 B m) = linkCalls (A1 \<union> A2) B m"
  "m a = Some (cs, ps) \<Longrightarrow> withCaller a B (m(a \<mapsto> (cs \<union> B, ps))) = linkCalls {a} B m"
  by (auto simp: withCaller_def linkCalls_def fun_eq_iff split: option.splits prod.splits)

lemma addCaller_doc:
  assumes J: "json_laws J" and d: "docIs J json m"
  shows "\<exists>json'. addCallerName J a b json = Inr json' \<and> docIs J json' (withCaller a {b} m)"
proof (cases "m b")
  case None
  then show ?thesis using docIs_lookup(2) [OF J d None] d by (simp add: addCallerName_def withCaller_eqs)
next
  case (Some e)
  then obtain cs ps where b: "m b = Some (cs, ps)" by (cases e) auto
  obtain v where v: "member J json b = Some v" "nodeIs J v cs ps" using docIs_lookup(1) [OF J d b] by blast
  obtain w where w: "j_at J v ''callers'' = Inr w" "getStringSet J w = Inr ps" using nodeIs_read(2) [OF J v(2)] by (auto simp: bindR_eq_Inr_iff)
  show ?thesis
    using v(1) w setStrings_doc(2) [OF J d b, of "insert a ps"] nodeIs_finite [OF v(2)] by (simp add: addCallerName_def withCaller_eqs(4) [where m = m and b = b, OF b])
qed

lemma addCallers_doc:
  assumes J: "json_laws J"
  shows "docIs J json m \<Longrightarrow> \<exists>json'. foldR (addCallerName J a) bs json = Inr json' \<and> docIs J json' (withCaller a (set bs) m)"
proof (induction bs arbitrary: json m)
  case Nil
  then show ?case by (simp add: withCaller_eqs)
next
  case (Cons b bs)
  obtain json1 where 1: "addCallerName J a b json = Inr json1" "docIs J json1 (withCaller a {b} m)" using addCaller_doc [OF J Cons.prems] by blast
  have "withCaller a (set bs) (withCaller a {b} m) = withCaller a (set (b # bs)) m" by (simp add: withCaller_eqs(2))
  then show ?case using Cons.IH [OF 1(2)] 1(1) by simp
qed

lemma addCallsFrom_doc:
  assumes J: "json_laws J" and d: "docIs J json m" and a: "a \<in> dom m"
  shows "\<exists>json'. addCallsFrom J bs a json = Inr json' \<and> docIs J json' (linkCalls {a} (set bs) m)"
proof -
  obtain cs ps where m: "m a = Some (cs, ps)" using a by auto
  obtain v where v: "nodeIs J v cs ps" "j_at J json a = Inr v" using docIs_lookup(1) [OF J d m] by blast
  obtain w where w: "j_at J v ''callees'' = Inr w" "getStringSet J w = Inr cs" using nodeIs_read(1) [OF J v(1)] by (auto simp: bindR_eq_Inr_iff)
  obtain json1 where 1: "setStrings J a ''callees'' (cs \<union> set bs) json = Inr json1" "docIs J json1 (m(a \<mapsto> (cs \<union> set bs, ps)))"
    using setStrings_doc(1) [OF J d m, of "cs \<union> set bs"] nodeIs_finite [OF v(1)] by auto
  show ?thesis using addCallers_doc [OF J 1(2), of a bs] v(2) w 1(1) by (simp add: addCallsFrom_def linkCalls_eqs(3) [where m = m and a = a, OF m])
qed

lemma dom_linkCalls [simp]: "dom (linkCalls A B m) = dom m"
  by (auto simp: linkCalls_def dom_def split: option.splits)

lemma addCalls_doc:
  assumes J: "json_laws J"
  shows "docIs J json m \<Longrightarrow> set as \<subseteq> dom m \<Longrightarrow> \<exists>json'. foldR (addCallsFrom J bs) as json = Inr json' \<and> docIs J json' (linkCalls (set as) (set bs) m)"
proof (induction as arbitrary: json m)
  case Nil
  then show ?case by (simp add: linkCalls_eqs)
next
  case (Cons a as)
  obtain json1 where 1: "addCallsFrom J bs a json = Inr json1" "docIs J json1 (linkCalls {a} (set bs) m)"
    using addCallsFrom_doc [OF J Cons.prems(1), of a bs] Cons.prems(2) by auto
  have "linkCalls (set as) (set bs) (linkCalls {a} (set bs) m) = linkCalls (set (a # as)) (set bs) m" by (simp add: linkCalls_eqs(2))
  then show ?case using Cons.IH [OF 1(2)] Cons.prems(2) 1(1) by simp
qed

text \<open>
  C40: adding a call between two known functions to a JSON call graph that has all names of the calling function gives every name
  of the caller all names of the called function as callees, and the called names that have a node all names of the caller as
  callers; nothing else changes.
\<close>

theorem addCallToCallGraph_refines:
  assumes "json_laws J" and "docIs J json m"
    and "map_of (FunctionInfoMap D) calling = Some fi" and "map_of (FunctionInfoMap D) called = Some gi" and "set (MangledNames fi) \<subseteq> dom m"
  shows "\<exists>json'. addCallToCallGraph J D calling called json = Inr json'
    \<and> docIs J json' (linkCalls (set (MangledNames fi)) (set (MangledNames gi)) m)"
  using addCalls_doc [OF assms(1,2,5), of "MangledNames gi"] assms(3,4) by (simp add: addCallToCallGraph_def infoR_def)

definition sampleNode :: "string list \<Rightarrow> string list \<Rightarrow> Json" where
  "sampleNode cs ps = JObject [(''callees'', JArray (map JStr cs)), (''callers'', JArray (map JStr ps))]"

definition sampleCallDoc :: Json where
  "sampleCallDoc = JObject [(''f'', sampleNode [] []), (''m'', sampleNode [] [])]"

definition sampleCallMap :: call_doc where
  "sampleCallMap = [''f'' \<mapsto> ({}, {}), ''m'' \<mapsto> ({}, {})]"

lemma sampleCallDoc_is: "docIs json_model sampleCallDoc sampleCallMap"
proof -
  have "nodeIs json_model (sampleNode [] []) {} {}"
    using nodeIsI [of "[(''callees'', JArray []), (''callers'', JArray [])]" json_model "[]" "[]"]
    by (simp add: json_model_def sampleNode_def)
  then show ?thesis
    unfolding docIs_def sampleCallDoc_def sampleCallMap_def
    by (intro exI [of _ "[(''f'', sampleNode [] []), (''m'', sampleNode [] [])]"]) (auto simp: json_model_def)
qed

theorem addCallToCallGraph_refines_witness:
  "\<exists>json'. addCallToCallGraph json_model sampleContainer ''m'' ''f'' sampleCallDoc = Inr json'
    \<and> docIs json_model json' [''f'' \<mapsto> ({}, {''m''}), ''m'' \<mapsto> ({''f''}, {})]"
proof -
  let ?fi = "\<lparr>MangledNames = [''m''], Parameters = [], ReferencedInReturnStmts = [], IsVariadic = False\<rparr>"
  let ?gi = "\<lparr>MangledNames = [''f''], Parameters = [''x''], ReferencedInReturnStmts = [], IsVariadic = False\<rparr>"
  have "map_of (FunctionInfoMap sampleContainer) ''m'' = Some ?fi" "map_of (FunctionInfoMap sampleContainer) ''f'' = Some ?gi"
    by (simp_all add: sampleContainer_def InitReferencedInCalls_def)
  moreover have "linkCalls (set (MangledNames ?fi)) (set (MangledNames ?gi)) sampleCallMap = [''f'' \<mapsto> ({}, {''m''}), ''m'' \<mapsto> ({''f''}, {})]"
    by (auto simp: linkCalls_def sampleCallMap_def fun_eq_iff)
  ultimately show ?thesis
    using addCallToCallGraph_refines [OF json_model_laws sampleCallDoc_is, of sampleContainer "''m''" ?fi "''f''" ?gi]
    by (simp add: sampleCallMap_def)
qed

section \<open>Resolving calls\<close>

text \<open>What a pair of a function and a call binds, and the edges it stands for.\<close>

definition bindsOf :: "EquivClassContainer \<Rightarrow> string \<times> string \<Rightarrow> (string \<times> string) set" where
  "bindsOf D = (\<lambda>(f, k). {(a, b). \<exists>g fi ci. map_of (FunctionMap D) f = Some g \<and> map_of (FunctionInfoMap D) g = Some fi
     \<and> map_of (CallInfoMap D) k = Some ci \<and> (a, b) \<in> set (bindings fi ci k)})"

definition edgesOf :: "EquivClassContainer \<Rightarrow> string \<times> string \<Rightarrow> (string \<times> string) set" where
  "edgesOf D = (\<lambda>(f, k). {(a, b). \<exists>g gi p fi. map_of (FunctionMap D) f = Some g \<and> map_of (FunctionInfoMap D) g = Some gi
     \<and> map_of (CallExprParentMap D) k = Some p \<and> map_of (FunctionInfoMap D) p = Some fi
     \<and> a \<in> set (MangledNames fi) \<and> b \<in> set (MangledNames gi)})"

definition calleesIn :: "call_doc \<Rightarrow> (string \<times> string) set" where
  "calleesIn m = {(a, b). \<exists>cs ps. m a = Some (cs, ps) \<and> b \<in> cs}"

definition callersIn :: "call_doc \<Rightarrow> (string \<times> string) set" where
  "callersIn m = {(a, b). \<exists>cs ps. m b = Some (cs, ps) \<and> a \<in> ps}"

definition docExtends :: "call_doc \<Rightarrow> (string \<times> string) set \<Rightarrow> call_doc \<Rightarrow> bool" where
  "docExtends m E m' \<longleftrightarrow> dom m' = dom m \<and> calleesIn m' = calleesIn m \<union> E \<and> callersIn m' = callersIn m \<union> {(a, b) \<in> E. b \<in> dom m}"

definition callersKnown :: "EquivClassContainer \<Rightarrow> call_doc \<Rightarrow> bool" where
  "callersKnown D m \<longleftrightarrow> (\<forall>k p fi. map_of (CallExprParentMap D) k = Some p \<longrightarrow> map_of (FunctionInfoMap D) p = Some fi
     \<longrightarrow> set (MangledNames fi) \<subseteq> dom m)"

text \<open>The specification: as \<open>aliased\<close>, and a function in one class with what a call calls binds what the call has.\<close>

inductive_set callAliased :: "(string \<times> Prefix) set \<Rightarrow> EquivClassContainer \<Rightarrow> (string \<times> string) set \<Rightarrow> (string \<times> string) set"
  for orig :: "(string \<times> Prefix) set" and D :: EquivClassContainer and r :: "(string \<times> string) set" where
  base: "(x, y) \<in> r \<Longrightarrow> (x, y) \<in> callAliased orig D r"
| symm: "(x, y) \<in> callAliased orig D r \<Longrightarrow> (y, x) \<in> callAliased orig D r"
| tran: "(x, y) \<in> callAliased orig D r \<Longrightarrow> (y, z) \<in> callAliased orig D r \<Longrightarrow> (x, z) \<in> callAliased orig D r"
| pref: "(x, y) \<in> callAliased orig D r \<Longrightarrow> (x, P) \<in> orig \<Longrightarrow> (y, Q) \<in> orig \<Longrightarrow> PMember P = PMember Q
    \<Longrightarrow> (PObject P, PObject Q) \<in> callAliased orig D r"
| call: "(f, x) \<in> callAliased orig D r \<Longrightarrow> map_of (FunctionMap D) f \<noteq> None \<Longrightarrow> k \<in> set (callsOf D x) \<Longrightarrow> (a, b) \<in> bindsOf D (f, k)
    \<Longrightarrow> (a, b) \<in> callAliased orig D r"

definition callClosed :: "EquivClassContainer \<Rightarrow> (string \<times> string) set \<Rightarrow> bool" where
  "callClosed D R \<longleftrightarrow> (\<forall>f x k. (f, x) \<in> R \<longrightarrow> map_of (FunctionMap D) f \<noteq> None \<longrightarrow> k \<in> set (callsOf D x) \<longrightarrow> bindsOf D (f, k) \<subseteq> R)"

lemma callAliased_congruence: "congruence orig (callAliased orig D r)"
  unfolding congruence_def sym_def trans_def by (blast intro: callAliased.symm callAliased.tran callAliased.pref)

lemma callAliased_closed: "callClosed D (callAliased orig D r)"
  unfolding callClosed_def by (auto intro: callAliased.call)

lemma callAliased_least:
  assumes "congruence orig R" "callClosed D R" "r \<subseteq> R" "(x, y) \<in> callAliased orig D r"
  shows "(x, y) \<in> R"
  using assms(4)
proof (induction rule: callAliased.induct)
  case (pref x y P Q)
  then show ?case using assms(1) unfolding congruence_def by blast
next
  case (call f x k a b)
  then show ?case using assms(2) unfolding callClosed_def by blast
qed (use assms in \<open>unfold congruence_def sym_def trans_def, blast+\<close>)

lemma sameTables_binds:
  assumes "sameTables D D'"
  shows "bindsOf D' = bindsOf D" "edgesOf D' = edgesOf D" "callersKnown D' = callersKnown D" "callClosed D' = callClosed D"
proof -
  show b: "bindsOf D' = bindsOf D" using assms unfolding bindsOf_def sameTables_def by simp
  show "edgesOf D' = edgesOf D" using assms unfolding edgesOf_def sameTables_def by simp
  show "callersKnown D' = callersKnown D" using assms by (simp add: fun_eq_iff callersKnown_def sameTables_def)
  show "callClosed D' = callClosed D"
    using assms unfolding fun_eq_iff callClosed_def b sameTables_calls [OF assms] by (simp add: sameTables_def)
qed

lemma sameTables_refl: "sameTables D D"
  by (simp add: sameTables_def)

lemma docExtends_trans: "docExtends m E m1 \<Longrightarrow> docExtends m1 E1 m2 \<Longrightarrow> docExtends m (E \<union> E1) m2"
  unfolding docExtends_def by auto

lemma docExtends_link: "A \<subseteq> dom m \<Longrightarrow> docExtends m (A \<times> B) (linkCalls A B m)"
  unfolding docExtends_def calleesIn_def callersIn_def
  by (auto simp: linkCalls_def dom_def split: option.splits if_splits)

text \<open>
  \<open>resolves D m L D' m'\<close>: the pairs \<open>L\<close> and those that became a pair on the way, \<open>H\<close>, were bound and added to the call graph.
\<close>

definition resolvedBy ::
  "EquivClassContainer \<Rightarrow> call_doc \<Rightarrow> (string \<times> string) set \<Rightarrow> EquivClassContainer \<Rightarrow> call_doc \<Rightarrow> (string \<times> string) set \<Rightarrow> bool" where
  "resolvedBy D m L D' m' H \<longleftrightarrow> L \<subseteq> H \<and> H \<subseteq> L \<union> callPairs D' \<and> callPairs D' \<subseteq> callPairs D \<union> H \<and> (\<Union>q \<in> H. bindsOf D q) \<subseteq> sameClass D'
     \<and> docExtends m (\<Union>q \<in> H. edgesOf D q) m'"

definition resolves :: "EquivClassContainer \<Rightarrow> call_doc \<Rightarrow> (string \<times> string) set \<Rightarrow> EquivClassContainer \<Rightarrow> call_doc \<Rightarrow> bool" where
  "resolves D m L D' m' \<longleftrightarrow> classesOk D' \<and> prefixesFound D' \<and> sameTables D D' \<and> length (EquivClasses D') \<le> length (EquivClasses D)
     \<and> sameClass D \<subseteq> sameClass D'
     \<and> (\<exists>H. resolvedBy D m L D' m' H)
     \<and> (\<forall>orig R. congruence orig R \<longrightarrow> callClosed D R \<longrightarrow> (\<Union>q \<in> L. bindsOf D q) \<subseteq> R \<longrightarrow> mergeInv orig R {} D \<longrightarrow> mergeInv orig R {} D')"

lemma resolves_refl: "classesOk D \<Longrightarrow> prefixesFound D \<Longrightarrow> resolves D m {} D m"
  by (auto simp: resolves_def resolvedBy_def sameTables_def docExtends_def intro!: exI [of _ "{}"])

lemma resolves_trans:
  assumes 1: "resolves D m L D1 m1" and 2: "resolves D1 m1 L' D2 m2"
  shows "resolves D m (L \<union> L') D2 m2"
proof -
  have t: "sameTables D D1" "sameTables D1 D2" using 1 2 by (simp_all add: resolves_def)
  note tab = sameTables_binds [OF t(1)]
  have mono: "callPairs D1 \<subseteq> callPairs D2" using 2 by (intro callPairs_mono) (simp_all add: resolves_def)
  have s: "sameClass D1 \<subseteq> sameClass D2" using 2 by (simp add: resolves_def)
  obtain H1 where "resolvedBy D m L D1 m1 H1" using 1 by (auto simp: resolves_def)
  note H1 = this [unfolded resolvedBy_def]
  obtain H2 where "resolvedBy D1 m1 L' D2 m2 H2" using 2 by (auto simp: resolves_def)
  note H2 = this [unfolded resolvedBy_def tab]
  have "docExtends m (\<Union>q \<in> H1. edgesOf D q) m1" "docExtends m1 (\<Union>q \<in> H2. edgesOf D q) m2" using H1 H2 by simp_all
  from docExtends_trans [OF this] have d: "docExtends m (\<Union>q \<in> H1 \<union> H2. edgesOf D q) m2" by (simp add: UN_Un)
  have "resolvedBy D m (L \<union> L') D2 m2 (H1 \<union> H2)"
    unfolding resolvedBy_def
  proof (intro conjI d)
    show "(\<Union>q \<in> H1 \<union> H2. bindsOf D q) \<subseteq> sameClass D2" unfolding UN_Un using H1 H2 order_trans [OF _ s] by simp
  qed (use H1 H2 mono in auto)
  show ?thesis
    unfolding resolves_def
  proof (intro conjI allI impI)
    show "\<exists>H. resolvedBy D m (L \<union> L') D2 m2 H" by (rule exI) fact
    show "mergeInv orig R {} D2" if "congruence orig R" "callClosed D R" "(\<Union>q \<in> L \<union> L'. bindsOf D q) \<subseteq> R" "mergeInv orig R {} D" for orig R
      using 1 2 that unfolding resolves_def tab by (simp add: UN_Un)
  qed (use 1 2 in \<open>auto simp: resolves_def sameTables_def\<close>)
qed

lemma mergeInv_more:
  assumes "mergeInv orig R {} D" "p \<subseteq> R"
  shows "mergeInv orig R p D"
proof -
  have "joined (sameClass D) \<subseteq> joined (sameClass D \<union> p)" by (rule joined_mono) simp
  then show ?thesis using assms unfolding mergeInv_def represented_def consistentUpTo_def by (simp, blast)
qed

text \<open>One call: its bindings are merged and its edges added, then the calls that this gave are resolved.\<close>

lemma resolves_call:
  assumes m: "merges D todo ret D1" and todo: "bindsOf D q = set todo" and E: "docExtends m (edgesOf D q) m1" and 2: "resolves D1 m1 (set ret) D2 m2"
  shows "resolves D m {q} D2 m2"
proof -
  have t: "sameTables D D1" and s: "sameClass D \<subseteq> sameClass D1" "set todo \<subseteq> sameClass D1" using m by (simp_all add: merges_def)
  note tab = sameTables_binds [OF t]
  have s2: "sameClass D1 \<subseteq> sameClass D2" and mono: "callPairs D1 \<subseteq> callPairs D2"
    using 2 callPairs_mono [of D1 D2] by (simp_all add: resolves_def)
  obtain H2 where "resolvedBy D1 m1 (set ret) D2 m2 H2" using 2 by (auto simp: resolves_def)
  note H2 = this [unfolded resolvedBy_def tab]
  have ret: "callPairs D1 \<subseteq> callPairs D \<union> set ret" "set ret \<subseteq> callPairs D1" using m by (simp_all add: merges_def)
  have d: "docExtends m (\<Union>q \<in> insert q H2. edgesOf D q) m2" using docExtends_trans [OF E] H2 by simp
  have "resolvedBy D m {q} D2 m2 (insert q H2)"
    unfolding resolvedBy_def
  proof (intro conjI d)
    show "(\<Union>q \<in> insert q H2. bindsOf D q) \<subseteq> sameClass D2" using H2 s s2 todo by auto
  qed (use H2 ret mono in auto)
  have inv: "mergeInv orig R {} D2" if R: "congruence orig R" "callClosed D R" "bindsOf D q \<subseteq> R" "mergeInv orig R {} D" for orig R
  proof -
    have "mergeInv orig R (set todo \<union> {}) D" using mergeInv_more [OF R(4)] R(3) todo by simp
    then have i1: "mergeInv orig R {} D1" using m R(1) unfolding merges_def by blast
    then have "sameClass D1 \<subseteq> R" by (simp add: mergeInv_def within_def)
    then have "(\<Union>q \<in> set ret. bindsOf D q) \<subseteq> R" using ret(2) R(2) unfolding callPairs_def tab(4) [symmetric] tab(1) [symmetric] callClosed_def by fast
    then show ?thesis using 2 R(1,2) i1 unfolding resolves_def tab by blast
  qed
  show ?thesis
    unfolding resolves_def
  proof (intro conjI allI impI)
    show "\<exists>H. resolvedBy D m {q} D2 m2 H" by (rule exI) fact
    show "mergeInv orig R {} D2" if "congruence orig R" "callClosed D R" "(\<Union>q \<in> {q}. bindsOf D q) \<subseteq> R" "mergeInv orig R {} D" for orig R
      using inv that by simp
  qed (use m 2 in \<open>auto simp: merges_def resolves_def sameTables_def\<close>)
qed

text \<open>The result of a step on the container and the document, under the conditions that hold throughout.\<close>

definition resolvesTo ::
  "'j json_api \<Rightarrow> EquivClassContainer \<Rightarrow> call_doc \<Rightarrow> (string \<times> string) set \<Rightarrow> (EquivClassContainer \<times> 'j) res option \<Rightarrow> bool" where
  "resolvesTo J D m L r \<longleftrightarrow> (\<exists>D' json' m'. r = Some (Inr (D', json')) \<and> docIs J json' m' \<and> resolves D m L D' m')"

definition resolvable :: "EquivClassContainer \<Rightarrow> call_doc \<Rightarrow> bool" where
  "resolvable D m \<longleftrightarrow> classesOk D \<and> prefixesFound D \<and> tablesOk D \<and> callersKnown D m"

definition pairsKnown :: "EquivClassContainer \<Rightarrow> (string \<times> string) set \<Rightarrow> bool" where
  "pairsKnown D L \<longleftrightarrow> (\<forall>(f, k) \<in> L. map_of (FunctionMap D) f \<noteq> None \<and> callKnown D k)"

lemma callPairs_known: "tablesOk D \<Longrightarrow> pairsKnown D (callPairs D)"
  by (auto simp: tablesOk_def callPairs_def pairsKnown_def)

lemma resolves_kept:
  assumes r: "resolves D m L D1 m1" and ok: "resolvable D m"
  shows "resolvable D1 m1" "pairsKnown D1 = pairsKnown D" "length (EquivClasses D1) \<le> length (EquivClasses D)"
proof -
  have t: "sameTables D D1" and le: "length (EquivClasses D1) \<le> length (EquivClasses D)" using r by (simp_all add: resolves_def)
  have "dom m1 = dom m" using r by (auto simp: resolves_def resolvedBy_def docExtends_def)
  then have "callersKnown D1 m1" using ok sameTables_binds(3) [OF t] by (simp add: resolvable_def callersKnown_def)
  then show "resolvable D1 m1" using r ok sameTables_known(3) [OF t] by (simp add: resolvable_def resolves_def)
  show "pairsKnown D1 = pairsKnown D" unfolding pairsKnown_def fun_eq_iff sameTables_known(2) [OF t] using t by (simp add: sameTables_def)
  show "length (EquivClasses D1) \<le> length (EquivClasses D)" by (fact le)
qed

lemma resolve_list:
  assumes step: "\<And>q D json m. resolvable D m \<Longrightarrow> docIs J json m \<Longrightarrow> pairsKnown D {q} \<Longrightarrow> length (EquivClasses D) \<le> n
      \<Longrightarrow> resolvesTo J D m {q} (f q (D, json))"
  shows "resolvable D m \<Longrightarrow> docIs J json m \<Longrightarrow> pairsKnown D (set L) \<Longrightarrow> length (EquivClasses D) \<le> n
    \<Longrightarrow> resolvesTo J D m (set L) (foldO f L (D, json))"
proof (induction L arbitrary: D json m)
  case Nil
  then show ?case using resolves_refl by (auto simp: resolvesTo_def resolvable_def)
next
  case (Cons q L)
  have known: "pairsKnown D {q}" "pairsKnown D (set L)" using Cons.prems(3) by (simp_all add: pairsKnown_def)
  obtain D1 json1 m1 where 1: "f q (D, json) = Some (Inr (D1, json1))" "docIs J json1 m1" "resolves D m {q} D1 m1"
    using step [OF Cons.prems(1,2) known(1) Cons.prems(4)] unfolding resolvesTo_def by blast
  note kept = resolves_kept [OF 1(3) Cons.prems(1)]
  obtain D2 json2 m2 where 2: "foldO f L (D1, json1) = Some (Inr (D2, json2))" "docIs J json2 m2" "resolves D1 m1 (set L) D2 m2"
    using Cons.IH [OF kept(1) 1(2)] known(2) kept(2,3) Cons.prems(4) unfolding resolvesTo_def by auto
  show ?case using 1(1) 2(1,2) resolves_trans [OF 1(3) 2(3)] unfolding resolvesTo_def by auto
qed

lemma mergeFunctionCall_step:
  assumes J: "json_laws J" and ok: "resolvable D m" and d: "docIs J json m" and q: "pairsKnown D {(f, k)}"
  obtains ret p g D1 json1 todo m1 where "mergeFunctionCall D f k = Some (Inr (ret, (p, g), D1))" "addCallToCallGraph J D1 p g json = Inr json1"
    "docIs J json1 m1" "merges D todo ret D1" "bindsOf D (f, k) = set todo" "docExtends m (edgesOf D (f, k)) m1"
    "ret \<noteq> [] \<longrightarrow> length (EquivClasses D1) < length (EquivClasses D)"
proof -
  have o: "classesOk D" "prefixesFound D" "tablesOk D" using ok by (simp_all add: resolvable_def)
  have k: "callKnown D k" using q by (simp add: pairsKnown_def)
  obtain g where g: "map_of (FunctionMap D) f = Some g" using q by (auto simp: pairsKnown_def)
  obtain fi ci p ret D1 where r: "map_of (FunctionInfoMap D) g = Some fi" "map_of (CallInfoMap D) k = Some ci" "map_of (CallExprParentMap D) k = Some p"
    "mergeFunctionCall D f k = Some (Inr (ret, (p, g), D1))" "merges D (bindings fi ci k) ret D1"
    "ret \<noteq> [] \<longrightarrow> length (EquivClasses D1) < length (EquivClasses D)"
    using mergeFunctionCall_merges [OF o g k] by metis
  have t: "FunctionInfoMap D1 = FunctionInfoMap D" using r(5) by (simp add: merges_def sameTables_def)
  obtain pi where pi: "map_of (FunctionInfoMap D) p = Some pi" using k r(3) by (auto simp: callKnown_def functionKnown_def)
  have names: "set (MangledNames pi) \<subseteq> dom m" using ok r(3) pi unfolding resolvable_def callersKnown_def by blast
  obtain json1 where j: "addCallToCallGraph J D1 p g json = Inr json1" "docIs J json1 (linkCalls (set (MangledNames pi)) (set (MangledNames fi)) m)"
    using addCalls_doc [OF J d names, of "MangledNames fi"] r(1) pi t by (auto simp: addCallToCallGraph_def infoR_def)
  have "edgesOf D (f, k) = set (MangledNames pi) \<times> set (MangledNames fi)" using g r(1,3) pi by (auto simp: edgesOf_def)
  then have "docExtends m (edgesOf D (f, k)) (linkCalls (set (MangledNames pi)) (set (MangledNames fi)) m)" using docExtends_link [OF names] by simp
  moreover have "bindsOf D (f, k) = set (bindings fi ci k)" using g r(1,2) by (auto simp: bindsOf_def)
  ultimately show ?thesis using that r(4-6) j by blast
qed

lemma mergeFunctionCall_depth_resolves:
  assumes J: "json_laws J"
  shows "resolvable D m \<Longrightarrow> docIs J json m \<Longrightarrow> pairsKnown D {q} \<Longrightarrow> length (EquivClasses D) < n
    \<Longrightarrow> resolvesTo J D m {q} (mergeFunctionCall_depth J n q (D, json))"
proof (induction n arbitrary: q D json m)
  case (Suc n)
  obtain f k where q: "q = (f, k)" by fastforce
  have known: "pairsKnown D {(f, k)}" using Suc.prems(3) q by simp
  obtain ret p g D1 json1 todo m1 where s: "mergeFunctionCall D f k = Some (Inr (ret, (p, g), D1))" "addCallToCallGraph J D1 p g json = Inr json1"
    "docIs J json1 m1" "merges D todo ret D1" "bindsOf D (f, k) = set todo" "docExtends m (edgesOf D (f, k)) m1"
    "ret \<noteq> [] \<longrightarrow> length (EquivClasses D1) < length (EquivClasses D)"
    using mergeFunctionCall_step [OF J Suc.prems(1,2) known] by metis
  have t: "sameTables D D1" using s(4) by (simp add: merges_def)
  have tab: "tablesOk D1" using Suc.prems(1) sameTables_known(3) [OF t] by (simp add: resolvable_def)
  have ok1: "resolvable D1 m1" using s(4,6) tab Suc.prems(1) sameTables_binds(3) [OF t]
    by (simp add: resolvable_def merges_def docExtends_def callersKnown_def)
  have "set ret \<subseteq> callPairs D1" using s(4) by (simp add: merges_def)
  then have known1: "pairsKnown D1 (set ret)" using callPairs_known [OF tab] unfolding pairsKnown_def by blast
  have "resolvesTo J D1 m1 (set ret) (foldO (mergeFunctionCall_depth J n) ret (D1, json1))"
  proof (cases "ret = []")
    case True
    then show ?thesis using resolves_refl [of D1 m1] ok1 s(3) by (auto simp: resolvesTo_def resolvable_def)
  next
    case False
    then have "length (EquivClasses D1) \<le> n - 1" "0 < n" using s(7) Suc.prems(4) by auto
    then show ?thesis using Suc.IH by (intro resolve_list [where n = "n - 1"] ok1 s(3) known1) auto
  qed
  then obtain D2 json2 m2 where 2: "foldO (mergeFunctionCall_depth J n) ret (D1, json1) = Some (Inr (D2, json2))" "docIs J json2 m2"
    "resolves D1 m1 (set ret) D2 m2"
    unfolding resolvesTo_def by blast
  have "mergeFunctionCall_depth J (Suc n) q (D, json) = Some (Inr (D2, json2))" using s(1,2) 2(1) q by simp
  then show ?case using 2(2) resolves_call [OF s(4,5,6) 2(3)] q unfolding resolvesTo_def by blast
qed simp

lemma mergeFunctionCalls_resolve:
  assumes "json_laws J" "resolvable D m" "docIs J json m" "pairsKnown D (set L)"
  shows "resolvesTo J D m (set L) (foldO (mergeFunctionCall_CG J) L (D, json))"
proof (rule resolve_list [where n = "length (EquivClasses D)"])
  show "resolvesTo J D m {q} (mergeFunctionCall_CG J q (D, json))" if "resolvable D m" "docIs J json m" "pairsKnown D {q}" for q D json m
    unfolding mergeFunctionCall_CG_def by (rule mergeFunctionCall_depth_resolves [OF assms(1) that]) simp
qed (use assms in simp_all)

lemma resolves_callAliased:
  assumes r: "resolves D m (callPairs D) D' m'" and U: "sameTables U D" and base: "r \<subseteq> sameClass D"
    and inv0: "mergeInv orig (callAliased orig U r) {} D" and found: "\<forall>(x, P) \<in> orig. PObject P \<in> dom (FindMap D)"
  shows "sameClass D' = callAliased orig U r" "docExtends m (\<Union>q \<in> callPairs D'. edgesOf U q) m'" "consistentUpTo (sameClass D') D'"
proof -
  let ?R = "callAliased orig U r"
  note tab = sameTables_binds [OF U]
  have t: "sameTables D D'" and s: "sameClass D \<subseteq> sameClass D'" using r by (simp_all add: resolves_def)
  obtain H where "resolvedBy D m (callPairs D) D' m' H" using r by (auto simp: resolves_def)
  note H = this [unfolded resolvedBy_def]
  have "H = callPairs D'" using H callPairs_mono [OF t s] by blast
  then have binds: "(\<Union>q \<in> callPairs D'. bindsOf D q) \<subseteq> sameClass D'" and "docExtends m (\<Union>q \<in> callPairs D'. edgesOf D q) m'" using H by simp_all
  then show "docExtends m (\<Union>q \<in> callPairs D'. edgesOf U q) m'" by (simp add: tab)
  have closed: "callClosed D ?R" using callAliased_closed tab(4) by simp
  have "bindsOf D q \<subseteq> ?R" if "q \<in> callPairs D" for q
  proof -
    obtain f k x where q: "q = (f, k)" "map_of (FunctionMap D) f \<noteq> None" "(f, x) \<in> sameClass D" "k \<in> set (callsOf D x)"
      using \<open>q \<in> callPairs D\<close> by (auto simp: callPairs_def)
    have "(f, x) \<in> ?R" using inv0 q(3) by (auto simp: mergeInv_def within_def)
    then show ?thesis using closed q unfolding callClosed_def by blast
  qed
  then have "(\<Union>q \<in> callPairs D. bindsOf D q) \<subseteq> ?R" by blast
  then have inv: "mergeInv orig ?R {} D'"
    using r inv0 callAliased_congruence closed unfolding resolves_def by blast
  then show "consistentUpTo (sameClass D') D'" by (simp add: mergeInv_def)
  have "dom (FindMap D') = dom (FindMap D)" using t by (simp add: sameTables_def)
  then have cong: "congruence orig (sameClass D')" using mergeInv_congruence [OF inv] found by simp
  have "bindsOf D (f, k) \<subseteq> sameClass D'" if "(f, x) \<in> sameClass D'" "map_of (FunctionMap D) f \<noteq> None" "k \<in> set (callsOf D x)" for f x k
  proof -
    have "(f, k) \<in> callPairs D'" using that t sameTables_calls [OF t] unfolding callPairs_def sameTables_def by auto
    then show ?thesis using binds by blast
  qed
  then have "callClosed U (sameClass D')" unfolding tab(4) [symmetric] callClosed_def by blast
  from callAliased_least [OF cong this order_trans [OF base s]] have "?R \<subseteq> sameClass D'" by (rule subrelI)
  moreover have "sameClass D' \<subseteq> ?R" using inv by (simp add: mergeInv_def within_def)
  ultimately show "sameClass D' = ?R" by blast
qed

text \<open>
  C19: resolving all pairs of a function and a call that are in one class ends; afterwards the objects of one class are exactly
  those that the least congruence relates which is closed under the bindings of the calls it resolves, and the JSON call graph has
  gained exactly the edges of all pairs that are then in one class.
\<close>

theorem mergeFunctionCalls_fixpoint:
  assumes "json_laws J" and "docIs J json m" and "resolvable D m" and "consistentUpTo (sameClass D) D" and "set L = callPairs D"
  shows "\<exists>D' json' m'. foldO (mergeFunctionCall_CG J) L (D, json) = Some (Inr (D', json'))
    \<and> sameClass D' = callAliased (storedPrefixes D) D (sameClass D)
    \<and> docIs J json' m' \<and> docExtends m (\<Union>q \<in> callPairs D'. edgesOf D q) m'"
proof -
  have "pairsKnown D (set L)" using assms(3,5) callPairs_known by (simp add: resolvable_def)
  then obtain D' json' m' where r: "foldO (mergeFunctionCall_CG J) L (D, json) = Some (Inr (D', json'))" "docIs J json' m'" "resolves D m (callPairs D) D' m'"
    using mergeFunctionCalls_resolve [OF assms(1,3,2), of L] assms(5) unfolding resolvesTo_def by auto
  have found: "prefixesFound D" using assms(3) by (simp add: resolvable_def)
  let ?R = "callAliased (storedPrefixes D) D (sameClass D)"
  have "sameClass D \<subseteq> ?R" by (auto intro: callAliased.base)
  from aliased_least [OF callAliased_congruence this] have "aliased (storedPrefixes D) (sameClass D) \<subseteq> ?R" by (rule subrelI)
  moreover have "mergeInv (storedPrefixes D) (aliased (storedPrefixes D) (sameClass D \<union> {})) {} D" by (rule mergeInv_start [OF assms(4) refl refl])
  ultimately have "mergeInv (storedPrefixes D) ?R {} D" unfolding mergeInv_def within_def by (simp, blast)
  with found show ?thesis
    using resolves_callAliased(1,2) [OF r(3) _ order_refl] r(1,2) unfolding prefixesFound_def by (metis sameTables_refl)
qed

lemma sampleContainer_resolvable: "callersKnown sampleContainer sampleCallMap" "resolvable sampleContainer sampleCallMap"
proof -
  show "callersKnown sampleContainer sampleCallMap"
    by (auto simp: callersKnown_def sampleContainer_def InitReferencedInCalls_def sampleCallMap_def split: if_splits)
  then show "resolvable sampleContainer sampleCallMap"
    using sampleContainer_ok(3,4) sampleContainer_tables by (simp add: resolvable_def)
qed

theorem mergeFunctionCalls_fixpoint_witness:
  "\<exists>D' json' m'. foldO (mergeFunctionCall_CG json_model) [(''f'', ''k'')] (sampleContainer, sampleCallDoc) = Some (Inr (D', json'))
    \<and> (''x'', ''a'') \<in> sameClass D' \<and> docIs json_model json' m'"
proof -
  obtain D' json' m' where r: "foldO (mergeFunctionCall_CG json_model) [(''f'', ''k'')] (sampleContainer, sampleCallDoc) = Some (Inr (D', json'))"
    "sameClass D' = callAliased (storedPrefixes sampleContainer) sampleContainer (sameClass sampleContainer)" "docIs json_model json' m'"
    using mergeFunctionCalls_fixpoint [OF json_model_laws sampleCallDoc_is sampleContainer_resolvable(2) sampleContainer_ok(5), of "[(''f'', ''k'')]"]
    by (auto simp: sampleContainer_pairs)
  have "(''f'', ''f'') \<in> callAliased (storedPrefixes sampleContainer) sampleContainer (sameClass sampleContainer)"
    unfolding sampleContainer_ok(1) sampleObjects_ok(3) by (rule callAliased.base) (rule Id_onI, simp)
  note ff = this
  have "(''x'', ''a'') \<in> set (bindings \<lparr>MangledNames = [''f''], Parameters = [''x''], ReferencedInReturnStmts = [], IsVariadic = False\<rparr>
      \<lparr>CalledObjects = [''f''], Arguments = [[''a'']]\<rparr> ''k'')"
    by (simp add: bindings_def argumentsOf_def argumentOf_def)
  moreover have "map_of (FunctionInfoMap sampleContainer) ''f'' = Some \<lparr>MangledNames = [''f''], Parameters = [''x''], ReferencedInReturnStmts = [], IsVariadic = False\<rparr>"
    "map_of (CallInfoMap sampleContainer) ''k'' = Some \<lparr>CalledObjects = [''f''], Arguments = [[''a'']]\<rparr>"
    by (simp_all add: sampleContainer_def InitReferencedInCalls_def)
  ultimately have xa: "(''x'', ''a'') \<in> bindsOf sampleContainer (''f'', ''k'')"
    unfolding bindsOf_def by (simp add: sampleContainer_functions)
  have "(''x'', ''a'') \<in> sameClass D'"
    unfolding r(2) by (rule callAliased.call [OF ff _ _ xa]) (simp_all add: sampleContainer_functions sampleContainer_calls)
  then show ?thesis using r by blast
qed

end
