(* ===== verification/MergeContainers.thy ===== *)
theory MergeContainers
  imports CgMergeAlias_Props
begin

text \<open>
  What \<open>mergeEquivalenceClasses\<close> computes from the alias information of two files. While the classes of the second file
  are brought in one after the other, the pairs of objects it leaves to be merged stand for the prefixes that do not agree
  yet; the invariants of merging hold up to these pairs and the classes of the second file.
\<close>

section \<open>Bringing in one class\<close>

text \<open>
  \<open>absorbs D y c todo D' C ps' todo'\<close>: the class \<open>c\<close> was joined with the class of its object \<open>y\<close>, which may be new; \<open>C\<close> has the objects of
  the resulting class and \<open>ps'\<close> its prefixes.
\<close>

definition absorbs ::
  "EquivClassContainer \<Rightarrow> string \<Rightarrow> EquivClass \<Rightarrow> (string \<times> string) list \<Rightarrow> EquivClassContainer \<Rightarrow> string set \<Rightarrow> Prefix list \<Rightarrow> (string \<times> string) list \<Rightarrow> bool" where
  "absorbs D y c todo D' C ps' todo' \<longleftrightarrow> y \<in> set (Objects c) \<and> C = {z. (y, z) \<in> sameClass D} \<union> set (Objects c)
     \<and> (\<forall>x \<in> set (Objects c). x \<in> dom (FindMap D) \<longrightarrow> (y, x) \<in> sameClass D)
     \<and> sameClass D' = sameClass D \<union> C \<times> C
     \<and> (\<forall>x P. (x, P) \<in> storedPrefixes D' \<longleftrightarrow> (if x \<in> C then P \<in> set ps' else (x, P) \<in> storedPrefixes D))
     \<and> (\<forall>P. (y, P) \<in> storedPrefixes D \<or> P \<in> set (Prefixes c) \<longrightarrow>
          (\<exists>Q \<in> set ps'. PMember Q = PMember P \<and> (PObject P = PObject Q \<or> (PObject P, PObject Q) \<in> set todo')))
     \<and> (\<forall>P \<in> set ps'. (y, P) \<in> storedPrefixes D \<or> P \<in> set (Prefixes c))
     \<and> (\<forall>P \<in> set ps'. \<forall>Q. (y, Q) \<in> storedPrefixes D \<longrightarrow> PMember P = PMember Q \<longrightarrow> (y, P) \<in> storedPrefixes D \<or> PObject P = PObject Q)
     \<and> set todo \<subseteq> set todo'
     \<and> (\<forall>(a, b) \<in> set todo'. (a, b) \<in> set todo \<or> (\<exists>P \<in> set (Prefixes c). \<exists>Q \<in> set ps'. PMember Q = PMember P \<and> a = PObject P \<and> b = PObject Q))"

lemma absorbsD:
  assumes "absorbs D y c todo D' C ps' todo'"
  shows "y \<in> set (Objects c)" "C = {z. (y, z) \<in> sameClass D} \<union> set (Objects c)" "sameClass D' = sameClass D \<union> C \<times> C" "set todo \<subseteq> set todo'"
    "(x, P) \<in> storedPrefixes D' \<longleftrightarrow> (if x \<in> C then P \<in> set ps' else (x, P) \<in> storedPrefixes D)"
    "x \<in> set (Objects c) \<Longrightarrow> x \<in> dom (FindMap D) \<Longrightarrow> (y, x) \<in> sameClass D"
    "(y, P) \<in> storedPrefixes D \<or> P \<in> set (Prefixes c) \<Longrightarrow>
      \<exists>Q \<in> set ps'. PMember Q = PMember P \<and> (PObject P = PObject Q \<or> (PObject P, PObject Q) \<in> set todo')"
    "P \<in> set ps' \<Longrightarrow> (y, P) \<in> storedPrefixes D \<or> P \<in> set (Prefixes c)"
    "P \<in> set ps' \<Longrightarrow> (y, Q) \<in> storedPrefixes D \<Longrightarrow> PMember P = PMember Q \<Longrightarrow> (y, P) \<in> storedPrefixes D \<or> PObject P = PObject Q"
    "(a, b) \<in> set todo' \<Longrightarrow> (a, b) \<in> set todo \<or> (\<exists>P \<in> set (Prefixes c). \<exists>Q \<in> set ps'. PMember Q = PMember P \<and> a = PObject P \<and> b = PObject Q)"
  using assms unfolding absorbs_def by blast+

lemma absorbs_joined:
  assumes "absorbs D y c todo D' C ps' todo'"
  shows "joined (sameClass D \<union> (set todo \<union> S)) \<subseteq> joined (sameClass D' \<union> (set todo' \<union> S))"
  using absorbsD(3,4) [OF assms] by (intro joined_mono) blast

lemma storedPrefixes_dom: "(x, P) \<in> storedPrefixes D \<Longrightarrow> x \<in> dom (FindMap D)"
  by (auto simp: storedPrefixes_def)

lemma absorbs_represented:
  assumes a: "absorbs D y c todo D' C ps' todo'" and rep: "represented orig (sameClass D \<union> (set todo \<union> S)) D"
  shows "represented (orig \<union> set (Objects c) \<times> set (Prefixes c)) (sameClass D' \<union> (set todo' \<union> S)) D'"
proof -
  let ?s = "sameClass D' \<union> (set todo' \<union> S)"
  have new: "\<exists>Q. (x, Q) \<in> storedPrefixes D' \<and> PMember Q = PMember P \<and> (PObject P, PObject Q) \<in> joined ?s"
    if P: "(y, P) \<in> storedPrefixes D \<or> P \<in> set (Prefixes c)" and x: "x \<in> C" for x P
  proof -
    obtain Q where Q: "Q \<in> set ps'" "PMember Q = PMember P" "PObject P = PObject Q \<or> (PObject P, PObject Q) \<in> set todo'"
      using absorbsD(7) [OF a P] by blast
    have "(PObject P, PObject Q) \<in> joined ?s" using Q(3) joined_base by (metis UnCI joined_refl)
    then show ?thesis using Q(1,2) x absorbsD(5) [OF a] by metis
  qed
  have "\<exists>Q. (x, Q) \<in> storedPrefixes D' \<and> PMember Q = PMember P \<and> (PObject P, PObject Q) \<in> joined ?s" if xP: "(x, P) \<in> orig" for x P
  proof -
    obtain Q where Q: "(x, Q) \<in> storedPrefixes D" "PMember Q = PMember P" "(PObject P, PObject Q) \<in> joined ?s"
      using rep xP absorbs_joined [OF a] unfolding represented_def by blast
    show ?thesis
    proof (cases "x \<in> C")
      case True
      have "(y, x) \<in> sameClass D" using True absorbsD(2,6) [OF a] storedPrefixes_dom [OF Q(1)] by blast
      then have "(y, Q) \<in> storedPrefixes D" using Q(1) storedPrefixes_sameClass sameClass_sym by blast
      then show ?thesis using new [OF _ True, of Q] Q(2,3) joined_trans by metis
    next
      case False
      then show ?thesis using Q absorbsD(5) [OF a] by metis
    qed
  qed
  moreover have "x \<in> C" if "x \<in> set (Objects c)" for x using that absorbsD(2) [OF a] by blast
  ultimately show ?thesis using new unfolding represented_def by blast
qed

lemma absorbs_consistent:
  assumes a: "absorbs D y c todo D' C ps' todo'" and con: "consistentUpTo (sameClass D \<union> (set todo \<union> S)) D"
    and c: "\<And>P Q. P \<in> set (Prefixes c) \<Longrightarrow> Q \<in> set (Prefixes c) \<Longrightarrow> PMember P = PMember Q \<Longrightarrow> (PObject P, PObject Q) \<in> joined S"
  shows "consistentUpTo (sameClass D' \<union> (set todo' \<union> S)) D'"
proof -
  let ?s = "sameClass D' \<union> (set todo' \<union> S)"
  have old: "(PObject P, PObject Q) \<in> joined ?s" if "(x, P) \<in> storedPrefixes D" "(x, Q) \<in> storedPrefixes D" "PMember P = PMember Q" for x P Q
    using that con absorbs_joined [OF a] unfolding consistentUpTo_def by blast
  have "joined S \<subseteq> joined ?s" by (rule joined_mono) blast
  then have cs: "(PObject P, PObject Q) \<in> joined ?s" if "P \<in> set (Prefixes c)" "Q \<in> set (Prefixes c)" "PMember P = PMember Q" for P Q
    using c that by blast
  have agree: "(PObject P, PObject Q) \<in> joined ?s" if PQ: "P \<in> set ps'" "Q \<in> set ps'" "PMember P = PMember Q" for P Q
  proof (cases "(y, P) \<in> storedPrefixes D \<or> (y, Q) \<in> storedPrefixes D")
    case True
    then show ?thesis
      using absorbsD(9) [OF a PQ(1) _ PQ(3)] absorbsD(9) [OF a PQ(2) _ PQ(3) [symmetric]] old [OF _ _ PQ(3)] joined_refl by metis
  next
    case False
    then show ?thesis using cs PQ absorbsD(8) [OF a] by blast
  qed
  show ?thesis
    unfolding consistentUpTo_def
  proof (intro allI impI)
    fix x P Q assume "(x, P) \<in> storedPrefixes D'" "(x, Q) \<in> storedPrefixes D'" "PMember P = PMember Q"
    then show "(PObject P, PObject Q) \<in> joined ?s" using agree old unfolding absorbsD(5) [OF a] by (cases "x \<in> C") simp_all
  qed
qed

lemma absorbs_within:
  assumes a: "absorbs D y c todo D' C ps' todo'" and R: "congruence orig R" and wit: "within orig R D" and todo: "set todo \<subseteq> R"
    and c: "set (Objects c) \<times> set (Objects c) \<subseteq> R" "set (Objects c) \<times> set (Prefixes c) \<subseteq> orig"
  shows "within orig R D'" "set todo' \<subseteq> R"
proof -
  have sR: "sym R" "trans R" using R by (auto simp: congruence_def)
  have CR: "(x, y) \<in> R" if "x \<in> C" for x
    using that wit c(1) absorbsD(1,2) [OF a] symD [OF sR(1)] unfolding within_def by blast
  have yC: "y \<in> C" using absorbsD(1,2) [OF a] by blast
  have origin: "\<exists>z. (y, z) \<in> R \<and> (z, P) \<in> orig" if P: "P \<in> set ps'" for P
  proof -
    consider "(y, P) \<in> storedPrefixes D" | "P \<in> set (Prefixes c)" using absorbsD(8) [OF a P] by blast
    then show ?thesis
    proof cases
      case 1
      then show ?thesis using wit unfolding within_def by blast
    next
      case 2
      then show ?thesis using CR [OF yC] c(2) absorbsD(1) [OF a] by blast
    qed
  qed
  show "within orig R D'"
    unfolding within_def
  proof (intro conjI)
    have "C \<times> C \<subseteq> R" using CR sR by (auto, meson symD transD)
    then show "sameClass D' \<subseteq> R" using wit absorbsD(3) [OF a] unfolding within_def by blast
    have "\<exists>z. (x, z) \<in> R \<and> (z, P) \<in> orig" if xP: "(x, P) \<in> storedPrefixes D'" for x P
    proof (cases "x \<in> C")
      case True
      then show ?thesis using xP origin CR [OF True] sR(2) unfolding absorbsD(5) [OF a] by (auto dest: transD)
    next
      case False
      then show ?thesis using xP wit unfolding absorbsD(5) [OF a] within_def by auto
    qed
    then show "\<forall>(x, P) \<in> storedPrefixes D'. \<exists>z. (x, z) \<in> R \<and> (z, P) \<in> orig" by blast
  qed
  have "(p, q) \<in> R" if pq: "(p, q) \<in> set todo'" for p q
  proof (cases "(p, q) \<in> set todo")
    case False
    then obtain P Q where PQ: "P \<in> set (Prefixes c)" "Q \<in> set ps'" "PMember Q = PMember P" "p = PObject P" "q = PObject Q"
      using absorbsD(10) [OF a pq] by blast
    obtain z where z: "(y, z) \<in> R" "(z, Q) \<in> orig" using origin [OF PQ(2)] by blast
    have "(y, P) \<in> orig" using PQ(1) c(2) absorbsD(1) [OF a] by blast
    then show ?thesis using R z PQ(3-5) unfolding congruence_def by metis
  qed (use todo in blast)
  then show "set todo' \<subseteq> R" by auto
qed

section \<open>The two ways to bring in a class\<close>

definition sameMaps :: "EquivClassContainer \<Rightarrow> EquivClassContainer \<Rightarrow> bool" where
  "sameMaps D D' \<longleftrightarrow> FunctionMap D' = FunctionMap D \<and> FunctionInfoMap D' = FunctionInfoMap D \<and> CallInfoMap D' = CallInfoMap D
     \<and> CallExprParentMap D' = CallExprParentMap D \<and> ReferencedInCalls D' = ReferencedInCalls D"

lemma sameTables_maps: "sameTables D D' \<longleftrightarrow> sameMaps D D' \<and> dom (FindMap D') = dom (FindMap D)"
  by (auto simp: sameTables_def sameMaps_def)

lemma fold_emplaceFind: "fold (emplaceFind e) xs m = (\<lambda>z. if z \<in> set xs \<and> m z = None then Some e else m z)"
  by (induction xs arbitrary: m) (auto simp: emplaceFind_def fun_eq_iff)

lemma copyClass_absorbs:
  assumes ok: "classesOk D" and new: "\<forall>x \<in> set (Objects c). x \<notin> dom (FindMap D)" and y: "y \<in> set (Objects c)"
  shows "classesOk (copyClass c D)" "absorbs D y c todo (copyClass c D) (set (Objects c)) (Prefixes c) todo"
    "sameMaps D (copyClass c D)" "dom (FindMap (copyClass c D)) = dom (FindMap D) \<union> set (Objects c)"
proof -
  let ?e = "nextClass D"
  define D' where "D' = copyClass c D"
  have E: "EquivClasses D' = (?e, c) # EquivClasses D" "nextClass D' = Suc ?e" by (simp_all add: D'_def copyClass_def emplaceFront_def)
  have F: "FindMap D' z = (if z \<in> set (Objects c) then Some ?e else FindMap D z)" for z
    using new by (auto simp: D'_def copyClass_def emplaceFront_def fold_emplaceFind)
  have bd: "e < ?e" if "(e, c') \<in> set (EquivClasses D)" for e c' using classesOkD(1) [OF ok that] .
  have nobd: "(?e, c') \<notin> set (EquivClasses D)" for c' using bd [of ?e c'] by blast
  have old: "FindMap D z = Some e \<longleftrightarrow> (\<exists>c'. (e, c') \<in> set (EquivClasses D) \<and> z \<in> set (Objects c'))" for z e
    using ok unfolding classesOk_def by blast
  have fresh: "FindMap D z \<noteq> Some ?e" for z using nobd old by blast
  have dist: "distinct (map fst (EquivClasses D))" using ok unfolding classesOk_def by blast
  have "classesOk D'"
    unfolding classesOk_def
  proof (intro conjI ballI allI)
    show "distinct (map fst (EquivClasses D'))" using E(1) dist nobd by auto
    show "case w of (e, c') \<Rightarrow> e < nextClass D' \<and> Objects c' \<noteq> []" if "w \<in> set (EquivClasses D')" for w
      using that y classesOkD(1,2) [OF ok] unfolding E by (auto simp: less_Suc_eq)
    show "FindMap D' z = Some e \<longleftrightarrow> (\<exists>c'. (e, c') \<in> set (EquivClasses D') \<and> z \<in> set (Objects c'))" for z e
      using old [of z e] nobd new unfolding E F by auto
  qed
  then show "classesOk (copyClass c D)" by (simp add: D'_def)
  have same: "sameClass D' = sameClass D \<union> set (Objects c) \<times> set (Objects c)"
    using new fresh by (auto simp: sameClass_def F split: if_splits)
  have stored: "(x, P) \<in> storedPrefixes D' \<longleftrightarrow> (if x \<in> set (Objects c) then P \<in> set (Prefixes c) else (x, P) \<in> storedPrefixes D)" for x P
    using nobd fresh [of x] unfolding storedPrefixes_iff E F by (cases "x \<in> set (Objects c)") auto
  have none: "(y, P) \<notin> storedPrefixes D" "(y, z) \<notin> sameClass D" for P z
    using new y storedPrefixes_dom [of y P D] unfolding sameClass_def by auto
  show "absorbs D y c todo (copyClass c D) (set (Objects c)) (Prefixes c) todo"
    unfolding absorbs_def D'_def [symmetric] using same stored none y new by auto
  show "sameMaps D (copyClass c D)" by (simp add: sameMaps_def copyClass_def emplaceFront_def)
  show "dom (FindMap (copyClass c D)) = dom (FindMap D) \<union> set (Objects c)" unfolding D'_def [symmetric] dom_def F by auto
qed

text \<open>A class that grows by the objects and prefixes of \<open>c\<close>.\<close>

lemma grow_absorbs:
  assumes ok: "classesOk D" and e: "(e, ce) \<in> set (EquivClasses D)" and y: "y \<in> set (Objects c)" "FindMap D y = Some e"
    and found: "\<forall>x \<in> set (Objects c). FindMap D x = None \<or> FindMap D x = Some e"
    and g: "GetPrefixesToMerge (Prefixes c) (Prefixes ce, todo) = (ps', todo')"
    and D': "EquivClasses D' = AList.update e cn (EquivClasses D)" "nextClass D' = nextClass D"
      "FindMap D' = (\<lambda>z. if z \<in> set (Objects c) \<and> FindMap D z = None then Some e else FindMap D z)"
    and cn: "set (Objects cn) = set (Objects ce) \<union> set (Objects c)" "set (Prefixes cn) = set ps'"
  shows "classesOk D'" "\<exists>C. absorbs D y c todo D' C ps' todo'"
proof -
  have dist: "distinct (map fst (EquivClasses D))" using ok unfolding classesOk_def by blast
  have dist': "distinct (map fst (EquivClasses D'))" using dist unfolding D'(1) by (rule distinct_update)
  have el: "(e', c') \<in> set (EquivClasses D') \<longleftrightarrow> (if e' = e then c' = cn else (e', c') \<in> set (EquivClasses D))" for e' c'
  proof -
    have "(e', c') \<in> set (EquivClasses D') \<longleftrightarrow> map_of (EquivClasses D') e' = Some c'" using dist' by simp
    then show ?thesis using dist by (auto simp: D'(1) update_conv')
  qed
  have only: "(e, c') \<in> set (EquivClasses D) \<longleftrightarrow> c' = ce" for c' using e dist eq_key_imp_eq_value by fast
  have old: "FindMap D z = Some e' \<longleftrightarrow> (\<exists>c'. (e', c') \<in> set (EquivClasses D) \<and> z \<in> set (Objects c'))" for z e'
    using ok unfolding classesOk_def by blast
  have F: "FindMap D' z = (if z \<in> set (Objects c) then Some e else FindMap D z)" for z using found by (auto simp: D'(3))
  have ce: "z \<in> set (Objects ce) \<longleftrightarrow> FindMap D z = Some e" for z using classesOkD(3) [OF ok e] by simp
  have neq: "e' \<noteq> e \<Longrightarrow> z \<in> set (Objects c) \<Longrightarrow> FindMap D z \<noteq> Some e'" for e' z using found by force
  show "classesOk D'"
    unfolding classesOk_def
  proof (intro conjI ballI allI dist')
    have "e' < nextClass D' \<and> Objects c' \<noteq> []" if "(e', c') \<in> set (EquivClasses D')" for e' c'
      using that y cn(1) classesOkD(1,2) [OF ok] e unfolding el D'(2) by (cases "e' = e") auto
    then show "case w of (e', c') \<Rightarrow> e' < nextClass D' \<and> Objects c' \<noteq> []" if "w \<in> set (EquivClasses D')" for w using that by blast
    show "FindMap D' z = Some e' \<longleftrightarrow> (\<exists>c'. (e', c') \<in> set (EquivClasses D') \<and> z \<in> set (Objects c'))" for z e'
    proof (cases "e' = e")
      case True
      then show ?thesis unfolding el F using ce cn(1) by auto
    next
      case False
      then show ?thesis unfolding el F using neq old by auto
    qed
  qed
  let ?C = "{z. (y, z) \<in> sameClass D} \<union> set (Objects c)"
  have yC: "(y, z) \<in> sameClass D \<longleftrightarrow> FindMap D z = Some e" for z using y(2) by (simp add: sameClass_def)
  have inC: "z \<in> ?C \<longleftrightarrow> FindMap D' z = Some e" for z unfolding F using yC by auto
  have out: "z \<notin> ?C \<Longrightarrow> FindMap D' z = FindMap D z" for z unfolding F by simp
  have same: "(a, b) \<in> sameClass D' \<longleftrightarrow> (a, b) \<in> sameClass D \<or> a \<in> ?C \<and> b \<in> ?C" for a b
  proof (cases "a \<in> ?C")
    case True
    then have "(a, b) \<in> sameClass D \<Longrightarrow> b \<in> ?C" using found yC by (auto simp: sameClass_def)
    then show ?thesis using True inC by (auto simp: sameClass_def)
  next
    case False
    have a: "FindMap D' a = FindMap D a" "FindMap D a \<noteq> Some e" using out [OF False] False yC by blast+
    show ?thesis
    proof (cases "b \<in> ?C")
      case True
      then have "FindMap D' b = Some e" "FindMap D b = None \<or> FindMap D b = Some e" using inC yC found by blast+
      then show ?thesis using False a by (auto simp: sameClass_def)
    next
      case b: False
      then show ?thesis using a out [OF b] False by (auto simp: sameClass_def)
    qed
  qed
  have stored: "(x, P) \<in> storedPrefixes D' \<longleftrightarrow> (if x \<in> ?C then P \<in> set ps' else (x, P) \<in> storedPrefixes D)" for x P
  proof (cases "x \<in> ?C")
    case True
    then show ?thesis unfolding storedPrefixes_iff el using inC [of x] cn(2) by simp
  next
    case False
    then show ?thesis unfolding storedPrefixes_iff el using inC [of x] out [of x] by auto
  qed
  have ps: "P \<in> set (Prefixes ce) \<longleftrightarrow> (y, P) \<in> storedPrefixes D" for P unfolding storedPrefixes_iff y(2) using only by simp
  have "absorbs D y c todo D' ?C ps' todo'"
    unfolding absorbs_def ps [symmetric]
  proof (intro conjI allI ballI impI)
    show "(y, x) \<in> sameClass D" if "x \<in> set (Objects c)" "x \<in> dom (FindMap D)" for x using that found yC by auto
    show "sameClass D' = sameClass D \<union> ?C \<times> ?C" using same by auto
    show "\<exists>Q \<in> set ps'. PMember Q = PMember P \<and> (PObject P = PObject Q \<or> (PObject P, PObject Q) \<in> set todo')"
      if "P \<in> set (Prefixes ce) \<or> P \<in> set (Prefixes c)" for P
      using that GetPrefixesToMerge_mono [OF g] GetPrefixesToMerge_represented [OF g] by blast
    show "P \<in> set (Prefixes ce) \<or> P \<in> set (Prefixes c)" if "P \<in> set ps'" for P using that GetPrefixesToMerge_mono [OF g] by blast
    show "P \<in> set (Prefixes ce) \<or> PObject P = PObject Q" if "P \<in> set ps'" "Q \<in> set (Prefixes ce)" "PMember P = PMember Q" for P Q
      using GetPrefixesToMerge_added [OF g that(1,2) that(3) [symmetric]] by auto
    show "set todo \<subseteq> set todo'" using GetPrefixesToMerge_mono [OF g] by blast
    show "case ab of (a, b) \<Rightarrow> (a, b) \<in> set todo \<or> (\<exists>P \<in> set (Prefixes c). \<exists>Q \<in> set ps'. PMember Q = PMember P \<and> a = PObject P \<and> b = PObject Q)"
      if "ab \<in> set todo'" for ab
      using that GetPrefixesToMerge_new [OF g, of "fst ab" "snd ab"] by (simp add: case_prod_beta)
  qed (use y stored in auto)
  then show "\<exists>C. absorbs D y c todo D' C ps' todo'" by blast
qed

section \<open>The classes of the second file\<close>

text \<open>
  The invariant of the loop: \<open>cs\<close> are the classes of the second file \<open>D2\<close> that were brought in, \<open>D0\<close> is the container before.
\<close>

definition objectsOf :: "(nat \<times> EquivClass) set \<Rightarrow> string set" where
  "objectsOf cs = (\<Union>(e, c) \<in> cs. set (Objects c))"

definition prefixPairs :: "(nat \<times> EquivClass) set \<Rightarrow> (string \<times> Prefix) set" where
  "prefixPairs cs = (\<Union>(e, c) \<in> cs. set (Objects c) \<times> set (Prefixes c))"

definition classPairs :: "(nat \<times> EquivClass) set \<Rightarrow> (string \<times> string) set" where
  "classPairs cs = (\<Union>(e, c) \<in> cs. set (Objects c) \<times> set (Objects c))"

definition bothPrefixes :: "EquivClassContainer \<Rightarrow> EquivClassContainer \<Rightarrow> (string \<times> Prefix) set" where
  "bothPrefixes D0 D2 = storedPrefixes D0 \<union> storedPrefixes D2"

definition inBoth :: "EquivClassContainer \<Rightarrow> EquivClassContainer \<Rightarrow> string set" where
  "inBoth D0 D2 = dom (FindMap D0) \<union> dom (FindMap D2)"

definition bringing :: "EquivClassContainer \<Rightarrow> EquivClassContainer \<Rightarrow> (nat \<times> EquivClass) set \<Rightarrow> EquivClassContainer \<times> (string \<times> string) list \<Rightarrow> bool" where
  "bringing D0 D2 cs = (\<lambda>(D, todo). classesOk D \<and> sameMaps D0 D \<and> dom (FindMap D) = dom (FindMap D0) \<union> objectsOf cs
     \<and> sameClass D0 \<union> classPairs cs \<subseteq> sameClass D
     \<and> represented (storedPrefixes D0 \<union> prefixPairs cs) (sameClass D \<union> (set todo \<union> sameClass D2)) D
     \<and> consistentUpTo (sameClass D \<union> (set todo \<union> sameClass D2)) D
     \<and> (\<forall>R. congruence (bothPrefixes D0 D2) R \<longrightarrow> sameClass D0 \<union> sameClass D2 \<subseteq> R \<longrightarrow> within (bothPrefixes D0 D2) R D \<and> set todo \<subseteq> R)
     \<and> (\<forall>x P. (x, P) \<in> storedPrefixes D \<longrightarrow> PObject P \<in> inBoth D0 D2)
     \<and> (\<forall>p q. (p, q) \<in> set todo \<longrightarrow> p \<in> inBoth D0 D2 \<and> q \<in> inBoth D0 D2))"

lemma classPairs_eq:
  assumes "classesOk D2"
  shows "classPairs (set (EquivClasses D2)) = sameClass D2" "prefixPairs (set (EquivClasses D2)) = storedPrefixes D2"
    "objectsOf (set (EquivClasses D2)) = dom (FindMap D2)"
proof -
  have f: "FindMap D2 x = Some e \<longleftrightarrow> (\<exists>c. (e, c) \<in> set (EquivClasses D2) \<and> x \<in> set (Objects c))" for x e
    using assms unfolding classesOk_def by blast
  have g: "FindMap D2 x = Some e \<longleftrightarrow> x \<in> set (Objects c)" if "(e, c) \<in> set (EquivClasses D2)" for x e c using classesOkD(3) [OF assms that] .
  show "classPairs (set (EquivClasses D2)) = sameClass D2"
  proof (intro set_eqI, clarify)
    fix a b
    show "(a, b) \<in> classPairs (set (EquivClasses D2)) \<longleftrightarrow> (a, b) \<in> sameClass D2"
      unfolding classPairs_def sameClass_def using f [of a] g by fastforce
  qed
  show "prefixPairs (set (EquivClasses D2)) = storedPrefixes D2"
  proof (intro set_eqI, clarify)
    fix a P
    show "(a, P) \<in> prefixPairs (set (EquivClasses D2)) \<longleftrightarrow> (a, P) \<in> storedPrefixes D2"
      unfolding prefixPairs_def storedPrefixes_def using g by fastforce
  qed
  show "objectsOf (set (EquivClasses D2)) = dom (FindMap D2)"
    unfolding objectsOf_def dom_def using f by fastforce
qed

lemma bringing_start:
  assumes "classesOk D0" "prefixesFound D0" "consistentUpTo (sameClass D0) D0" "sameMaps D0 D" "FindMap D = FindMap D0" "EquivClasses D = EquivClasses D0"
    "nextClass D = nextClass D0"
  shows "bringing D0 D2 {} (D, [])"
proof -
  have eqs: "sameClass D = sameClass D0" "storedPrefixes D = storedPrefixes D0" using assms(5,6) by (simp_all add: sameClass_def storedPrefixes_def)
  have "joined (sameClass D0) \<subseteq> joined (sameClass D0 \<union> sameClass D2)" by (rule joined_mono) simp
  then have "consistentUpTo (sameClass D0 \<union> sameClass D2) D" using assms(3) unfolding consistentUpTo_def eqs by blast
  moreover have "within (bothPrefixes D0 D2) R D" if "sameClass D0 \<union> sameClass D2 \<subseteq> R" for R
  proof -
    have "(x, x) \<in> R" if "(x, P) \<in> storedPrefixes D0" for x P
      using storedPrefixes_dom [OF that] \<open>sameClass D0 \<union> sameClass D2 \<subseteq> R\<close> by (auto simp: sameClass_def)
    then show ?thesis using that unfolding within_def eqs bothPrefixes_def by blast
  qed
  moreover have "classesOk D" using assms(1,5-7) by (simp add: classesOk_def)
  moreover have "represented (storedPrefixes D0) (sameClass D0 \<union> sameClass D2) D" unfolding represented_def eqs by blast
  ultimately show ?thesis
    using assms(2,4,5) by (auto simp: bringing_def eqs objectsOf_def classPairs_def prefixPairs_def prefixesFound_def inBoth_def)
qed

lemma bringingD:
  assumes "bringing D0 D2 cs (D, todo)"
  shows "classesOk D" "sameMaps D0 D" "dom (FindMap D) = dom (FindMap D0) \<union> objectsOf cs" "sameClass D0 \<union> classPairs cs \<subseteq> sameClass D"
    "represented (storedPrefixes D0 \<union> prefixPairs cs) (sameClass D \<union> (set todo \<union> sameClass D2)) D"
    "consistentUpTo (sameClass D \<union> (set todo \<union> sameClass D2)) D"
    "congruence (bothPrefixes D0 D2) R \<Longrightarrow> sameClass D0 \<union> sameClass D2 \<subseteq> R \<Longrightarrow> within (bothPrefixes D0 D2) R D \<and> set todo \<subseteq> R"
    "(x, P) \<in> storedPrefixes D \<Longrightarrow> PObject P \<in> inBoth D0 D2" "(p, q) \<in> set todo \<Longrightarrow> p \<in> inBoth D0 D2 \<and> q \<in> inBoth D0 D2"
  using assms by (simp_all add: bringing_def)

text \<open>A class that was brought in extends the invariant.\<close>

lemma bringing_absorbs:
  assumes b: "bringing D0 D2 cs (D, todo)" and c: "(e2, c) \<in> set (EquivClasses D2)"
    and D2: "classesOk D2" "prefixesFound D2" "consistentUpTo (sameClass D2) D2"
    and a: "absorbs D y c todo D' C ps' todo'" and ok: "classesOk D'" and m: "sameMaps D D'" and d: "dom (FindMap D') = dom (FindMap D) \<union> set (Objects c)"
  shows "bringing D0 D2 (insert (e2, c) cs) (D', todo')"
proof -
  note all = classPairs_eq [OF D2(1)]
  have cc: "set (Objects c) \<times> set (Objects c) \<subseteq> sameClass D2" "set (Objects c) \<times> set (Prefixes c) \<subseteq> storedPrefixes D2"
    using c unfolding all(1,2) [symmetric] classPairs_def prefixPairs_def by blast+
  have pc: "PObject P \<in> inBoth D0 D2" if "P \<in> set (Prefixes c)" for P
    using that cc(2) absorbsD(1) [OF a] D2(2) unfolding prefixesFound_def inBoth_def by blast
  have cons: "(PObject P, PObject Q) \<in> joined (sameClass D2)" if "P \<in> set (Prefixes c)" "Q \<in> set (Prefixes c)" "PMember P = PMember Q" for P Q
    using that cc(2) absorbsD(1) [OF a] D2(3) unfolding consistentUpTo_def by blast
  note D = bringingD [OF b]
  have ps': "PObject P \<in> inBoth D0 D2" if "P \<in> set ps'" for P using absorbsD(8) [OF a that] D(8) pc by blast
  have cs: "classPairs (insert (e2, c) cs) = set (Objects c) \<times> set (Objects c) \<union> classPairs cs"
    "prefixPairs (insert (e2, c) cs) = set (Objects c) \<times> set (Prefixes c) \<union> prefixPairs cs"
    "objectsOf (insert (e2, c) cs) = set (Objects c) \<union> objectsOf cs"
    by (simp_all add: classPairs_def prefixPairs_def objectsOf_def)
  have "represented (storedPrefixes D0 \<union> prefixPairs (insert (e2, c) cs)) (sameClass D' \<union> (set todo' \<union> sameClass D2)) D'"
    using absorbs_represented [OF a D(5)] unfolding cs by (simp add: Un_ac)
  moreover have "consistentUpTo (sameClass D' \<union> (set todo' \<union> sameClass D2)) D'" by (rule absorbs_consistent [OF a D(6) cons])
  moreover have "within (bothPrefixes D0 D2) R D' \<and> set todo' \<subseteq> R"
    if R: "congruence (bothPrefixes D0 D2) R" "sameClass D0 \<union> sameClass D2 \<subseteq> R" for R
  proof -
    have "within (bothPrefixes D0 D2) R D" "set todo \<subseteq> R" using D(7) [OF R] by simp_all
    moreover have "set (Objects c) \<times> set (Objects c) \<subseteq> R" "set (Objects c) \<times> set (Prefixes c) \<subseteq> bothPrefixes D0 D2"
      using cc R(2) unfolding bothPrefixes_def by blast+
    ultimately show ?thesis using absorbs_within [OF a R(1)] by blast
  qed
  moreover have "PObject P \<in> inBoth D0 D2" if "(x, P) \<in> storedPrefixes D'" for x P
    using that D(8) ps' unfolding absorbsD(5) [OF a] by (cases "x \<in> C") auto
  moreover have "p \<in> inBoth D0 D2 \<and> q \<in> inBoth D0 D2" if "(p, q) \<in> set todo'" for p q
    using absorbsD(10) [OF a that] D(9) pc ps' by metis
  moreover have "sameClass D0 \<union> classPairs (insert (e2, c) cs) \<subseteq> sameClass D'"
    using D(4) absorbsD(2,3) [OF a] unfolding cs by blast
  moreover have "dom (FindMap D') = dom (FindMap D0) \<union> objectsOf (insert (e2, c) cs)" using D(3) d unfolding cs by blast
  moreover have "sameMaps D0 D'" using D(2) m unfolding sameMaps_def by metis
  ultimately show ?thesis using ok by (simp add: bringing_def)
qed

text \<open>Two objects of one class of the second file are in different classes.\<close>

lemma bringing_merge:
  assumes b: "bringing D0 D2 cs (D, todo)" and e: "FindMap D y = Some e1" "FindMap D x = Some e2" "e1 \<noteq> e2" and yx: "(y, x) \<in> sameClass D2"
  obtains key new D1 e where "merge_EC D e1 e2 = Inr (key, new, D1)" "FindMap D1 key = Some e" "bringing D0 D2 cs (D1, todo @ new)"
    "\<And>z. FindMap D z = Some e1 \<or> FindMap D z = Some e2 \<Longrightarrow> FindMap D1 z = Some e" "dom (FindMap D1) = dom (FindMap D)"
proof -
  note D = bringingD [OF b]
  obtain key new D1 C ps' where m: "merge_EC D e1 e2 = Inr (key, new, D1)" "key \<in> C" "classesOk D1" "sameTables D D1" "mergedInto D y x C ps' new D1"
    using merge_EC_merged [OF D(1) e] by metis
  have C: "C = {z. (y, z) \<in> sameClass D \<or> (x, z) \<in> sameClass D}" "sameClass D1 = sameClass D \<union> C \<times> C" using m(5) by (simp_all add: mergedInto_def)
  let ?p = "set todo \<union> sameClass D2"
  have p: "insert (y, x) ?p = ?p" "set new \<union> ?p = set (todo @ new) \<union> sameClass D2" using yx by auto
  have inC: "z \<in> C" if "FindMap D z = Some e1 \<or> FindMap D z = Some e2" for z using that e(1,2) unfolding C(1) sameClass_def by auto
  have old: "PObject P \<in> inBoth D0 D2" if "P \<in> set ps'" for P using mergedInto_stored [OF m(5) that] D(8) by blast
  have "represented (storedPrefixes D0 \<union> prefixPairs cs) (sameClass D1 \<union> (set (todo @ new) \<union> sameClass D2)) D1"
    using mergedInto_represented [OF m(5), of "storedPrefixes D0 \<union> prefixPairs cs" ?p] D(5) unfolding p by simp
  moreover have "consistentUpTo (sameClass D1 \<union> (set (todo @ new) \<union> sameClass D2)) D1"
    using mergedInto_consistent [OF m(5), of ?p] D(6) unfolding p by simp
  moreover have "within (bothPrefixes D0 D2) R D1 \<and> set (todo @ new) \<subseteq> R"
    if R: "congruence (bothPrefixes D0 D2) R" "sameClass D0 \<union> sameClass D2 \<subseteq> R" for R
  proof -
    have w: "within (bothPrefixes D0 D2) R D" "set todo \<subseteq> R" using D(7) [OF R] by simp_all
    have "(y, x) \<in> R" using yx R(2) by blast
    then show ?thesis using mergedInto_within [OF m(5) R(1) w(1)] w(2) by simp
  qed
  moreover have "PObject P \<in> inBoth D0 D2" if "(z, P) \<in> storedPrefixes D1" for z P
    using that D(8) old unfolding mergedInto_storedIff [OF m(5)] by (cases "z \<in> C") auto
  moreover have "p \<in> inBoth D0 D2 \<and> q \<in> inBoth D0 D2" if pq: "(p, q) \<in> set (todo @ new)" for p q
  proof (cases "(p, q) \<in> set todo")
    case False
    then have "(p, q) \<in> set new" using pq by simp
    from mergedInto_new [OF m(5) this] show ?thesis using D(8) old by metis
  qed (use D(9) in blast)
  moreover have "sameMaps D0 D1" "dom (FindMap D1) = dom (FindMap D0) \<union> objectsOf cs"
    using m(4) D(2,3) by (simp_all add: sameTables_maps sameMaps_def)
  moreover have "sameClass D0 \<union> classPairs cs \<subseteq> sameClass D1" using D(4) C(2) by blast
  ultimately have b1: "bringing D0 D2 cs (D1, todo @ new)" using m(3) by (simp add: bringing_def)
  have "(key, z) \<in> sameClass D1" if "z \<in> C" for z using C(2) m(2) that by blast
  then have same: "\<exists>e. FindMap D1 key = Some e \<and> FindMap D1 z = Some e" if "z \<in> C" for z using that by (simp add: sameClass_def)
  then obtain e where key: "FindMap D1 key = Some e" using m(2) by blast
  then have "FindMap D1 z = Some e" if "z \<in> C" for z using same [OF that] by simp
  then show ?thesis using that key m(1,4) b1 inC by (simp add: sameTables_def)
qed

definition joining ::
  "EquivClassContainer \<Rightarrow> EquivClassContainer \<Rightarrow> (nat \<times> EquivClass) set \<Rightarrow> string list \<Rightarrow> nat option \<times> EquivClassContainer \<times> (string \<times> string) list \<Rightarrow> bool" where
  "joining D0 D2 cs ys = (\<lambda>(first, D, todo). bringing D0 D2 cs (D, todo)
     \<and> (case first of None \<Rightarrow> \<forall>z \<in> set ys. FindMap D z = None
        | Some e \<Rightarrow> (\<exists>y \<in> set ys. FindMap D y = Some e) \<and> (\<forall>z \<in> set ys. FindMap D z = None \<or> FindMap D z = Some e)))"

lemma joinObject_joining:
  assumes j: "joining D0 D2 cs ys (first, D, todo)" and pairs: "\<forall>y \<in> set ys. (y, x) \<in> sameClass D2"
  shows "\<exists>s. joinObject x (first, D, todo) = Inr s \<and> joining D0 D2 cs (ys @ [x]) s"
proof (cases first)
  case None
  then have "joinObject x (first, D, todo) = Inr (FindMap D x, D, todo)" by (simp add: joinObject_def)
  then show ?thesis using j None by (auto simp: joining_def split: option.splits)
next
  case (Some e1)
  have b: "bringing D0 D2 cs (D, todo)" and ys: "\<forall>z \<in> set ys. FindMap D z = None \<or> FindMap D z = Some e1" using j Some by (simp_all add: joining_def)
  obtain y where y: "y \<in> set ys" "FindMap D y = Some e1" using j Some by (auto simp: joining_def)
  show ?thesis
  proof (cases "FindMap D x = None \<or> FindMap D x = Some e1")
    case True
    then have "joinObject x (first, D, todo) = Inr (first, D, todo)" using Some by (auto simp: joinObject_def)
    then show ?thesis using True y ys b Some by (auto simp: joining_def)
  next
    case False
    then obtain e2 where e2: "FindMap D x = Some e2" "e1 \<noteq> e2" by auto
    have "(y, x) \<in> sameClass D2" using pairs y(1) by blast
    from bringing_merge [OF b y(2) e2 this] obtain key new D1 e where m: "merge_EC D e1 e2 = Inr (key, new, D1)" "FindMap D1 key = Some e"
      "bringing D0 D2 cs (D1, todo @ new)" "\<And>z. FindMap D z = Some e1 \<or> FindMap D z = Some e2 \<Longrightarrow> FindMap D1 z = Some e"
      "dom (FindMap D1) = dom (FindMap D)"
      by metis
    have "joinObject x (first, D, todo) = Inr (Some e, D1, todo @ new)" using Some e2 m(1,2) by (simp add: joinObject_def)
    moreover have "FindMap D1 z = None \<or> FindMap D1 z = Some e" if "z \<in> set (ys @ [x])" for z
    proof (cases "FindMap D z")
      case None
      then have "z \<notin> dom (FindMap D1)" using m(5) by auto
      then show ?thesis by blast
    qed (use that ys e2(1) m(4) in auto)
    ultimately show ?thesis using y m(3,4) by (auto simp: joining_def)
  qed
qed

lemma joinObjects_joining:
  "joining D0 D2 cs ys s \<Longrightarrow> set ys \<union> set xs \<subseteq> X \<Longrightarrow> X \<times> X \<subseteq> sameClass D2
    \<Longrightarrow> \<exists>s'. foldR joinObject xs s = Inr s' \<and> joining D0 D2 cs (ys @ xs) s'"
proof (induction xs arbitrary: ys s)
  case (Cons x xs)
  obtain first D todo where s: "s = (first, D, todo)" by (cases s) auto
  have "\<forall>y \<in> set ys. (y, x) \<in> sameClass D2" using Cons.prems(2,3) by auto
  from joinObject_joining [OF Cons.prems(1) [unfolded s] this] obtain s1 where 1: "joinObject x s = Inr s1" "joining D0 D2 cs (ys @ [x]) s1"
    using s by blast
  from Cons.IH [OF 1(2)] Cons.prems(2,3) show ?case using 1(1) by simp
qed simp

lemma set_sortUnique [simp]: "set (sortUnique xs) = set xs"
  by (simp add: sortUnique_def)

text \<open>The class that exists gets the objects and prefixes.\<close>

lemma addAll_brings:
  assumes b: "bringing D0 D2 cs (D, todo)" and c: "(e2, c) \<in> set (EquivClasses D2)"
    and D2: "classesOk D2" "prefixesFound D2" "consistentUpTo (sameClass D2) D2"
    and y: "y \<in> set (Objects c)" "FindMap D y = Some e" and found: "\<forall>x \<in> set (Objects c). FindMap D x = None \<or> FindMap D x = Some e"
  shows "\<exists>s. bindR (addObjects e (Objects c) D) (\<lambda>D2. bindR (addPrefixes e (Prefixes c) (D2, todo)) (\<lambda>(D3, todo2).
      Inr (emplaceObjects e (Objects c) D3, todo2))) = Inr s \<and> bringing D0 D2 (insert (e2, c) cs) s"
    "Objects c = [y] \<Longrightarrow> \<exists>s. addPrefixes e (Prefixes c) (D, todo) = Inr s \<and> bringing D0 D2 (insert (e2, c) cs) s"
proof -
  note ok = bringingD(1) [OF b]
  obtain ce where ce: "(e, ce) \<in> set (EquivClasses D)" "map_of (EquivClasses D) e = Some ce" using classOf [OF ok y(2)] by metis
  obtain ps' todo' where g: "GetPrefixesToMerge (Prefixes c) (Prefixes ce, todo) = (ps', todo')" by fastforce
  have brings: "bringing D0 D2 (insert (e2, c) cs) (D', todo')"
    if D': "EquivClasses D' = AList.update e cn (EquivClasses D)" "nextClass D' = nextClass D"
      "FindMap D' = (\<lambda>z. if z \<in> set (Objects c) \<and> FindMap D z = None then Some e else FindMap D z)"
      "set (Objects cn) = set (Objects ce) \<union> set (Objects c)" "set (Prefixes cn) = set ps'" "sameMaps D D'" for D' cn
  proof -
    note gr = grow_absorbs [OF ok ce(1) y found g D'(1-5)]
    obtain C where a: "absorbs D y c todo D' C ps' todo'" using gr(2) by blast
    have "dom (FindMap D') = dom (FindMap D) \<union> set (Objects c)" unfolding D'(3) dom_def by auto
    from bringing_absorbs [OF b c D2 a gr(1) D'(6) this] show ?thesis .
  qed
  let ?D1 = "D\<lparr>EquivClasses := AList.update e (ce\<lparr>Objects := sortUnique (Objects ce @ Objects c)\<rparr>) (EquivClasses D)\<rparr>"
  let ?cn = "ce\<lparr>Objects := sortUnique (Objects ce @ Objects c), Prefixes := sortUnique ps'\<rparr>"
  let ?D3 = "D\<lparr>EquivClasses := AList.update e ?cn (EquivClasses D), FindMap := fold (emplaceFind e) (Objects c) (FindMap D)\<rparr>"
  have "addObjects e (Objects c) D = Inr ?D1" using ce(2) by (simp add: addObjects_def derefClass_def)
  moreover have "addPrefixes e (Prefixes c) (?D1, todo) = Inr (D\<lparr>EquivClasses := AList.update e ?cn (EquivClasses D)\<rparr>, todo')"
    using g by (simp add: addPrefixes_def derefClass_def update_conv')
  ultimately have run: "bindR (addObjects e (Objects c) D) (\<lambda>D2. bindR (addPrefixes e (Prefixes c) (D2, todo)) (\<lambda>(D3, todo2).
      Inr (emplaceObjects e (Objects c) D3, todo2))) = Inr (?D3, todo')"
    by (simp add: emplaceObjects_def)
  have "bringing D0 D2 (insert (e2, c) cs) (?D3, todo')"
    by (rule brings [of ?D3 ?cn]) (simp_all add: fold_emplaceFind sameMaps_def)
  then show "\<exists>s. bindR (addObjects e (Objects c) D) (\<lambda>D2. bindR (addPrefixes e (Prefixes c) (D2, todo)) (\<lambda>(D3, todo2).
      Inr (emplaceObjects e (Objects c) D3, todo2))) = Inr s \<and> bringing D0 D2 (insert (e2, c) cs) s"
    using run by blast
  show "\<exists>s. addPrefixes e (Prefixes c) (D, todo) = Inr s \<and> bringing D0 D2 (insert (e2, c) cs) s" if one: "Objects c = [y]"
  proof -
    let ?D' = "D\<lparr>EquivClasses := AList.update e (ce\<lparr>Prefixes := sortUnique ps'\<rparr>) (EquivClasses D)\<rparr>"
    have "y \<in> set (Objects ce)" using classesOkD(3) [OF ok ce(1)] y(2) by blast
    then have "bringing D0 D2 (insert (e2, c) cs) (?D', todo')"
      using y(2) one by (intro brings [of ?D' "ce\<lparr>Prefixes := sortUnique ps'\<rparr>"]) (auto simp: sameMaps_def fun_eq_iff)
    moreover have "addPrefixes e (Prefixes c) (D, todo) = Inr (?D', todo')" using g ce(2) by (simp add: addPrefixes_def derefClass_def)
    ultimately show ?thesis by blast
  qed
qed

lemma copyClass_brings:
  assumes b: "bringing D0 D2 cs (D, todo)" and c: "(e2, c) \<in> set (EquivClasses D2)"
    and D2: "classesOk D2" "prefixesFound D2" "consistentUpTo (sameClass D2) D2" and new: "\<forall>x \<in> set (Objects c). FindMap D x = None"
  shows "bringing D0 D2 (insert (e2, c) cs) (copyClass c D, todo)"
proof -
  obtain y where y: "y \<in> set (Objects c)" using classesOkD(2) [OF D2(1) c] by (cases "Objects c") auto
  have "\<forall>x \<in> set (Objects c). x \<notin> dom (FindMap D)" using new by auto
  note copy = copyClass_absorbs [OF bringingD(1) [OF b] this y]
  show ?thesis by (rule bringing_absorbs [OF b c D2 copy(2,1,3,4)])
qed

lemma mergeEquivClass_brings:
  assumes b: "bringing D0 D2 cs (D, todo)" and c: "(e2, c) \<in> set (EquivClasses D2)"
    and D2: "classesOk D2" "prefixesFound D2" "consistentUpTo (sameClass D2) D2"
  shows "\<exists>s. mergeEquivClass (e2, c) (D, todo) = Inr s \<and> bringing D0 D2 (insert (e2, c) cs) s"
proof -
  consider "Objects c = []" | x where "Objects c = [x]" | x x' xs where "Objects c = x # x' # xs" by (metis list.exhaust)
  then show ?thesis
  proof cases
    case 1
    then show ?thesis using classesOkD(2) [OF D2(1) c] by simp
  next
    case (2 x)
    show ?thesis
    proof (cases "FindMap D x")
      case None
      then show ?thesis using copyClass_brings [OF b c D2] 2 by (simp add: mergeEquivClass_def)
    next
      case (Some e)
      then show ?thesis using addAll_brings(2) [OF b c D2, of x e] 2 by (simp add: mergeEquivClass_def)
    qed
  next
    case (3 x x' xs)
    have start: "joining D0 D2 cs [x] (FindMap D x, D, todo)" using b by (auto simp: joining_def split: option.splits)
    have "set (Objects c) \<times> set (Objects c) \<subseteq> sameClass D2" using c unfolding classPairs_eq(1) [OF D2(1), symmetric] classPairs_def by blast
    from joinObjects_joining [OF start _ this, of "x' # xs"] obtain first D1 todo1 where
      j: "foldR joinObject (x' # xs) (FindMap D x, D, todo) = Inr (first, D1, todo1)" "joining D0 D2 cs (Objects c) (first, D1, todo1)"
      using 3 by auto
    have run: "mergeEquivClass (e2, c) (D, todo) = (case first of None \<Rightarrow> Inr (copyClass c D1, todo1)
         | Some e \<Rightarrow> bindR (addObjects e (Objects c) D1) (\<lambda>D2. bindR (addPrefixes e (Prefixes c) (D2, todo1)) (\<lambda>(D3, todo2).
             Inr (emplaceObjects e (Objects c) D3, todo2))))"
      using j(1) 3 by (simp add: mergeEquivClass_def)
    show ?thesis
    proof (cases first)
      case None
      then show ?thesis using j(2) copyClass_brings [OF _ c D2] unfolding run by (simp add: joining_def)
    next
      case (Some e)
      then obtain y where "bringing D0 D2 cs (D1, todo1)" "y \<in> set (Objects c)" "FindMap D1 y = Some e"
        "\<forall>z \<in> set (Objects c). FindMap D1 z = None \<or> FindMap D1 z = Some e"
        using j(2) by (auto simp: joining_def)
      from addAll_brings(1) [OF this(1) c D2 this(2-4)] show ?thesis unfolding run Some by simp
    qed
  qed
qed

lemma mergeEquivClasses_bring:
  assumes D2: "classesOk D2" "prefixesFound D2" "consistentUpTo (sameClass D2) D2"
  shows "bringing D0 D2 (set done) s \<Longrightarrow> EquivClasses D2 = done @ rest
    \<Longrightarrow> \<exists>s'. foldR mergeEquivClass rest s = Inr s' \<and> bringing D0 D2 (set (EquivClasses D2)) s'"
proof (induction rest arbitrary: "done" s)
  case (Cons ec rest)
  obtain e2 c D todo where ec: "ec = (e2, c)" "s = (D, todo)" by (cases ec, cases s) auto
  have "(e2, c) \<in> set (EquivClasses D2)" using Cons.prems(2) ec by simp
  from mergeEquivClass_brings [OF Cons.prems(1) [unfolded ec] this D2] obtain s1 where
    1: "mergeEquivClass ec s = Inr s1" "bringing D0 D2 (set (done @ [ec])) s1"
    using ec by auto
  from Cons.IH [OF 1(2)] Cons.prems(2) show ?case using 1(1) by simp
qed simp

section \<open>The whole merge\<close>

lemma mergePairs_eq:
  "classesOk D \<Longrightarrow> prefixesFound D \<Longrightarrow> \<forall>(x, y) \<in> set todo. x \<in> dom (FindMap D) \<and> y \<in> dom (FindMap D)
    \<Longrightarrow> foldO mergePair todo (ret, D) = foldO (mergeObjects mergeRecurisve) todo (ret, D)"
proof (induction todo arbitrary: ret D)
  case (Cons p todo)
  obtain x y where p: "p = (x, y)" by fastforce
  have dom: "x \<in> dom (FindMap D)" "y \<in> dom (FindMap D)" using Cons.prems(3) p by auto
  obtain ret' D' where m: "mergeObjects mergeRecurisve (x, y) (ret, D) = Some (Inr (ret @ ret', D'))" "merges D [(x, y)] ret' D'"
    using recursion.object_merges [OF TrueI Cons.prems(1,2) dom] by blast
  have "mergePair (x, y) (ret, D) = mergeObjects mergeRecurisve (x, y) (ret, D)"
    using dom by (auto simp: mergePair_def mergeObjects_def findR_def)
  moreover have "foldO mergePair todo (ret @ ret', D') = foldO (mergeObjects mergeRecurisve) todo (ret @ ret', D')"
    using Cons.prems(3) m(2) by (intro Cons.IH) (auto simp: merges_def sameTables_def)
  ultimately show ?case using m(1) p by simp
qed simp

lemma mergePairs_merge:
  assumes "classesOk D" "prefixesFound D" "\<forall>(x, y) \<in> set todo. x \<in> dom (FindMap D) \<and> y \<in> dom (FindMap D)"
  obtains ret' D' where "foldO mergePair todo ([], D) = Some (Inr (ret', D'))" "merges D todo ret' D'"
  using recursion.objects_merge [OF TrueI assms, of "[]"] mergePairs_eq [OF assms, of "[]"] that by auto

lemma mergeTables_classes:
  assumes "mergeTables D D2 = Inr (T, params)"
  shows "EquivClasses T = EquivClasses D" "nextClass T = nextClass D" "FindMap T = FindMap D"
  using assms by (auto simp: mergeTables_def InitReferencedInCalls_def Let_def)

lemma callPairs_collected:
  assumes ok: "classesOk D" and ret: "set ret \<subseteq> callPairs D"
  shows "set (fold (\<lambda>(_, c). GetFunctionsToMerge D c) (EquivClasses D) ret) = callPairs D"
proof -
  have fold: "set (fold (\<lambda>(_, c). GetFunctionsToMerge D c) cs ret) = set ret \<union> (\<Union>(e, c) \<in> set cs. set (GetFunctionsToMerge D c []))"
    for cs :: "(nat \<times> EquivClass) list" and ret
    by (induction cs arbitrary: ret) (auto simp: set_GetFunctionsToMerge)
  have same: "(f, x) \<in> sameClass D \<longleftrightarrow> (\<exists>(e, c) \<in> set (EquivClasses D). f \<in> set (Objects c) \<and> x \<in> set (Objects c))" for f x
    unfolding classPairs_eq(1) [OF ok, symmetric] classPairs_def by blast
  have "(\<Union>(e, c) \<in> set (EquivClasses D). set (GetFunctionsToMerge D c [])) = callPairs D"
    unfolding callPairs_def same set_GetFunctionsToMerge by fastforce
  then show ?thesis using ret unfolding fold by blast
qed

text \<open>
  The tables that both files have together: those of the first file after \<open>mergeTables\<close>, over the objects of both files.
\<close>

definition unitedTables :: "EquivClassContainer \<Rightarrow> EquivClassContainer \<Rightarrow> EquivClassContainer" where
  "unitedTables T D2 = T\<lparr>FindMap := FindMap D2 ++ FindMap T\<rparr>"

definition containerOk :: "EquivClassContainer \<Rightarrow> bool" where
  "containerOk D \<longleftrightarrow> classesOk D \<and> prefixesFound D \<and> consistentUpTo (sameClass D) D"

lemma brought_in:
  assumes D1: "containerOk T" and D2: "containerOk D2"
  obtains D todo where "foldR mergeEquivClass (EquivClasses D2) (T, []) = Inr (D, todo)" "classesOk D" "prefixesFound D"
    "sameTables (unitedTables T D2) D" "sameClass T \<union> sameClass D2 \<subseteq> sameClass D" "\<forall>(x, y) \<in> set todo. x \<in> dom (FindMap D) \<and> y \<in> dom (FindMap D)"
    "\<And>R. congruence (bothPrefixes T D2) R \<Longrightarrow> sameClass T \<union> sameClass D2 \<subseteq> R \<Longrightarrow> mergeInv (bothPrefixes T D2) R (set todo) D"
proof -
  have ok: "classesOk T" "prefixesFound T" "consistentUpTo (sameClass T) T" "classesOk D2" "prefixesFound D2" "consistentUpTo (sameClass D2) D2"
    using D1 D2 by (simp_all add: containerOk_def)
  have "bringing T D2 (set []) (T, [])" using bringing_start [OF ok(1-3), of T] by (simp add: sameMaps_def)
  from mergeEquivClasses_bring [OF ok(4-6) this] obtain D todo where
    r: "foldR mergeEquivClass (EquivClasses D2) (T, []) = Inr (D, todo)" "bringing T D2 (set (EquivClasses D2)) (D, todo)"
    by auto
  note D = bringingD [OF r(2)]
  have dom: "dom (FindMap D) = inBoth T D2" using D(3) unfolding inBoth_def classPairs_eq(3) [OF ok(4)] .
  have cls: "sameClass T \<union> sameClass D2 \<subseteq> sameClass D" using D(4) unfolding classPairs_eq(1) [OF ok(4)] .
  then have u: "sameClass D \<union> (set todo \<union> sameClass D2) = sameClass D \<union> set todo" by blast
  have rep: "represented (bothPrefixes T D2) (sameClass D \<union> set todo) D" using D(5) unfolding u bothPrefixes_def classPairs_eq(2) [OF ok(4)] .
  have con: "consistentUpTo (sameClass D \<union> set todo) D" using D(6) unfolding u .
  show ?thesis
  proof
    show "foldR mergeEquivClass (EquivClasses D2) (T, []) = Inr (D, todo)" "classesOk D" by (fact r(1), fact D(1))
    show "prefixesFound D" using D(8) dom unfolding prefixesFound_def by blast
    show "sameTables (unitedTables T D2) D"
      using D(2) dom by (auto simp: sameTables_maps sameMaps_def unitedTables_def inBoth_def)
    show "\<forall>(x, y) \<in> set todo. x \<in> dom (FindMap D) \<and> y \<in> dom (FindMap D)" using D(9) unfolding dom by blast
    show "mergeInv (bothPrefixes T D2) R (set todo) D" if "congruence (bothPrefixes T D2) R" "sameClass T \<union> sameClass D2 \<subseteq> R" for R
      using D(7) [OF that] rep con by (simp add: mergeInv_def)
  qed (rule cls)
qed

text \<open>
  C3: merging the alias information of two files ends; for complete tables the classes of the result are the least congruence that
  contains the classes of both files and the pairs of differently named parameters, respects the prefixes of both files and is closed
  under the bindings of the calls it resolves, and the call graph has gained exactly the edges of the calls that are resolved then.
\<close>

theorem mergeEquivalenceClasses_fixpoint:
  assumes J: "json_laws J" and doc: "docIs J json m" and D1: "containerOk D1" and D2: "containerOk D2"
    and T: "mergeTables D1 D2 = Inr (T, params)"
    and tables: "tablesOk (unitedTables T D2)" "callersKnown T m" "set params \<subseteq> inBoth D1 D2 \<times> inBoth D1 D2"
  shows "\<exists>D' json' m'. mergeEquivalenceClasses J D1 D2 json = Some (Inr (D', json'))
    \<and> sameClass D' = callAliased (bothPrefixes D1 D2) (unitedTables T D2) (sameClass D1 \<union> sameClass D2 \<union> set params)
    \<and> docIs J json' m' \<and> docExtends m (\<Union>q \<in> callPairs D'. edgesOf T q) m'"
proof -
  let ?U = "unitedTables T D2" and ?O = "bothPrefixes D1 D2" and ?base = "sameClass D1 \<union> sameClass D2 \<union> set params"
  let ?R = "callAliased ?O ?U ?base"
  note c = mergeTables_classes [OF T]
  have eqs: "sameClass T = sameClass D1" "storedPrefixes T = storedPrefixes D1" "inBoth T D2 = inBoth D1 D2" "bothPrefixes T D2 = ?O"
    using c by (simp_all add: sameClass_def storedPrefixes_def inBoth_def bothPrefixes_def)
  have okT: "containerOk T" using D1 c eqs(1,2) by (simp add: containerOk_def classesOk_def prefixesFound_def consistentUpTo_def)
  obtain D todo where b: "foldR mergeEquivClass (EquivClasses D2) (T, []) = Inr (D, todo)" "classesOk D" "prefixesFound D"
    "sameTables ?U D" "sameClass D1 \<union> sameClass D2 \<subseteq> sameClass D" "\<forall>(x, y) \<in> set todo. x \<in> dom (FindMap D) \<and> y \<in> dom (FindMap D)"
    "\<And>R. congruence ?O R \<Longrightarrow> sameClass D1 \<union> sameClass D2 \<subseteq> R \<Longrightarrow> mergeInv ?O R (set todo) D"
    using brought_in [OF okT D2] unfolding eqs by metis
  obtain ret3 D3 where m3: "foldO mergePair todo ([], D) = Some (Inr (ret3, D3))" "merges D todo ret3 D3" using mergePairs_merge [OF b(2,3,6)] by metis
  have t3: "sameTables ?U D3" using m3(2) b(4) by (simp add: merges_def sameTables_def)
  have domU: "dom (FindMap ?U) = inBoth D1 D2" using c(3) by (auto simp: unitedTables_def inBoth_def)
  have "\<forall>(x, y) \<in> set params. x \<in> dom (FindMap D3) \<and> y \<in> dom (FindMap D3)" using tables(3) t3 domU unfolding sameTables_def by auto
  from mergePairs_merge [OF _ _ this] m3(2) obtain ret4 D4 where
    m4: "foldO mergePair params ([], D3) = Some (Inr (ret4, D4))" "merges D3 params ret4 D4"
    unfolding merges_def by metis
  have t4: "sameTables ?U D4" using m4(2) t3 by (simp add: merges_def sameTables_def)
  let ?L = "fold (\<lambda>(_, c). GetFunctionsToMerge D4 c) (EquivClasses D4) ret4"
  have L: "set ?L = callPairs D4" using m4(2) by (intro callPairs_collected) (simp_all add: merges_def)
  have baseR: "?base \<subseteq> ?R" by (auto intro: callAliased.base)
  have "mergeInv ?O ?R (set todo \<union> {}) D" using b(7) [OF callAliased_congruence] baseR by simp
  then have "mergeInv ?O ?R {} D3" using m3(2) callAliased_congruence unfolding merges_def by blast
  then have "mergeInv ?O ?R (set params \<union> {}) D3" using mergeInv_more baseR by simp
  then have inv4: "mergeInv ?O ?R {} D4" using m4(2) callAliased_congruence unfolding merges_def by blast
  have tab4: "tablesOk D4" using tables(1) sameTables_known(3) [OF t4] by simp
  have "callersKnown D4 m" using tables(2) sameTables_binds(3) [OF t4] by (simp add: callersKnown_def unitedTables_def)
  then have ok4: "resolvable D4 m" using m4(2) tab4 by (simp add: resolvable_def merges_def)
  have "pairsKnown D4 (set ?L)" using callPairs_known [OF tab4] L by simp
  from mergeFunctionCalls_resolve [OF J ok4 doc this] obtain D' json' m' where
    r: "foldO (mergeFunctionCall_CG J) ?L (D4, json) = Some (Inr (D', json'))" "docIs J json' m'" "resolves D4 m (callPairs D4) D' m'"
    unfolding resolvesTo_def L by blast
  have base4: "?base \<subseteq> sameClass D4" using b(5) m3(2) m4(2) unfolding merges_def by blast
  have found: "\<forall>(x, P) \<in> ?O. PObject P \<in> dom (FindMap D4)"
    using t4 domU D1 D2 unfolding sameTables_def containerOk_def prefixesFound_def bothPrefixes_def inBoth_def by fast
  note fin = resolves_callAliased(1,2) [OF r(3) t4 base4 inv4 found]
  have "edgesOf ?U = edgesOf T" unfolding edgesOf_def unitedTables_def by simp
  then have "docExtends m (\<Union>q \<in> callPairs D'. edgesOf T q) m'" using fin(2) by simp
  moreover have "mergeEquivalenceClasses J D1 D2 json = Some (Inr (D', json'))"
    using T b(1) m3(1) m4(1) r(1) by (simp add: mergeEquivalenceClasses_def)
  ultimately show ?thesis using fin(1) r(2) by blast
qed

lemma sampleContainer_united: "mergeTables sampleContainer sampleContainer = Inr (sampleContainer, [])" "unitedTables sampleContainer sampleContainer = sampleContainer"
proof -
  show "mergeTables sampleContainer sampleContainer = Inr (sampleContainer, [])"
    by (simp add: mergeTables_def mergeFunctionInfo_def emplaceMap_def sampleContainer_def InitReferencedInCalls_def Let_def)
  have "FindMap sampleContainer ++ FindMap sampleContainer = FindMap sampleContainer" by (auto simp: map_add_def fun_eq_iff split: option.splits)
  then show "unitedTables sampleContainer sampleContainer = sampleContainer" by (simp add: unitedTables_def)
qed

theorem mergeEquivalenceClasses_fixpoint_witness:
  "\<exists>D' json' m'. mergeEquivalenceClasses json_model sampleContainer sampleContainer sampleCallDoc = Some (Inr (D', json'))
    \<and> sameClass D' = callAliased (bothPrefixes sampleContainer sampleContainer) sampleContainer
        (sameClass sampleContainer \<union> sameClass sampleContainer \<union> set [])
    \<and> docIs json_model json' m'"
proof -
  have ok: "containerOk sampleContainer" using sampleContainer_ok(3-5) by (simp add: containerOk_def)
  have tab: "tablesOk (unitedTables sampleContainer sampleContainer)" "callersKnown sampleContainer sampleCallMap"
    "set [] \<subseteq> inBoth sampleContainer sampleContainer \<times> inBoth sampleContainer sampleContainer"
    using sampleContainer_tables sampleContainer_resolvable(1) by (simp_all add: sampleContainer_united)
  from mergeEquivalenceClasses_fixpoint [OF json_model_laws sampleCallDoc_is ok ok sampleContainer_united(1) tab]
  show ?thesis unfolding sampleContainer_united(2) by blast
qed

end
