(* ===== verification/CgJson.thy ===== *)
theory CgJson
  imports CgMergeAlias
begin

text \<open>
  The JSON-level reader of \<^verbatim>\<open>cgcollector\<close> (\<^verbatim>\<open>cgcollector/lib/src/JSONManager.cpp\<close>, \<^verbatim>\<open>include/JSONManager.h\<close>) for both file formats, with the
  propagation of overrides, and \<open>mergeFileFormatOne\<close> of \<^verbatim>\<open>cgcollector/tools/CGMerge.cpp\<close>. The map of functions is shared by all files
  that are read. The JSON value of a file is a parameter.
\<close>

section \<open>The map of functions\<close>

text \<open>\<open>metaInfo\<close> holds only the entry \<open>fileProperty\<close>: the origin of the file and whether it is a system include.\<close>

record FuncInfo =
  fi_functionName :: string
  fi_isVirtual :: bool
  fi_doesOverride :: bool
  fi_numStatements :: int
  fi_hasBody :: bool
  fi_callees :: "string set"
  fi_parents :: "string set"
  fi_overriddenFunctions :: "string set"
  fi_overriddenBy :: "string set"
  fi_fileProperty :: "(string \<times> bool) option"

type_synonym FuncMapT = "(string \<times> FuncInfo) list"

definition new_FuncInfo :: FuncInfo where
  "new_FuncInfo = \<lparr>fi_functionName = ''_UNDEF_'', fi_isVirtual = False, fi_doesOverride = False, fi_numStatements = -1, fi_hasBody = False,
     fi_callees = {}, fi_parents = {}, fi_overriddenFunctions = {}, fi_overriddenBy = {}, fi_fileProperty = None\<rparr>"

definition getOrInsert :: "string \<Rightarrow> FuncMapT \<Rightarrow> FuncInfo \<times> FuncMapT" where
  "getOrInsert f functions =
     (case map_of functions f of
        Some fi \<Rightarrow> (fi, functions)
      | None \<Rightarrow> (let fi = new_FuncInfo\<lparr>fi_functionName := f\<rparr> in (fi, map_set f fi functions)))"

text \<open>\<open>operator[]\<close> of the map.\<close>

definition subFunc :: "string \<Rightarrow> FuncMapT \<Rightarrow> FuncInfo \<times> FuncMapT" where
  "subFunc f functions =
     (case map_of functions f of Some fi \<Rightarrow> (fi, functions) | None \<Rightarrow> (new_FuncInfo, map_set f new_FuncInfo functions))"

section \<open>Reading the functions of a file\<close>

definition memberInt :: "'j json_api \<Rightarrow> 'j \<Rightarrow> string \<Rightarrow> int res" where
  "memberInt J v k = bindR (j_sub J v k) (getR (get_int J))"

definition memberBool :: "'j json_api \<Rightarrow> 'j \<Rightarrow> string \<Rightarrow> bool res" where
  "memberBool J v k = bindR (j_sub J v k) (getR (get_bool J))"

definition memberSet :: "'j json_api \<Rightarrow> 'j \<Rightarrow> string \<Rightarrow> string set res" where
  "memberSet J v k = bindR (j_sub J v k) (getStringSet J)"

definition readSets :: "'j json_api \<Rightarrow> string \<Rightarrow> string \<Rightarrow> 'j \<Rightarrow> FuncInfo \<Rightarrow> FuncInfo res" where
  "readSets J overridesKey callersKey v fi =
     bindR (memberSet J v ''callees'') (\<lambda>cs.
     bindR (memberSet J v overridesKey) (\<lambda>ofs.
     bindR (memberSet J v ''overriddenBy'') (\<lambda>obs.
     bindR (memberSet J v callersKey) (\<lambda>ps.
     Inr (fi\<lparr>fi_callees := fi_callees fi \<union> cs, fi_overriddenFunctions := fi_overriddenFunctions fi \<union> ofs,
             fi_overriddenBy := fi_overriddenBy fi \<union> obs, fi_parents := fi_parents fi \<union> ps\<rparr>)))))"

definition readFunction :: "'j json_api \<Rightarrow> string \<times> 'j \<Rightarrow> FuncMapT \<Rightarrow> FuncMapT res" where
  "readFunction J = (\<lambda>(f, v) functionMap.
     let (fi0, fm) = getOrInsert f functionMap in
     bindR (memberInt J v ''numStatements'') (\<lambda>ns.
     bindR (memberBool J v ''hasBody'') (\<lambda>body.
     let fi1 = fi0\<lparr>fi_functionName := f, fi_hasBody := body\<rparr> in
     bindR (if ns > -1 then
              bindR (memberBool J v ''isVirtual'') (\<lambda>virt. bindR (memberBool J v ''doesOverride'') (\<lambda>over.
              Inr (fi1\<lparr>fi_numStatements := ns, fi_isVirtual := virt, fi_doesOverride := over\<rparr>)))
            else Inr fi1) (\<lambda>fi2.
     bindR (readSets J ''overriddenFunctions'' ''parents'' v fi2) (\<lambda>fi3.
     Inr (map_set f fi3 fm))))))"

definition readNumStmts :: "'j json_api \<Rightarrow> 'j \<Rightarrow> FuncInfo \<Rightarrow> FuncInfo res" where
  "readNumStmts J v fi = bindR (j_sub J v ''meta'') (\<lambda>m. bindR (memberInt J m ''numStatements'') (\<lambda>n. Inr (fi\<lparr>fi_numStatements := n\<rparr>)))"

definition readFileOrigin :: "'j json_api \<Rightarrow> 'j \<Rightarrow> FuncInfo \<Rightarrow> FuncInfo res" where
  "readFileOrigin J v fi =
     bindR (j_sub J v ''meta'') (\<lambda>m. bindR (j_sub J m ''fileProperties'') (\<lambda>foJson.
     if is_null J foJson then Inl (ExitCall (-1))
     else bindR (j_sub J foJson ''origin'') (\<lambda>jo. bindR (getR (get_str J) jo) (\<lambda>orig.
          bindR (memberBool J foJson ''systemInclude'') (\<lambda>sys.
          Inr (fi\<lparr>fi_fileProperty := Some (orig, sys)\<rparr>))))))"

definition readFunctionV2 :: "'j json_api \<Rightarrow> string \<times> 'j \<Rightarrow> FuncMapT \<Rightarrow> FuncMapT res" where
  "readFunctionV2 J = (\<lambda>(f, v) functionMap.
     let (fi0, fm) = getOrInsert f functionMap in
     bindR (memberBool J v ''hasBody'') (\<lambda>body.
     bindR (memberBool J v ''isVirtual'') (\<lambda>virt.
     bindR (readSets J ''overrides'' ''callers'' v (fi0\<lparr>fi_functionName := f, fi_hasBody := body, fi_isVirtual := virt\<rparr>)) (\<lambda>fi1.
     bindR (readNumStmts J v fi1) (\<lambda>fi2.
     bindR (readFileOrigin J v fi2) (\<lambda>fi3.
     Inr (map_set f fi3 fm)))))))"

section \<open>Propagating overrides\<close>

text \<open>
  The work queue: \<open>overrides[k]\<close> gets all visited functions. A function that is not in the map is inserted by \<open>operator[]\<close>;
  inserted functions are not virtual, so the loop around, which may see them, skips them.
\<close>

partial_function (option) overrideLoop :: "string list \<Rightarrow> string set \<Rightarrow> FuncMapT \<Rightarrow> (string set \<times> FuncMapT) res option" where
  "overrideLoop workQ visited fm =
     (case workQ of
        [] \<Rightarrow> Some (Inr (visited, fm))
      | nxt # rest \<Rightarrow>
          (let (fi, fm1) = subFunc nxt fm; visited1 = insert nxt visited in
           overrideLoop (rest @ filter (\<lambda>om. om \<notin> visited1) (sorted_list_of_set (fi_overriddenFunctions fi))) visited1 fm1))"

text \<open>\<open>potentialTargets\<close> and \<open>overrides\<close> map a function to the functions that override it and that it overrides.\<close>

type_synonym name_sets = "string \<Rightarrow> string set"

definition overrideStep :: "string \<Rightarrow> string \<Rightarrow> name_sets \<times> name_sets \<times> FuncMapT \<Rightarrow> (name_sets \<times> name_sets \<times> FuncMapT) res option" where
  "overrideStep k overriddenFunction = (\<lambda>(potentialTargets, ovr, fm).
     bindO (overrideLoop [overriddenFunction] {} fm) (\<lambda>(visited, fm1).
     Some (Inr (\<lambda>f. if f \<in> insert overriddenFunction visited then insert k (potentialTargets f) else potentialTargets f,
                ovr(k := ovr k \<union> visited), fm1))))"

definition overrideFunction :: "string \<times> FuncInfo \<Rightarrow> name_sets \<times> name_sets \<times> FuncMapT \<Rightarrow> (name_sets \<times> name_sets \<times> FuncMapT) res option" where
  "overrideFunction = (\<lambda>(k, funcInfo) s.
     if \<not> fi_isVirtual funcInfo then Some (Inr s)
     else if fi_doesOverride funcInfo then foldO (overrideStep k) (sorted_list_of_set (fi_overriddenFunctions funcInfo)) s
     else Some (Inr s))"

definition addOverrides :: "name_sets \<Rightarrow> name_sets \<Rightarrow> FuncMapT \<Rightarrow> FuncMapT" where
  "addOverrides potentialTargets ovr fm =
     map (\<lambda>(k, fi). (k, fi\<lparr>fi_overriddenBy := fi_overriddenBy fi \<union> potentialTargets k,
                              fi_overriddenFunctions := fi_overriddenFunctions fi \<union> ovr k\<rparr>)) fm"

definition propagateOverrides :: "FuncMapT \<Rightarrow> FuncMapT res option" where
  "propagateOverrides fm =
     bindO (foldO overrideFunction fm (\<lambda>_. {}, \<lambda>_. {}, fm)) (\<lambda>(potentialTargets, ovr, fm1).
     Some (Inr (addOverrides potentialTargets ovr fm1)))"

text \<open>Iterating over a JSON value that is no object: \<open>key()\<close> throws at the first element, if there is one.\<close>

definition members :: "'j json_api \<Rightarrow> 'j \<Rightarrow> (string \<times> 'j) list res" where
  "members J j = (if is_object J j \<or> empty J j then Inr (items J j) else Inl (RuntimeError ''invalid_iterator''))"

definition buildFromJSON :: "'j json_api \<Rightarrow> 'j \<Rightarrow> FuncMapT \<Rightarrow> FuncMapT res option" where
  "buildFromJSON J j functionMap =
     bindO (Some (bindR (members J j) (\<lambda>ms. foldR (readFunction J) ms functionMap))) propagateOverrides"

text \<open>\<open>jj["_CG"]\<close> creates the member in the complete value too.\<close>

definition buildFromJSONv2 :: "'j json_api \<Rightarrow> 'j \<Rightarrow> FuncMapT \<Rightarrow> ('j \<times> FuncMapT) res option" where
  "buildFromJSONv2 J jj functionMap =
     bindO (Some (j_sub J jj ''_CG'')) (\<lambda>j.
     bindO (Some (bindR (members J j) (\<lambda>ms. foldR (readFunctionV2 J) ms functionMap))) (\<lambda>fm.
     bindO (propagateOverrides fm) (\<lambda>fm1. Some (Inr (j, fm1)))))"

section \<open>Merging files of the first format\<close>

text \<open>Iterating over the elements of a value: an array or object has several, \<open>null\<close> none, any other value is its only element.\<close>

definition elementStrings :: "'j json_api \<Rightarrow> 'j \<Rightarrow> string list res" where
  "elementStrings J j = mapR (getR (get_str J)) (if is_array J j \<or> is_object J j \<or> is_null J j then elements J j else [j])"

definition toSet :: "'j json_api \<Rightarrow> 'j \<Rightarrow> string \<Rightarrow> string set res" where
  "toSet J jsonObj i = bindR (j_sub J jsonObj i) (\<lambda>obj. bindR (elementStrings J obj) (\<lambda>ss. Inr (set ss)))"

definition copyMember :: "'j json_api \<Rightarrow> 'j \<Rightarrow> string \<Rightarrow> 'j \<Rightarrow> 'j res" where
  "copyMember J s k t = bindR (j_const_sub J s k) (\<lambda>x. j_set J k x t)"

text \<open>
  The union of the overridden functions is computed, but not stored; reading the member of \<open>t\<close> creates it.
\<close>

definition doMerge :: "'j json_api \<Rightarrow> 'j \<Rightarrow> 'j \<Rightarrow> 'j res" where
  "doMerge J t s =
     bindR (j_const_sub J s ''callees'') (\<lambda>callees.
     bindR (toSet J t ''callees'') (\<lambda>tCallees.
     bindR (elementStrings J callees) (\<lambda>sCallees.
     bindR (j_set J ''callees'' (stringSetJson J (tCallees \<union> set sCallees)) t) (\<lambda>t1.
     bindR (j_const_sub J s ''overriddenFunctions'') (\<lambda>overriddenFuncs.
     bindR (toSet J t1 ''overriddenFunctions'') (\<lambda>_.
     bindR (j_sub J t1 ''overriddenFunctions'') (\<lambda>x.
     bindR (j_set J ''overriddenFunctions'' x t1) (\<lambda>t2.
     bindR (elementStrings J overriddenFuncs) (\<lambda>_.
     foldR (copyMember J s) [''isVirtual'', ''doesOverride'', ''hasBody''] t2)))))))))"

definition sumStatements :: "'j json_api \<Rightarrow> 'j \<Rightarrow> 'j \<Rightarrow> 'j res" where
  "sumStatements J v c =
     bindR (memberInt J c ''numStatements'') (\<lambda>n. bindR (memberInt J v ''numStatements'') (\<lambda>m.
     if n \<noteq> m then bindR (add_int32 n m) (\<lambda>s. j_set J ''numStatements'' (j_int J s) c) else Inr c))"

definition mergeBodies :: "'j json_api \<Rightarrow> 'j \<Rightarrow> 'j \<Rightarrow> 'j res" where
  "mergeBodies J v c =
     bindR (memberBool J v ''hasBody'') (\<lambda>vBody.
     if \<not> vBody then bindR (memberBool J c ''hasBody'') (\<lambda>_. Inr c)
     else bindR (memberBool J c ''hasBody'') (\<lambda>cBody.
       if cBody then bindR (doMerge J c v) (sumStatements J v)
       else bindR (doMerge J c v) (\<lambda>c1. bindR (j_sub J v ''numStatements'') (\<lambda>n. j_set J ''numStatements'' n c1))))"

definition mergeParents :: "'j json_api \<Rightarrow> 'j \<Rightarrow> 'j \<Rightarrow> 'j res" where
  "mergeParents J v c =
     bindR (memberSet J v ''parents'') (\<lambda>v_parents. bindR (memberSet J c ''parents'') (\<lambda>parents.
     j_set J ''parents'' (stringSetJson J (parents \<union> v_parents)) c))"

definition mergeFunction :: "'j json_api \<Rightarrow> string \<times> 'j \<Rightarrow> 'j \<Rightarrow> 'j res" where
  "mergeFunction J = (\<lambda>(f, v) wholeCG.
     bindR (j_sub J wholeCG f) (\<lambda>c.
     if empty J c then j_set J f v wholeCG
     else bindR (mergeBodies J v c) (\<lambda>c1. bindR (mergeParents J v c1) (\<lambda>c2. j_set J f c2 wholeCG))))"

definition mergeFile :: "'j json_api \<Rightarrow> 'j \<Rightarrow> FuncMapT \<times> 'j \<Rightarrow> (FuncMapT \<times> 'j) res option" where
  "mergeFile J current = (\<lambda>(functionInfoMap, wholeCG).
     bindO (buildFromJSON J current functionInfoMap) (\<lambda>fm.
     Some (bindR (members J current) (\<lambda>ms. bindR (foldR (mergeFunction J) ms wholeCG) (\<lambda>cg. Inr (fm, cg))))))"

definition setOverrides :: "'j json_api \<Rightarrow> FuncMapT \<Rightarrow> string \<times> 'j \<Rightarrow> 'j \<Rightarrow> 'j res" where
  "setOverrides J functionInfoMap = (\<lambda>(curFunc, jsonFunc) wholeCG.
     case map_of functionInfoMap curFunc of
       None \<Rightarrow> Inr wholeCG
     | Some fi \<Rightarrow>
         bindR (j_set J ''overriddenBy'' (stringSetJson J (fi_overriddenBy fi)) jsonFunc) (\<lambda>f1.
         bindR (j_set J ''overriddenFunctions'' (stringSetJson J (fi_overriddenFunctions fi)) f1) (\<lambda>f2.
         j_set J curFunc f2 wholeCG)))"

definition mergeFileFormatOne :: "'j json_api \<Rightarrow> 'j \<Rightarrow> 'j list \<Rightarrow> 'j res option" where
  "mergeFileFormatOne J wholeCG inputFiles =
     bindO (foldO (mergeFile J) inputFiles ([], wholeCG)) (\<lambda>(functionInfoMap, cg).
     Some (bindR (members J cg) (\<lambda>ms. foldR (setOverrides J functionInfoMap) ms cg)))"

end
