(* ===== verification/CgJson_Props.thy ===== *)
theory CgJson_Props
  imports CgJson CgMergeAlias_Props
begin

text \<open>
  The propagation of overrides: the work queue ends and visits the functions that are reachable along overridden functions, so the
  propagated sets are the transitive closure. What the second format propagates is stated next to it.
\<close>

section \<open>The work queue\<close>

definition overriddenIn :: "FuncMapT \<Rightarrow> string \<Rightarrow> string set" where
  "overriddenIn fm f = (case map_of fm f of None \<Rightarrow> {} | Some fi \<Rightarrow> fi_overriddenFunctions fi)"

definition overridesRel :: "FuncMapT \<Rightarrow> (string \<times> string) set" where
  "overridesRel fm = {(f, g). g \<in> overriddenIn fm f}"

text \<open>The functions of \<open>S\<close> that are missing are added with default values.\<close>

definition extendedBy :: "string set \<Rightarrow> FuncMapT \<Rightarrow> FuncMapT \<Rightarrow> bool" where
  "extendedBy S fm fm' \<longleftrightarrow> sorted_wrt (<) (map fst fm') \<and>
     (\<forall>f. map_of fm' f = (case map_of fm f of Some fi \<Rightarrow> Some fi | None \<Rightarrow> if f \<in> S then Some new_FuncInfo else None))"

definition finiteOverrides :: "FuncInfo \<Rightarrow> bool" where
  "finiteOverrides fi \<longleftrightarrow> finite (fi_overriddenFunctions fi) \<and> finite (fi_overriddenBy fi)"

definition wfFuncMap :: "FuncMapT \<Rightarrow> bool" where
  "wfFuncMap fm \<longleftrightarrow> sorted_wrt (<) (map fst fm) \<and> (\<forall>(f, fi) \<in> set fm. finiteOverrides fi)"

lemma wfFuncMapD: "wfFuncMap fm \<Longrightarrow> sorted_wrt (<) (map fst fm)" "wfFuncMap fm \<Longrightarrow> finite (overriddenIn fm f)"
  "wfFuncMap fm \<Longrightarrow> map_of fm f = Some fi \<Longrightarrow> finiteOverrides fi"
  by (auto simp: wfFuncMap_def overriddenIn_def finiteOverrides_def split: option.splits dest: map_of_SomeD)

lemma new_FuncInfo_simps [simp]:
  "fi_overriddenFunctions new_FuncInfo = {}" "fi_overriddenBy new_FuncInfo = {}" "\<not> fi_isVirtual new_FuncInfo" "\<not> fi_doesOverride new_FuncInfo"
  by (simp_all add: new_FuncInfo_def)

lemma extendedBy_overridden: "extendedBy S fm fm' \<Longrightarrow> overriddenIn fm' f = overriddenIn fm f"
  by (auto simp: extendedBy_def overriddenIn_def split: option.splits)

lemma extendedBy_trans: "extendedBy S fm fm1 \<Longrightarrow> extendedBy T fm1 fm2 \<Longrightarrow> extendedBy (S \<union> T) fm fm2"
  by (auto simp: extendedBy_def split: option.splits)

lemma extendedBy_refl: "sorted_wrt (<) (map fst fm) \<Longrightarrow> S \<subseteq> dom (map_of fm) \<Longrightarrow> extendedBy S fm fm"
  by (auto simp: extendedBy_def split: option.splits)

lemma subFunc_eq:
  assumes "subFunc f fm = (fi, fm1)" "sorted_wrt (<) (map fst fm)"
  shows "fi_overriddenFunctions fi = overriddenIn fm f" "extendedBy {f} fm fm1" "f \<in> dom (map_of fm1)"
  using assms by (auto simp: subFunc_def overriddenIn_def extendedBy_def map_of_map_set sorted_map_set split: option.splits)

definition universe :: "FuncMapT \<Rightarrow> string set" where
  "universe fm = (\<Union>f \<in> fst ` set fm. overriddenIn fm f)"

lemma universe_closed: "overriddenIn fm f \<subseteq> universe fm"
  by (auto simp: universe_def overriddenIn_def split: option.splits dest: map_of_SomeD)

lemma finite_universe: "wfFuncMap fm \<Longrightarrow> finite (universe fm)"
  by (auto simp: universe_def wfFuncMapD)

text \<open>
  A function that is popped again only adds functions that are not visited yet; its first visit has queued them, so the visited prefix
  of the queue gets shorter.
\<close>

lemma queue_decreases:
  assumes visited: "nxt \<in> visited" and o: "ov nxt \<subseteq> visited \<union> set (nxt # rest)" and new: "set new = ov nxt - visited"
  shows "length (takeWhile (\<lambda>f. f \<in> visited) (rest @ new)) < length (takeWhile (\<lambda>f. f \<in> visited) (nxt # rest))"
proof (cases "set rest \<subseteq> visited")
  case True
  then have "set new = {}" using o visited unfolding new by auto
  then show ?thesis using visited by simp
next
  case False
  then show ?thesis using visited by (auto simp: takeWhile_append)
qed

lemma overrideLoop_visits:
  assumes wf: "wfFuncMap fm0" and U: "finite U" "\<And>f. overriddenIn fm0 f \<subseteq> U"
    and R: "R = (overridesRel fm0)\<^sup>* `` {x}"
  shows "extendedBy S fm0 fm \<Longrightarrow> set Q \<subseteq> U \<Longrightarrow> visited \<subseteq> U \<Longrightarrow> visited \<subseteq> dom (map_of fm) \<Longrightarrow> x \<in> visited \<union> set Q \<Longrightarrow>
      visited \<union> set Q \<subseteq> R \<Longrightarrow> (\<And>f. f \<in> visited \<Longrightarrow> overriddenIn fm0 f \<subseteq> visited \<union> set Q) \<Longrightarrow>
    \<exists>fm'. overrideLoop Q visited fm = Some (Inr (R, fm')) \<and> extendedBy R fm fm'"
proof (induction "(Q, visited)" arbitrary: Q visited S fm
    rule: wf_induct_rule [OF wf_measures [of "[\<lambda>(Q, visited). card (U - visited), \<lambda>(Q, visited). length (takeWhile (\<lambda>f. f \<in> visited) Q)]"]])
  case 1
  note IH = 1(1) and ext = 1(2) and QU = 1(3) and vU = 1(4) and vdom = 1(5) and x = 1(6) and sub = 1(7) and closed = 1(8)
  have sorted: "sorted_wrt (<) (map fst fm)" using ext by (simp add: extendedBy_def)
  show ?case
  proof (cases Q)
    case Nil
    have "(x, f) \<in> (overridesRel fm0)\<^sup>* \<Longrightarrow> f \<in> visited" for f
      by (induction rule: rtrancl_induct) (use x closed Nil in \<open>auto simp: overridesRel_def\<close>)
    then have "visited = R" using sub R by auto
    then show ?thesis using Nil extendedBy_refl [OF sorted vdom] by (simp add: overrideLoop.simps)
  next
    case (Cons nxt rest)
    obtain fi fm1 where s: "subFunc nxt fm = (fi, fm1)" by fastforce
    define new where "new = filter (\<lambda>om. om \<notin> insert nxt visited) (sorted_list_of_set (fi_overriddenFunctions fi))"
    have o: "fi_overriddenFunctions fi = overriddenIn fm0 nxt" using subFunc_eq(1) [OF s sorted] extendedBy_overridden [OF ext] by simp
    have new: "set new = overriddenIn fm0 nxt - insert nxt visited" using wfFuncMapD(2) [OF wf, of nxt] by (auto simp: new_def o)
    have ext1: "extendedBy {nxt} fm fm1" by (rule subFunc_eq(2) [OF s sorted])
    have dom1: "dom (map_of fm) \<subseteq> dom (map_of fm1)" using ext1 by (auto simp: extendedBy_def dom_def split: option.splits)
    have nxtR: "nxt \<in> R" and nR: "overriddenIn fm0 nxt \<subseteq> R" using sub Cons unfolding R by (auto simp: overridesRel_def intro: rtrancl_into_rtrancl)
    have "\<exists>fm'. overrideLoop (rest @ new) (insert nxt visited) fm1 = Some (Inr (R, fm')) \<and> extendedBy R fm1 fm'"
    proof (rule IH [OF _ extendedBy_trans [OF ext ext1]])
      show "((rest @ new, insert nxt visited), Q, visited) \<in> measures [\<lambda>(Q, visited). card (U - visited), \<lambda>(Q, visited). length (takeWhile (\<lambda>f. f \<in> visited) Q)]"
      proof (cases "nxt \<in> visited")
        case True
        have n: "set new = overriddenIn fm0 nxt - visited" using new True by auto
        have "overriddenIn fm0 nxt \<subseteq> visited \<union> set (nxt # rest)" using closed [OF True] Cons by simp
        from queue_decreases [where ov = "overriddenIn fm0", OF True this n] show ?thesis using True Cons by (simp add: insert_absorb)
      next
        case False
        then have "U - insert nxt visited \<subset> U - visited" using QU Cons by auto
        then show ?thesis using U(1) by (simp add: psubset_card_mono)
      qed
      show "set (rest @ new) \<subseteq> U" "insert nxt visited \<subseteq> U" using QU vU Cons new U(2) by auto
      show "insert nxt visited \<subseteq> dom (map_of fm1)" using vdom dom1 subFunc_eq(3) [OF s sorted] by auto
      show "x \<in> insert nxt visited \<union> set (rest @ new)" using x Cons by auto
      show "insert nxt visited \<union> set (rest @ new) \<subseteq> R" using sub Cons nR nxtR new by auto
      show "overriddenIn fm0 f \<subseteq> insert nxt visited \<union> set (rest @ new)" if "f \<in> insert nxt visited" for f
        using that closed [of f] Cons new by auto
    qed
    then obtain fm' where fm': "overrideLoop (rest @ new) (insert nxt visited) fm1 = Some (Inr (R, fm'))" "extendedBy R fm1 fm'" by blast
    have "overrideLoop Q visited fm = overrideLoop (rest @ new) (insert nxt visited) fm1"
      using Cons s by (subst overrideLoop.simps) (simp add: new_def Let_def)
    moreover have "{nxt} \<union> R = R" using nxtR by auto
    ultimately show ?thesis using fm' extendedBy_trans [OF ext1 fm'(2)] by auto
  qed
qed

lemma overrideLoop_reaches:
  assumes wf: "wfFuncMap fm0" and ext: "extendedBy S fm0 fm"
  shows "\<exists>fm'. overrideLoop [x] {} fm = Some (Inr ((overridesRel fm0)\<^sup>* `` {x}, fm')) \<and> extendedBy ((overridesRel fm0)\<^sup>* `` {x}) fm fm'"
proof (rule overrideLoop_visits [OF wf _ _ refl ext, where U = "insert x (universe fm0)"])
  show "finite (insert x (universe fm0))" using finite_universe [OF wf] by simp
  show "overriddenIn fm0 f \<subseteq> insert x (universe fm0)" for f using universe_closed [of fm0 f] by auto
qed auto

section \<open>The propagated sets\<close>

text \<open>\<open>D\<close> relates a function to the functions it is known to override so far.\<close>

definition overridesAre :: "FuncMapT \<Rightarrow> (string \<times> string) set \<Rightarrow> name_sets \<times> name_sets \<times> FuncMapT \<Rightarrow> bool" where
  "overridesAre fm0 D = (\<lambda>(potentialTargets, ovr, fm).
     (\<forall>f. potentialTargets f = D\<inverse> `` {f}) \<and> (\<forall>f. ovr f = D `` {f}) \<and> extendedBy (Range D) fm0 fm)"

definition overridingIn :: "(string \<times> FuncInfo) list \<Rightarrow> string set" where
  "overridingIn fs = {f. \<exists>fi. (f, fi) \<in> set fs \<and> fi_isVirtual fi \<and> fi_doesOverride fi}"

lemma overrideStep_adds:
  assumes wf: "wfFuncMap fm0" and s: "overridesAre fm0 D s"
  shows "\<exists>s'. overrideStep k g s = Some (Inr s') \<and> overridesAre fm0 (D \<union> {k} \<times> (overridesRel fm0)\<^sup>* `` {g}) s'"
proof -
  obtain pt ovr fm where s': "s = (pt, ovr, fm)" by (cases s)
  have D: "pt f = D\<inverse> `` {f}" "ovr f = D `` {f}" "extendedBy (Range D) fm0 fm" for f using s by (simp_all add: s' overridesAre_def)
  obtain fm1 where fm1: "overrideLoop [g] {} fm = Some (Inr ((overridesRel fm0)\<^sup>* `` {g}, fm1))" "extendedBy ((overridesRel fm0)\<^sup>* `` {g}) fm fm1"
    using overrideLoop_reaches [OF wf D(3)] by blast
  have "Range (D \<union> {k} \<times> (overridesRel fm0)\<^sup>* `` {g}) = Range D \<union> (overridesRel fm0)\<^sup>* `` {g}" by auto
  then show ?thesis using fm1(1) extendedBy_trans [OF D(3) fm1(2)]
    by (auto simp: s' overrideStep_def overridesAre_def D(1,2))
qed

lemma overrideSteps_add:
  assumes wf: "wfFuncMap fm0" and s: "overridesAre fm0 D s"
  shows "\<exists>s'. foldO (overrideStep k) gs s = Some (Inr s') \<and> overridesAre fm0 (D \<union> {k} \<times> (overridesRel fm0)\<^sup>* `` set gs) s'"
proof (rule foldO_total [where P = "\<lambda>gs. overridesAre fm0 (D \<union> {k} \<times> (overridesRel fm0)\<^sup>* `` set gs)"])
  show "overridesAre fm0 (D \<union> {k} \<times> (overridesRel fm0)\<^sup>* `` set []) s" using s by simp
next
  fix xs g ys s assume "overridesAre fm0 (D \<union> {k} \<times> (overridesRel fm0)\<^sup>* `` set xs) s"
  moreover have "D \<union> {k} \<times> (overridesRel fm0)\<^sup>* `` set (xs @ [g]) = D \<union> {k} \<times> (overridesRel fm0)\<^sup>* `` set xs \<union> {k} \<times> (overridesRel fm0)\<^sup>* `` {g}"
    by auto
  ultimately show "\<exists>s'. overrideStep k g s = Some (Inr s') \<and> overridesAre fm0 (D \<union> {k} \<times> (overridesRel fm0)\<^sup>* `` set (xs @ [g])) s'"
    using overrideStep_adds [OF wf, where k = k and g = g and s = s] by simp
qed

lemma trancl_Image: "R\<^sup>* `` (R `` A) = R\<^sup>+ `` A"
  by (metis relcomp_Image trancl_unfold_left)

lemma overrideFunction_adds:
  assumes wf: "wfFuncMap fm0" and k: "(k, fi) \<in> set fm0" and s: "overridesAre fm0 D s"
  shows "\<exists>s'. overrideFunction (k, fi) s = Some (Inr s') \<and>
    overridesAre fm0 (D \<union> overridingIn [(k, fi)] \<times> UNIV \<inter> (overridesRel fm0)\<^sup>+) s'"
proof (cases "fi_isVirtual fi \<and> fi_doesOverride fi")
  case False
  then have "overrideFunction (k, fi) s = Some (Inr s)" "overridingIn [(k, fi)] = {}" by (auto simp: overrideFunction_def overridingIn_def split: prod.splits)
  then show ?thesis using s by simp
next
  case True
  have "map_of fm0 k = Some fi" using k wfFuncMapD(1) [OF wf] by (simp add: strict_sorted_iff)
  then have o: "fi_overriddenFunctions fi = overridesRel fm0 `` {k}" by (auto simp: overridesRel_def overriddenIn_def)
  have fin: "finite (fi_overriddenFunctions fi)" using wf k by (auto simp: wfFuncMap_def finiteOverrides_def)
  have eq: "D \<union> {k} \<times> (overridesRel fm0)\<^sup>* `` fi_overriddenFunctions fi = D \<union> overridingIn [(k, fi)] \<times> UNIV \<inter> (overridesRel fm0)\<^sup>+"
    using True unfolding o trancl_Image by (auto simp: overridingIn_def)
  show ?thesis using True overrideSteps_add [OF wf s, of k "sorted_list_of_set (fi_overriddenFunctions fi)"] fin unfolding eq [symmetric]
    by (simp add: overrideFunction_def)
qed

lemma overridingIn_append: "overridingIn (xs @ ys) = overridingIn xs \<union> overridingIn ys"
  by (auto simp: overridingIn_def)

text \<open>The relation that the propagation adds: the overriding functions with all functions they override.\<close>

definition propagated :: "FuncMapT \<Rightarrow> (string \<times> string) set" where
  "propagated fm = overridingIn fm \<times> UNIV \<inter> (overridesRel fm)\<^sup>+"

lemma overrides_propagated:
  assumes wf: "wfFuncMap fm"
  shows "\<exists>s. foldO overrideFunction fm (\<lambda>_. {}, \<lambda>_. {}, fm) = Some (Inr s) \<and> overridesAre fm (propagated fm) s"
  unfolding propagated_def
proof (rule foldO_total [where P = "\<lambda>fs. overridesAre fm (overridingIn fs \<times> UNIV \<inter> (overridesRel fm)\<^sup>+)"])
  show "overridesAre fm (overridingIn [] \<times> UNIV \<inter> (overridesRel fm)\<^sup>+) (\<lambda>_. {}, \<lambda>_. {}, fm)"
    using extendedBy_refl [OF wfFuncMapD(1) [OF wf], of "{}"] by (simp add: overridingIn_def overridesAre_def)
next
  fix xs x ys s assume fm: "fm = xs @ x # ys" and s: "overridesAre fm (overridingIn xs \<times> UNIV \<inter> (overridesRel fm)\<^sup>+) s"
  have "(fst x, snd x) \<in> set fm" using fm by simp
  moreover have "overridingIn (xs @ [x]) \<times> UNIV \<inter> (overridesRel fm)\<^sup>+ =
    overridingIn xs \<times> UNIV \<inter> (overridesRel fm)\<^sup>+ \<union> overridingIn [(fst x, snd x)] \<times> UNIV \<inter> (overridesRel fm)\<^sup>+"
    by (auto simp: overridingIn_append)
  ultimately show "\<exists>s'. overrideFunction x s = Some (Inr s') \<and> overridesAre fm (overridingIn (xs @ [x]) \<times> UNIV \<inter> (overridesRel fm)\<^sup>+) s'"
    using overrideFunction_adds [OF wf _ s, of "fst x" "snd x"] by simp
qed

definition withOverrides :: "(string \<times> string) set \<Rightarrow> string \<Rightarrow> FuncInfo \<Rightarrow> FuncInfo" where
  "withOverrides D f fi = fi\<lparr>fi_overriddenBy := fi_overriddenBy fi \<union> D\<inverse> `` {f}, fi_overriddenFunctions := fi_overriddenFunctions fi \<union> D `` {f}\<rparr>"

definition propagatedMap :: "FuncMapT \<Rightarrow> string \<rightharpoonup> FuncInfo" where
  "propagatedMap fm f =
     (case map_of fm f of
        Some fi \<Rightarrow> Some (withOverrides (propagated fm) f fi)
      | None \<Rightarrow> if f \<in> Range (propagated fm) then Some (withOverrides (propagated fm) f new_FuncInfo) else None)"

lemma addOverrides_map:
  assumes "\<And>f. pt f = D\<inverse> `` {f}" "\<And>f. ovr f = D `` {f}"
  shows "map_of (addOverrides pt ovr fm) f = map_option (withOverrides D f) (map_of fm f)"
    "map fst (addOverrides pt ovr fm) = map fst fm"
  by (induction fm) (auto simp: addOverrides_def withOverrides_def assms)

lemma propagateOverrides_map:
  assumes wf: "wfFuncMap fm"
  shows "\<exists>fm'. propagateOverrides fm = Some (Inr fm') \<and> sorted_wrt (<) (map fst fm') \<and> map_of fm' = propagatedMap fm"
proof -
  obtain pt ovr fm1 where s: "foldO overrideFunction fm (\<lambda>_. {}, \<lambda>_. {}, fm) = Some (Inr (pt, ovr, fm1))" "overridesAre fm (propagated fm) (pt, ovr, fm1)"
    using overrides_propagated [OF wf] by auto
  have D: "pt f = (propagated fm)\<inverse> `` {f}" "ovr f = propagated fm `` {f}" "extendedBy (Range (propagated fm)) fm fm1" for f
    using s(2) by (simp_all add: overridesAre_def)
  note m = addOverrides_map [OF D(1) D(2)]
  show ?thesis using D(3) by (auto simp: propagateOverrides_def s(1) m extendedBy_def propagatedMap_def fun_eq_iff split: option.splits)
qed

text \<open>The propagated sets are finite, so the next file can be read into the map.\<close>

lemma propagated_universe: "propagated fm `` {f} \<subseteq> universe fm"
proof -
  have "(f, g) \<in> (overridesRel fm)\<^sup>+ \<Longrightarrow> g \<in> universe fm" for g
    by (induction rule: trancl_induct) (use universe_closed in \<open>auto simp: overridesRel_def\<close>)
  then show ?thesis by (auto simp: propagated_def)
qed

lemma overriding_finite: "finite ((propagated fm)\<inverse> `` {f})"
proof (rule finite_subset)
  show "(propagated fm)\<inverse> `` {f} \<subseteq> fst ` set fm" by (force simp: propagated_def overridingIn_def)
qed simp

lemma propagatedMap_finite:
  assumes wf: "wfFuncMap fm" and f: "propagatedMap fm f = Some fi"
  shows "finiteOverrides fi"
proof -
  have fin: "finite (propagated fm `` {f})" by (rule finite_subset [OF propagated_universe finite_universe [OF wf]])
  then have "finiteOverrides (withOverrides (propagated fm) f fj)" if "finiteOverrides fj" for fj
    using that overriding_finite by (simp add: withOverrides_def finiteOverrides_def)
  moreover have "finiteOverrides new_FuncInfo" by (simp add: finiteOverrides_def)
  ultimately show ?thesis using f wfFuncMapD(3) [OF wf] by (auto simp: propagatedMap_def split: option.splits if_splits)
qed

lemma propagateOverrides_wf:
  assumes wf: "wfFuncMap fm"
  shows "\<exists>fm'. propagateOverrides fm = Some (Inr fm') \<and> wfFuncMap fm' \<and> map_of fm' = propagatedMap fm"
proof -
  obtain fm' where fm': "propagateOverrides fm = Some (Inr fm')" "sorted_wrt (<) (map fst fm')" "map_of fm' = propagatedMap fm"
    using propagateOverrides_map [OF wf] by blast
  have "finiteOverrides fi" if "(f, fi) \<in> set fm'" for f fi
    using that fm'(2) propagatedMap_finite [OF wf, of f fi] unfolding fm'(3) [symmetric] by (simp add: strict_sorted_iff)
  then show ?thesis using fm' by (auto simp: wfFuncMap_def)
qed

text \<open>For a virtual function that overrides, the propagated set is the complete one.\<close>

lemma propagated_complete:
  assumes f: "f \<in> overridingIn fm" and m: "map_of fm' = propagatedMap fm"
  shows "overriddenIn fm' f = (overridesRel fm)\<^sup>+ `` {f}"
proof -
  obtain fi where "map_of fm f = Some fi" using f by (cases "map_of fm f") (auto simp: overridingIn_def map_of_eq_None_iff image_iff)
  then have "overriddenIn fm' f = overriddenIn fm f \<union> propagated fm `` {f}"
    unfolding overriddenIn_def m by (simp add: propagatedMap_def withOverrides_def)
  also have "\<dots> = (overridesRel fm)\<^sup>+ `` {f}" using f by (auto simp: propagated_def overridesRel_def)
  finally show ?thesis .
qed

section \<open>Reading a file\<close>

lemma getStringSet_finite: "getStringSet J j = Inr S \<Longrightarrow> finite S"
  by (auto simp: getStringSet_def)

lemma memberSet_finite: "memberSet J v k = Inr S \<Longrightarrow> finite S"
  by (auto simp: memberSet_def dest: getStringSet_finite)

lemma readSets_finite: "readSets J ok ck v fi = Inr fi' \<Longrightarrow> finiteOverrides fi \<Longrightarrow> finiteOverrides fi'"
  by (auto simp: readSets_def bindR_eq_Inr_iff finiteOverrides_def dest: memberSet_finite)

lemma map_set_wf: "wfFuncMap fm \<Longrightarrow> finiteOverrides fi \<Longrightarrow> wfFuncMap (map_set f fi fm)"
  unfolding wfFuncMap_def
proof (elim conjE, intro conjI)
  assume s: "sorted_wrt (<) (map fst fm)" and fm: "\<forall>(f, fi) \<in> set fm. finiteOverrides fi" and fi: "finiteOverrides fi"
  have s': "sorted_wrt (<) (map fst (map_set f fi fm))" by (rule sorted_map_set [OF s])
  then show "sorted_wrt (<) (map fst (map_set f fi fm))" .
  have "(g, fj) \<in> set (map_set f fi fm) \<Longrightarrow> (g, fj) \<in> set fm \<or> fj = fi" for g fj
    by (metis map_of_map_set map_of_eq_Some_iff map_of_SomeD map_upd_Some_unfold s' strict_sorted_iff)
  then show "\<forall>(f, fi) \<in> set (map_set f fi fm). finiteOverrides fi" using fm fi by blast
qed

lemma getOrInsert_wf:
  assumes "getOrInsert f fm = (fi, fm1)" "wfFuncMap fm"
  shows "wfFuncMap fm1" "finiteOverrides fi"
proof -
  show "finiteOverrides fi" using assms wfFuncMapD(3) [OF assms(2), of f]
    by (auto simp: getOrInsert_def finiteOverrides_def Let_def split: option.splits)
  then show "wfFuncMap fm1" using assms by (auto simp: getOrInsert_def Let_def map_set_wf split: option.splits)
qed

lemma readFunction_wf:
  assumes "readFunction J (f, v) fm = Inr fm'" "wfFuncMap fm"
  shows "wfFuncMap fm'"
proof -
  obtain fi0 fm1 where g: "getOrInsert f fm = (fi0, fm1)" by fastforce
  have fm1: "wfFuncMap fm1" and fi: "finiteOverrides fi0" using getOrInsert_wf [OF g assms(2)] .
  have fi': "finiteOverrides (fi0\<lparr>fi_functionName := f, fi_hasBody := b\<rparr>)"
    "finiteOverrides (fi0\<lparr>fi_functionName := f, fi_hasBody := b, fi_numStatements := n, fi_isVirtual := vi, fi_doesOverride := ov\<rparr>)" for b n vi ov
    using fi by (simp_all add: finiteOverrides_def)
  show ?thesis using assms(1) fi'
    by (auto simp: readFunction_def g Let_def bindR_eq_Inr_iff split: if_splits intro!: map_set_wf [OF fm1] elim!: readSets_finite)
qed

lemma readFunctions_wf: "foldR (readFunction J) ms fm = Inr fm' \<Longrightarrow> wfFuncMap fm \<Longrightarrow> wfFuncMap fm'"
  by (rule foldR_invariant [where P = wfFuncMap]) (auto dest: readFunction_wf)

text \<open>
  C21: Reading a file of the first format always ends. It fails exactly when reading a function fails; otherwise the map has, for every
  virtual function that overrides, all functions it overrides directly or indirectly, and for every function the functions that
  override it, besides what the file says. Functions that are overridden but in no file are added with default values.
\<close>

theorem buildFromJSON_overrides:
  assumes "wfFuncMap functionMap"
  shows "case bindR (members J j) (\<lambda>ms. foldR (readFunction J) ms functionMap) of
      Inl e \<Rightarrow> buildFromJSON J j functionMap = Some (Inl e)
    | Inr fm \<Rightarrow> \<exists>fm'. buildFromJSON J j functionMap = Some (Inr fm') \<and> wfFuncMap fm' \<and> map_of fm' = propagatedMap fm \<and>
        (\<forall>f. f \<notin> overridingIn fm \<or> overriddenIn fm' f = (overridesRel fm)\<^sup>+ `` {f})"
proof (cases "bindR (members J j) (\<lambda>ms. foldR (readFunction J) ms functionMap)")
  case (Inl e)
  then show ?thesis by (simp add: buildFromJSON_def)
next
  case (Inr fm)
  then have "wfFuncMap fm" using readFunctions_wf assms by (auto simp: bindR_eq_Inr_iff)
  then obtain fm' where fm': "propagateOverrides fm = Some (Inr fm')" "wfFuncMap fm'" "map_of fm' = propagatedMap fm"
    using propagateOverrides_wf by blast
  then show ?thesis using Inr propagated_complete [OF _ fm'(3)] by (auto simp: buildFromJSON_def)
qed

definition sampleFunction :: "bool \<Rightarrow> string list \<Rightarrow> Json" where
  "sampleFunction over ofs = JObject [(''callees'', JArray []), (''doesOverride'', JBool over), (''hasBody'', JBool True), (''isVirtual'', JBool True),
     (''numStatements'', JInt 1), (''overriddenBy'', JArray []), (''overriddenFunctions'', JArray (map JStr ofs)), (''parents'', JArray [])]"

definition sampleOverrides :: Json where
  "sampleOverrides = JObject [(''a'', sampleFunction True [''b'']), (''b'', sampleFunction True [''c'']), (''c'', sampleFunction False [])]"

lemma sampleOverrides_read:
  "\<exists>fm. bindR (members json_model sampleOverrides) (\<lambda>ms. foldR (readFunction json_model) ms []) = Inr fm \<and> ''a'' \<in> overridingIn fm"
  by (simp add: members_def sampleOverrides_def sampleFunction_def json_model_def readFunction_def getOrInsert_def Let_def memberInt_def
      memberBool_def memberSet_def readSets_def j_sub_def getR_def getStringSet_def getStrings_def overridingIn_def)

lemma buildFromJSON_overrides_witness:
  "wfFuncMap [] \<and>
   (\<exists>fm fm'. bindR (members json_model sampleOverrides) (\<lambda>ms. foldR (readFunction json_model) ms []) = Inr fm \<and>
      buildFromJSON json_model sampleOverrides [] = Some (Inr fm') \<and> overriddenIn fm' ''a'' = (overridesRel fm)\<^sup>+ `` {''a''})"
proof
  show wf: "wfFuncMap []" by (simp add: wfFuncMap_def)
  obtain fm where fm: "bindR (members json_model sampleOverrides) (\<lambda>ms. foldR (readFunction json_model) ms []) = Inr fm" "''a'' \<in> overridingIn fm"
    using sampleOverrides_read by blast
  from buildFromJSON_overrides [OF wf, of json_model sampleOverrides] fm
  show "\<exists>fm fm'. bindR (members json_model sampleOverrides) (\<lambda>ms. foldR (readFunction json_model) ms []) = Inr fm \<and>
      buildFromJSON json_model sampleOverrides [] = Some (Inr fm') \<and> overriddenIn fm' ''a'' = (overridesRel fm)\<^sup>+ `` {''a''}" by auto
qed

section \<open>The second format\<close>

lemma no_override_propagation:
  assumes "overridingIn fm = {}"
  shows "propagateOverrides fm = Some (Inr fm)"
proof -
  have "foldO overrideFunction fs s = Some (Inr s)" if "overridingIn fs = {}" for fs s
    using that
  proof (induction fs)
    case (Cons p fs)
    then have "overrideFunction p s = Some (Inr s)" "overridingIn fs = {}"
      by (auto simp: overrideFunction_def overridingIn_def split: prod.splits)
    then show ?case using Cons.IH by simp
  qed simp
  then show ?thesis using assms by (simp add: propagateOverrides_def addOverrides_def)
qed

definition nothingOverrides :: "FuncMapT \<Rightarrow> bool" where
  "nothingOverrides fm \<longleftrightarrow> (\<forall>(f, fi) \<in> set fm. \<not> fi_doesOverride fi)"

lemma set_map_set: "set (map_set k v m) \<subseteq> insert (k, v) (set m)"
  by (induction k v m rule: map_set.induct) auto

lemma readFunctionV2_no_override:
  assumes "readFunctionV2 J (f, v) fm = Inr fm'" "nothingOverrides fm"
  shows "nothingOverrides fm'"
proof -
  obtain fi0 fm1 where g: "getOrInsert f fm = (fi0, fm1)" by fastforce
  have new: "nothingOverrides (map_set f fi fm)" if "\<not> fi_doesOverride fi" "nothingOverrides fm" for f fi fm
    using that set_map_set [of f fi fm] by (auto simp: nothingOverrides_def)
  have fi0: "\<not> fi_doesOverride fi0" using g assms(2)
    by (auto simp: getOrInsert_def Let_def nothingOverrides_def split: option.splits dest: map_of_SomeD)
  then have fm1: "nothingOverrides fm1" using g assms(2) new by (auto simp: getOrInsert_def Let_def split: option.splits)
  show ?thesis using assms(1) fi0
    by (auto simp: readFunctionV2_def g Let_def bindR_eq_Inr_iff readSets_def readNumStmts_def readFileOrigin_def split: if_splits intro!: new [OF _ fm1])
qed



end
