(* ===== verification/CgJson_Merge.thy ===== *)
theory CgJson_Merge
  imports CgJson_Props
begin

text \<open>
  Merging call graphs of the first format. The JSON of a function is abstracted to a record; merging two functions, two files and all
  files refines the same operations on maps from names to these records.
\<close>

section \<open>Functions as records\<close>

record FuncEntry =
  e_callees :: "string set"
  e_parents :: "string set"
  e_overridden :: "string set"
  e_overriddenBy :: "string set"
  e_virtual :: bool
  e_override :: bool
  e_body :: bool
  e_statements :: int

definition isStrings :: "'j json_api \<Rightarrow> string set \<Rightarrow> 'j \<Rightarrow> bool" where
  "isStrings J S v \<longleftrightarrow> (\<exists>xs. v = j_array J (map (j_str J) xs) \<and> set xs = S)"

definition hasStrings :: "'j json_api \<Rightarrow> (string \<times> 'j) list \<Rightarrow> string \<Rightarrow> string set \<Rightarrow> bool" where
  "hasStrings J ms k S \<longleftrightarrow> (\<exists>v. map_of ms k = Some v \<and> isStrings J S v)"

definition membersAre :: "'j json_api \<Rightarrow> (string \<times> 'j) list \<Rightarrow> FuncEntry \<Rightarrow> bool" where
  "membersAre J ms e \<longleftrightarrow> ordered_members ms
     \<and> hasStrings J ms ''callees'' (e_callees e) \<and> hasStrings J ms ''parents'' (e_parents e)
     \<and> hasStrings J ms ''overriddenFunctions'' (e_overridden e) \<and> hasStrings J ms ''overriddenBy'' (e_overriddenBy e)
     \<and> map_of ms ''isVirtual'' = Some (j_bool J (e_virtual e)) \<and> map_of ms ''doesOverride'' = Some (j_bool J (e_override e))
     \<and> map_of ms ''hasBody'' = Some (j_bool J (e_body e))
     \<and> map_of ms ''numStatements'' = Some (j_int J (e_statements e)) \<and> int32 (e_statements e)"

definition entryIs :: "'j json_api \<Rightarrow> 'j \<Rightarrow> FuncEntry \<Rightarrow> bool" where
  "entryIs J v e \<longleftrightarrow> (\<exists>ms. v = j_object J ms \<and> membersAre J ms e)"

text \<open>The first entry of a function is kept, and a later one changes it if it has a body; callers are collected from all.\<close>

definition withBody :: "FuncEntry \<Rightarrow> FuncEntry \<Rightarrow> FuncEntry" where
  "withBody v c = c\<lparr>e_callees := e_callees c \<union> e_callees v, e_virtual := e_virtual v, e_override := e_override v, e_body := e_body v\<rparr>"

definition mergedStatements :: "FuncEntry \<Rightarrow> FuncEntry \<Rightarrow> int res" where
  "mergedStatements v c =
     (if e_body c then if e_statements c \<noteq> e_statements v then add_int32 (e_statements c) (e_statements v) else Inr (e_statements c)
      else Inr (e_statements v))"

definition mergeEntries :: "FuncEntry \<Rightarrow> FuncEntry \<Rightarrow> FuncEntry res" where
  "mergeEntries v c =
     bindR (if e_body v then bindR (mergedStatements v c) (\<lambda>n. Inr ((withBody v c)\<lparr>e_statements := n\<rparr>)) else Inr c) (\<lambda>e.
     Inr (e\<lparr>e_parents := e_parents c \<union> e_parents v\<rparr>))"

section \<open>Objects\<close>

lemma object_ops:
  assumes J: "json_laws J" and ms: "ordered_members ms"
  shows "map_of ms k = Some v \<Longrightarrow> j_sub J (j_object J ms) k = Inr v" "map_of ms k = Some v \<Longrightarrow> j_const_sub J (j_object J ms) k = Inr v"
    "j_set J k w (j_object J ms) = Inr (j_object J (map_set k w ms))"
  using json_containerD(4,15,16) [OF J] json_scalarD(6) [OF J] ms by (simp_all add: j_sub_def j_const_sub_def j_set_def)

lemma mapR_strings: "json_laws J \<Longrightarrow> mapR (getR (get_str J)) (map (j_str J) ss) = Inr ss"
  by (induction ss) (simp_all add: getR_json)

lemma isStrings_read:
  assumes J: "json_laws J" and v: "isStrings J S v"
  shows "getStringSet J v = Inr S" "\<exists>ss. elementStrings J v = Inr ss \<and> set ss = S" "finite S"
  using v getStrings_array [OF J] json_containerD(2,3) [OF J] mapR_strings [OF J]
  by (auto simp: isStrings_def getStringSet_def elementStrings_def)

lemma isStrings_write: "finite S \<Longrightarrow> isStrings J S (stringSetJson J S)"
  unfolding isStrings_def stringSetJson_def by (intro exI [of _ "sorted_list_of_set S"]) simp

lemma hasStrings_set: "hasStrings J (map_set k w ms) l S \<longleftrightarrow> (if l = k then isStrings J S w else hasStrings J ms l S)"
  by (auto simp: hasStrings_def map_of_map_set)

lemma hasStrings_read:
  assumes J: "json_laws J" and ms: "ordered_members ms" and k: "hasStrings J ms k S"
  shows "memberSet J (j_object J ms) k = Inr S" "toSet J (j_object J ms) k = Inr S" "finite S"
    "\<exists>v ss. j_const_sub J (j_object J ms) k = Inr v \<and> elementStrings J v = Inr ss \<and> set ss = S"
    "\<exists>v. j_sub J (j_object J ms) k = Inr v \<and> map_of ms k = Some v \<and> isStrings J S v"
proof -
  obtain v where v: "map_of ms k = Some v" "isStrings J S v" using k unfolding hasStrings_def by blast
  note r = isStrings_read [OF J v(2)] and o = object_ops(1,2) [OF J ms v(1)]
  obtain ss where ss: "elementStrings J v = Inr ss" "set ss = S" using r(2) by blast
  show "memberSet J (j_object J ms) k = Inr S" "toSet J (j_object J ms) k = Inr S" "finite S"
    using r o ss by (simp_all add: memberSet_def toSet_def)
  show "\<exists>v ss. j_const_sub J (j_object J ms) k = Inr v \<and> elementStrings J v = Inr ss \<and> set ss = S"
    "\<exists>v. j_sub J (j_object J ms) k = Inr v \<and> map_of ms k = Some v \<and> isStrings J S v" using v o ss by blast+
qed

lemma member_reads:
  assumes J: "json_laws J" and ms: "ordered_members ms"
  shows "map_of ms k = Some (j_bool J b) \<Longrightarrow> memberBool J (j_object J ms) k = Inr b"
    "map_of ms k = Some (j_int J n) \<Longrightarrow> int32 n \<Longrightarrow> memberInt J (j_object J ms) k = Inr n"
  using object_ops(1) [OF J ms] by (simp_all add: memberBool_def memberInt_def getR_json [OF J])

lemma membersAreD:
  assumes "membersAre J ms e"
  shows "ordered_members ms" "hasStrings J ms ''callees'' (e_callees e)" "hasStrings J ms ''parents'' (e_parents e)"
    "hasStrings J ms ''overriddenFunctions'' (e_overridden e)" "hasStrings J ms ''overriddenBy'' (e_overriddenBy e)"
    "map_of ms ''isVirtual'' = Some (j_bool J (e_virtual e))" "map_of ms ''doesOverride'' = Some (j_bool J (e_override e))"
    "map_of ms ''hasBody'' = Some (j_bool J (e_body e))" "map_of ms ''numStatements'' = Some (j_int J (e_statements e))" "int32 (e_statements e)"
  using assms by (simp_all add: membersAre_def)

text \<open>Replacing one member of an object changes one field of the record.\<close>

lemma membersAre_set:
  assumes "membersAre J ms e"
  shows "isStrings J S v \<Longrightarrow> membersAre J (map_set ''callees'' v ms) (e\<lparr>e_callees := S\<rparr>)"
    "isStrings J S v \<Longrightarrow> membersAre J (map_set ''parents'' v ms) (e\<lparr>e_parents := S\<rparr>)"
    "isStrings J S v \<Longrightarrow> membersAre J (map_set ''overriddenFunctions'' v ms) (e\<lparr>e_overridden := S\<rparr>)"
    "isStrings J S v \<Longrightarrow> membersAre J (map_set ''overriddenBy'' v ms) (e\<lparr>e_overriddenBy := S\<rparr>)"
    "membersAre J (map_set ''isVirtual'' (j_bool J b) ms) (e\<lparr>e_virtual := b\<rparr>)"
    "membersAre J (map_set ''doesOverride'' (j_bool J b) ms) (e\<lparr>e_override := b\<rparr>)"
    "membersAre J (map_set ''hasBody'' (j_bool J b) ms) (e\<lparr>e_body := b\<rparr>)"
    "int32 n \<Longrightarrow> membersAre J (map_set ''numStatements'' (j_int J n) ms) (e\<lparr>e_statements := n\<rparr>)"
  using assms by (simp_all add: membersAre_def hasStrings_set map_of_map_set)

section \<open>Merging two functions\<close>

lemma doMerge_entry:
  assumes J: "json_laws J" and c: "membersAre J cs c" and v: "membersAre J vs v"
  shows "\<exists>ms. doMerge J (j_object J cs) (j_object J vs) = Inr (j_object J ms) \<and> membersAre J ms (withBody v c)"
proof -
  note C = membersAreD [OF c] and V = membersAreD [OF v]
  obtain x ss where x: "j_const_sub J (j_object J vs) ''callees'' = Inr x" "elementStrings J x = Inr ss" "set ss = e_callees v"
    using hasStrings_read(4) [OF J V(1,2)] by blast
  obtain y ts where y: "j_const_sub J (j_object J vs) ''overriddenFunctions'' = Inr y" "elementStrings J y = Inr ts"
    using hasStrings_read(4) [OF J V(1,4)] by blast
  define S where "S = e_callees c \<union> e_callees v"
  have S: "finite S" using hasStrings_read(3) [OF J C(1,2)] hasStrings_read(3) [OF J V(1,2)] by (simp add: S_def)
  define cs1 where "cs1 = map_set ''callees'' (stringSetJson J S) cs"
  have c1: "membersAre J cs1 (c\<lparr>e_callees := S\<rparr>)" unfolding cs1_def by (rule membersAre_set(1) [OF c isStrings_write [OF S]])
  note C1 = membersAreD [OF c1]
  obtain z where z: "j_sub J (j_object J cs1) ''overriddenFunctions'' = Inr z" "isStrings J (e_overridden c) z"
    using hasStrings_read(5) [OF J C1(1,4)] by auto
  define cs2 where "cs2 = map_set ''overriddenFunctions'' z cs1"
  have c2: "membersAre J cs2 (c\<lparr>e_callees := S\<rparr>)" using membersAre_set(3) [OF c1 z(2)] by (simp add: cs2_def)
  define cs3 where "cs3 = map_set ''hasBody'' (j_bool J (e_body v)) (map_set ''doesOverride'' (j_bool J (e_override v))
    (map_set ''isVirtual'' (j_bool J (e_virtual v)) cs2))"
  have c3: "membersAre J cs3 (withBody v c)"
    using membersAre_set(7) [OF membersAre_set(6) [OF membersAre_set(5) [OF c2]]] by (simp add: cs3_def withBody_def S_def)
  have ord: "ordered_members cs" "ordered_members cs1" "ordered_members cs2" "ordered_members vs"
    using C(1) C1(1) membersAreD(1) [OF c2] V(1) .
  have "foldR (copyMember J (j_object J vs)) [''isVirtual'', ''doesOverride'', ''hasBody''] (j_object J cs2) = Inr (j_object J cs3)"
    by (simp add: copyMember_def object_ops(2) [OF J ord(4)] V(6-8) object_ops(3) [OF J] ord(3) cs3_def)
  then have "doMerge J (j_object J cs) (j_object J vs) = Inr (j_object J cs3)"
    using hasStrings_read(2) [OF J C(1,2)] hasStrings_read(2) [OF J C1(1,4)] object_ops(3) [OF J ord(1)] object_ops(3) [OF J ord(2)] x y z(1)
    by (simp add: doMerge_def S_def [symmetric] cs1_def [symmetric] cs2_def [symmetric])
  then show ?thesis using c3 by blast
qed

lemma mergeBodies_entry:
  assumes J: "json_laws J" and c: "membersAre J cs c" and v: "membersAre J vs v"
  shows "case mergeEntries v c of
      Inl e \<Rightarrow> mergeBodies J (j_object J vs) (j_object J cs) = Inl e
    | Inr e \<Rightarrow> \<exists>ms. mergeBodies J (j_object J vs) (j_object J cs) = Inr (j_object J ms) \<and> membersAre J ms (e\<lparr>e_parents := e_parents c\<rparr>)"
proof -
  note C = membersAreD [OF c] and V = membersAreD [OF v]
  have b: "memberBool J (j_object J vs) ''hasBody'' = Inr (e_body v)" "memberBool J (j_object J cs) ''hasBody'' = Inr (e_body c)"
    by (rule member_reads(1) [OF J V(1) V(8)], rule member_reads(1) [OF J C(1) C(8)])
  obtain ms where ms: "doMerge J (j_object J cs) (j_object J vs) = Inr (j_object J ms)" "membersAre J ms (withBody v c)"
    using doMerge_entry [OF J c v] by blast
  note M = membersAreD [OF ms(2)]
  have n: "memberInt J (j_object J vs) ''numStatements'' = Inr (e_statements v)" "memberInt J (j_object J ms) ''numStatements'' = Inr (e_statements c)"
    using member_reads(2) [OF J V(1) V(9,10)] member_reads(2) [OF J M(1) M(9,10)] by (simp_all add: withBody_def)
  have set: "j_set J ''numStatements'' (j_int J m) (j_object J ms) = Inr (j_object J (map_set ''numStatements'' (j_int J m) ms))" for m
    by (rule object_ops(3) [OF J M(1)])
  have upd: "int32 m \<Longrightarrow> membersAre J (map_set ''numStatements'' (j_int J m) ms) ((withBody v c)\<lparr>e_statements := m\<rparr>)" for m
    by (rule membersAre_set(8) [OF ms(2)])
  have vn: "j_sub J (j_object J vs) ''numStatements'' = Inr (j_int J (e_statements v))" by (rule object_ops(1) [OF J V(1) V(9)])
  have wp: "(withBody v c)\<lparr>e_statements := m, e_parents := e_parents c\<rparr> = (withBody v c)\<lparr>e_statements := m\<rparr>" for m
    by (simp add: withBody_def)
  consider (kept) "\<not> e_body v" | (same) "e_body v" "e_body c" "e_statements v = e_statements c"
    | (sum) "e_body v" "e_body c" "e_statements c \<noteq> e_statements v" | (new) "e_body v" "\<not> e_body c" by metis
  then show ?thesis
  proof cases
    case kept
    then show ?thesis using c b by (auto simp: mergeEntries_def mergeBodies_def)
  next
    case same
    then have "withBody v c\<lparr>e_statements := e_statements c\<rparr> = withBody v c" by (simp add: withBody_def)
    then show ?thesis using same b ms n wp [of "e_statements c"] by (auto simp: mergeEntries_def mergeBodies_def mergedStatements_def sumStatements_def)
  next
    case sum
    then show ?thesis using b ms(1) n set upd wp
      by (auto simp: mergeEntries_def mergeBodies_def mergedStatements_def sumStatements_def add_int32_def)
  next
    case new
    then show ?thesis using b ms(1) vn set upd [OF V(10)] wp by (auto simp: mergeEntries_def mergeBodies_def mergedStatements_def)
  qed
qed

lemma mergeParents_entry:
  assumes J: "json_laws J" and c: "membersAre J cs c" and v: "membersAre J vs v"
  shows "\<exists>ms. mergeParents J (j_object J vs) (j_object J cs) = Inr (j_object J ms) \<and> membersAre J ms (c\<lparr>e_parents := e_parents c \<union> e_parents v\<rparr>)"
proof -
  note C = membersAreD [OF c] and V = membersAreD [OF v]
  note pc = hasStrings_read(1,3) [OF J C(1,3)] and pv = hasStrings_read(1,3) [OF J V(1,3)]
  have S: "finite (e_parents c \<union> e_parents v)" using pc pv by simp
  show ?thesis using membersAre_set(2) [OF c isStrings_write [OF S]] pc pv object_ops(3) [OF J C(1)] by (auto simp: mergeParents_def)
qed

lemma mergeEntries_parents: "mergeEntries v c = Inr e \<Longrightarrow> e_parents e = e_parents c \<union> e_parents v"
  by (auto simp: mergeEntries_def)

lemma mergeEntry_json:
  assumes J: "json_laws J" and c: "entryIs J c ce" and v: "entryIs J v ve"
  shows "case mergeEntries ve ce of
      Inl e \<Rightarrow> bindR (mergeBodies J v c) (mergeParents J v) = Inl e
    | Inr e \<Rightarrow> \<exists>c'. bindR (mergeBodies J v c) (mergeParents J v) = Inr c' \<and> entryIs J c' e"
proof -
  obtain cs vs where m: "c = j_object J cs" "membersAre J cs ce" "v = j_object J vs" "membersAre J vs ve"
    using c v unfolding entryIs_def by blast
  note b = mergeBodies_entry [OF J m(2,4)]
  show ?thesis
  proof (cases "mergeEntries ve ce")
    case (Inl e)
    then show ?thesis using b by (simp add: m(1,3))
  next
    case (Inr e)
    then obtain ms where ms: "mergeBodies J v c = Inr (j_object J ms)" "membersAre J ms (e\<lparr>e_parents := e_parents ce\<rparr>)"
      using b by (auto simp: m(1,3))
    have "e\<lparr>e_parents := e_parents ce \<union> e_parents ve\<rparr> = e" using mergeEntries_parents [OF Inr] by simp
    then show ?thesis using Inr ms(1) mergeParents_entry [OF J ms(2) m(4)] by (auto simp: m(3) entryIs_def)
  qed
qed

section \<open>The whole call graph as a map\<close>

type_synonym entry_map = "string \<rightharpoonup> FuncEntry"

definition graphIs :: "'j json_api \<Rightarrow> 'j \<Rightarrow> entry_map \<Rightarrow> bool" where
  "graphIs J cg m \<longleftrightarrow> (cg = j_null J \<and> m = Map.empty) \<or>
     (\<exists>ms. cg = j_object J ms \<and> ordered_members ms \<and> (\<forall>f. rel_option (entryIs J) (map_of ms f) (m f)))"

definition mergeInto :: "string \<times> FuncEntry \<Rightarrow> entry_map \<Rightarrow> entry_map res" where
  "mergeInto = (\<lambda>(f, v) m. case m f of None \<Rightarrow> Inr (m(f \<mapsto> v)) | Some c \<Rightarrow> bindR (mergeEntries v c) (\<lambda>e. Inr (m(f \<mapsto> e))))"

lemma entryIs_nonempty: "json_laws J \<Longrightarrow> entryIs J v e \<Longrightarrow> \<not> empty J v"
  by (auto simp: entryIs_def membersAre_def json_containerD(11))

lemma graphIs_sub:
  assumes J: "json_laws J" and g: "graphIs J cg m"
  shows "m f = Some e \<Longrightarrow> \<exists>c. j_sub J cg f = Inr c \<and> entryIs J c e" "m f = None \<Longrightarrow> j_sub J cg f = Inr (j_null J)"
proof -
  have o: "j_sub J (j_object J ms) f = Inr (case map_of ms f of None \<Rightarrow> j_null J | Some v \<Rightarrow> v)" if "ordered_members ms" for ms
    using that json_containerD(4,15) [OF J] json_scalarD(6) [OF J] by (simp add: j_sub_def)
  show "m f = Some e \<Longrightarrow> \<exists>c. j_sub J cg f = Inr c \<and> entryIs J c e"
    using g unfolding graphIs_def by (auto simp: o option_rel_Some2 dest!: spec [of _ f])
  show "m f = None \<Longrightarrow> j_sub J cg f = Inr (j_null J)"
    using g json_scalarD(1) [OF J] unfolding graphIs_def by (auto simp: o dest!: spec [of _ f]) (simp add: j_sub_def)
qed

lemma graphIs_set:
  assumes J: "json_laws J" and g: "graphIs J cg m" and v: "entryIs J v e"
  shows "\<exists>cg'. j_set J f v cg = Inr cg' \<and> graphIs J cg' (m(f \<mapsto> e))"
  using g unfolding graphIs_def [of _ cg]
proof (elim disjE exE conjE)
  assume "cg = j_null J" "m = Map.empty"
  then show ?thesis using v json_containerD(10) [OF J, of f v]
    by (intro exI [of _ "j_object J [(f, v)]"]) (auto simp: j_set_def graphIs_def intro!: exI [of _ "[(f, v)]"])
next
  fix ms assume ms: "cg = j_object J ms" "ordered_members ms" "\<forall>f. rel_option (entryIs J) (map_of ms f) (m f)"
  then have "graphIs J (j_object J (map_set f v ms)) (m(f \<mapsto> e))"
    using v unfolding graphIs_def by (intro disjI2 exI [of _ "map_set f v ms"]) (auto simp: map_of_map_set)
  then show ?thesis using ms object_ops(3) [OF J ms(2)] by auto
qed

lemma mergeFunction_json:
  assumes J: "json_laws J" and g: "graphIs J cg m" and v: "entryIs J v e"
  shows "case mergeInto (f, e) m of
      Inl x \<Rightarrow> mergeFunction J (f, v) cg = Inl x
    | Inr m' \<Rightarrow> \<exists>cg'. mergeFunction J (f, v) cg = Inr cg' \<and> graphIs J cg' m'"
proof (cases "m f")
  case None
  then show ?thesis using graphIs_sub(2) [OF J g] graphIs_set [OF J g v, of f] json_scalarD(10) [OF J]
    by (simp add: mergeInto_def mergeFunction_def)
next
  case (Some ce)
  then obtain c where c: "j_sub J cg f = Inr c" "entryIs J c ce" using graphIs_sub(1) [OF J g] by blast
  have eq: "mergeFunction J (f, v) cg = bindR (bindR (mergeBodies J v c) (mergeParents J v)) (\<lambda>c2. j_set J f c2 cg)"
    using c entryIs_nonempty [OF J c(2)] by (simp add: mergeFunction_def bindR_assoc)
  show ?thesis
  proof (cases "mergeEntries e ce")
    case (Inl x)
    then show ?thesis using mergeEntry_json [OF J c(2) v] Some by (simp add: mergeInto_def eq)
  next
    case (Inr e')
    then obtain c' where "bindR (mergeBodies J v c) (mergeParents J v) = Inr c'" "entryIs J c' e'" using mergeEntry_json [OF J c(2) v] by auto
    then show ?thesis using Inr Some graphIs_set [OF J g, of c' e' f] by (simp add: mergeInto_def eq)
  qed
qed

definition fileIs :: "'j json_api \<Rightarrow> 'j \<Rightarrow> (string \<times> FuncEntry) list \<Rightarrow> bool" where
  "fileIs J j es \<longleftrightarrow> (\<exists>ms. j = j_object J ms \<and> ordered_members ms \<and> list_all2 (\<lambda>(f, v) (g, e). f = g \<and> entryIs J v e) ms es)"

lemma mergeFunctions_json:
  assumes J: "json_laws J" and ms: "list_all2 (\<lambda>(f, v) (g, e). f = g \<and> entryIs J v e) ms es"
  shows "graphIs J cg m \<Longrightarrow> case foldR mergeInto es m of
      Inl x \<Rightarrow> foldR (mergeFunction J) ms cg = Inl x
    | Inr m' \<Rightarrow> \<exists>cg'. foldR (mergeFunction J) ms cg = Inr cg' \<and> graphIs J cg' m'"
  using ms
proof (induction ms es arbitrary: cg m rule: list_all2_induct)
  case (Cons p ms q es)
  obtain f v e where p: "p = (f, v)" "q = (f, e)" "entryIs J v e" using Cons.hyps(1) by (cases p; cases q) auto
  note one = mergeFunction_json [OF J Cons.prems p(3), of f]
  show ?case
  proof (cases "mergeInto (f, e) m")
    case (Inl x)
    then show ?thesis using one by (simp add: p)
  next
    case (Inr m')
    then obtain cg' where "mergeFunction J (f, v) cg = Inr cg'" "graphIs J cg' m'" using one by auto
    then show ?thesis using Inr Cons.IH [of cg' m'] by (cases "foldR mergeInto es m'") (simp_all add: p)
  qed
qed simp

section \<open>Reading a file never fails\<close>

lemma readFunction_entry:
  assumes J: "json_laws J" and v: "entryIs J v e"
  shows "\<exists>fm'. readFunction J (f, v) fm = Inr fm'"
proof -
  obtain ms where ms: "v = j_object J ms" "membersAre J ms e" using v unfolding entryIs_def by blast
  note M = membersAreD [OF ms(2)]
  note b = member_reads(1) [OF J M(1)] and s = hasStrings_read(1) [OF J M(1)]
  show ?thesis
    by (simp add: readFunction_def ms(1) split_beta Let_def member_reads(2) [OF J M(1) M(9,10)] b [OF M(6)] b [OF M(7)] b [OF M(8)]
        readSets_def s [OF M(2)] s [OF M(3)] s [OF M(4)] s [OF M(5)])
qed

lemma fileIs_members:
  assumes J: "json_laws J" and j: "fileIs J j es"
  shows "\<exists>ms. members J j = Inr ms \<and> list_all2 (\<lambda>(f, v) (g, e). f = g \<and> entryIs J v e) ms es"
  using j json_containerD(4,12) [OF J] by (auto simp: fileIs_def members_def)

lemma readFunctions_entries:
  assumes J: "json_laws J" and ms: "list_all2 (\<lambda>(f, v) (g, e). f = g \<and> entryIs J v e) ms es"
  shows "\<exists>fm'. foldR (readFunction J) ms fm = Inr fm'"
  using ms
proof (induction ms es arbitrary: fm rule: list_all2_induct)
  case (Cons p ms q es)
  obtain f v e where p: "p = (f, v)" "entryIs J v e" using Cons.hyps(1) by (cases p; cases q) auto
  obtain fm1 where fm1: "readFunction J (f, v) fm = Inr fm1" using readFunction_entry [OF J p(2)] by blast
  show ?case using Cons.IH [of fm1] fm1 by (simp add: p(1))
qed simp

lemma buildFromJSON_file:
  assumes J: "json_laws J" and j: "fileIs J j es" and fm: "wfFuncMap fm"
  shows "\<exists>fm'. buildFromJSON J j fm = Some (Inr fm') \<and> wfFuncMap fm'"
proof -
  obtain ms where ms: "members J j = Inr ms" "list_all2 (\<lambda>(f, v) (g, e). f = g \<and> entryIs J v e) ms es" using fileIs_members [OF J j] by blast
  obtain fm1 where fm1: "foldR (readFunction J) ms fm = Inr fm1" using readFunctions_entries [OF J ms(2)] by blast
  from propagateOverrides_wf [OF readFunctions_wf [OF fm1 fm]] show ?thesis by (auto simp: buildFromJSON_def ms(1) fm1)
qed

section \<open>Merging all files\<close>

lemma mergeFile_json:
  assumes J: "json_laws J" and j: "fileIs J j es" and fm: "wfFuncMap fm" and g: "graphIs J cg m"
  shows "\<exists>fm'. buildFromJSON J j fm = Some (Inr fm') \<and> wfFuncMap fm' \<and>
    (case foldR mergeInto es m of
       Inl x \<Rightarrow> mergeFile J j (fm, cg) = Some (Inl x)
     | Inr m' \<Rightarrow> \<exists>cg'. mergeFile J j (fm, cg) = Some (Inr (fm', cg')) \<and> graphIs J cg' m')"
proof -
  obtain fm' where fm': "buildFromJSON J j fm = Some (Inr fm')" "wfFuncMap fm'" using buildFromJSON_file [OF J j fm] by blast
  obtain ms where ms: "members J j = Inr ms" "list_all2 (\<lambda>(f, v) (g, e). f = g \<and> entryIs J v e) ms es" using fileIs_members [OF J j] by blast
  show ?thesis using fm' mergeFunctions_json [OF J ms(2) g]
    by (cases "foldR mergeInto es m") (auto simp: mergeFile_def ms(1))
qed

lemma mergeFiles_json:
  assumes J: "json_laws J" and js: "list_all2 (fileIs J) js ess"
  shows "wfFuncMap fm \<Longrightarrow> graphIs J cg m \<Longrightarrow>
    \<exists>fm'. foldO (buildFromJSON J) js fm = Some (Inr fm') \<and> wfFuncMap fm' \<and>
    (case foldR mergeInto (concat ess) m of
       Inl x \<Rightarrow> foldO (mergeFile J) js (fm, cg) = Some (Inl x)
     | Inr m' \<Rightarrow> \<exists>cg'. foldO (mergeFile J) js (fm, cg) = Some (Inr (fm', cg')) \<and> graphIs J cg' m')"
  using js
proof (induction js ess arbitrary: fm cg m rule: list_all2_induct)
  case (Cons j js es ess)
  obtain fm1 where fm1: "buildFromJSON J j fm = Some (Inr fm1)" "wfFuncMap fm1"
    and one: "case foldR mergeInto es m of
       Inl x \<Rightarrow> mergeFile J j (fm, cg) = Some (Inl x)
     | Inr m' \<Rightarrow> \<exists>cg'. mergeFile J j (fm, cg) = Some (Inr (fm1, cg')) \<and> graphIs J cg' m'"
    using mergeFile_json [OF J Cons.hyps(1) Cons.prems] by blast
  show ?case
  proof (cases "foldR mergeInto es m")
    case (Inl x)
    have "graphIs J (j_null J) Map.empty" by (simp add: graphIs_def)
    then obtain fm' where "foldO (buildFromJSON J) js fm1 = Some (Inr fm')" "wfFuncMap fm'" using Cons.IH [OF fm1(2)] by blast
    then show ?thesis using one Inl by (auto simp: foldR_append fm1(1))
  next
    case (Inr m1)
    then obtain cg1 where cg1: "mergeFile J j (fm, cg) = Some (Inr (fm1, cg1))" "graphIs J cg1 m1" using one by auto
    show ?thesis using Cons.IH [OF fm1(2) cg1(2)] cg1(1)
      by (cases "foldR mergeInto (concat ess) m1") (simp_all add: foldR_append Inr fm1(1))
  qed
qed simp

text \<open>The sets of overrides come from the map of functions.\<close>

definition finishEntry :: "FuncMapT \<Rightarrow> string \<Rightarrow> FuncEntry \<Rightarrow> FuncEntry" where
  "finishEntry fm f e =
     (case map_of fm f of
        None \<Rightarrow> e
      | Some fi \<Rightarrow> e\<lparr>e_overriddenBy := fi_overriddenBy fi, e_overridden := fi_overriddenFunctions fi\<rparr>)"

lemma setOverrides_json:
  assumes J: "json_laws J" and g: "graphIs J cg m" and v: "entryIs J v e" and fm: "wfFuncMap fm"
    and f: "m f = Some e"
  shows "\<exists>cg'. setOverrides J fm (f, v) cg = Inr cg' \<and> graphIs J cg' (m(f \<mapsto> finishEntry fm f e))"
proof (cases "map_of fm f")
  case None
  then have "m(f \<mapsto> finishEntry fm f e) = m" using f by (auto simp: finishEntry_def)
  then show ?thesis using g None by (simp add: setOverrides_def)
next
  case (Some fi)
  then have fin: "finite (fi_overriddenBy fi)" "finite (fi_overriddenFunctions fi)" using wfFuncMapD(3) [OF fm] by (auto simp: finiteOverrides_def)
  obtain ms where ms: "v = j_object J ms" "membersAre J ms e" using v unfolding entryIs_def by blast
  note m1 = membersAre_set(4) [OF ms(2) isStrings_write [OF fin(1), where J = J]]
  note m2 = membersAre_set(3) [OF m1 isStrings_write [OF fin(2), where J = J]]
  have o: "ordered_members ms" "ordered_members (map_set ''overriddenBy'' (stringSetJson J (fi_overriddenBy fi)) ms)"
    using membersAreD(1) [OF ms(2)] membersAreD(1) [OF m1] .
  define v2 where "v2 = j_object J (map_set ''overriddenFunctions'' (stringSetJson J (fi_overriddenFunctions fi))
    (map_set ''overriddenBy'' (stringSetJson J (fi_overriddenBy fi)) ms))"
  have "entryIs J v2 (finishEntry fm f e)" using m2 by (auto simp: v2_def entryIs_def finishEntry_def Some)
  then obtain cg' where "j_set J f v2 cg = Inr cg'" "graphIs J cg' (m(f \<mapsto> finishEntry fm f e))" using graphIs_set [OF J g] by blast
  then show ?thesis using object_ops(3) [OF J o(1)] object_ops(3) [OF J o(2)] by (simp add: setOverrides_def ms(1) Some v2_def)
qed

lemma graphIs_members:
  assumes J: "json_laws J" and g: "graphIs J cg m"
  shows "\<exists>ms. members J cg = Inr ms \<and> distinct (map fst ms) \<and> (\<forall>f. rel_option (entryIs J) (map_of ms f) (m f))"
  using g unfolding graphIs_def
proof (elim disjE exE conjE)
  assume "cg = j_null J" "m = Map.empty"
  then show ?thesis using json_scalarD(10) [OF J] json_containerD(7) [OF J] by (simp add: members_def)
next
  fix ms assume "cg = j_object J ms" "ordered_members ms" "\<forall>f. rel_option (entryIs J) (map_of ms f) (m f)"
  then show ?thesis using json_containerD(4,12) [OF J]
    by (intro exI [of _ ms]) (auto simp: members_def ordered_members_def strict_sorted_iff)
qed

definition finishedIn :: "FuncMapT \<Rightarrow> string set \<Rightarrow> entry_map \<Rightarrow> entry_map" where
  "finishedIn fm S m = (\<lambda>f. if f \<in> S then map_option (finishEntry fm f) (m f) else m f)"

lemma setAllOverrides_json:
  assumes J: "json_laws J" and g: "graphIs J cg m" and fm: "wfFuncMap fm"
  shows "\<exists>ms cg'. members J cg = Inr ms \<and> foldR (setOverrides J fm) ms cg = Inr cg' \<and> graphIs J cg' (finishedIn fm UNIV m)"
proof -
  obtain ms where ms: "members J cg = Inr ms" "distinct (map fst ms)" "\<And>f. rel_option (entryIs J) (map_of ms f) (m f)"
    using graphIs_members [OF J g] by blast
  have "\<exists>cg'. foldR (setOverrides J fm) ms cg = Inr cg' \<and> graphIs J cg' (finishedIn fm (fst ` set (take (length ms) ms)) m)"
  proof (rule foldR_index_total [where P = "\<lambda>k cg. graphIs J cg (finishedIn fm (fst ` set (take k ms)) m)"])
    show "graphIs J cg (finishedIn fm (fst ` set (take 0 ms)) m)" using g by (simp add: finishedIn_def)
    fix k cg1 assume k: "k < length ms" and cg1: "graphIs J cg1 (finishedIn fm (fst ` set (take k ms)) m)"
    obtain f v where p: "ms ! k = (f, v)" by fastforce
    have "map_of ms f = Some v" using ms(2) k p by (metis map_of_eq_Some_iff nth_mem)
    then obtain e where e: "m f = Some e" "entryIs J v e" using ms(3) [of f] by (auto simp: option_rel_Some1)
    have new: "f \<notin> fst ` set (take k ms)"
    proof
      assume "f \<in> fst ` set (take k ms)"
      then obtain i where "i < k" "map fst ms ! i = map fst ms ! k" using k p by (auto simp: in_set_conv_nth)
      then show False using ms(2) k by (metis distinct_conv_nth length_map less_trans nat_neq_iff)
    qed
    have "(finishedIn fm (fst ` set (take k ms)) m)(f \<mapsto> finishEntry fm f e) = finishedIn fm (fst ` set (take (Suc k) ms)) m"
      using k p e(1) by (auto simp: finishedIn_def take_Suc_conv_app_nth fun_eq_iff)
    moreover have "finishedIn fm (fst ` set (take k ms)) m f = Some e" using new e(1) by (simp add: finishedIn_def)
    ultimately show "\<exists>cg'. setOverrides J fm (ms ! k) cg1 = Inr cg' \<and> graphIs J cg' (finishedIn fm (fst ` set (take (Suc k) ms)) m)"
      using setOverrides_json [OF J cg1 e(2) fm, of f] by (simp add: p)
  qed
  moreover have "finishedIn fm (fst ` set ms) m = finishedIn fm UNIV m"
  proof
    fix f show "finishedIn fm (fst ` set ms) m f = finishedIn fm UNIV m f"
      using ms(3) [of f] by (cases "map_of ms f") (auto simp: finishedIn_def map_of_eq_None_iff dest: map_of_SomeD_key)
  qed
  ultimately show ?thesis using ms(1) by auto
qed

text \<open>
  C20: Merging call graphs of the first format always ends. Reading the files into the map of functions succeeds, and the merge fails exactly
  when a sum of statement counts overflows. Otherwise the merged call graph has the functions of all files, merged in
  order: callers from all files; callees, flags and statements of the first file and of the later ones that have a body; and the
  overrides of the map of functions.
\<close>

theorem mergeFileFormatOne_refines:
  assumes "json_laws J" and "graphIs J wholeCG m" and "list_all2 (fileIs J) inputFiles ess"
  shows "\<exists>fm. foldO (buildFromJSON J) inputFiles [] = Some (Inr fm) \<and>
    (case foldR mergeInto (concat ess) m of
       Inl x \<Rightarrow> mergeFileFormatOne J wholeCG inputFiles = Some (Inl x)
     | Inr m' \<Rightarrow> \<exists>cg. mergeFileFormatOne J wholeCG inputFiles = Some (Inr cg) \<and> graphIs J cg (\<lambda>f. map_option (finishEntry fm f) (m' f)))"
proof -
  have "wfFuncMap []" by (simp add: wfFuncMap_def)
  from mergeFiles_json [OF assms(1,3) this assms(2)]
  obtain fm where fm: "foldO (buildFromJSON J) inputFiles [] = Some (Inr fm)" "wfFuncMap fm"
    and r: "case foldR mergeInto (concat ess) m of
       Inl x \<Rightarrow> foldO (mergeFile J) inputFiles ([], wholeCG) = Some (Inl x)
     | Inr m' \<Rightarrow> \<exists>cg. foldO (mergeFile J) inputFiles ([], wholeCG) = Some (Inr (fm, cg)) \<and> graphIs J cg m'" by blast
  show ?thesis
  proof (cases "foldR mergeInto (concat ess) m")
    case (Inl x)
    then show ?thesis using fm(1) r by (simp add: mergeFileFormatOne_def)
  next
    case (Inr m')
    then obtain cg where cg: "foldO (mergeFile J) inputFiles ([], wholeCG) = Some (Inr (fm, cg))" "graphIs J cg m'" using r by auto
    from setAllOverrides_json [OF assms(1) cg(2) fm(2)]
    show ?thesis using fm(1) by (auto simp: Inr mergeFileFormatOne_def cg(1) finishedIn_def)
  qed
qed

definition sampleEntry :: "bool \<Rightarrow> string list \<Rightarrow> FuncEntry" where
  "sampleEntry over ofs = \<lparr>e_callees = {}, e_parents = {}, e_overridden = set ofs, e_overriddenBy = {}, e_virtual = True, e_override = over,
     e_body = True, e_statements = 1\<rparr>"

lemma sampleFunction_entry: "entryIs json_model (sampleFunction over ofs) (sampleEntry over ofs)"
  unfolding entryIs_def
  by (intro exI [of _ "case sampleFunction over ofs of JObject ms \<Rightarrow> ms | _ \<Rightarrow> []"])
    (auto simp: sampleFunction_def sampleEntry_def membersAre_def hasStrings_def isStrings_def json_model_def int32_def)

lemma mergeFileFormatOne_refines_witness:
  "\<exists>fm. foldO (buildFromJSON json_model) [sampleOverrides, sampleOverrides] [] = Some (Inr fm) \<and>
     (\<exists>cg. mergeFileFormatOne json_model JNull [sampleOverrides, sampleOverrides] = Some (Inr cg) \<and>
       graphIs json_model cg (\<lambda>f. map_option (finishEntry fm f)
         ([''a'' \<mapsto> sampleEntry True [''b''], ''b'' \<mapsto> sampleEntry True [''c''], ''c'' \<mapsto> sampleEntry False []] f)))"
proof -
  let ?es = "[(''a'', sampleEntry True [''b'']), (''b'', sampleEntry True [''c'']), (''c'', sampleEntry False [])]"
  have "fileIs json_model sampleOverrides ?es"
    unfolding fileIs_def by (intro exI [of _ "case sampleOverrides of JObject ms \<Rightarrow> ms | _ \<Rightarrow> []"])
      (simp add: sampleOverrides_def json_model_def sampleFunction_entry [unfolded json_model_def])
  then have js: "list_all2 (fileIs json_model) [sampleOverrides, sampleOverrides] [?es, ?es]" by simp
  have g: "graphIs json_model JNull Map.empty" by (simp add: graphIs_def json_model_def)
  have "foldR mergeInto (concat [?es, ?es]) Map.empty =
    Inr [''a'' \<mapsto> sampleEntry True [''b''], ''b'' \<mapsto> sampleEntry True [''c''], ''c'' \<mapsto> sampleEntry False []]"
    by (simp add: mergeInto_def mergeEntries_def mergedStatements_def withBody_def sampleEntry_def fun_eq_iff)
  with mergeFileFormatOne_refines [OF json_model_laws g js] show ?thesis by simp
qed

end
