(* ===== verification/GlobalCallDepth.thy ===== *)
theory GlobalCallDepth
  imports CgJson
begin

text \<open>
  The global loop depths that \<^verbatim>\<open>cgcollector\<close> computes on a merged call graph (\<^verbatim>\<open>cgcollector/lib/src/GlobalCallDepth.cpp\<close>): a search along
  all calls from the entry points that does not enter a function twice. A \<open>StringMap\<close> that is iterated is an association list in any
  order, one that is only looked up a partial map.
\<close>

section \<open>The search\<close>

type_synonym call_depths = "(string \<times> (string \<times> int) list) list"

definition lookupInt :: "(string \<rightharpoonup> int) \<Rightarrow> string \<Rightarrow> int" where
  "lookupInt m k = (case m k of None \<Rightarrow> 0 | Some d \<Rightarrow> d)"

definition raiseDepth :: "string \<Rightarrow> int \<Rightarrow> (string \<rightharpoonup> int) \<Rightarrow> string \<rightharpoonup> int" where
  "raiseDepth entry ld gld =
     gld(entry \<mapsto> (case gld entry of None \<Rightarrow> ld | Some d \<Rightarrow> max d ld))"

definition childDepth ::
  "(string \<Rightarrow> (string \<rightharpoonup> int) \<Rightarrow> (int \<times> (string \<rightharpoonup> int)) res option) \<Rightarrow> string set \<Rightarrow> string \<times> int \<Rightarrow> int \<times> (string \<rightharpoonup> int)
    \<Rightarrow> (int \<times> (string \<rightharpoonup> int)) res option" where
  "childDepth getDepth visited = (\<lambda>(child, callDepth) (maxChildDepth, gld).
     if child \<in> visited then Some (Inr (maxChildDepth, gld))
     else bindO (getDepth child gld) (\<lambda>(d, g).
          bindO (Some (add_int32 callDepth d)) (\<lambda>s. Some (Inr (max maxChildDepth s, g)))))"

text \<open>
  \<open>visited\<close> has the functions on the way: a call adds its function and removes it at the end, so the set is an argument. The depth of the
  recursion is bounded by the number of functions.
\<close>

primrec getCallDepth_depth :: "nat \<Rightarrow> call_depths \<Rightarrow> (string \<rightharpoonup> int) \<Rightarrow> string set \<Rightarrow> string \<Rightarrow> (string \<rightharpoonup> int)
    \<Rightarrow> (int \<times> (string \<rightharpoonup> int)) res option" where
  "getCallDepth_depth 0 = (\<lambda>callDepths localLoopDepth visited entry gld. None)"
| "getCallDepth_depth (Suc n) = (\<lambda>callDepths localLoopDepth visited entry gld.
     bindO (Some (case map_of callDepths entry of None \<Rightarrow> Inl AssertionFailed | Some children \<Rightarrow> Inr children)) (\<lambda>children.
     bindO (foldO (childDepth (getCallDepth_depth n callDepths localLoopDepth (insert entry visited)) (insert entry visited)) children
              (0, gld)) (\<lambda>(maxChildDepth, g).
     let ld = max maxChildDepth (lookupInt localLoopDepth entry) in Some (Inr (ld, raiseDepth entry ld g)))))"

definition getCallDepth :: "call_depths \<Rightarrow> (string \<rightharpoonup> int) \<Rightarrow> string \<Rightarrow> (string \<rightharpoonup> int) \<Rightarrow> (int \<times> (string \<rightharpoonup> int)) res option" where
  "getCallDepth callDepths localLoopDepth = getCallDepth_depth (Suc (length callDepths)) callDepths localLoopDepth {}"

section \<open>Entry points\<close>

definition emplaceAL :: "'k \<Rightarrow> 'v \<Rightarrow> ('k \<times> 'v) list \<Rightarrow> ('k \<times> 'v) list" where
  "emplaceAL k v m = (if map_of m k = None then AList.update k v m else m)"

definition markCallees :: "string \<times> (string \<times> int) list \<Rightarrow> (string \<times> bool) list \<Rightarrow> (string \<times> bool) list" where
  "markCallees = (\<lambda>(caller, callees) called.
     fold (\<lambda>(callee, _) called. if callee \<noteq> caller then AList.update callee True called else called) callees (emplaceAL caller False called))"

definition findEntryPoints :: "call_depths \<Rightarrow> bool \<Rightarrow> string list" where
  "findEntryPoints callDepths useOnlyMainEntry =
     (if \<not> useOnlyMainEntry then map fst (filter (\<lambda>(f, isCalled). \<not> isCalled) (fold markCallees callDepths []))
      else if map_of callDepths ''main'' \<noteq> None then [''main''] else [])"

definition entryDepth :: "call_depths \<Rightarrow> (string \<rightharpoonup> int) \<Rightarrow> string \<Rightarrow> (string \<rightharpoonup> int) \<Rightarrow> (string \<rightharpoonup> int) res option" where
  "entryDepth callDepths localLoopDepth entry gld =
     bindO (getCallDepth callDepths localLoopDepth entry gld) (\<lambda>(d, g). Some (Inr (g(entry \<mapsto> d))))"

definition globalDepths :: "call_depths \<Rightarrow> (string \<rightharpoonup> int) \<Rightarrow> string list \<Rightarrow> (string \<rightharpoonup> int) res option" where
  "globalDepths callDepths localLoopDepth entryPoints = foldO (entryDepth callDepths localLoopDepth) entryPoints Map.empty"

section \<open>The call graph in JSON\<close>

definition calledBy :: "string list \<Rightarrow> (string \<times> int) list \<Rightarrow> (string \<times> int) list" where
  "calledBy cs loopCallDepth =
     fold (\<lambda>(calledFunction, callDepth). AList.update calledFunction callDepth) loopCallDepth (fold (\<lambda>c. emplaceAL c 0) cs [])"

definition intItems :: "'j json_api \<Rightarrow> 'j \<Rightarrow> (string \<times> int) list res" where
  "intItems J j = mapR (\<lambda>(k, v). bindR (getR (get_int J) v) (\<lambda>n. Inr (k, n))) (items J j)"

definition readDepths :: "'j json_api \<Rightarrow> string \<times> 'j \<Rightarrow> call_depths \<times> (string \<rightharpoonup> int) \<Rightarrow> (call_depths \<times> (string \<rightharpoonup> int)) res" where
  "readDepths J = (\<lambda>(key, val) (callDepths, localLoopDepth).
     bindR (j_sub J val ''meta'') (\<lambda>metaval.
     bindR (assertR (contains J metaval ''loopDepth'')) (\<lambda>_.
     bindR (j_const_sub J metaval ''loopDepth'') (\<lambda>l. bindR (getR (get_int J) l) (\<lambda>ld.
     bindR (assertR (localLoopDepth key = None)) (\<lambda>_.
     bindR (assertR (contains J val ''callees'')) (\<lambda>_.
     bindR (j_sub J val ''callees'') (\<lambda>cs. bindR (elementStrings J cs) (\<lambda>callees.
     bindR (assertR (contains J metaval ''loopCallDepth'')) (\<lambda>_.
     bindR (j_const_sub J metaval ''loopCallDepth'') (\<lambda>ds. bindR (intItems J ds) (\<lambda>loopCallDepth.
     bindR (assertR (map_of callDepths key = None)) (\<lambda>_.
     Inr (AList.update key (calledBy callees loopCallDepth) callDepths, localLoopDepth(key \<mapsto> ld)))))))))))))))"

definition writeDepth :: "'j json_api \<Rightarrow> (string \<rightharpoonup> int) \<Rightarrow> string \<times> 'j \<Rightarrow> 'j \<Rightarrow> 'j res" where
  "writeDepth J gld = (\<lambda>(key, val) cg.
     bindR (j_sub J val ''meta'') (\<lambda>m. bindR (j_sub J m ''loopDepth'') (\<lambda>l. bindR (getR (get_int J) l) (\<lambda>ld.
     bindR (j_set J ''globalLoopDepth'' (j_int J (max (lookupInt gld key) ld)) m) (\<lambda>m'.
     bindR (j_set J ''meta'' m' val) (\<lambda>val'. j_set J key val' cg))))))"

definition calculateGlobalCallDepth :: "'j json_api \<Rightarrow> bool \<Rightarrow> 'j \<Rightarrow> 'j res option" where
  "calculateGlobalCallDepth J useOnlyMainEntry j =
     bindO (Some (j_sub J j ''_CG'')) (\<lambda>cg.
     bindO (Some (foldR (readDepths J) (items J cg) ([], Map.empty))) (\<lambda>(callDepths, localLoopDepth).
     bindO (globalDepths callDepths localLoopDepth (findEntryPoints callDepths useOnlyMainEntry)) (\<lambda>gld.
     Some (bindR (foldR (writeDepth J gld) (items J cg) cg) (\<lambda>cg'. j_set J ''_CG'' cg' j)))))"

end
