(* ===== verification/GlobalCallDepth_Props.thy ===== *)
theory GlobalCallDepth_Props
  imports GlobalCallDepth
begin

text \<open>
  The search for call depths ends and computes maxima over simple call paths: the depth of a function is that of the deepest path from
  it, its global depth that of the deepest rest of a path from an entry point.
\<close>

section \<open>Simple call paths\<close>

definition callWeight :: "call_depths \<Rightarrow> string \<Rightarrow> string \<Rightarrow> int" where
  "callWeight cds e c = (case map_of cds e of None \<Rightarrow> 0 | Some cs \<Rightarrow> lookupInt (map_of cs) c)"

definition callsFrom :: "call_depths \<Rightarrow> string \<Rightarrow> string set" where
  "callsFrom cds e = (case map_of cds e of None \<Rightarrow> {} | Some cs \<Rightarrow> fst ` set cs)"

fun callPath :: "call_depths \<Rightarrow> string list \<Rightarrow> bool" where
  "callPath cds [] \<longleftrightarrow> False"
| "callPath cds [e] \<longleftrightarrow> e \<in> fst ` set cds"
| "callPath cds (e # c # p) \<longleftrightarrow> c \<in> callsFrom cds e \<and> callPath cds (c # p)"

text \<open>The depths of the calls on a path, and the loop depth of its last function.\<close>

fun pathDepth :: "call_depths \<Rightarrow> (string \<rightharpoonup> int) \<Rightarrow> string list \<Rightarrow> int" where
  "pathDepth cds l [] = 0"
| "pathDepth cds l [e] = max 0 (lookupInt l e)"
| "pathDepth cds l (e # c # p) = callWeight cds e c + pathDepth cds l (c # p)"

definition simplePaths :: "call_depths \<Rightarrow> string set \<Rightarrow> string \<Rightarrow> string list set" where
  "simplePaths cds V e = {p. callPath cds p \<and> hd p = e \<and> distinct p \<and> set p \<inter> V = {}}"

definition suffixPaths :: "call_depths \<Rightarrow> string set \<Rightarrow> string \<Rightarrow> string \<Rightarrow> string list set" where
  "suffixPaths cds V e f = {q. q \<noteq> [] \<and> hd q = f \<and> (\<exists>p. p @ q \<in> simplePaths cds V e)}"

definition depths :: "call_depths \<Rightarrow> (string \<rightharpoonup> int) \<Rightarrow> string set \<Rightarrow> string \<Rightarrow> int set" where
  "depths cds l V e = pathDepth cds l ` simplePaths cds V e"

definition suffixDepths :: "call_depths \<Rightarrow> (string \<rightharpoonup> int) \<Rightarrow> string set \<Rightarrow> string \<Rightarrow> string \<Rightarrow> int set" where
  "suffixDepths cds l V e f = pathDepth cds l ` suffixPaths cds V e f"

definition wfDepths :: "call_depths \<Rightarrow> bool" where
  "wfDepths cds \<longleftrightarrow> distinct (map fst cds) \<and> (\<forall>(f, cs) \<in> set cds. distinct (map fst cs) \<and> fst ` set cs \<subseteq> fst ` set cds)"

definition depthsFit :: "call_depths \<Rightarrow> (string \<rightharpoonup> int) \<Rightarrow> bool" where
  "depthsFit cds l \<longleftrightarrow> (\<forall>p. callPath cds p \<longrightarrow> distinct p \<longrightarrow> int32 (pathDepth cds l p))"

lemma callPath_dom: "callPath cds p \<Longrightarrow> set p \<subseteq> fst ` set cds"
  by (induction cds p rule: callPath.induct) (auto simp: callsFrom_def split: option.splits dest: map_of_SomeD_key)

lemma callPath_nonempty: "callPath cds p \<Longrightarrow> p \<noteq> []"
  by auto

lemma finite_simplePaths: "finite (simplePaths cds V e)"
proof (rule finite_subset)
  show "simplePaths cds V e \<subseteq> {p. set p \<subseteq> fst ` set cds \<and> length p \<le> card (fst ` set cds)}"
    by (auto simp: simplePaths_def dest: callPath_dom) (metis List.finite_set callPath_dom card_mono distinct_card finite_imageI)
qed (simp add: finite_lists_length_le)

lemma simplePaths_step:
  assumes e: "e \<notin> V" "e \<in> fst ` set cds"
  shows "simplePaths cds V e = insert [e] (\<Union>c \<in> callsFrom cds e - insert e V. (#) e ` simplePaths cds (insert e V) c)"
proof (intro equalityI subsetI)
  fix p assume p: "p \<in> simplePaths cds V e"
  then obtain q where q: "p = e # q" by (cases p) (auto simp: simplePaths_def)
  show "p \<in> insert [e] (\<Union>c \<in> callsFrom cds e - insert e V. (#) e ` simplePaths cds (insert e V) c)"
  proof (cases q)
    case (Cons c r)
    then have "c \<in> callsFrom cds e - insert e V" "q \<in> simplePaths cds (insert e V) c" using p q by (auto simp: simplePaths_def)
    then show ?thesis using q by blast
  qed (simp add: q)
next
  fix p assume "p \<in> insert [e] (\<Union>c \<in> callsFrom cds e - insert e V. (#) e ` simplePaths cds (insert e V) c)"
  then consider "p = [e]" | c q where "p = e # q" "c \<in> callsFrom cds e" "q \<in> simplePaths cds (insert e V) c" by blast
  then show "p \<in> simplePaths cds V e"
  proof cases
    case 2
    then obtain r where "q = c # r" by (cases q) (auto simp: simplePaths_def)
    then show ?thesis using 2 e by (auto simp: simplePaths_def)
  qed (use e in \<open>simp add: simplePaths_def\<close>)
qed

lemma suffixPaths_step:
  assumes e: "e \<notin> V" "e \<in> fst ` set cds"
  shows "suffixPaths cds V e f = (if f = e then simplePaths cds V e else {}) \<union> (\<Union>c \<in> callsFrom cds e - insert e V. suffixPaths cds (insert e V) c f)"
proof (intro equalityI subsetI)
  fix q assume q: "q \<in> suffixPaths cds V e f"
  then obtain p where p: "q \<noteq> []" "hd q = f" "p @ q \<in> simplePaths cds V e" by (auto simp: suffixPaths_def)
  show "q \<in> (if f = e then simplePaths cds V e else {}) \<union> (\<Union>c \<in> callsFrom cds e - insert e V. suffixPaths cds (insert e V) c f)"
  proof (cases p)
    case Nil
    then show ?thesis using p by (auto simp: simplePaths_def)
  next
    case (Cons x p')
    then have "p' @ q \<noteq> []" "x = e" using p by (auto simp: simplePaths_def)
    then obtain c where "c \<in> callsFrom cds e - insert e V" "p' @ q \<in> simplePaths cds (insert e V) c"
      using p(3) Cons unfolding simplePaths_step [OF e] by auto
    then show ?thesis using p(1,2) by (auto simp: suffixPaths_def)
  qed
next
  fix q assume "q \<in> (if f = e then simplePaths cds V e else {}) \<union> (\<Union>c \<in> callsFrom cds e - insert e V. suffixPaths cds (insert e V) c f)"
  then consider "f = e" "q \<in> simplePaths cds V e" | c p where "c \<in> callsFrom cds e - insert e V" "q \<noteq> []" "hd q = f" "p @ q \<in> simplePaths cds (insert e V) c"
    by (auto simp: suffixPaths_def split: if_splits)
  then show "q \<in> suffixPaths cds V e f"
  proof cases
    case 1
    then have "[] @ q \<in> simplePaths cds V e" "q \<noteq> []" "hd q = f" by (auto simp: simplePaths_def)
    then show ?thesis unfolding suffixPaths_def by blast
  next
    case 2
    then have "(e # p) @ q \<in> simplePaths cds V e" unfolding simplePaths_step [OF e] by auto
    then show ?thesis using 2 unfolding suffixPaths_def by blast
  qed
qed

lemma finite_suffixPaths: "finite (suffixPaths cds V e f)"
proof (rule finite_subset)
  show "suffixPaths cds V e f \<subseteq> {q. set q \<subseteq> fst ` set cds \<and> length q \<le> card (fst ` set cds)}"
  proof
    fix q assume "q \<in> suffixPaths cds V e f"
    then obtain p where "callPath cds (p @ q)" "distinct (p @ q)" by (auto simp: suffixPaths_def simplePaths_def)
    then have "set q \<subseteq> fst ` set cds" "distinct q" using callPath_dom by fastforce+
    then show "q \<in> {q. set q \<subseteq> fst ` set cds \<and> length q \<le> card (fst ` set cds)}" by (auto simp: distinct_card [symmetric] intro!: card_mono)
  qed
qed (simp add: finite_lists_length_le)

lemma finite_depths: "finite (depths cds l V e)" "finite (suffixDepths cds l V e f)"
  by (simp_all add: depths_def suffixDepths_def finite_simplePaths finite_suffixPaths)

lemma pathDepth_Cons: "p \<in> simplePaths cds V c \<Longrightarrow> pathDepth cds l (e # p) = callWeight cds e c + pathDepth cds l p"
  by (cases p) (auto simp: simplePaths_def)

lemma depths_step:
  assumes e: "e \<notin> V" "e \<in> fst ` set cds"
  shows "depths cds l V e = insert (max 0 (lookupInt l e)) (\<Union>c \<in> callsFrom cds e - insert e V. (+) (callWeight cds e c) ` depths cds l (insert e V) c)"
    "suffixDepths cds l V e f = (if f = e then depths cds l V e else {}) \<union> (\<Union>c \<in> callsFrom cds e - insert e V. suffixDepths cds l (insert e V) c f)"
proof -
  have "pathDepth cds l ` (#) e ` simplePaths cds (insert e V) c = (+) (callWeight cds e c) ` depths cds l (insert e V) c" for c
    unfolding depths_def image_image by (rule image_cong [OF refl]) (rule pathDepth_Cons)
  then show "depths cds l V e = insert (max 0 (lookupInt l e)) (\<Union>c \<in> callsFrom cds e - insert e V. (+) (callWeight cds e c) ` depths cds l (insert e V) c)"
    unfolding depths_def [of _ _ V] simplePaths_step [OF e] by (simp add: image_UN)
  show "suffixDepths cds l V e f = (if f = e then depths cds l V e else {}) \<union> (\<Union>c \<in> callsFrom cds e - insert e V. suffixDepths cds l (insert e V) c f)"
    unfolding suffixDepths_def suffixPaths_step [OF e, of f] by (auto simp: depths_def)
qed

section \<open>Raising depths\<close>

definition raisedBy :: "(string \<Rightarrow> int set) \<Rightarrow> (string \<rightharpoonup> int) \<Rightarrow> string \<rightharpoonup> int" where
  "raisedBy A g f = (if A f = {} then g f else Some (case g f of None \<Rightarrow> Max (A f) | Some d \<Rightarrow> max d (Max (A f))))"

lemma raisedBy_empty [simp]: "raisedBy (\<lambda>_. {}) g = g"
  by (simp add: raisedBy_def fun_eq_iff)

lemma raisedBy_comp:
  assumes "\<And>f. finite (A f)" "\<And>f. finite (B f)"
  shows "raisedBy B (raisedBy A g) = raisedBy (\<lambda>f. A f \<union> B f) g"
proof
  fix f show "raisedBy B (raisedBy A g) f = raisedBy (\<lambda>f. A f \<union> B f) g f"
    using assms [of f] by (cases "A f = {}"; cases "B f = {}") (auto simp: raisedBy_def Max_Un max.assoc split: option.splits)
qed

lemma raiseDepth_eq: "raiseDepth e d g = raisedBy (\<lambda>f. if f = e then {d} else {}) g"
  by (auto simp: raiseDepth_def raisedBy_def fun_eq_iff split: option.splits)

lemma raisedBy_Max:
  assumes "finite D" "D \<noteq> {}" "\<And>f. finite (A f)"
  shows "raisedBy (\<lambda>f. A f \<union> (if f = e then {Max D} else {})) g = raisedBy (\<lambda>f. A f \<union> (if f = e then D else {})) g"
proof
  fix f
  have "Max (A f \<union> {Max D}) = Max (A f \<union> D)" using assms by (cases "A f = {}") (simp_all add: Max_Un del: Un_insert_right)
  then show "raisedBy (\<lambda>f. A f \<union> (if f = e then {Max D} else {})) g f = raisedBy (\<lambda>f. A f \<union> (if f = e then D else {})) g f"
    using assms(2) by (cases "f = e") (simp_all add: raisedBy_def del: Un_insert_right split: option.split)
qed

section \<open>The search\<close>

lemma wfDepths_children:
  assumes wf: "wfDepths cds" and e: "e \<in> fst ` set cds"
  obtains cs where "map_of cds e = Some cs" "distinct (map fst cs)" "fst ` set cs \<subseteq> fst ` set cds" "callsFrom cds e = fst ` set cs"
    "\<And>c w. (c, w) \<in> set cs \<Longrightarrow> callWeight cds e c = w"
proof -
  obtain cs where cs: "map_of cds e = Some cs" using e by (metis map_of_eq_None_iff option.exhaust)
  then have "(e, cs) \<in> set cds" by (rule map_of_SomeD)
  then have "case (e, cs) of (f, cs) \<Rightarrow> distinct (map fst cs) \<and> fst ` set cs \<subseteq> fst ` set cds"
    using wf unfolding wfDepths_def by (elim conjE bspec)
  then have both: "distinct (map fst cs) \<and> fst ` set cs \<subseteq> fst ` set cds" unfolding prod.case .
  note d = conjunct1 [OF both] and sub = conjunct2 [OF both]
  have calls: "callsFrom cds e = fst ` set cs" by (simp add: callsFrom_def cs)
  have "callWeight cds e c = w" if "(c, w) \<in> set cs" for c w
    using map_of_is_SomeI [OF d that] by (simp add: callWeight_def cs lookupInt_def)
  with cs d sub calls show thesis by (rule that)
qed

text \<open>The state of the loop over the children: the deepest path so far, and the raised global depths.\<close>

definition childrenDone :: "call_depths \<Rightarrow> (string \<rightharpoonup> int) \<Rightarrow> string set \<Rightarrow> string \<Rightarrow> string set \<Rightarrow> (string \<rightharpoonup> int) \<Rightarrow> int \<times> (string \<rightharpoonup> int) \<Rightarrow> bool" where
  "childrenDone cds l V e C g0 = (\<lambda>(m, g).
     m = Max (insert 0 (\<Union>c \<in> C - V. (+) (callWeight cds e c) ` depths cds l V c)) \<and> g = raisedBy (\<lambda>f. \<Union>c \<in> C - V. suffixDepths cds l V c f) g0)"

lemma depths_nonempty: "e \<notin> V \<Longrightarrow> e \<in> fst ` set cds \<Longrightarrow> depths cds l V e \<noteq> {}"
  by (subst depths_step(1)) simp_all

lemma Max_plus: "finite D \<Longrightarrow> D \<noteq> {} \<Longrightarrow> Max ((+) (w :: int) ` D) = w + Max D"
  by (rule mono_Max_commute [symmetric]) (simp_all add: mono_def)

lemma childDepth_done:
  assumes fit: "depthsFit cds l" and e: "e \<in> V" "e \<in> fst ` set cds" and c: "c \<in> callsFrom cds e" "c \<in> fst ` set cds" "callWeight cds e c = w"
    and path: "c \<notin> V \<Longrightarrow> \<forall>p \<in> simplePaths cds V c. e \<notin> set p"
    and rec: "c \<notin> V \<Longrightarrow> rec c (snd s) = Some (Inr (Max (depths cds l V c), raisedBy (suffixDepths cds l V c) (snd s)))"
    and s: "childrenDone cds l V e C g0 s" and C: "finite C"
  shows "\<exists>s'. childDepth rec V (c, w) s = Some (Inr s') \<and> childrenDone cds l V e (insert c C) g0 s'"
proof (cases "c \<in> V")
  case True
  then have "insert c C - V = C - V" by auto
  then show ?thesis using True s by (cases s) (simp add: childDepth_def childrenDone_def)
next
  case False
  obtain m g where mg: "s = (m, g)" by fastforce
  note D = finite_depths(1) [of cds l V c] depths_nonempty [OF False c(2), of l]
  obtain p where p: "p \<in> simplePaths cds V c" "Max (depths cds l V c) = pathDepth cds l p" using Max_in [OF D] by (auto simp: depths_def)
  obtain q where q: "p = c # q" using p(1) by (cases p) (auto simp: simplePaths_def)
  have "e \<notin> set p" using path [OF False] p(1) by blast
  then have "callPath cds (e # p)" "distinct (e # p)" using p(1) c(1) by (simp_all add: q simplePaths_def)
  then have fits: "int32 (w + Max (depths cds l V c))" using fit pathDepth_Cons [OF p(1), of l e] c(3) p(2) by (auto simp: depthsFit_def)
  define S where "S = (\<Union>c \<in> C - V. (+) (callWeight cds e c) ` depths cds l V c)"
  have S: "finite S" using C finite_depths(1) by (auto simp: S_def)
  have ins: "insert c C - V = insert c (C - V)" using False by auto
  have "Max (insert 0 (S \<union> (+) w ` depths cds l V c)) = max (Max (insert 0 S)) (Max ((+) w ` depths cds l V c))"
    using S D by (simp flip: Un_insert_left add: Max_Un)
  then have m: "max (Max (insert 0 S)) (w + Max (depths cds l V c)) = Max (insert 0 (S \<union> (+) w ` depths cds l V c))"
    using Max_plus [OF D] by simp
  define A where "A = (\<lambda>f. \<Union>c \<in> C - V. suffixDepths cds l V c f)"
  have g: "raisedBy (suffixDepths cds l V c) (raisedBy A g0) = raisedBy (\<lambda>f. A f \<union> suffixDepths cds l V c f) g0"
    by (rule raisedBy_comp) (use C finite_depths(2) in \<open>auto simp: A_def\<close>)
  have mg': "m = Max (insert 0 S)" "g = raisedBy A g0" using s by (simp_all add: mg childrenDone_def S_def A_def)
  have "childDepth rec V (c, w) s = Some (Inr (max m (w + Max (depths cds l V c)), raisedBy (suffixDepths cds l V c) g))"
    using False rec [OF False] fits by (simp add: mg childDepth_def add_int32_def)
  moreover have "(\<Union>c \<in> insert c (C - V). (+) (callWeight cds e c) ` depths cds l V c) = S \<union> (+) w ` depths cds l V c"
    by (simp add: S_def c(3) Un_commute)
  moreover have "(\<lambda>f. \<Union>c \<in> insert c (C - V). suffixDepths cds l V c f) = (\<lambda>f. A f \<union> suffixDepths cds l V c f)"
    by (simp add: A_def Un_commute)
  ultimately show ?thesis using m g by (simp add: childrenDone_def ins mg' A_def [symmetric])
qed

lemma getCallDepth_paths:
  assumes wf: "wfDepths cds" and fit: "depthsFit cds l"
  shows "e \<notin> V \<Longrightarrow> e \<in> fst ` set cds \<Longrightarrow> card (fst ` set cds - V) \<le> n \<Longrightarrow>
    getCallDepth_depth n cds l V e g = Some (Inr (Max (depths cds l V e), raisedBy (suffixDepths cds l V e) g))"
proof (induction n arbitrary: V e g)
  case 0
  then show ?case by (simp add: card_eq_0_iff) blast
next
  case (Suc n)
  note e = Suc.prems(1,2)
  obtain cs where cs: "map_of cds e = Some cs" "distinct (map fst cs)" "fst ` set cs \<subseteq> fst ` set cds" "callsFrom cds e = fst ` set cs"
    "\<And>c w. (c, w) \<in> set cs \<Longrightarrow> callWeight cds e c = w" using wfDepths_children [OF wf e(2)] by metis
  define V1 where "V1 = insert e V"
  have "fst ` set cds - V1 \<subset> fst ` set cds - V" using e by (auto simp: V1_def)
  then have "card (fst ` set cds - V1) < card (fst ` set cds - V)" by (simp add: psubset_card_mono)
  then have card: "card (fst ` set cds - V1) \<le> n" using Suc.prems(3) by simp
  have "\<exists>s. foldO (childDepth (getCallDepth_depth n cds l V1) V1) cs (0, g) = Some (Inr s) \<and> childrenDone cds l V1 e (fst ` set cs) g s"
  proof (rule foldO_total [where P = "\<lambda>xs. childrenDone cds l V1 e (fst ` set xs) g"])
    show "childrenDone cds l V1 e (fst ` set []) g (0, g)" by (simp add: childrenDone_def)
    fix xs x ys s assume x: "cs = xs @ x # ys" and s: "childrenDone cds l V1 e (fst ` set xs) g s"
    have c: "(fst x, snd x) \<in> set cs" "fst x \<in> fst ` set cs" using x by simp_all
    have "\<exists>s'. childDepth (getCallDepth_depth n cds l V1) V1 (fst x, snd x) s = Some (Inr s') \<and> childrenDone cds l V1 e (insert (fst x) (fst ` set xs)) g s'"
    proof (rule childDepth_done [OF fit])
      show "\<forall>p \<in> simplePaths cds V1 (fst x). e \<notin> set p" by (auto simp: simplePaths_def V1_def)
      show "getCallDepth_depth n cds l V1 (fst x) (snd s) = Some (Inr (Max (depths cds l V1 (fst x)), raisedBy (suffixDepths cds l V1 (fst x)) (snd s)))"
        if "fst x \<notin> V1" using Suc.IH [OF that _ card] c(2) cs(3) by blast
    qed (use e c cs s in \<open>auto simp: V1_def\<close>)
    then show "\<exists>s'. childDepth (getCallDepth_depth n cds l V1) V1 x s = Some (Inr s') \<and> childrenDone cds l V1 e (fst ` set (xs @ [x])) g s'" by simp
  qed
  then obtain m g1 where mg: "foldO (childDepth (getCallDepth_depth n cds l V1) V1) cs (0, g) = Some (Inr (m, g1))" "childrenDone cds l V1 e (fst ` set cs) g (m, g1)"
    by auto
  define S where "S = (\<Union>c \<in> fst ` set cs - V1. (+) (callWeight cds e c) ` depths cds l V1 c)"
  define A where "A = (\<lambda>f. \<Union>c \<in> fst ` set cs - V1. suffixDepths cds l V1 c f)"
  have fin: "finite S" "finite (A f)" for f using finite_depths by (auto simp: S_def A_def)
  have m: "m = Max (insert 0 S)" and g1: "g1 = raisedBy A g" using mg(2) by (simp_all add: childrenDone_def S_def A_def)
  have D: "depths cds l V e = insert (max 0 (lookupInt l e)) S" "suffixDepths cds l V e f = A f \<union> (if f = e then depths cds l V e else {})" for f
    using depths_step [OF e, of l] by (simp_all add: cs(4) V1_def [symmetric] S_def A_def Un_commute)
  have d: "max m (lookupInt l e) = Max (depths cds l V e)"
    using fin(1) unfolding m D(1) by (cases "S = {}") (simp_all add: max.left_commute max.commute)
  have "raiseDepth e (max m (lookupInt l e)) g1 = raisedBy (\<lambda>f. A f \<union> (if f = e then {Max (depths cds l V e)} else {})) g"
    unfolding raiseDepth_eq g1 d by (rule raisedBy_comp) (simp_all add: fin)
  also have "\<dots> = raisedBy (suffixDepths cds l V e) g"
    unfolding D(2) by (rule raisedBy_Max [OF finite_depths(1) depths_nonempty [OF e] fin(2)])
  finally show ?case using mg(1) d by (simp add: cs(1) V1_def Let_def)
qed

lemma getCallDepth_total:
  assumes "wfDepths cds" "depthsFit cds l" "e \<in> fst ` set cds"
  shows "getCallDepth cds l e g = Some (Inr (Max (depths cds l {} e), raisedBy (suffixDepths cds l {} e) g))"
proof -
  have "card (fst ` set cds - {}) \<le> Suc (length cds)" using card_length [of "map fst cds"] by simp
  then show ?thesis unfolding getCallDepth_def using assms by (intro getCallDepth_paths) auto
qed

section \<open>Entry points\<close>

definition calledByOther :: "call_depths \<Rightarrow> string \<Rightarrow> bool" where
  "calledByOther cds f \<longleftrightarrow> (\<exists>(e, cs) \<in> set cds. e \<noteq> f \<and> f \<in> fst ` set cs)"

lemma emplaceAL_lookup: "map_of (emplaceAL k v m) f = (if f = k \<and> map_of m k = None then Some v else map_of m f)"
  by (simp add: emplaceAL_def map_of_update_eq)

lemma markCallees_lookup:
  "map_of (markCallees (e, cs) m) f =
     (if e \<noteq> f \<and> f \<in> fst ` set cs then Some True else if f = e \<and> map_of m f = None then Some False else map_of m f)"
proof -
  have "map_of (fold (\<lambda>(c, _) m. if c \<noteq> e then AList.update c True m else m) cs m) f = (if e \<noteq> f \<and> f \<in> fst ` set cs then Some True else map_of m f)" for m
    by (induction cs arbitrary: m) (auto simp: map_of_update_eq)
  then show ?thesis by (auto simp: markCallees_def emplaceAL_lookup)
qed

lemma marked_lookup:
  "map_of (fold markCallees cds m) f =
     (if calledByOther cds f then Some True else if f \<in> fst ` set cds \<and> map_of m f = None then Some False else map_of m f)"
proof (induction cds arbitrary: m)
  case (Cons p cds)
  obtain e cs where p: "p = (e, cs)" by fastforce
  have c: "calledByOther ((e, cs) # cds) f \<longleftrightarrow> e \<noteq> f \<and> f \<in> fst ` set cs \<or> calledByOther cds f" by (auto simp: calledByOther_def)
  have "map_of (fold markCallees (p # cds) m) f = map_of (fold markCallees cds (markCallees (e, cs) m)) f" by (simp add: p)
  then show ?case by (cases "map_of m e") (auto simp: Cons.IH c p markCallees_lookup)
qed (simp add: calledByOther_def)

lemma markCallees_distinct: "distinct (map fst m) \<Longrightarrow> distinct (map fst (markCallees p m))"
proof -
  assume m: "distinct (map fst m)"
  obtain e cs where p: "p = (e, cs)" by fastforce
  have "distinct (map fst m) \<Longrightarrow> distinct (map fst (fold (\<lambda>(c, _) m. if c \<noteq> e then AList.update c True m else m) cs m))" for m
    by (induction cs arbitrary: m) (auto simp: distinct_keys_update)
  then show ?thesis using m by (simp add: p markCallees_def emplaceAL_def distinct_keys_update)
qed

lemma marked_distinct: "distinct (map fst m) \<Longrightarrow> distinct (map fst (fold markCallees cds m))"
  by (induction cds arbitrary: m) (simp_all add: markCallees_distinct)

lemma entryPoints_set:
  "set (findEntryPoints cds useOnlyMainEntry) =
     {f \<in> fst ` set cds. if useOnlyMainEntry then f = ''main'' else \<not> calledByOther cds f}" (is ?set)
  "distinct (findEntryPoints cds useOnlyMainEntry)"
proof -
  have d: "distinct (map fst (fold markCallees cds []))" by (rule marked_distinct) simp
  have "f \<in> fst ` {x \<in> set (fold markCallees cds []). \<not> snd x} \<longleftrightarrow> map_of (fold markCallees cds []) f = Some False" for f
    using map_of_eq_Some_iff [OF d] by force
  then have "f \<in> fst ` {x \<in> set (fold markCallees cds []). \<not> snd x} \<longleftrightarrow> f \<in> fst ` set cds \<and> \<not> calledByOther cds f" for f
    by (simp only: marked_lookup map_of.simps) simp
  then have "fst ` {x \<in> set (fold markCallees cds []). \<not> snd x} = {f \<in> fst ` set cds. \<not> calledByOther cds f}" by blast
  then show ?set by (auto simp: findEntryPoints_def split_beta map_of_eq_None_iff)
  show "distinct (findEntryPoints cds useOnlyMainEntry)" using d by (simp add: findEntryPoints_def distinct_map_filter)
qed

section \<open>Global depths\<close>

text \<open>The rest of a path from the function: nothing else reaches an entry point that only calls itself.\<close>

lemma callPath_called: "callPath cds (p @ f # q) \<Longrightarrow> distinct (p @ f # q) \<Longrightarrow> p \<noteq> [] \<Longrightarrow> wfDepths cds \<Longrightarrow> calledByOther cds f"
proof (induction cds p rule: callPath.induct)
  case (2 cds e)
  then obtain cs where "map_of cds e = Some cs" "f \<in> fst ` set cs" by (auto simp: callsFrom_def split: option.splits)
  then show ?case using 2 by (auto simp: calledByOther_def dest: map_of_SomeD)
qed auto

lemma suffixPaths_entry:
  assumes wf: "wfDepths cds" and e: "\<not> calledByOther cds e"
  shows "suffixPaths cds {} x e \<subseteq> (if x = e then simplePaths cds {} e else {})"
proof
  fix q assume "q \<in> suffixPaths cds {} x e"
  then obtain p r where q: "q = e # r" "p @ e # r \<in> simplePaths cds {} x" by (cases q) (auto simp: suffixPaths_def)
  then have "p = []" using callPath_called [OF _ _ _ wf, of p e r] e by (auto simp: simplePaths_def)
  then show "q \<in> (if x = e then simplePaths cds {} e else {})" using q by (auto simp: simplePaths_def)
qed

lemma suffixPaths_start: "suffixPaths cds V e e = simplePaths cds V e"
proof (intro equalityI subsetI)
  fix q assume "q \<in> suffixPaths cds V e e"
  then obtain p where p: "q \<noteq> []" "hd q = e" "p @ q \<in> simplePaths cds V e" by (auto simp: suffixPaths_def)
  then have "p = []" by (cases p; cases q) (auto simp: simplePaths_def)
  then show "q \<in> simplePaths cds V e" using p by simp
next
  fix q assume q: "q \<in> simplePaths cds V e"
  then have "[] @ q \<in> simplePaths cds V e" "q \<noteq> []" "hd q = e" by (auto simp: simplePaths_def)
  then show "q \<in> suffixPaths cds V e e" unfolding suffixPaths_def by blast
qed

definition entryDepths :: "call_depths \<Rightarrow> (string \<rightharpoonup> int) \<Rightarrow> string set \<Rightarrow> string \<Rightarrow> int set" where
  "entryDepths cds l E f = (\<Union>e \<in> E. suffixDepths cds l {} e f)"

lemma entryDepth_raises:
  assumes wf: "wfDepths cds" and fit: "depthsFit cds l" and e: "e \<in> fst ` set cds" "E = {} \<or> \<not> calledByOther cds e" "e \<notin> E" and E: "finite E"
  shows "entryDepth cds l e (raisedBy (entryDepths cds l E) Map.empty) = Some (Inr (raisedBy (entryDepths cds l (insert e E)) Map.empty))"
proof -
  have fin: "finite (entryDepths cds l E f)" for f using E finite_depths(2) by (simp add: entryDepths_def)
  have ins: "entryDepths cds l (insert e E) = (\<lambda>f. entryDepths cds l E f \<union> suffixDepths cds l {} e f)" by (auto simp: entryDepths_def fun_eq_iff)
  have g: "raisedBy (suffixDepths cds l {} e) (raisedBy (entryDepths cds l E) Map.empty) = raisedBy (entryDepths cds l (insert e E)) Map.empty"
    unfolding ins by (rule raisedBy_comp [OF fin finite_depths(2)])
  have "suffixDepths cds l {} e e = depths cds l {} e" by (simp add: suffixDepths_def depths_def suffixPaths_start)
  moreover have "entryDepths cds l E e = {}"
  proof (cases "E = {}")
    case False
    then have "suffixPaths cds {} x e = {}" if "x \<in> E" for x using e(2,3) that suffixPaths_entry [OF wf, of e x] by (cases "x = e") auto
    then show ?thesis by (simp add: entryDepths_def suffixDepths_def)
  qed (simp add: entryDepths_def)
  ultimately have "raisedBy (entryDepths cds l (insert e E)) Map.empty e = Some (Max (depths cds l {} e))"
    using depths_nonempty [of e "{}" cds l] e(1) by (simp add: ins raisedBy_def)
  then have "(raisedBy (entryDepths cds l (insert e E)) Map.empty)(e \<mapsto> Max (depths cds l {} e)) = raisedBy (entryDepths cds l (insert e E)) Map.empty"
    by (rule map_upd_triv)
  then show ?thesis by (simp add: entryDepth_def getCallDepth_total [OF wf fit e(1)] g)
qed

lemma globalDepths_total:
  assumes wf: "wfDepths cds" and fit: "depthsFit cds l"
    and es: "set es \<subseteq> fst ` set cds" "distinct es" "length es \<le> 1 \<or> (\<forall>e \<in> set es. \<not> calledByOther cds e)"
  shows "globalDepths cds l es = Some (Inr (raisedBy (entryDepths cds l (set es)) Map.empty))"
proof -
  have "\<exists>g. foldO (entryDepth cds l) es Map.empty = Some (Inr g) \<and> g = raisedBy (entryDepths cds l (set es)) Map.empty"
  proof (rule foldO_total [where P = "\<lambda>xs g. g = raisedBy (entryDepths cds l (set xs)) Map.empty"])
    show "Map.empty = raisedBy (entryDepths cds l (set [])) Map.empty" by (simp add: entryDepths_def raisedBy_def fun_eq_iff)
    fix xs x ys g assume x: "es = xs @ x # ys" and g: "g = raisedBy (entryDepths cds l (set xs)) Map.empty"
    have "set xs = {} \<or> \<not> calledByOther cds x" using es(3) x by (cases xs) auto
    from entryDepth_raises [OF wf fit _ this] es(1,2) x
    show "\<exists>g'. entryDepth cds l x g = Some (Inr g') \<and> g' = raisedBy (entryDepths cds l (set (xs @ [x]))) Map.empty" by (simp add: g)
  qed
  then show ?thesis by (simp add: globalDepths_def)
qed

definition entryPoint :: "call_depths \<Rightarrow> bool \<Rightarrow> string \<Rightarrow> bool" where
  "entryPoint cds useOnlyMainEntry e \<longleftrightarrow>
     e \<in> fst ` set cds \<and> (if useOnlyMainEntry then e = ''main'' else \<not> calledByOther cds e)"

text \<open>The depths of the rests from \<open>f\<close> of the simple call paths from an entry point.\<close>

definition reachedDepths :: "call_depths \<Rightarrow> (string \<rightharpoonup> int) \<Rightarrow> bool \<Rightarrow> string \<Rightarrow> int set" where
  "reachedDepths cds l useOnlyMainEntry f = {pathDepth cds l (f # q) | p q.
     callPath cds (p @ f # q) \<and> distinct (p @ f # q) \<and> entryPoint cds useOnlyMainEntry (hd (p @ [f]))}"

lemma entryDepths_reached: "entryDepths cds l {e. entryPoint cds b e} f = reachedDepths cds l b f"
proof -
  let ?P = "\<lambda>p q. callPath cds (p @ f # q) \<and> distinct (p @ f # q) \<and> entryPoint cds b (hd (p @ [f]))"
  have "(\<Union>e \<in> {e. entryPoint cds b e}. suffixPaths cds {} e f) = {f # q | p q. ?P p q}"
  proof (intro equalityI subsetI)
    fix q assume "q \<in> (\<Union>e \<in> {e. entryPoint cds b e}. suffixPaths cds {} e f)"
    then obtain e p r where q: "q = f # r" "entryPoint cds b e" "p @ f # r \<in> simplePaths cds {} e" by (cases q) (auto simp: suffixPaths_def)
    moreover from q(3) have "hd (p @ [f]) = e" by (cases p) (auto simp: simplePaths_def)
    ultimately show "q \<in> {f # q | p q. ?P p q}" by (auto simp: simplePaths_def)
  next
    fix q assume "q \<in> {f # q | p q. ?P p q}"
    then obtain p r where q: "q = f # r" "?P p r" by blast
    have "hd (p @ f # r) = hd (p @ [f])" by (cases p) simp_all
    then have "p @ q \<in> simplePaths cds {} (hd (p @ [f]))" using q by (simp add: simplePaths_def)
    then have "q \<in> suffixPaths cds {} (hd (p @ [f])) f" using q(1) by (auto simp: suffixPaths_def)
    then show "q \<in> (\<Union>e \<in> {e. entryPoint cds b e}. suffixPaths cds {} e f)" using q(2) by blast
  qed
  then have "entryDepths cds l {e. entryPoint cds b e} f = pathDepth cds l ` {f # q | p q. ?P p q}"
    by (simp add: entryDepths_def suffixDepths_def flip: image_UN)
  also have "\<dots> = reachedDepths cds l b f" unfolding reachedDepths_def by blast
  finally show ?thesis .
qed

lemma globalDepths_max:
  assumes "wfDepths cds" and "depthsFit cds l"
  shows "\<exists>g. globalDepths cds l (findEntryPoints cds b) = Some (Inr g) \<and>
    (\<forall>f. g f = (if reachedDepths cds l b f = {} then None else Some (Max (reachedDepths cds l b f))))"
proof -
  have s: "set (findEntryPoints cds b) = {e. entryPoint cds b e}" "distinct (findEntryPoints cds b)"
    using entryPoints_set [of cds b] by (auto simp: entryPoint_def)
  have "globalDepths cds l (findEntryPoints cds b) = Some (Inr (raisedBy (entryDepths cds l (set (findEntryPoints cds b))) Map.empty))"
  proof (rule globalDepths_total [OF assms])
    show "set (findEntryPoints cds b) \<subseteq> fst ` set cds" using s(1) by (auto simp: entryPoint_def)
    show "length (findEntryPoints cds b) \<le> 1 \<or> (\<forall>e \<in> set (findEntryPoints cds b). \<not> calledByOther cds e)"
      unfolding s(1) by (cases b) (auto simp: findEntryPoints_def entryPoint_def)
  qed (rule s(2))
  then show ?thesis unfolding s(1) by (simp add: raisedBy_def entryDepths_reached)
qed

end
