(* ===== verification/GlobalCallDepth_Json.thy ===== *)
theory GlobalCallDepth_Json
  imports GlobalCallDepth_Props CgJson_Merge
begin

text \<open>
  The global loop depths in the JSON call graph: what is read from a well-formed call graph, and what \<open>calculateGlobalCallDepth\<close> writes
  into it.
\<close>

section \<open>Call graphs with loop depths\<close>

text \<open>A function has a loop depth, callees, and the depths of some of its calls.\<close>

type_synonym depth_entry = "int \<times> string list \<times> (string \<times> int) list"

definition intMembers :: "'j json_api \<Rightarrow> (string \<times> int) list \<Rightarrow> (string \<times> 'j) list" where
  "intMembers J = map (\<lambda>(k, n). (k, j_int J n))"

definition depthsOf :: "'j json_api \<Rightarrow> 'j \<Rightarrow> depth_entry \<Rightarrow> bool" where
  "depthsOf J v = (\<lambda>(d, cs, ds). \<exists>vs ms. v = j_object J vs \<and> ordered_members vs \<and> map_of vs ''meta'' = Some (j_object J ms)
     \<and> map_of vs ''callees'' = Some (j_array J (map (j_str J) cs)) \<and> ordered_members ms
     \<and> map_of ms ''loopDepth'' = Some (j_int J d) \<and> int32 d
     \<and> map_of ms ''loopCallDepth'' = Some (j_object J (intMembers J ds)) \<and> ordered_members (intMembers J ds) \<and> (\<forall>n \<in> snd ` set ds. int32 n))"

definition graphDepths :: "'j json_api \<Rightarrow> 'j \<Rightarrow> (string \<times> depth_entry) list \<Rightarrow> bool" where
  "graphDepths J cg es \<longleftrightarrow> (\<exists>ms. cg = j_object J ms \<and> ordered_members ms \<and> list_all2 (\<lambda>(f, v) (g, e). f = g \<and> depthsOf J v e) ms es)"

definition callDepthsOf :: "(string \<times> depth_entry) list \<Rightarrow> call_depths" where
  "callDepthsOf es = map (\<lambda>(f, d, cs, ds). (f, calledBy cs ds)) es"

definition localDepthsOf :: "(string \<times> depth_entry) list \<Rightarrow> string \<rightharpoonup> int" where
  "localDepthsOf es = map_of (map (\<lambda>(f, d, cs, ds). (f, d)) es)"

definition callsInside :: "(string \<times> depth_entry) list \<Rightarrow> bool" where
  "callsInside es \<longleftrightarrow> (\<forall>(f, d, cs, ds) \<in> set es. set cs \<union> fst ` set ds \<subseteq> fst ` set es)"

lemma calledBy_keys: "fst ` set (calledBy cs ds) = set cs \<union> fst ` set ds" "distinct (map fst (calledBy cs ds))"
proof -
  have e: "fst ` set (emplaceAL k v m) = insert k (fst ` set m)" "distinct (map fst m) \<Longrightarrow> distinct (map fst (emplaceAL k v m))"
    for k :: string and v :: int and m
    by (auto simp: emplaceAL_def keys_update_eq distinct_keys_update dest: map_of_SomeD_key)
  have c: "fst ` set (fold (\<lambda>c. emplaceAL c 0) cs m) = set cs \<union> fst ` set m"
    "distinct (map fst m) \<Longrightarrow> distinct (map fst (fold (\<lambda>c. emplaceAL c 0) cs m))" for m :: "(string \<times> int) list"
    by (induction cs arbitrary: m) (simp_all add: e)
  have d: "fst ` set (fold (\<lambda>(f, d). AList.update f d) ds m) = fst ` set ds \<union> fst ` set m"
    "distinct (map fst m) \<Longrightarrow> distinct (map fst (fold (\<lambda>(f, d). AList.update f d) ds m))" for m :: "(string \<times> int) list"
    by (induction ds arbitrary: m) (simp_all add: split_beta keys_update_eq distinct_keys_update)
  show "fst ` set (calledBy cs ds) = set cs \<union> fst ` set ds" "distinct (map fst (calledBy cs ds))"
    using c [of "[]"] d [of "fold (\<lambda>c. emplaceAL c 0) cs []"] by (auto simp: calledBy_def)
qed

lemma callDepthsOf_keys: "map fst (callDepthsOf es) = map fst es"
  by (induction es) (auto simp: callDepthsOf_def)

lemma graphDepths_keys: "list_all2 (\<lambda>(f, v) (g, e). f = g \<and> depthsOf J v e) ms es \<Longrightarrow> map fst es = map fst ms"
  by (induction ms es rule: list_all2_induct) auto

lemma callDepthsOf_wf:
  assumes "distinct (map fst es)" "callsInside es"
  shows "wfDepths (callDepthsOf es)"
proof -
  have keys: "fst ` set (callDepthsOf es) = fst ` set es" using callDepthsOf_keys [of es] by (metis set_map)
  have "distinct (map fst xs) \<and> fst ` set xs \<subseteq> fst ` set es" if x: "(f, xs) \<in> set (callDepthsOf es)" for f xs
  proof -
    obtain d cs ds where e: "(f, d, cs, ds) \<in> set es" "xs = calledBy cs ds" using x by (auto simp: callDepthsOf_def)
    have "case (f, d, cs, ds) of (f, d, cs, ds) \<Rightarrow> set cs \<union> fst ` set ds \<subseteq> fst ` set es"
      using assms(2) e(1) unfolding callsInside_def by (rule bspec)
    then show ?thesis using calledBy_keys [of cs ds] e(2) by simp
  qed
  then show ?thesis using assms(1) unfolding wfDepths_def keys callDepthsOf_keys by blast
qed

section \<open>Reading\<close>

lemma contains_member: "json_laws J \<Longrightarrow> ordered_members ms \<Longrightarrow> map_of ms k = Some v \<Longrightarrow> contains J (j_object J ms) k"
  by (simp add: json_containerD(14))

lemma intItems_read:
  assumes J: "json_laws J" and ds: "ordered_members (intMembers J ds)" "\<forall>n \<in> snd ` set ds. int32 n"
  shows "intItems J (j_object J (intMembers J ds)) = Inr ds"
proof -
  have "\<forall>n \<in> snd ` set ds. int32 n \<Longrightarrow> mapR (\<lambda>(k, v). bindR (getR (get_int J) v) (\<lambda>n. Inr (k, n))) (intMembers J ds) = Inr ds" for ds
    by (induction ds) (auto simp: intMembers_def getR_json [OF J])
  then show ?thesis using ds json_containerD(12) [OF J ds(1)] by (simp add: intItems_def)
qed

lemma readDepths_entry:
  assumes J: "json_laws J" and v: "depthsOf J v (d, cs, ds)" and f: "f \<notin> fst ` set cds" "l f = None"
  shows "readDepths J (f, v) (cds, l) = Inr (cds @ [(f, calledBy cs ds)], l(f \<mapsto> d))"
proof -
  obtain vs ms where v: "v = j_object J vs" "ordered_members vs" "map_of vs ''meta'' = Some (j_object J ms)"
    "map_of vs ''callees'' = Some (j_array J (map (j_str J) cs))" "ordered_members ms" "map_of ms ''loopDepth'' = Some (j_int J d)" "int32 d"
    "map_of ms ''loopCallDepth'' = Some (j_object J (intMembers J ds))" "ordered_members (intMembers J ds)" "\<forall>n \<in> snd ` set ds. int32 n"
    using assms(2) unfolding depthsOf_def by auto
  note o = object_ops [OF J v(2)] and m = object_ops [OF J v(5)]
  have c: "elementStrings J (j_array J (map (j_str J) cs)) = Inr cs"
    using json_containerD(2,3) [OF J] mapR_strings [OF J] by (simp add: elementStrings_def)
  have n: "map_of cds f = None" using f(1) by (simp add: map_of_None_iff)
  show ?thesis
    by (simp add: readDepths_def v(1) o(1) [OF v(3)] o(1) [OF v(4)] m(2) [OF v(6)] m(2) [OF v(8)] contains_member [OF J v(5) v(6)]
        contains_member [OF J v(5) v(8)] contains_member [OF J v(2) v(4)] getR_json(3) [OF J v(7)] c n f(2) intItems_read [OF J v(9,10)]
        update_new_key [OF f(1)])
qed

lemma localDepthsOf_dom: "dom (localDepthsOf es) = fst ` set es"
  by (force simp: localDepthsOf_def dom_map_of_conv_image_fst)

lemma localDepthsOf_Cons: "localDepthsOf ((f, d, e) # es) = (localDepthsOf es)(f \<mapsto> d)"
  by (cases e) (simp add: localDepthsOf_def)

lemma readDepths_all:
  assumes J: "json_laws J" and ms: "list_all2 (\<lambda>(f, v) (g, e). f = g \<and> depthsOf J v e) ms es"
  shows "distinct (map fst cds @ map fst ms) \<Longrightarrow> (\<And>f. f \<in> fst ` set ms \<Longrightarrow> l f = None) \<Longrightarrow>
    foldR (readDepths J) ms (cds, l) = Inr (cds @ callDepthsOf es, l ++ localDepthsOf es)"
  using ms
proof (induction ms es arbitrary: cds l rule: list_all2_induct)
  case Nil
  then show ?case by (simp add: callDepthsOf_def localDepthsOf_def)
next
  case (Cons p ms q es)
  obtain f v d cs ds where p: "p = (f, v)" "q = (f, d, cs, ds)" "depthsOf J v (d, cs, ds)" using Cons.hyps(1) by (cases p; cases q) auto
  have one: "readDepths J p (cds, l) = Inr (cds @ [(f, calledBy cs ds)], l(f \<mapsto> d))"
    unfolding p(1) by (rule readDepths_entry [OF J p(3)]) (use Cons.prems in \<open>auto simp: p(1)\<close>)
  have "f \<notin> fst ` set es" using Cons.prems(1) graphDepths_keys [OF Cons.hyps(2)] by (auto simp: p(1) simp flip: set_map)
  then have "f \<notin> dom (localDepthsOf es)" using localDepthsOf_dom by blast
  then have l: "l(f \<mapsto> d) ++ localDepthsOf es = l ++ localDepthsOf (q # es)"
    by (simp add: map_add_upd_left localDepthsOf_Cons p(2))
  have "foldR (readDepths J) ms (cds @ [(f, calledBy cs ds)], l(f \<mapsto> d)) =
      Inr ((cds @ [(f, calledBy cs ds)]) @ callDepthsOf es, l(f \<mapsto> d) ++ localDepthsOf es)"
    by (rule Cons.IH) (use Cons.prems in \<open>auto simp: p(1) image_iff\<close>)
  then show ?case using one l by (simp add: callDepthsOf_def p(2))
qed

section \<open>Writing\<close>

definition hasGlobalDepth :: "'j json_api \<Rightarrow> 'j \<Rightarrow> int \<Rightarrow> bool" where
  "hasGlobalDepth J v n \<longleftrightarrow> (\<exists>m. j_sub J v ''meta'' = Inr m \<and> j_sub J m ''globalLoopDepth'' = Inr (j_int J n))"

lemma writeDepth_entry:
  assumes J: "json_laws J" and v: "depthsOf J v (d, cs, ds)" and ms: "ordered_members ms"
  shows "\<exists>v'. writeDepth J g (f, v) (j_object J ms) = Inr (j_object J (map_set f v' ms)) \<and> depthsOf J v' (d, cs, ds)
    \<and> hasGlobalDepth J v' (max (lookupInt g f) d)"
proof -
  obtain vs mm where v: "v = j_object J vs" "ordered_members vs" "map_of vs ''meta'' = Some (j_object J mm)"
    "map_of vs ''callees'' = Some (j_array J (map (j_str J) cs))" "ordered_members mm" "map_of mm ''loopDepth'' = Some (j_int J d)" "int32 d"
    "map_of mm ''loopCallDepth'' = Some (j_object J (intMembers J ds))" "ordered_members (intMembers J ds)" "\<forall>n \<in> snd ` set ds. int32 n"
    using assms(2) unfolding depthsOf_def by auto
  define mm' where "mm' = map_set ''globalLoopDepth'' (j_int J (max (lookupInt g f) d)) mm"
  define vs' where "vs' = map_set ''meta'' (j_object J mm') vs"
  have o: "ordered_members mm'" "ordered_members vs'" using v(2,5) by (simp_all add: mm'_def vs'_def)
  have m': "map_of vs' ''meta'' = Some (j_object J mm')" "map_of mm' ''globalLoopDepth'' = Some (j_int J (max (lookupInt g f) d))"
    "map_of mm' ''loopDepth'' = Some (j_int J d)" "map_of mm' ''loopCallDepth'' = Some (j_object J (intMembers J ds))"
    "map_of vs' ''callees'' = Some (j_array J (map (j_str J) cs))"
    using v(4,6,8) by (simp_all add: mm'_def vs'_def map_of_map_set)
  have "writeDepth J g (f, v) (j_object J ms) = Inr (j_object J (map_set f (j_object J vs') ms))"
    by (simp add: writeDepth_def v(1) object_ops(1) [OF J v(2) v(3)] object_ops(1) [OF J v(5) v(6)] getR_json(3) [OF J v(7)]
        object_ops(3) [OF J v(5)] object_ops(3) [OF J v(2)] object_ops(3) [OF J ms] mm'_def vs'_def)
  moreover have "depthsOf J (j_object J vs') (d, cs, ds)" unfolding depthsOf_def using m' o v(7,9,10) by blast
  moreover have "hasGlobalDepth J (j_object J vs') (max (lookupInt g f) d)"
    using object_ops(1) [OF J o(2) m'(1)] object_ops(1) [OF J o(1) m'(2)] by (simp add: hasGlobalDepth_def)
  ultimately show ?thesis by blast
qed

text \<open>The functions before the current one have their depth; the others are as they were read.\<close>

definition writtenUpTo :: "'j json_api \<Rightarrow> (string \<rightharpoonup> int) \<Rightarrow> (string \<times> depth_entry) list \<Rightarrow> nat \<Rightarrow> 'j \<Rightarrow> bool" where
  "writtenUpTo J g es k cg \<longleftrightarrow> (\<exists>ms. cg = j_object J ms \<and> ordered_members ms \<and>
     (\<forall>i < k. \<exists>v. map_of ms (fst (es ! i)) = Some v \<and> depthsOf J v (snd (es ! i))
       \<and> hasGlobalDepth J v (max (lookupInt g (fst (es ! i))) (fst (snd (es ! i))))))"

lemma writeDepths_all:
  assumes J: "json_laws J" and o: "ordered_members ms" and ms: "list_all2 (\<lambda>(f, v) (g, e). f = g \<and> depthsOf J v e) ms es"
  shows "\<exists>cg. foldR (writeDepth J g) ms (j_object J ms) = Inr cg \<and> writtenUpTo J g es (length es) cg"
proof -
  have len: "length ms = length es" using ms by (rule list_all2_lengthD)
  have d: "distinct (map fst es)" using o graphDepths_keys [OF ms] by (simp add: ordered_members_def strict_sorted_iff)
  have dist: "fst (es ! i) \<noteq> fst (es ! k)" if "i < k" "k < length es" for i k
    using that nth_eq_iff_index_eq [OF d, of i k] by simp
  have "\<exists>cg. foldR (writeDepth J g) ms (j_object J ms) = Inr cg \<and> writtenUpTo J g es (length ms) cg"
  proof (rule foldR_index_total [where P = "writtenUpTo J g es"])
    show "writtenUpTo J g es 0 (j_object J ms)" using o by (auto simp: writtenUpTo_def)
    fix k cg assume k: "k < length ms" and cg: "writtenUpTo J g es k cg"
    obtain ms' where ms': "cg = j_object J ms'" "ordered_members ms'" "\<And>i. i < k \<Longrightarrow> \<exists>v. map_of ms' (fst (es ! i)) = Some v
        \<and> depthsOf J v (snd (es ! i)) \<and> hasGlobalDepth J v (max (lookupInt g (fst (es ! i))) (fst (snd (es ! i))))"
      using cg unfolding writtenUpTo_def by blast
    obtain f v d cs ds where e: "ms ! k = (f, v)" "es ! k = (f, d, cs, ds)" "depthsOf J v (d, cs, ds)"
      using list_all2_nthD [OF ms k] by (cases "ms ! k"; cases "es ! k") auto
    obtain v' where v': "writeDepth J g (f, v) cg = Inr (j_object J (map_set f v' ms'))" "depthsOf J v' (d, cs, ds)"
      "hasGlobalDepth J v' (max (lookupInt g f) d)" using writeDepth_entry [OF J e(3) ms'(2)] ms'(1) by blast
    have "\<exists>v. map_of (map_set f v' ms') (fst (es ! i)) = Some v \<and> depthsOf J v (snd (es ! i))
        \<and> hasGlobalDepth J v (max (lookupInt g (fst (es ! i))) (fst (snd (es ! i))))" if "i < Suc k" for i
    proof (cases "i = k")
      case False
      then have "fst (es ! i) \<noteq> f" "i < k" using that dist [of i k] e(2) k len by simp_all
      then show ?thesis using ms'(3) [OF \<open>i < k\<close>] by (simp add: map_of_map_set)
    qed (use v'(2,3) e(2) in \<open>simp add: map_of_map_set\<close>)
    then have "writtenUpTo J g es (Suc k) (j_object J (map_set f v' ms'))"
      unfolding writtenUpTo_def by (intro exI [of _ "map_set f v' ms'"] conjI refl ordered_map_set [OF ms'(2)] allI impI)
    then show "\<exists>cg'. writeDepth J g (ms ! k) cg = Inr cg' \<and> writtenUpTo J g es (Suc k) cg'" using v'(1) e(1) by auto
  qed
  then show ?thesis by (simp add: len)
qed

text \<open>
  C22: On a call graph in which every function has its loop depths and all callees are functions of the graph, and in which no sum along a simple
  path overflows, the computation of the global loop depths ends. Every function keeps its loop depths and callees and gets as its
  global depth the maximum of its own loop depth and the depths of all rests, from that function on, of the simple call paths from an
  entry point.
\<close>

theorem calculateGlobalCallDepth_correct:
  assumes "json_laws J" and "ordered_members doc" and "map_of doc ''_CG'' = Some cg" and "graphDepths J cg es" and "callsInside es"
    and "depthsFit (callDepthsOf es) (localDepthsOf es)"
  shows "\<exists>j cg'. calculateGlobalCallDepth J useOnlyMainEntry (j_object J doc) = Some (Inr j) \<and> j_sub J j ''_CG'' = Inr cg' \<and>
    (\<forall>(f, d, cs, ds) \<in> set es. \<exists>v. j_sub J cg' f = Inr v \<and> depthsOf J v (d, cs, ds) \<and>
       hasGlobalDepth J v (let D = reachedDepths (callDepthsOf es) (localDepthsOf es) useOnlyMainEntry f in max (if D = {} then 0 else Max D) d))"
proof -
  note J = assms(1)
  obtain ms where ms: "cg = j_object J ms" "ordered_members ms" "list_all2 (\<lambda>(f, v) (g, e). f = g \<and> depthsOf J v e) ms es"
    using assms(4) unfolding graphDepths_def by blast
  have d: "distinct (map fst ms)" "distinct (map fst es)"
    using ms(2) graphDepths_keys [OF ms(3)] by (simp_all add: ordered_members_def strict_sorted_iff)
  have read: "foldR (readDepths J) ms ([], Map.empty) = Inr (callDepthsOf es, localDepthsOf es)"
    using readDepths_all [OF J ms(3), of "[]" Map.empty] d(1) by simp
  obtain g where g: "globalDepths (callDepthsOf es) (localDepthsOf es) (findEntryPoints (callDepthsOf es) useOnlyMainEntry) = Some (Inr g)"
    "\<And>f. g f = (if reachedDepths (callDepthsOf es) (localDepthsOf es) useOnlyMainEntry f = {} then None
              else Some (Max (reachedDepths (callDepthsOf es) (localDepthsOf es) useOnlyMainEntry f)))"
    using globalDepths_max [OF callDepthsOf_wf [OF d(2) assms(5)] assms(6)] by blast
  obtain cg' where cg': "foldR (writeDepth J g) ms cg = Inr cg'" "writtenUpTo J g es (length es) cg'"
    using writeDepths_all [OF J ms(2,3)] ms(1) by blast
  define j where "j = j_object J (map_set ''_CG'' cg' doc)"
  have j: "calculateGlobalCallDepth J useOnlyMainEntry (j_object J doc) = Some (Inr j)"
    by (simp add: calculateGlobalCallDepth_def object_ops(1) [OF J assms(2,3)] ms(1) json_containerD(12) [OF J ms(2)] read g(1)
        cg'(1) [unfolded ms(1)] object_ops(3) [OF J assms(2)] j_def)
  have sub: "j_sub J j ''_CG'' = Inr cg'" unfolding j_def by (rule object_ops(1) [OF J ordered_map_set [OF assms(2)]]) (simp add: map_of_map_set)
  obtain ms' where ms': "cg' = j_object J ms'" "ordered_members ms'" "\<And>i. i < length es \<Longrightarrow> \<exists>v. map_of ms' (fst (es ! i)) = Some v
      \<and> depthsOf J v (snd (es ! i)) \<and> hasGlobalDepth J v (max (lookupInt g (fst (es ! i))) (fst (snd (es ! i))))"
    using cg'(2) unfolding writtenUpTo_def by blast
  have "\<exists>v. j_sub J cg' f = Inr v \<and> depthsOf J v (d, cs, ds) \<and> hasGlobalDepth J v (max (lookupInt g f) d)" if "(f, d, cs, ds) \<in> set es" for f d cs ds
  proof -
    obtain i where "i < length es" "es ! i = (f, d, cs, ds)" using \<open>(f, d, cs, ds) \<in> set es\<close> by (metis in_set_conv_nth)
    then show ?thesis using ms'(3) [of i] object_ops(1) [OF J ms'(2)] ms'(1) by auto
  qed
  moreover have "lookupInt g f = (let D = reachedDepths (callDepthsOf es) (localDepthsOf es) useOnlyMainEntry f in if D = {} then 0 else Max D)" for f
    by (simp add: lookupInt_def g(2) Let_def)
  ultimately show ?thesis using j sub by (intro exI conjI) (auto simp: Let_def)
qed

text \<open>Two functions that call each other, the second from inside a loop.\<close>

definition sampleDepth :: "int \<Rightarrow> string \<Rightarrow> int \<Rightarrow> Json" where
  "sampleDepth d c n = JObject [(''callees'', JArray [JStr c]), (''meta'', JObject [(''loopCallDepth'', JObject [(c, JInt n)]), (''loopDepth'', JInt d)])]"

definition sampleDepths :: "(string \<times> depth_entry) list" where
  "sampleDepths = [(''f'', 0, [''main''], [(''main'', 1)]), (''main'', 1, [''f''], [(''f'', 2)])]"

lemma sampleDepth_entry: "int32 d \<Longrightarrow> int32 n \<Longrightarrow> depthsOf json_model (sampleDepth d c n) (d, [c], [(c, n)])"
  unfolding depthsOf_def prod.case
  by (rule exI [of _ "[(''callees'', JArray [JStr c]), (''meta'', JObject [(''loopCallDepth'', JObject [(c, JInt n)]), (''loopDepth'', JInt d)])]"],
      rule exI [of _ "[(''loopCallDepth'', JObject [(c, JInt n)]), (''loopDepth'', JInt d)]"])
    (simp add: sampleDepth_def json_model_def intMembers_def)

lemma sampleDepths_fit: "depthsFit (callDepthsOf sampleDepths) (localDepthsOf sampleDepths)"
  unfolding depthsFit_def
proof (intro allI impI)
  fix p assume p: "callPath (callDepthsOf sampleDepths) p" "distinct p"
  have "set p \<subseteq> {''f'', ''main''}" using callPath_dom [OF p(1)] by (auto simp: sampleDepths_def callDepthsOf_def)
  moreover obtain e r where e: "p = e # r" using p(1) by (cases p) simp_all
  moreover have "length p \<le> 2" using card_mono [OF _ calculation(1)] distinct_card [OF p(2)] by simp
  ultimately consider "p = [''f'']" | "p = [''main'']" | "p = [''f'', ''main'']" | "p = [''main'', ''f'']"
    using p(2) by (cases r) auto
  then show "int32 (pathDepth (callDepthsOf sampleDepths) (localDepthsOf sampleDepths) p)"
    by cases (simp_all add: sampleDepths_def callDepthsOf_def localDepthsOf_def callWeight_def lookupInt_def calledBy_def emplaceAL_def int32_def)
qed

lemma calculateGlobalCallDepth_correct_witness:
  "\<exists>j cg'. calculateGlobalCallDepth json_model True (JObject [(''_CG'', JObject [(''f'', sampleDepth 0 ''main'' 1), (''main'', sampleDepth 1 ''f'' 2)])]) =
      Some (Inr j) \<and> j_sub json_model j ''_CG'' = Inr cg' \<and>
    (\<forall>(f, d, cs, ds) \<in> set sampleDepths. \<exists>v. j_sub json_model cg' f = Inr v \<and> depthsOf json_model v (d, cs, ds) \<and>
       hasGlobalDepth json_model v (let D = reachedDepths (callDepthsOf sampleDepths) (localDepthsOf sampleDepths) True f in
         max (if D = {} then 0 else Max D) d))"
proof -
  let ?ms = "[(''f'', sampleDepth 0 ''main'' 1), (''main'', sampleDepth 1 ''f'' 2)]"
  have g: "graphDepths json_model (JObject ?ms) sampleDepths"
    unfolding graphDepths_def by (rule exI [of _ ?ms]) (simp add: sampleDepths_def sampleDepth_entry int32_def, simp add: json_model_def)
  have "callsInside sampleDepths" by (simp add: callsInside_def sampleDepths_def)
  from calculateGlobalCallDepth_correct [OF json_model_laws _ _ g this sampleDepths_fit, of "[(''_CG'', JObject ?ms)]" True]
  show ?thesis by (simp add: json_model_def)
qed

end
