(* ===== verification/Spec2Isabelle.thy ===== *)
theory Spec2Isabelle
  imports Metadata_Props Callgraph_Spec Merge Reachability Dominators Manager DotIO_Props Metadata_Json
    McgFormat_Roundtrip McgFormatV2_Props CGDiff_Props CgQuery CgTools_Props Pgis_Processor Pgis_LI_Props
    MergeContainers CgJson_Merge GlobalCallDepth_Json
begin

text \<open>
  \<^bold>\<open>MetaCG: whole-program call graphs with metadata.\<close>

  MetaCG is a C++ library (\<open>src/graph\<close>) for call graphs whose nodes and edges carry metadata, and a family of tools
  around it (\<open>src/tools\<close>). A \<open>Callgraph\<close> owns its nodes in a vector indexed by node ID, a name index, a map of edges
  and two adjacency lists. Analyses (reachability, dominators) read it, \<open>MergePolicy\<close> objects merge one graph into
  another, the singleton \<open>MCGManager\<close> keeps several named graphs and one active one, and readers and writers turn
  graphs into JSON files of two format versions and into dot text. The tools compose these parts.

  \<^bold>\<open>Conventions\<close> (\<open>MCG_Prelude\<close>). A function that can fail returns \<open>'a res\<close>, a sum whose left side is the failure:
  the exception of \<open>at()\<close>, a failed assertion, undefined behaviour such as a null pointer dereferenced, a thrown
  \<open>runtime_error\<close>, or a call of \<open>exit\<close>. Sequencing is \<open>bindR\<close>, loops over containers are \<open>foldR\<close> and \<open>mapR\<close>. Vectors are
  lists, ordered maps are sorted association lists, hash maps are partial maps, or association lists where the order of
  iteration is visible. Where the code iterates over a hash set the order is a parameter of the model (\<open>order\<close>, \<open>iter\<close>,
  \<open>iterI\<close>, \<open>iterN\<close>), and the theorems hold for every order that lists the set. Pointers to nodes are node IDs together with
  the graph; a graph pointer is an address in the manager's heap. The locales \<open>component\<close> and \<open>refined_component\<close> state what
  a component with a step function and an invariant promises, and prove it for sequences of steps.

  \<^bold>\<open>The theories and the code.\<close>

  \<^item> \<open>Metadata\<close>, \<open>Metadata_Props\<close>: the metadata classes of \<open>include/metacg/metadata\<close> and the mixin that stores them by key.
    Counters keep their 32-bit width. Laws: merging is idempotent, override lists are merged exactly.
  \<^item> \<open>Callgraph\<close>: every operation of \<open>Callgraph.cpp\<close>, \<open>Callgraph.h\<close>, \<open>CgNode.h\<close>. \<open>Callgraph_Inv\<close>: the representation
    invariant \<open>wf_cg\<close> and that every operation keeps it. \<open>Callgraph_Spec\<close>: the abstract graph (names, edges, next ID,
    entry function, main node), the interpretation \<open>cg\<close> of \<open>refined_component\<close>, and with it the invariant of every
    reachable graph, the refinement, and exactly which operations fail.
  \<^item> \<open>Merge\<close>: \<open>MergePolicy.cpp\<close> and \<open>Callgraph::merge\<close>. The locale \<open>merge_policy\<close> has the laws a policy keeps, \<open>by_name\<close>
    interprets it on \<open>MergeByName\<close>.
  \<^item> \<open>Reachability\<close>, \<open>Dominators\<close>: \<open>ReachabilityAnalysis.cpp\<close> and \<open>DominatorAnalysis.h\<close>. The locale \<open>digraph_view\<close> abstracts a
    graph to its nodes and successors and is interpreted on both directions of a call graph; \<open>dom_problem\<close> extends it.
    The search loops are \<open>partial_function (option)\<close>: that they end is part of the theorems.
  \<^item> \<open>Manager\<close>: \<open>MCGManager.cpp\<close> over an explicit heap of graphs; invariant, validity of the active pointer, merging all
    managed graphs.
  \<^item> \<open>DotIO\<close>, \<open>DotIO_Props\<close>: \<open>DotIO.cpp\<close>, import and export; the locale \<open>set_container\<close> covers the three containers the
    generator fills.
  \<^item> \<open>Json_Api\<close>: the operations of the JSON library that the code calls, as a record of functions \<open>json_api\<close>, with the laws
    \<open>json_laws\<close> its documentation states, and \<open>json_model\<close>, an implementation that satisfies them. \<open>Metadata_Json\<close>: the JSON
    form of each metadata class and its round trip.
  \<^item> \<open>McgFormat\<close>: \<open>MCGBaseInfo.h\<close>, \<open>Util.h\<close>, the version 4 writer and reader, the factories. \<open>McgFormat_Props\<close>,
    \<open>McgFormat_RT\<close>, \<open>McgFormat_Read\<close>, \<open>McgFormat_Roundtrip\<close>: writing and reading back gives the same graph (\<open>sameGraph\<close>) with
    the live nodes renumbered. \<open>McgFormatV2\<close>, \<open>McgFormatV2_Props\<close>: version 2, defined by conversion of the JSON.
  \<^item> \<open>CGDiff\<close>, \<open>CGDiff_Props\<close>: \<open>tools/cgdiff\<close>. \<open>CgQuery\<close>: \<open>tools/cgquery\<close>. \<open>CgTools\<close>, \<open>CgTools_Props\<close>: \<open>tools/cgformat\<close>,
    \<open>cgconvert\<close>, \<open>cgmerge2\<close>, \<open>cgtodot\<close>. A tool is a function from its parsed arguments and the contents of files (\<open>file\<close>) to
    its exit code and what it writes.
  \<^item> \<open>Worklist\<close>: the work-queue loop that the helpers of \<open>pgis\<close> share, as one \<open>partial_function (option)\<close>, and the locale \<open>search\<close>
    that proves once that it ends and visits exactly what is reachable. \<open>Pgis\<close>, \<open>Pgis_Props\<close>: the metadata of PGIS and
    \<open>pgis/lib/src/CgHelper.cpp\<close>; every helper interprets \<open>search\<close> (\<open>desc\<close>, \<open>anc\<close>, \<open>path\<close>, \<open>toMain\<close>).
  \<^item> \<open>Pgis_Phases\<close>: \<open>IPCGEstimatorPhase.cpp\<close> (statement count, statistics, the summing phases, gap filling, storing of decisions),
    \<open>EstimatorPhase.cpp\<close> and \<open>PiraMCGProcessor.cpp\<close>. \<open>Pgis_Phases_Props\<close>: which functions the counting phases select (through the
    interpretations \<open>stmts\<close> and \<open>sums\<close>). \<open>Pgis_Gaps\<close>: filling gaps closes all call paths from main. \<open>Pgis_Processor\<close>: stored
    decisions, the instrumentation configuration, and the whitelist that a run of the processor writes. \<open>Pgis_LI\<close>,
    \<open>Pgis_LI_Props\<close>: the graph operations of \<open>loadImbalance/LIEstimatorPhase.cpp\<close> (relevant children, bounded search, context).
  \<^item> \<open>Alias\<close>: the part of \<open>cgcollector/lib/src/AliasAnalysis.cpp\<close> that works on object names and equivalence classes, not on the
    syntax tree. \<open>Alias_Props\<close>: the invariant of the container, the relation it stores, and the locale \<open>class_merging\<close>, the contract of a
    function that merges two classes, interpreted on \<open>mergeRecurisve\<close> (\<open>recursion\<close>). \<open>Alias_Init\<close>: the initial classes; merging gives the
    least congruence. \<open>Alias_Calls\<close>: binding arguments and results of calls.
  \<^item> \<open>CgMergeAlias\<close>: how \<open>cgcollector/tools/CGMerge.cpp\<close> merges the alias data of two files. \<open>CgMergeAlias_Props\<close>: adding calls to the JSON
    graph refines an abstract map, and resolving calls computes a least fixpoint. \<open>MergeContainers\<close>: the same for the whole merge.
  \<^item> \<open>CgJson\<close>: the JSON reader \<open>cgcollector/lib/src/JSONManager.cpp\<close> for both formats and \<open>mergeFileFormatOne\<close> of \<open>CGMerge.cpp\<close>.
    \<open>CgJson_Props\<close>: the propagation of overrides ends and gives the transitive closure for the first format, and nothing for the second.
    \<open>CgJson_Merge\<close>: merging files of the first format refines merging maps of function records. \<open>GlobalCallDepth\<close>,
    \<open>GlobalCallDepth_Props\<close>, \<open>GlobalCallDepth_Json\<close>: \<open>cgcollector/lib/src/GlobalCallDepth.cpp\<close>; the depths are maxima over simple call paths.

  \<^bold>\<open>Bounds and fuel.\<close> \<open>mergeRecurisve\<close> and \<open>mergeFunctionCall_CG\<close> have the number of classes (plus one) as the depth of their recursion:
  every merge removes a class, and a call that leads to further calls has merged some, so the depth is never exhausted, as the
  theorems show. \<open>getCallDepth\<close> has the number of functions (plus one): it never enters a function on its way again. Otherwise only \<open>visitNodeForInclusiveStatements\<close> has fuel: it bounds the depth of the recursion, which visits no node
  twice, and the theorem shows that the number of nodes is enough. All other loops are structural or
  \<open>partial_function (option)\<close>. The helper \<open>string_split\<close> keeps the array of at most 5001 positions of the code. Node IDs are natural
  numbers: the vector that they index cannot reach 2^64 elements. Statement counters of PGIS are 32 bits wide (overflow is a
  failure), inclusive counts 64-bit words that wrap. Run times are rationals: the models only compare and halve them.

  \<^bold>\<open>Not modelled.\<close> The visitors of the collectors (\<open>cgcollector\<close>, \<open>tools/cgcollector2\<close>, \<open>cgfcollector\<close>) and \<open>cage\<close>, \<open>cgpatch\<close> traverse the data
  structures of Clang, Flang and LLVM, which are not in the repository. Of \<open>pgis\<close>: the run-time phase with its overhead
  heuristics, the metrics of load imbalance and the attached instrumentation results compute floating-point sums over profiles that the Cube
  and Extra-P libraries read; the legacy reader (the same propagation of overrides as in \<open>CgJson\<close>) and the legacy whitelist
  phases. Of \<open>cgmerge\<close>: merging the functions of the second format, whose estimated calls are sets of floating-point numbers and names. \<open>pymetacg\<close> is a binding; logging, reports and
  timing have no effect on results.
\<close>

end
